(* ===== verification/Prelude.thy ===== *)
theory Prelude
  imports Main "HOL-Library.AList" "HOL-Library.Sublist"
begin

text \<open>
  Shared vocabulary of the development: the exceptions the modelled Python code raises, results
  that are either such an exception or a value, the parts of Python's built-in containers the code
  uses (sets with a raising \<open>remove\<close>, list insertion, negative indices), and the generic list
  lemmas that carry the component proofs.
\<close>

section \<open>Exceptions and results\<close>

datatype py_error =
    ValueError
  | KeyError
  | IndexError
  | AssertionError
  | RuntimeError
  | FileNotFoundError
  | TimeoutError
  | AttributeError
  | OSError
  | NoCondensationAvailable

type_synonym 'a result = "py_error + 'a"

text \<open>Sequencing: an exception skips the rest.\<close>

definition and_then :: "'a result \<Rightarrow> ('a \<Rightarrow> 'b result) \<Rightarrow> 'b result" where
  "and_then r f = (case r of Inl e \<Rightarrow> Inl e | Inr a \<Rightarrow> f a)"

lemma and_then_simps [simp]:
  "and_then (Inl e) f = Inl e"
  "and_then (Inr a) f = f a"
  by (simp_all add: and_then_def)

lemma and_then_InrD:
  "and_then r f = Inr b \<Longrightarrow> \<exists>a. r = Inr a \<and> f a = Inr b"
  by (cases r) auto

lemma and_then_Inr_iff:
  "and_then r f = Inr b \<longleftrightarrow> (\<exists>a. r = Inr a \<and> f a = Inr b)"
  by (cases r) auto

lemma and_then_cong [fundef_cong]:
  "r = r' \<Longrightarrow> (\<And>a. r' = Inr a \<Longrightarrow> f a = g a) \<Longrightarrow> and_then r f = and_then r' g"
  by (cases r') auto

text \<open>A loop that collects the results of its body, in order.\<close>

fun map_result :: "('a \<Rightarrow> 'b result) \<Rightarrow> 'a list \<Rightarrow> 'b list result" where
  "map_result f [] = Inr []"
| "map_result f (x # xs) =
     and_then (f x) (\<lambda>y. and_then (map_result f xs) (\<lambda>ys. Inr (y # ys)))"

definition is_ok :: "'a result \<Rightarrow> bool" where
  "is_ok r = (case r of Inl _ \<Rightarrow> False | Inr _ \<Rightarrow> True)"

lemma is_ok_simps [simp]: "is_ok (Inr a)" "\<not> is_ok (Inl e)"
  by (simp_all add: is_ok_def)

lemma is_ok_iff: "is_ok r \<longleftrightarrow> (\<exists>a. r = Inr a)"
  by (cases r) auto

section \<open>Python containers\<close>

text \<open>\<open>set.remove\<close> raises \<open>KeyError\<close> on an absent element.\<close>

definition py_remove :: "'a \<Rightarrow> 'a set \<Rightarrow> 'a set result" where
  "py_remove x s = (if x \<in> s then Inr (s - {x}) else Inl KeyError)"

text \<open>\<open>list.insert(i, x)\<close> for \<open>i >= 0\<close>: an index past the end appends.\<close>

definition py_insert :: "nat \<Rightarrow> 'a \<Rightarrow> 'a list \<Rightarrow> 'a list" where
  "py_insert i x xs = take i xs @ x # drop i xs"

lemma set_py_insert [simp]: "set (py_insert i x xs) = insert x (set xs)"
  unfolding py_insert_def by (metis append_take_drop_id list.simps(15) set_append Un_insert_right)

lemma length_py_insert [simp]: "length (py_insert i x xs) = Suc (length xs)"
  by (simp add: py_insert_def)

lemma py_insert_end: "length xs \<le> i \<Longrightarrow> py_insert i x xs = xs @ [x]"
  by (simp add: py_insert_def)

text \<open>Python indexing: a negative index counts from the end; out of range raises.\<close>

definition py_index :: "'a list \<Rightarrow> int \<Rightarrow> 'a result" where
  "py_index xs i =
     (let j = (if i < 0 then i + int (length xs) else i)
      in if j < 0 \<or> int (length xs) \<le> j then Inl IndexError else Inr (xs ! nat j))"

lemma py_index_in_range [simp]:
  "i < length xs \<Longrightarrow> py_index xs (int i) = Inr (xs ! i)"
  by (simp add: py_index_def)

lemma py_index_last: "xs \<noteq> [] \<Longrightarrow> py_index xs (- 1) = Inr (last xs)"
  by (cases xs rule: rev_cases) (auto simp: py_index_def nth_append nat_add_distrib)

section \<open>Lists\<close>

lemma filter_length_less:
  assumes "x \<in> set xs" and "\<not> P x"
  shows "length (filter P xs) < length xs"
  using assms by (induction xs) (auto simp: less_Suc_eq_le)

lemma filter_id_length: "length (filter P xs) = length xs \<Longrightarrow> filter P xs = xs"
  by (metis filter_True length_filter_less less_irrefl_nat)

lemma take_append_drop_middle:
  "i \<le> j \<Longrightarrow> xs = take i xs @ drop i (take j xs) @ drop j xs"
  by (metis append_assoc append_take_drop_id min.absorb1 take_take)

lemma filter_range_out:
  assumes "distinct xs" and "i \<le> j"
  shows "filter (\<lambda>x. x \<notin> set (drop i (take j xs))) xs = take i xs @ drop j xs"
proof -
  have split: "xs = take i xs @ drop i (take j xs) @ drop j xs"
    using assms(2) by (rule take_append_drop_middle)
  have d: "distinct (take i xs @ drop i (take j xs) @ drop j xs)"
    using assms(1) split by simp
  let ?m = "drop i (take j xs)"
  have "filter (\<lambda>x. x \<notin> set ?m) (take i xs @ ?m @ drop j xs) = take i xs @ drop j xs"
  proof -
    have "filter (\<lambda>x. x \<notin> set ?m) (take i xs) = take i xs"
      by (rule filter_True) (use d in auto)
    moreover have "filter (\<lambda>x. x \<notin> set ?m) (drop j xs) = drop j xs"
      by (rule filter_True) (use d in auto)
    moreover have "filter (\<lambda>x. x \<notin> set ?m) ?m = []"
      by (rule filter_False) auto
    ultimately show ?thesis by simp
  qed
  then show ?thesis using split by simp
qed

lemma subseq_subset: "subseq xs ys \<Longrightarrow> set xs \<subseteq> set ys"
  by (auto elim: list_emb_set)

lemma ex_last_split:
  "x \<in> set xs \<Longrightarrow> \<exists>ys zs. xs = ys @ x # zs \<and> x \<notin> set zs"
  by (rule split_list_last)

text \<open>Counting the threads in a kind of state when one of them moves.\<close>

lemma card_fun_upd:
  assumes "finite {x. P (f x)}"
  shows "card {x. P ((f(t := u)) x)} + (if P (f t) then 1 else 0) = card {x. P (f x)} + (if P u then 1 else 0)"
proof -
  let ?A = "{x. P (f x)}"
  have "{x. P ((f(t := u)) x)} = (if P u then insert t (?A - {t}) else ?A - {t})" by auto
  moreover have "P (f t) \<Longrightarrow> Suc (card (?A - {t})) = card ?A"
    using assms card_Suc_Diff1 [of ?A t] by simp
  moreover have "\<not> P (f t) \<Longrightarrow> ?A - {t} = ?A" by auto
  moreover have "card (insert t (?A - {t})) = Suc (card (?A - {t}))" using assms by (intro card_insert_disjoint) auto
  ultimately show ?thesis by auto
qed

lemma finite_fun_upd: "finite {x. P (f x)} \<Longrightarrow> finite {x. P ((f(t := u)) x)}"
  by (rule finite_subset [of _ "insert t {x. P (f x)}"]) auto

end
