(* ===== verification/Events.thy ===== *)
theory Events
  imports Prelude
begin

text \<open>
  The event classes of \<^verbatim>\<open>agentrt/sdk/event\<close> and the LLM message classes of
  \<^verbatim>\<open>agentrt/sdk/llm/message.py\<close> they carry. A pydantic class is a record of its fields; the
  common fields of \<open>Event\<close> are the record \<open>event_meta\<close>, and the class hierarchy is the datatype
  \<open>event\<close>, so that an \<open>isinstance\<close> test or a \<open>match\<close> arm is a discriminator. Event classes that
  are neither LLM-convertible nor part of condensation (pause, state update, hook, token events)
  are \<open>OtherEvent\<close>, with their class name and serialized payload. Opaque payloads (a tool's
  action arguments, a critic result) are strings.
\<close>

section \<open>Identifiers and message content\<close>

type_synonym event_id = string
type_synonym tool_call_id = string

datatype source_type = SourceAgent | SourceUser | SourceEnvironment | SourceHook

text \<open>The reserved parent id marking an explicit root (\<^verbatim>\<open>event/types.py\<close>).\<close>

definition ROOT_PARENT_ID :: event_id where
  "ROOT_PARENT_ID = ''__root__''"

datatype content = TextContent string | ImageContent "string list"

fun is_text :: "content \<Rightarrow> bool" where
  "is_text (TextContent _) = True"
| "is_text (ImageContent _) = False"

datatype call_origin = Completion | Responses

record message_tool_call =
  tc_id :: string
  tc_responses_item_id :: "string option"
  tc_name :: string
  tc_arguments :: string
  tc_origin :: call_origin

datatype thinking_block =
    ThinkingBlock string "string option"
  | RedactedThinkingBlock string

record reasoning_item =
  ri_id :: "string option"
  ri_summary :: "string list"
  ri_content :: "string list option"
  ri_encrypted_content :: "string option"
  ri_status :: "string option"

datatype role = RoleUser | RoleSystem | RoleAssistant | RoleTool

record message =
  msg_role :: role
  msg_content :: "content list"
  msg_tool_calls :: "message_tool_call list option"
  msg_tool_call_id :: "string option"
  msg_name :: "string option"
  msg_reasoning_content :: "string option"
  msg_thinking_blocks :: "thinking_block list"
  msg_responses_reasoning_item :: "reasoning_item option"
  msg_finish_reason :: "string option"

text \<open>A \<open>Message\<close> built with a role and a content only: every other field has its default.\<close>

definition plain_message :: "role \<Rightarrow> content list \<Rightarrow> message" where
  "plain_message r c =
     \<lparr>msg_role = r, msg_content = c, msg_tool_calls = None, msg_tool_call_id = None,
      msg_name = None, msg_reasoning_content = None, msg_thinking_blocks = [],
      msg_responses_reasoning_item = None, msg_finish_reason = None\<rparr>"

text \<open>\<open>Message.truncated\<close>: was the message cut off by a token limit?\<close>

definition truncated :: "message \<Rightarrow> bool" where
  "truncated m \<longleftrightarrow> msg_finish_reason m \<in> {Some ''length'', Some ''max_output_tokens''}"

section \<open>Actions and observations\<close>

text \<open>
  A tool's action: the built-in \<open>InvokeSkillAction\<close> is inspected by the condenser, every other
  action class is its class name and serialized arguments.
\<close>

datatype action = InvokeSkillAction string | OtherAction string string

datatype observation_class = InvokeSkillObservation string | OtherObservation string string

text \<open>
  An \<open>Observation\<close>; \<open>obs_override\<close> is what the \<open>to_llm_content\<close> of a subclass returns that
  overrides the default.
\<close>

record observation =
  obs_class :: observation_class
  obs_content :: "content list"
  obs_is_error :: bool
  obs_override :: "content list option"

definition ERROR_MESSAGE_HEADER :: string where
  "ERROR_MESSAGE_HEADER = ''[An error occurred during execution.]'' @ [CHR 0x0A]"

definition to_llm_content :: "observation \<Rightarrow> content list" where
  "to_llm_content ob =
     (case obs_override ob of
        Some c \<Rightarrow> c
      | None \<Rightarrow> (if obs_is_error ob then [TextContent ERROR_MESSAGE_HEADER] else [])
                 @ obs_content ob)"

section \<open>Events\<close>

record event_meta =
  meta_id :: event_id
  meta_timestamp :: string
  meta_source :: source_type
  meta_parent_id :: "event_id option"

datatype security_risk = RiskUnknown | RiskLow | RiskMedium | RiskHigh

record action_fields =
  ae_thought :: "content list"
  ae_reasoning_content :: "string option"
  ae_thinking_blocks :: "thinking_block list"
  ae_responses_reasoning_item :: "reasoning_item option"
  ae_action :: "action option"
  ae_tool_name :: string
  ae_tool_call_id :: tool_call_id
  ae_tool_call :: message_tool_call
  ae_llm_response_id :: event_id
  ae_security_risk :: security_risk
  ae_critic_result :: "string option"
  ae_summary :: "string option"

record observation_fields =
  oe_tool_name :: string
  oe_tool_call_id :: tool_call_id
  oe_observation :: observation
  oe_action_id :: event_id
  oe_extended_content :: "content list"

datatype rejection_source = RejectedByUser | RejectedByHook

record reject_fields =
  re_tool_name :: string
  re_tool_call_id :: tool_call_id
  re_rejection_reason :: string
  re_rejection_source :: rejection_source
  re_action_id :: event_id

record error_fields =
  ee_tool_name :: string
  ee_tool_call_id :: tool_call_id
  ee_error :: string
  ee_classification :: string

record message_fields =
  me_llm_message :: message
  me_llm_response_id :: "event_id option"
  me_activated_skills :: "string list"
  me_extended_content :: "content list"
  me_sender :: "string option"
  me_critic_result :: "string option"

record system_fields =
  se_system_prompt :: string
  se_tools :: "string list"
  se_dynamic_context :: "string option"

record condensation_fields =
  co_forgotten_event_ids :: "event_id set"
  co_summary :: "string option"
  co_summary_offset :: "nat option"
  co_llm_response_id :: event_id

datatype event =
    ActionEvent event_meta action_fields
  | ObservationEvent event_meta observation_fields
  | UserRejectObservation event_meta reject_fields
  | AgentErrorEvent event_meta error_fields
  | MessageEvent event_meta message_fields
  | SystemPromptEvent event_meta system_fields
  | CondensationSummaryEvent event_meta string
  | Condensation event_meta condensation_fields
  | CondensationRequest event_meta
  | OtherEvent event_meta string string

fun meta :: "event \<Rightarrow> event_meta" where
  "meta (ActionEvent m _) = m"
| "meta (ObservationEvent m _) = m"
| "meta (UserRejectObservation m _) = m"
| "meta (AgentErrorEvent m _) = m"
| "meta (MessageEvent m _) = m"
| "meta (SystemPromptEvent m _) = m"
| "meta (CondensationSummaryEvent m _) = m"
| "meta (Condensation m _) = m"
| "meta (CondensationRequest m) = m"
| "meta (OtherEvent m _ _) = m"

abbreviation ev_id :: "event \<Rightarrow> event_id" where
  "ev_id e \<equiv> meta_id (meta e)"

abbreviation ev_source :: "event \<Rightarrow> source_type" where
  "ev_source e \<equiv> meta_source (meta e)"

abbreviation ev_parent_id :: "event \<Rightarrow> event_id option" where
  "ev_parent_id e \<equiv> meta_parent_id (meta e)"

text \<open>\<open>model_copy(update={"parent_id": ...})\<close>: the event with another parent.\<close>

fun with_meta :: "event_meta \<Rightarrow> event \<Rightarrow> event" where
  "with_meta m (ActionEvent _ x) = ActionEvent m x"
| "with_meta m (ObservationEvent _ x) = ObservationEvent m x"
| "with_meta m (UserRejectObservation _ x) = UserRejectObservation m x"
| "with_meta m (AgentErrorEvent _ x) = AgentErrorEvent m x"
| "with_meta m (MessageEvent _ x) = MessageEvent m x"
| "with_meta m (SystemPromptEvent _ x) = SystemPromptEvent m x"
| "with_meta m (CondensationSummaryEvent _ x) = CondensationSummaryEvent m x"
| "with_meta m (Condensation _ x) = Condensation m x"
| "with_meta m (CondensationRequest _) = CondensationRequest m"
| "with_meta m (OtherEvent _ x y) = OtherEvent m x y"

lemma meta_with_meta [simp]: "meta (with_meta m e) = m"
  by (cases e) auto

text \<open>The \<open>isinstance\<close> tests of the code.\<close>

fun is_action :: "event \<Rightarrow> bool" where
  "is_action (ActionEvent _ _) = True"
| "is_action _ = False"

fun is_observation_base :: "event \<Rightarrow> bool" where
  "is_observation_base (ObservationEvent _ _) = True"
| "is_observation_base (UserRejectObservation _ _) = True"
| "is_observation_base (AgentErrorEvent _ _) = True"
| "is_observation_base _ = False"

fun is_llm_convertible :: "event \<Rightarrow> bool" where
  "is_llm_convertible (Condensation _ _) = False"
| "is_llm_convertible (CondensationRequest _) = False"
| "is_llm_convertible (OtherEvent _ _ _) = False"
| "is_llm_convertible _ = True"

text \<open>The \<open>tool_call_id\<close> of an action or observation-like event (other events have none).\<close>

fun tool_call_id :: "event \<Rightarrow> tool_call_id" where
  "tool_call_id (ActionEvent _ a) = ae_tool_call_id a"
| "tool_call_id (ObservationEvent _ x) = oe_tool_call_id x"
| "tool_call_id (UserRejectObservation _ x) = re_tool_call_id x"
| "tool_call_id (AgentErrorEvent _ x) = ee_tool_call_id x"
| "tool_call_id _ = []"

text \<open>The \<open>llm_response_id\<close> of an action event.\<close>

fun response_id :: "event \<Rightarrow> event_id" where
  "response_id (ActionEvent _ a) = ae_llm_response_id a"
| "response_id _ = []"

text \<open>An action event with a non-empty list of thinking blocks.\<close>

fun is_thinking_action :: "event \<Rightarrow> bool" where
  "is_thinking_action (ActionEvent _ a) = (ae_thinking_blocks a \<noteq> [])"
| "is_thinking_action _ = False"

lemma not_action_and_observation [simp]:
  "is_action e \<Longrightarrow> \<not> is_observation_base e"
  "is_observation_base e \<Longrightarrow> \<not> is_action e"
  by (cases e; simp)+

lemma thinking_action_is_action [simp]: "is_thinking_action e \<Longrightarrow> is_action e"
  by (cases e) auto

lemma action_is_llm_convertible [simp]: "is_action e \<Longrightarrow> is_llm_convertible e"
  by (cases e) auto

lemma observation_is_llm_convertible [simp]: "is_observation_base e \<Longrightarrow> is_llm_convertible e"
  by (cases e) auto

section \<open>Condensation events\<close>

text \<open>The id of the summary a condensation inserts: \<open>f"{self.id}-summary"\<close>.\<close>

definition summary_id :: "event_id \<Rightarrow> event_id" where
  "summary_id i = i @ ''-summary''"

text \<open>
  \<open>Condensation.summary_event\<close>: raises without a summary. The created event's timestamp is the
  wall clock's; the model takes the condensation's own. Its parent is unset, as for every event
  that is not appended to the log.
\<close>

definition summary_event :: "event_meta \<Rightarrow> condensation_fields \<Rightarrow> event result" where
  "summary_event m c =
     (case co_summary c of
        None \<Rightarrow> Inl ValueError
      | Some s \<Rightarrow>
          Inr (CondensationSummaryEvent
                 \<lparr>meta_id = summary_id (meta_id m), meta_timestamp = meta_timestamp m,
                  meta_source = meta_source m, meta_parent_id = None\<rparr> s))"

definition has_summary_metadata :: "condensation_fields \<Rightarrow> bool" where
  "has_summary_metadata c \<longleftrightarrow> co_summary c \<noteq> None \<and> co_summary_offset c \<noteq> None"

text \<open>
  \<open>Condensation.apply\<close>: drop the forgotten events, then insert the summary at its offset when both
  summary and offset are there.
\<close>

definition apply_condensation ::
    "event_meta \<Rightarrow> condensation_fields \<Rightarrow> event list \<Rightarrow> event list" where
  "apply_condensation m c es =
     (let output = filter (\<lambda>e. ev_id e \<notin> co_forgotten_event_ids c) es
      in case (summary_event m c, co_summary_offset c) of
           (Inr s, Some k) \<Rightarrow> (if has_summary_metadata c then py_insert k s output else output)
         | _ \<Rightarrow> output)"

lemma apply_condensation_no_summary:
  "\<not> has_summary_metadata c \<Longrightarrow>
     apply_condensation m c es = filter (\<lambda>e. ev_id e \<notin> co_forgotten_event_ids c) es"
  by (auto simp: apply_condensation_def has_summary_metadata_def summary_event_def
      split: option.splits)

lemma apply_condensation_summary:
  assumes "co_summary c = Some s" and "co_summary_offset c = Some k"
    and "summary_event m c = Inr e"
  shows "apply_condensation m c es =
    py_insert k e (filter (\<lambda>e. ev_id e \<notin> co_forgotten_event_ids c) es)"
  using assms by (simp add: apply_condensation_def has_summary_metadata_def)

lemma apply_condensation_subset:
  "set (apply_condensation m c es) \<subseteq> set es \<union> {e. summary_event m c = Inr e}"
  by (auto simp: apply_condensation_def Let_def split: option.splits sum.splits if_splits)

lemma summary_event_facts:
  assumes "summary_event m c = Inr e"
  shows "ev_id e = summary_id (meta_id m)" and "is_llm_convertible e"
    and "\<not> is_action e" and "\<not> is_observation_base e"
  using assms by (auto simp: summary_event_def split: option.splits)

end
