(* ===== verification/View.thy ===== *)
theory View
  imports Events
begin

text \<open>
  The event view of \<^verbatim>\<open>agentrt/sdk/context/view\<close>: the events the agent sends to the LLM, the
  four properties the LLM APIs need of them, their enforcement as a fallback, and the manipulation
  indices at which condensers may cut or insert. Sets of event ids and indices are HOL sets; the
  dictionary of batches is an association list in insertion order.
\<close>

section \<open>Manipulation indices\<close>

type_synonym manipulation_indices = "nat set"

definition find_next :: "manipulation_indices \<Rightarrow> int \<Rightarrow> nat result" where
  "find_next idxs threshold =
     (let valid_indices = {idx \<in> idxs. threshold \<le> int idx}
      in if valid_indices = {} then Inl ValueError else Inr (Min valid_indices))"

definition complete :: "event list \<Rightarrow> manipulation_indices" where
  "complete events = insert (length events) {0..<length events}"

lemma complete_eq [simp]: "complete events = {..length events}"
  by (auto simp: complete_def)

section \<open>Observation uniqueness\<close>

fun ou_scan ::
    "event list \<Rightarrow> tool_call_id set \<Rightarrow> event_id set \<Rightarrow> event_id set" where
  "ou_scan [] seen removed = removed"
| "ou_scan (e # es) seen removed =
     (if is_observation_base e then
        (if tool_call_id e \<in> seen then ou_scan es seen (insert (ev_id e) removed)
         else ou_scan es (insert (tool_call_id e) seen) removed)
      else ou_scan es seen removed)"

definition ou_enforce :: "event list \<Rightarrow> event list \<Rightarrow> event_id set" where
  "ou_enforce current_view_events all_events = ou_scan current_view_events {} {}"

text \<open>The scan of the second method only logs; every index stays available.\<close>

definition ou_manipulation_indices :: "event list \<Rightarrow> manipulation_indices result" where
  "ou_manipulation_indices current_view_events = Inr (complete current_view_events)"

section \<open>Batch atomicity\<close>

type_synonym batches = "(event_id \<times> event_id set) list"

text \<open>\<open>batches[event.llm_response_id].add(event.id)\<close> on a \<open>defaultdict(set)\<close>, in event order.\<close>

fun add_batches :: "event list \<Rightarrow> batches \<Rightarrow> batches" where
  "add_batches [] b = b"
| "add_batches (e # es) b =
     (if is_action e
      then add_batches es (AList.map_default (response_id e) {ev_id e} (insert (ev_id e)) b)
      else add_batches es b)"

definition build_batches :: "event list \<Rightarrow> batches" where
  "build_batches events = add_batches events []"

definition batch_of :: "batches \<Rightarrow> event_id \<Rightarrow> event_id set" where
  "batch_of b r = (case map_of b r of None \<Rightarrow> {} | Some ids \<Rightarrow> ids)"

fun ba_collect :: "batches \<Rightarrow> batches \<Rightarrow> event_id set \<Rightarrow> event_id set" where
  "ba_collect all_batches [] removed = removed"
| "ba_collect all_batches ((r, ids) # rest) removed =
     ba_collect all_batches rest
       (if ids \<noteq> batch_of all_batches r then removed \<union> ids else removed)"

definition ba_enforce :: "event list \<Rightarrow> event list \<Rightarrow> event_id set" where
  "ba_enforce current_view_events all_events =
     ba_collect (build_batches all_events) (build_batches current_view_events) {}"

text \<open>The loop over \<open>enumerate(pairwise(...))\<close>; \<open>index\<close> is the position of the left event.\<close>

fun ba_cut :: "nat \<Rightarrow> event list \<Rightarrow> manipulation_indices \<Rightarrow> manipulation_indices result" where
  "ba_cut index (left # right # es) idxs =
     and_then
       (if is_action left \<and> is_action right \<and> response_id left = response_id right
        then py_remove (index + 1) idxs else Inr idxs)
       (ba_cut (index + 1) (right # es))"
| "ba_cut index es idxs = Inr idxs"

definition ba_manipulation_indices :: "event list \<Rightarrow> manipulation_indices result" where
  "ba_manipulation_indices current_view_events =
     ba_cut 0 current_view_events (complete current_view_events)"

section \<open>Tool call matching\<close>

definition action_tool_call_ids :: "event list \<Rightarrow> tool_call_id set" where
  "action_tool_call_ids es = tool_call_id ` set (filter is_action es)"

definition observation_tool_call_ids :: "event list \<Rightarrow> tool_call_id set" where
  "observation_tool_call_ids es = tool_call_id ` set (filter is_observation_base es)"

definition tcm_enforce :: "event list \<Rightarrow> event list \<Rightarrow> event_id set" where
  "tcm_enforce current_view_events all_events =
     (let actions = action_tool_call_ids current_view_events;
          observations = observation_tool_call_ids current_view_events
      in ev_id ` set (filter (\<lambda>e.
           if is_action e then tool_call_id e \<notin> observations
           else is_observation_base e \<and> tool_call_id e \<notin> actions) current_view_events))"

text \<open>
  The set of pending tool calls grows with an action and shrinks with its observation, by the
  raising \<open>set.remove\<close>. While it is not empty, the index after the event is removed.
\<close>

definition tcm_pending_step :: "event \<Rightarrow> tool_call_id set \<Rightarrow> tool_call_id set result" where
  "tcm_pending_step e pending =
     (if is_action e then Inr (insert (tool_call_id e) pending)
      else if is_observation_base e then py_remove (tool_call_id e) pending
      else Inr pending)"

fun tcm_cut ::
    "nat \<Rightarrow> event list \<Rightarrow> tool_call_id set \<Rightarrow> manipulation_indices \<Rightarrow> manipulation_indices result"
where
  "tcm_cut index [] pending idxs = Inr idxs"
| "tcm_cut index (e # es) pending idxs =
     and_then (tcm_pending_step e pending) (\<lambda>pending'.
       and_then (if pending' \<noteq> {} then py_remove (index + 1) idxs else Inr idxs)
         (tcm_cut (index + 1) es pending'))"

definition tcm_manipulation_indices :: "event list \<Rightarrow> manipulation_indices result" where
  "tcm_manipulation_indices current_view_events =
     tcm_cut 0 current_view_events {} (complete current_view_events)"

section \<open>Tool loop atomicity\<close>

fun loops_scan ::
    "event list \<Rightarrow> event_id set list \<Rightarrow> event_id set option \<Rightarrow> event_id set list" where
  "loops_scan [] loops current =
     (case current of None \<Rightarrow> loops | Some l \<Rightarrow> loops @ [l])"
| "loops_scan (e # es) loops current =
     (if is_thinking_action e then
        loops_scan es (case current of None \<Rightarrow> loops | Some l \<Rightarrow> loops @ [l]) (Some {ev_id e})
      else if is_action e \<or> is_observation_base e then
        loops_scan es loops (map_option (insert (ev_id e)) current)
      else
        loops_scan es (case current of None \<Rightarrow> loops | Some l \<Rightarrow> loops @ [l]) None)"

definition tool_loops :: "event list \<Rightarrow> event_id set list" where
  "tool_loops events = loops_scan events [] None"

text \<open>For one event id: the first loop that holds it, dropped when it is only partly in the view.\<close>

fun tla_check ::
    "event_id set list \<Rightarrow> event_id set \<Rightarrow> event_id \<Rightarrow> event_id set \<Rightarrow> event_id set" where
  "tla_check [] view_ids i removed = removed"
| "tla_check (l # ls) view_ids i removed =
     (if i \<in> l then (if \<not> l \<subseteq> view_ids then removed \<union> (view_ids \<inter> l) else removed)
      else tla_check ls view_ids i removed)"

fun tla_scan ::
    "event_id set list \<Rightarrow> event_id set \<Rightarrow> event list \<Rightarrow> event_id set \<Rightarrow> event_id set" where
  "tla_scan loops view_ids [] removed = removed"
| "tla_scan loops view_ids (e # es) removed =
     (if ev_id e \<in> removed then tla_scan loops view_ids es removed
      else tla_scan loops view_ids es (tla_check loops view_ids (ev_id e) removed))"

definition tla_enforce :: "event list \<Rightarrow> event list \<Rightarrow> event_id set" where
  "tla_enforce current_view_events all_events =
     tla_scan (tool_loops all_events) (ev_id ` set current_view_events) current_view_events {}"

fun tla_cut ::
    "nat \<Rightarrow> event list \<Rightarrow> bool \<Rightarrow> manipulation_indices \<Rightarrow> manipulation_indices result" where
  "tla_cut index [] in_tool_loop idxs = Inr idxs"
| "tla_cut index (e # es) in_tool_loop idxs =
     (if is_thinking_action e then tla_cut (index + 1) es True idxs
      else if is_action e \<or> is_observation_base e then
        and_then (if in_tool_loop then py_remove index idxs else Inr idxs)
          (tla_cut (index + 1) es in_tool_loop)
      else tla_cut (index + 1) es False idxs)"

definition tla_manipulation_indices :: "event list \<Rightarrow> manipulation_indices result" where
  "tla_manipulation_indices current_view_events =
     tla_cut 0 current_view_events False (complete current_view_events)"

section \<open>The view\<close>

text \<open>A property object is the pair of its two methods.\<close>

record view_property =
  enforce :: "event list \<Rightarrow> event list \<Rightarrow> event_id set"
  property_indices :: "event list \<Rightarrow> manipulation_indices result"

definition ObservationUniquenessProperty :: view_property where
  "ObservationUniquenessProperty =
     \<lparr>enforce = ou_enforce, property_indices = ou_manipulation_indices\<rparr>"

definition BatchAtomicityProperty :: view_property where
  "BatchAtomicityProperty =
     \<lparr>enforce = ba_enforce, property_indices = ba_manipulation_indices\<rparr>"

definition ToolCallMatchingProperty :: view_property where
  "ToolCallMatchingProperty =
     \<lparr>enforce = tcm_enforce, property_indices = tcm_manipulation_indices\<rparr>"

definition ToolLoopAtomicityProperty :: view_property where
  "ToolLoopAtomicityProperty =
     \<lparr>enforce = tla_enforce, property_indices = tla_manipulation_indices\<rparr>"

definition ALL_PROPERTIES :: "view_property list" where
  "ALL_PROPERTIES =
     [ObservationUniquenessProperty, BatchAtomicityProperty, ToolCallMatchingProperty,
      ToolLoopAtomicityProperty]"

record view =
  view_events :: "event list"
  unhandled_condensation_request :: bool

definition empty_view :: view where
  "empty_view = \<lparr>view_events = [], unhandled_condensation_request = False\<rparr>"

fun intersect_indices ::
    "view_property list \<Rightarrow> event list \<Rightarrow> manipulation_indices \<Rightarrow> manipulation_indices result" where
  "intersect_indices [] es results = Inr results"
| "intersect_indices (p # ps) es results =
     and_then (property_indices p es) (\<lambda>idxs. intersect_indices ps es (results \<inter> idxs))"

definition manipulation_indices :: "view \<Rightarrow> manipulation_indices result" where
  "manipulation_indices v =
     intersect_indices ALL_PROPERTIES (view_events v) (complete (view_events v))"

text \<open>The \<open>for ... else\<close> of \<open>enforce_properties\<close>: the first property with events to forget.\<close>

fun first_enforced ::
    "view_property list \<Rightarrow> event list \<Rightarrow> event list \<Rightarrow> event_id set option" where
  "first_enforced [] es all_events = None"
| "first_enforced (p # ps) es all_events =
     (let events_to_forget = enforce p es all_events
      in if events_to_forget \<noteq> {} then Some events_to_forget
         else first_enforced ps es all_events)"

section \<open>What every property promises\<close>

text \<open>
  The contract of \<open>ViewPropertyBase\<close> the view relies on: enforcement names events of the view only,
  and the manipulation indices are positions of the view, the start among them.
\<close>

locale view_property_contract =
  fixes enf :: "event list \<Rightarrow> event list \<Rightarrow> event_id set"
    and idx :: "event list \<Rightarrow> nat set result"
  assumes enforce_in_view: "enf vs all \<subseteq> ev_id ` set vs"
    and indices_in_range: "idx vs = Inr I \<Longrightarrow> I \<subseteq> {..length vs}"
    and start_is_index: "idx vs = Inr I \<Longrightarrow> 0 \<in> I"
begin

lemma enforce_shrinks:
  assumes "enf vs all \<noteq> {}"
  shows "length (filter (\<lambda>e. ev_id e \<notin> enf vs all) vs) < length vs"
proof -
  from assms enforce_in_view obtain e where "e \<in> set vs" "ev_id e \<in> enf vs all"
    by fastforce
  then show ?thesis by (auto intro: filter_length_less)
qed

lemma indices_finite: "idx vs = Inr I \<Longrightarrow> finite I"
  by (meson finite_atMost finite_subset indices_in_range)

end

lemma ou_scan_subset: "ou_scan es seen removed \<subseteq> removed \<union> ev_id ` set es"
  by (induction es seen removed rule: ou_scan.induct) (auto; blast)+

interpretation ou: view_property_contract ou_enforce ou_manipulation_indices
  by unfold_locales
    (use ou_scan_subset in \<open>fastforce simp: ou_enforce_def ou_manipulation_indices_def\<close>)+

lemma py_remove_Inr [simp]: "py_remove x s = Inr t \<longleftrightarrow> x \<in> s \<and> t = s - {x}"
  by (auto simp: py_remove_def)

lemma map_of_map_default:
  "map_of (AList.map_default k v f xs) k' =
     (if k' = k then Some (case map_of xs k of None \<Rightarrow> v | Some y \<Rightarrow> f y) else map_of xs k')"
  by (induction xs) auto

lemma batch_of_add:
  "batch_of (add_batches es b) r =
     batch_of b r \<union> ev_id ` {e \<in> set es. is_action e \<and> response_id e = r}"
proof (induction es arbitrary: b)
  case Nil
  then show ?case by simp
next
  case (Cons e es)
  have "batch_of (AList.map_default (response_id e) {ev_id e} (insert (ev_id e)) b) r =
      (if response_id e = r then insert (ev_id e) (batch_of b r) else batch_of b r)"
    by (auto simp: batch_of_def map_of_map_default split: option.splits)
  with Cons.IH show ?case by auto
qed

lemma batch_of_build:
  "batch_of (build_batches es) r = ev_id ` {e \<in> set es. is_action e \<and> response_id e = r}"
  by (simp add: build_batches_def batch_of_add) (simp add: batch_of_def)

lemma keys_map_default: "fst ` set (AList.map_default k v f xs) = insert k (fst ` set xs)"
  by (induction xs) auto

lemma keys_add_batches:
  "fst ` set (add_batches es b) = fst ` set b \<union> response_id ` {e \<in> set es. is_action e}"
  by (induction es arbitrary: b) (auto simp: keys_map_default)

lemma distinct_keys_map_default:
  "distinct (map fst xs) \<Longrightarrow> distinct (map fst (AList.map_default k v f xs))"
proof (induction xs)
  case (Cons x xs)
  then show ?case using keys_map_default [of k v f xs]
    by (cases x) (auto simp flip: set_map)
qed simp

lemma distinct_keys_add_batches:
  "distinct (map fst b) \<Longrightarrow> distinct (map fst (add_batches es b))"
  by (induction es arbitrary: b) (auto intro: distinct_keys_map_default)

lemma build_batches_entry:
  assumes "(r, ids) \<in> set (build_batches es)"
  shows "ids = batch_of (build_batches es) r"
proof -
  have "distinct (map fst (build_batches es))"
    by (simp add: build_batches_def distinct_keys_add_batches)
  with assms have "map_of (build_batches es) r = Some ids" by simp
  then show ?thesis by (simp add: batch_of_def)
qed

lemma ba_collect_eq:
  "ba_collect all bs removed =
     removed \<union> \<Union> {ids. \<exists>r. (r, ids) \<in> set bs \<and> ids \<noteq> batch_of all r}"
  by (induction all bs removed rule: ba_collect.induct) auto

lemma ba_enforce_eq:
  "ba_enforce vs all =
     \<Union> {batch_of (build_batches vs) r | r. r \<in> response_id ` {e \<in> set vs. is_action e} \<and>
          batch_of (build_batches vs) r \<noteq> batch_of (build_batches all) r}"
  (is "_ = \<Union> ?R")
proof -
  have keys: "fst ` set (build_batches vs) = response_id ` {e \<in> set vs. is_action e}"
    by (simp add: build_batches_def keys_add_batches)
  have "{ids. \<exists>r. (r, ids) \<in> set (build_batches vs) \<and> ids \<noteq> batch_of (build_batches all) r} = ?R"
  proof (intro equalityI subsetI)
    fix ids
    assume "ids \<in> {ids. \<exists>r. (r, ids) \<in> set (build_batches vs) \<and>
        ids \<noteq> batch_of (build_batches all) r}"
    then obtain r where r: "(r, ids) \<in> set (build_batches vs)"
      "ids \<noteq> batch_of (build_batches all) r" by blast
    then have "r \<in> response_id ` {e \<in> set vs. is_action e}"
      using keys by force
    with r build_batches_entry [OF r(1)] show "ids \<in> ?R" by blast
  next
    fix ids assume "ids \<in> ?R"
    then obtain r where r: "r \<in> fst ` set (build_batches vs)"
      "ids = batch_of (build_batches vs) r" "ids \<noteq> batch_of (build_batches all) r"
      unfolding keys by blast
    then obtain ids' where "(r, ids') \<in> set (build_batches vs)" by force
    with build_batches_entry [OF this] r
    show "ids \<in> {ids. \<exists>r. (r, ids) \<in> set (build_batches vs) \<and>
        ids \<noteq> batch_of (build_batches all) r}"
      by auto
  qed
  then show ?thesis by (simp add: ba_enforce_def ba_collect_eq)
qed

section \<open>Which indices each property keeps\<close>

text \<open>Two adjacent events of one batch.\<close>

definition same_batch :: "event \<Rightarrow> event \<Rightarrow> bool" where
  "same_batch l r \<longleftrightarrow> is_action l \<and> is_action r \<and> response_id l = response_id r"

lemma ba_cut_char:
  assumes "{k + 1..<k + length es} \<subseteq> I"
  shows "\<exists>J. ba_cut k es I = Inr J \<and> J \<subseteq> I \<and> (\<forall>x. x \<le> k \<or> k + length es \<le> x \<longrightarrow> (x \<in> J \<longleftrightarrow> x \<in> I))
    \<and> (\<forall>i. 0 < i \<and> i < length es \<longrightarrow>
         (k + i \<in> J \<longleftrightarrow> \<not> same_batch (es ! (i - 1)) (es ! i)))"
  using assms
proof (induction k es I rule: ba_cut.induct)
  case (1 k l r es I)
  define I' where "I' = (if same_batch l r then I - {k + 1} else I)"
  have k1: "k + 1 \<in> I" using "1.prems" by auto
  have step: "(if is_action l \<and> is_action r \<and> response_id l = response_id r
      then py_remove (k + 1) I else Inr I) = Inr I'"
    using k1 by (auto simp: I'_def same_batch_def py_remove_def)
  have sub: "{k + 1 + 1..<k + 1 + length (r # es)} \<subseteq> I'"
    using "1.prems" by (auto simp: I'_def)
  from "1.IH" [OF step sub] obtain J where J:
    "ba_cut (k + 1) (r # es) I' = Inr J" "J \<subseteq> I'"
    "\<forall>x. x \<le> k + 1 \<or> k + 1 + length (r # es) \<le> x \<longrightarrow> (x \<in> J \<longleftrightarrow> x \<in> I')"
    "\<forall>i. 0 < i \<and> i < length (r # es) \<longrightarrow>
       (k + 1 + i \<in> J \<longleftrightarrow> \<not> same_batch ((r # es) ! (i - 1)) ((r # es) ! i))"
    by blast
  have eq: "ba_cut k (l # r # es) I = Inr J"
    using step J(1) by simp
  have outside: "\<forall>x. x \<le> k \<or> k + length (l # r # es) \<le> x \<longrightarrow> (x \<in> J \<longleftrightarrow> x \<in> I)"
    using J(3) by (auto simp: I'_def)
  have inside: "k + i \<in> J \<longleftrightarrow> \<not> same_batch ((l # r # es) ! (i - 1)) ((l # r # es) ! i)"
    if "0 < i" "i < length (l # r # es)" for i
  proof (cases "i = 1")
    case True
    then show ?thesis using J(3) k1 by (auto simp: I'_def)
  next
    case False
    with that obtain i' where i': "i = Suc i'" "0 < i'" "i' < length (r # es)"
      by (cases i) auto
    with J(4) show ?thesis by (auto simp: nth_Cons')
  qed
  show ?case using eq J(2) outside inside by (auto simp: I'_def split: if_splits)
qed auto

text \<open>The pending tool calls after a prefix of the view.\<close>

fun tcm_pending :: "event list \<Rightarrow> tool_call_id set \<Rightarrow> tool_call_id set result" where
  "tcm_pending [] pending = Inr pending"
| "tcm_pending (e # es) pending = and_then (tcm_pending_step e pending) (tcm_pending es)"

lemma tcm_pending_append:
  "tcm_pending (xs @ ys) P = and_then (tcm_pending xs P) (tcm_pending ys)"
proof (induction xs arbitrary: P)
  case (Cons x xs)
  then show ?case by (cases "tcm_pending_step x P") auto
qed simp

lemma tcm_cut_error: "tcm_pending es P = Inl er \<Longrightarrow>
    {k + 1..k + length es} \<subseteq> I \<Longrightarrow> tcm_cut k es P I = Inl er"
proof (induction es arbitrary: k P I)
  case (Cons e es)
  show ?case
  proof (cases "tcm_pending_step e P")
    case (Inl er')
    with Cons.prems show ?thesis by simp
  next
    case (Inr P')
    have "k + 1 \<in> I" using Cons.prems(2) by auto
    moreover have "{k + 1 + 1..k + 1 + length es} \<subseteq> I - {k + 1}"
      "{k + 1 + 1..k + 1 + length es} \<subseteq> I"
      using Cons.prems(2) by auto
    moreover have "tcm_pending es P' = Inl er" using Cons.prems(1) Inr by simp
    ultimately show ?thesis
      using Cons.IH [of P' "k + 1"] Inr by (cases "P' = {}") (auto simp: py_remove_def)
  qed
qed simp

lemma tcm_cut_char:
  assumes "tcm_pending es P = Inr Q" and "{k + 1..k + length es} \<subseteq> I"
  shows "\<exists>J. tcm_cut k es P I = Inr J \<and> J \<subseteq> I \<and> (\<forall>x \<le> k. x \<in> J \<longleftrightarrow> x \<in> I)
    \<and> (\<forall>i. 0 < i \<and> i \<le> length es \<longrightarrow> (k + i \<in> J \<longleftrightarrow> tcm_pending (take i es) P = Inr {}))"
  using assms
proof (induction es arbitrary: k P I)
  case Nil
  then show ?case by auto
next
  case (Cons e es)
  from Cons.prems(1) obtain P' where P': "tcm_pending_step e P = Inr P'" "tcm_pending es P' = Inr Q"
    by (auto simp: and_then_Inr_iff)
  define I' where "I' = (if P' \<noteq> {} then I - {k + 1} else I)"
  have k1: "k + 1 \<in> I" using Cons.prems(2) by auto
  have step: "(if P' \<noteq> {} then py_remove (k + 1) I else Inr I) = Inr I'"
    using k1 by (auto simp: I'_def py_remove_def)
  have sub: "{k + 1 + 1..k + 1 + length es} \<subseteq> I'"
    using Cons.prems(2) by (auto simp: I'_def subset_iff)
  from Cons.IH [OF P'(2) sub] obtain J where J:
    "tcm_cut (k + 1) es P' I' = Inr J" "J \<subseteq> I'" "\<forall>x \<le> k + 1. x \<in> J \<longleftrightarrow> x \<in> I'"
    "\<forall>i. 0 < i \<and> i \<le> length es \<longrightarrow> (k + 1 + i \<in> J \<longleftrightarrow> tcm_pending (take i es) P' = Inr {})"
    by blast
  have eq: "tcm_cut k (e # es) P I = Inr J" using step J(1) P'(1) by simp
  have inside: "k + i \<in> J \<longleftrightarrow> tcm_pending (take i (e # es)) P = Inr {}"
    if "0 < i" "i \<le> length (e # es)" for i
  proof (cases "i = 1")
    case True
    then show ?thesis using J(3) k1 P'(1) by (auto simp: I'_def)
  next
    case False
    with that obtain i' where i': "i = Suc i'" "0 < i'" "i' \<le> length es"
      by (cases i) auto
    with J(4) P'(1) show ?thesis by auto
  qed
  show ?case using eq J(2,3) inside by (auto simp: I'_def split: if_splits)
qed

text \<open>Whether the scan of the tool loops is inside a loop after a prefix of the view.\<close>

fun in_loop_after :: "event list \<Rightarrow> bool \<Rightarrow> bool" where
  "in_loop_after [] b = b"
| "in_loop_after (e # es) b =
     in_loop_after es (if is_thinking_action e then True
       else if is_action e \<or> is_observation_base e then b else False)"

text \<open>An event that continues the tool loop it is in: an action without thinking blocks or an
  observation.\<close>

definition continues_loop :: "event \<Rightarrow> bool" where
  "continues_loop e \<longleftrightarrow> \<not> is_thinking_action e \<and> (is_action e \<or> is_observation_base e)"

lemma tla_cut_char:
  assumes "{k..<k + length es} \<subseteq> I"
  shows "\<exists>J. tla_cut k es b I = Inr J \<and> J \<subseteq> I
    \<and> (\<forall>x. x < k \<or> k + length es \<le> x \<longrightarrow> (x \<in> J \<longleftrightarrow> x \<in> I))
    \<and> (\<forall>i < length es. k + i \<in> J \<longleftrightarrow> \<not> (continues_loop (es ! i) \<and> in_loop_after (take i es) b))"
  using assms
proof (induction es arbitrary: k b I)
  case Nil
  then show ?case by auto
next
  case (Cons e es)
  define b' where "b' = (if is_thinking_action e then True
       else if is_action e \<or> is_observation_base e then b else False)"
  define I' where "I' = (if continues_loop e \<and> b then I - {k} else I)"
  have k0: "k \<in> I" using Cons.prems by auto
  have sub: "{k + 1..<k + 1 + length es} \<subseteq> I'"
    using Cons.prems by (auto simp: I'_def)
  from Cons.IH [OF sub, of b'] obtain J where J: "tla_cut (k + 1) es b' I' = Inr J" "J \<subseteq> I'"
    "\<forall>x. x < k + 1 \<or> k + 1 + length es \<le> x \<longrightarrow> (x \<in> J \<longleftrightarrow> x \<in> I')"
    "\<forall>i < length es. k + 1 + i \<in> J \<longleftrightarrow>
       \<not> (continues_loop (es ! i) \<and> in_loop_after (take i es) b')"
    by blast
  have eq: "tla_cut k (e # es) b I = Inr J"
    using J(1) k0 by (auto simp: b'_def I'_def continues_loop_def py_remove_def split: if_splits)
  have inside: "k + i \<in> J \<longleftrightarrow>
      \<not> (continues_loop ((e # es) ! i) \<and> in_loop_after (take i (e # es)) b)"
    if "i < length (e # es)" for i
  proof (cases i)
    case 0
    then show ?thesis using J(3) k0 by (auto simp: I'_def)
  next
    case (Suc i')
    with that J(4) show ?thesis by (auto simp: b'_def)
  qed
  have outside: "\<forall>x. x < k \<or> k + length (e # es) \<le> x \<longrightarrow> (x \<in> J \<longleftrightarrow> x \<in> I)"
    using J(3) by (auto simp: I'_def)
  have "J \<subseteq> I" using J(2) by (auto simp: I'_def split: if_splits)
  with eq outside inside show ?case by blast
qed

lemmas cut_simps = ba_manipulation_indices_def tcm_manipulation_indices_def
  tla_manipulation_indices_def ou_manipulation_indices_def

lemma ba_indices_char:
  "\<exists>J. ba_manipulation_indices vs = Inr J \<and> J \<subseteq> {..length vs} \<and> 0 \<in> J \<and> length vs \<in> J
    \<and> (\<forall>i. 0 < i \<and> i < length vs \<longrightarrow> (i \<in> J \<longleftrightarrow> \<not> same_batch (vs ! (i - 1)) (vs ! i)))"
  using ba_cut_char [of 0 vs "{..length vs}"] by (fastforce simp: cut_simps)

lemma tcm_indices_char:
  assumes "tcm_pending vs {} = Inr Q"
  shows "\<exists>J. tcm_manipulation_indices vs = Inr J \<and> J \<subseteq> {..length vs}
    \<and> (\<forall>i \<le> length vs. i \<in> J \<longleftrightarrow> tcm_pending (take i vs) {} = Inr {})"
proof -
  from tcm_cut_char [OF assms, of 0 "{..length vs}"] obtain J where J:
    "tcm_cut 0 vs {} {..length vs} = Inr J" "J \<subseteq> {..length vs}" "0 \<in> J"
    "\<forall>i. 0 < i \<and> i \<le> length vs \<longrightarrow> (i \<in> J \<longleftrightarrow> tcm_pending (take i vs) {} = Inr {})"
    by fastforce
  have "\<forall>i \<le> length vs. i \<in> J \<longleftrightarrow> tcm_pending (take i vs) {} = Inr {}"
  proof (intro allI impI)
    fix i assume "i \<le> length vs"
    then show "i \<in> J \<longleftrightarrow> tcm_pending (take i vs) {} = Inr {}"
      using J(3,4) by (cases "i = 0") auto
  qed
  with J(1,2) show ?thesis by (auto simp: cut_simps)
qed

lemma tcm_indices_error:
  "tcm_pending vs {} = Inl er \<Longrightarrow> tcm_manipulation_indices vs = Inl er"
  by (auto simp: cut_simps intro: tcm_cut_error)

lemma tla_indices_char:
  "\<exists>J. tla_manipulation_indices vs = Inr J \<and> J \<subseteq> {..length vs} \<and> length vs \<in> J
    \<and> (\<forall>i < length vs. i \<in> J \<longleftrightarrow>
          \<not> (continues_loop (vs ! i) \<and> in_loop_after (take i vs) False))"
  using tla_cut_char [of 0 vs "{..length vs}" False] by (fastforce simp: cut_simps)

lemma ba_enforce_subset: "ba_enforce vs all \<subseteq> ev_id ` set vs"
  by (auto simp: ba_enforce_eq batch_of_build)

lemma tla_check_subset: "tla_check ls ids i removed \<subseteq> removed \<union> ids"
  by (induction ls ids i removed rule: tla_check.induct) auto

lemma tla_scan_subset: "tla_scan ls ids es removed \<subseteq> removed \<union> ids"
proof (induction ls ids es removed rule: tla_scan.induct)
  case (2 ls ids e es removed)
  then show ?case using tla_check_subset [of ls ids "ev_id e" removed] by auto
qed auto

interpretation ba: view_property_contract ba_enforce ba_manipulation_indices
proof
  fix vs I assume "ba_manipulation_indices vs = Inr I"
  then show "I \<subseteq> {..length vs}" "0 \<in> I"
    using ba_indices_char [of vs] by auto
qed (rule ba_enforce_subset)

interpretation tcm: view_property_contract tcm_enforce tcm_manipulation_indices
proof
  fix vs all show "tcm_enforce vs all \<subseteq> ev_id ` set vs"
    by (auto simp: tcm_enforce_def)
next
  fix vs I assume *: "tcm_manipulation_indices vs = Inr I"
  then obtain Q where Q: "tcm_pending vs {} = Inr Q"
    using tcm_indices_error by (cases "tcm_pending vs {}") auto
  with * show "I \<subseteq> {..length vs}" "0 \<in> I"
    using tcm_indices_char [OF Q] by auto
qed

interpretation tla: view_property_contract tla_enforce tla_manipulation_indices
proof
  fix vs all show "tla_enforce vs all \<subseteq> ev_id ` set vs"
    using tla_scan_subset by (fastforce simp: tla_enforce_def)
next
  fix vs I assume "tla_manipulation_indices vs = Inr I"
  then show "I \<subseteq> {..length vs}" "0 \<in> I"
    using tla_indices_char [of vs] by (cases vs; auto)+
qed

section \<open>Enforcing the properties and building a view\<close>

lemmas property_defs = ObservationUniquenessProperty_def BatchAtomicityProperty_def
  ToolCallMatchingProperty_def ToolLoopAtomicityProperty_def

lemma first_enforced_shrinks:
  assumes "first_enforced ALL_PROPERTIES vs all = Some ids"
  shows "length (filter (\<lambda>e. ev_id e \<notin> ids) vs) < length vs"
  using assms ou.enforce_shrinks [of vs all] ba.enforce_shrinks [of vs all]
    tcm.enforce_shrinks [of vs all] tla.enforce_shrinks [of vs all]
  by (auto simp: ALL_PROPERTIES_def property_defs Let_def split: if_splits)

text \<open>
  \<open>enforce_properties\<close>: drop the events of the first property that has any and start over. Each
  round shortens the view, so the recursion ends.
\<close>

function enforce_properties :: "event list \<Rightarrow> view \<Rightarrow> view" where
  "enforce_properties all_events v =
     (case first_enforced ALL_PROPERTIES (view_events v) all_events of
        None \<Rightarrow> v
      | Some ids \<Rightarrow> enforce_properties all_events
          (v\<lparr>view_events := filter (\<lambda>e. ev_id e \<notin> ids) (view_events v)\<rparr>))"
  by pat_completeness auto
termination
  by (relation "measure (\<lambda>(all, v). length (view_events v))") (auto intro: first_enforced_shrinks)

declare enforce_properties.simps [simp del]

fun append_event :: "view \<Rightarrow> event \<Rightarrow> view" where
  "append_event v (Condensation m c) =
     v\<lparr>view_events := apply_condensation m c (view_events v),
       unhandled_condensation_request := False\<rparr>"
| "append_event v (CondensationRequest m) = v\<lparr>unhandled_condensation_request := True\<rparr>"
| "append_event v e =
     (if is_llm_convertible e then v\<lparr>view_events := view_events v @ [e]\<rparr> else v)"

definition append_events :: "view \<Rightarrow> event list \<Rightarrow> view" where
  "append_events v events = foldl append_event v events"

definition from_events :: "event list \<Rightarrow> view" where
  "from_events events = enforce_properties events (append_events empty_view events)"

end
