(* ===== verification/Samples.thy ===== *)
theory Samples
  imports Events
begin

text \<open>
  Small concrete events, for the closed instances that show the hypotheses of the properties can
  hold together.
\<close>

definition sample_meta :: "string \<Rightarrow> source_type \<Rightarrow> event_meta" where
  "sample_meta i s =
     \<lparr>meta_id = i, meta_timestamp = ''t'', meta_source = s, meta_parent_id = None\<rparr>"

definition sample_call :: "string \<Rightarrow> message_tool_call" where
  "sample_call t = \<lparr>tc_id = t, tc_responses_item_id = None, tc_name = ''terminal'',
     tc_arguments = ''{}'', tc_origin = Completion\<rparr>"

definition sample_action_of ::
    "string \<Rightarrow> string \<Rightarrow> string \<Rightarrow> thinking_block list \<Rightarrow> action option \<Rightarrow> event" where
  "sample_action_of i t r tb a =
     ActionEvent (sample_meta i SourceAgent)
       \<lparr>ae_thought = [], ae_reasoning_content = None, ae_thinking_blocks = tb,
        ae_responses_reasoning_item = None, ae_action = a, ae_tool_name = ''terminal'',
        ae_tool_call_id = t, ae_tool_call = sample_call t, ae_llm_response_id = r,
        ae_security_risk = RiskUnknown, ae_critic_result = None, ae_summary = None\<rparr>"

definition sample_action :: "string \<Rightarrow> string \<Rightarrow> string \<Rightarrow> event" where
  "sample_action i t r = sample_action_of i t r [] (Some (OtherAction ''Execute'' ''ls''))"

definition sample_thinking :: "string \<Rightarrow> string \<Rightarrow> string \<Rightarrow> event" where
  "sample_thinking i t r =
     sample_action_of i t r [ThinkingBlock ''hmm'' None] (Some (OtherAction ''Execute'' ''ls''))"

definition sample_observation_of ::
    "string \<Rightarrow> string \<Rightarrow> string \<Rightarrow> observation \<Rightarrow> event" where
  "sample_observation_of i t aid ob =
     ObservationEvent (sample_meta i SourceEnvironment)
       \<lparr>oe_tool_name = ''terminal'', oe_tool_call_id = t, oe_observation = ob,
        oe_action_id = aid, oe_extended_content = []\<rparr>"

definition sample_output :: "string \<Rightarrow> bool \<Rightarrow> observation" where
  "sample_output s err = \<lparr>obs_class = OtherObservation ''Output'' s,
     obs_content = [TextContent s], obs_is_error = err, obs_override = None\<rparr>"

definition sample_observation :: "string \<Rightarrow> string \<Rightarrow> string \<Rightarrow> event" where
  "sample_observation i t aid = sample_observation_of i t aid (sample_output ''ok'' False)"

definition sample_error :: "string \<Rightarrow> string \<Rightarrow> event" where
  "sample_error i t =
     AgentErrorEvent (sample_meta i SourceAgent)
       \<lparr>ee_tool_name = ''terminal'', ee_tool_call_id = t, ee_error = ''bad arguments'',
        ee_classification = ''unknown''\<rparr>"

definition sample_message :: "string \<Rightarrow> source_type \<Rightarrow> string \<Rightarrow> event" where
  "sample_message i s txt =
     MessageEvent (sample_meta i s)
       \<lparr>me_llm_message = plain_message (if s = SourceAgent then RoleAssistant else RoleUser)
          [TextContent txt],
        me_llm_response_id = None, me_activated_skills = [], me_extended_content = [],
        me_sender = None, me_critic_result = None\<rparr>"

definition sample_summary :: "string \<Rightarrow> event" where
  "sample_summary i = CondensationSummaryEvent (sample_meta i SourceEnvironment) ''summary''"

definition sample_condensation :: "string \<Rightarrow> string set \<Rightarrow> nat \<Rightarrow> event" where
  "sample_condensation i forgotten k =
     Condensation (sample_meta i SourceEnvironment)
       \<lparr>co_forgotten_event_ids = forgotten, co_summary = Some ''summary'',
        co_summary_offset = Some k, co_llm_response_id = ''r0''\<rparr>"

lemmas sample_defs = sample_meta_def sample_call_def sample_action_of_def sample_action_def
  sample_thinking_def sample_observation_of_def sample_output_def sample_observation_def
  sample_error_def sample_message_def sample_summary_def sample_condensation_def

end
