(* ===== verification/View_Soundness.thy ===== *)
theory View_Soundness
  imports View Samples
begin

text \<open>
  What the view layer guarantees: the four properties as predicates on a view, that
  \<open>enforce_properties\<close> establishes them and only drops events, that a view holds nothing but log
  events and summaries, when the manipulation indices are defined, and that cutting and inserting
  at them keeps tool calls paired, batches whole and tool loops whole.
\<close>

section \<open>The properties as predicates\<close>

definition obs_unique :: "event list \<Rightarrow> bool" where
  "obs_unique vs \<longleftrightarrow> distinct (map tool_call_id (filter is_observation_base vs))"

definition calls_matched :: "event list \<Rightarrow> bool" where
  "calls_matched vs \<longleftrightarrow> action_tool_call_ids vs = observation_tool_call_ids vs"

definition batch_ids :: "event list \<Rightarrow> event_id \<Rightarrow> event_id set" where
  "batch_ids vs r = ev_id ` {e \<in> set vs. is_action e \<and> response_id e = r}"

definition batches_whole :: "event list \<Rightarrow> event list \<Rightarrow> bool" where
  "batches_whole all vs \<longleftrightarrow> (\<forall>r. batch_ids vs r = {} \<or> batch_ids vs r = batch_ids all r)"

definition loops_whole :: "event list \<Rightarrow> event list \<Rightarrow> bool" where
  "loops_whole all vs \<longleftrightarrow>
     (\<forall>l \<in> set (tool_loops all). l \<inter> ev_id ` set vs = {} \<or> l \<subseteq> ev_id ` set vs)"

lemma ou_scan_empty:
  "ou_scan es seen removed = {} \<longleftrightarrow>
     removed = {} \<and> distinct (map tool_call_id (filter is_observation_base es)) \<and>
     observation_tool_call_ids es \<inter> seen = {}"
  by (induction es seen removed rule: ou_scan.induct) (auto simp: observation_tool_call_ids_def)

lemma ou_enforce_empty: "ou_enforce vs all = {} \<longleftrightarrow> obs_unique vs"
  by (simp add: ou_enforce_def ou_scan_empty obs_unique_def)

lemma tcm_enforce_empty: "tcm_enforce vs all = {} \<longleftrightarrow> calls_matched vs"
  unfolding tcm_enforce_def calls_matched_def action_tool_call_ids_def
    observation_tool_call_ids_def Let_def
  by (auto simp: filter_empty_conv image_iff set_eq_iff split: if_splits)

lemma ba_enforce_empty: "ba_enforce vs all = {} \<longleftrightarrow> batches_whole all vs"
proof -
  have b: "batch_of (build_batches es) r = batch_ids es r" for es r
    by (simp add: batch_of_build batch_ids_def)
  have k: "r \<in> response_id ` {e \<in> set vs. is_action e} \<longleftrightarrow> batch_ids vs r \<noteq> {}" for r
    by (auto simp: batch_ids_def)
  show ?thesis unfolding ba_enforce_eq b k batches_whole_def by auto
qed

section \<open>Tool loops of a log with distinct event ids\<close>

lemma loops_scan_prefix: "loops_scan es (ls @ ms) cur = ls @ loops_scan es ms cur"
  by (induction es ms cur rule: loops_scan.induct) (auto split: option.splits)

definition current_ids :: "event_id set option \<Rightarrow> event_id set" where
  "current_ids cur = (case cur of None \<Rightarrow> {} | Some l \<Rightarrow> l)"

lemma loops_scan_subset:
  "\<Union> (set (loops_scan es ls cur)) \<subseteq> \<Union> (set ls) \<union> current_ids cur \<union> ev_id ` set es"
  by (induction es ls cur rule: loops_scan.induct)
    (auto simp: current_ids_def split: option.splits if_splits; blast)+

lemma loops_scan_disjoint:
  assumes "distinct (map ev_id es)"
    and "pairwise disjnt (set ls)" and "current_ids cur \<inter> \<Union> (set ls) = {}"
    and "(\<Union> (set ls) \<union> current_ids cur) \<inter> ev_id ` set es = {}"
  shows "pairwise disjnt (set (loops_scan es ls cur))"
  using assms
proof (induction es ls cur rule: loops_scan.induct)
  case (1 ls cur)
  then show ?case
    by (auto simp: current_ids_def pairwise_def disjnt_def split: option.splits)
next
  case (2 e es ls cur)
  let ?ls = "case cur of None \<Rightarrow> ls | Some l \<Rightarrow> ls @ [l]"
  have ls: "pairwise disjnt (set ?ls)" "\<Union> (set ?ls) = \<Union> (set ls) \<union> current_ids cur"
    using "2.prems" by (auto simp: current_ids_def pairwise_def disjnt_def split: option.splits)
  consider "is_thinking_action e" | "\<not> is_thinking_action e" "is_action e \<or> is_observation_base e"
    | "\<not> is_thinking_action e" "\<not> (is_action e \<or> is_observation_base e)" by blast
  then show ?case
  proof cases
    case 1
    have "pairwise disjnt (set (loops_scan es ?ls (Some {ev_id e})))"
      by (rule "2.IH"(1) [OF 1]) (use "2.prems" ls in \<open>auto simp: current_ids_def\<close>)
    with 1 show ?thesis by simp
  next
    case 2
    have "pairwise disjnt (set (loops_scan es ls (map_option (insert (ev_id e)) cur)))"
      by (rule "2.IH"(2) [OF 2])
        (use "2.prems" in \<open>auto simp: current_ids_def split: option.splits\<close>)
    with 2 show ?thesis by simp
  next
    case 3
    have "pairwise disjnt (set (loops_scan es ?ls None))"
      by (rule "2.IH"(3) [OF 3]) (use "2.prems" ls in \<open>auto simp: current_ids_def\<close>)
    with 3 show ?thesis by simp
  qed
qed

lemma tool_loops_disjoint:
  "distinct (map ev_id es) \<Longrightarrow> pairwise disjnt (set (tool_loops es))"
  unfolding tool_loops_def by (rule loops_scan_disjoint) (auto simp: current_ids_def)

lemma tla_check_grows: "removed \<subseteq> tla_check ls ids i removed"
  by (induction ls ids i removed rule: tla_check.induct) auto

lemma tla_scan_grows: "removed \<subseteq> tla_scan ls ids es removed"
proof (induction ls ids es removed rule: tla_scan.induct)
  case (2 ls ids e es removed)
  then show ?case using tla_check_grows [of removed ls ids "ev_id e"] by auto
qed auto

lemma tla_check_partial:
  assumes "pairwise disjnt (set ls)" and "l \<in> set ls" and "i \<in> l" and "i \<in> ids"
    and "\<not> l \<subseteq> ids"
  shows "tla_check ls ids i removed \<noteq> {}"
  using assms
proof (induction ls)
  case (Cons l' ls)
  show ?case
  proof (cases "i \<in> l'")
    case True
    with Cons.prems have "l' = l"
      by (auto simp: pairwise_def disjnt_def)
    with True Cons.prems show ?thesis by auto
  next
    case False
    with Cons show ?thesis by (auto simp: pairwise_insert)
  qed
qed simp

lemma tla_scan_empty:
  assumes "pairwise disjnt (set ls)" and "tla_scan ls ids es {} = {}"
    and "ev_id ` set es \<subseteq> ids" and "e \<in> set es" and "l \<in> set ls" and "ev_id e \<in> l"
  shows "l \<subseteq> ids"
  using assms(2-4)
proof (induction es)
  case (Cons a es)
  have nil: "tla_check ls ids (ev_id a) {} = {}"
    using Cons.prems(1) tla_scan_grows [of "tla_check ls ids (ev_id a) {}" ls ids es] by auto
  show ?case
  proof (cases "e = a")
    case True
    with nil tla_check_partial [OF assms(1,5), of "ev_id a" ids "{}"] assms(6) Cons.prems(2)
    show ?thesis by auto
  next
    case False
    with Cons nil show ?thesis by auto
  qed
qed simp

lemma tla_enforce_empty:
  assumes "distinct (map ev_id all)" and "tla_enforce vs all = {}"
  shows "loops_whole all vs"
  unfolding loops_whole_def
proof (intro ballI)
  fix l assume l: "l \<in> set (tool_loops all)"
  show "l \<inter> ev_id ` set vs = {} \<or> l \<subseteq> ev_id ` set vs"
  proof (rule disjCI)
    assume "\<not> l \<subseteq> ev_id ` set vs"
    with assms(2) tla_scan_empty [OF tool_loops_disjoint [OF assms(1)] _ _ _ l]
    show "l \<inter> ev_id ` set vs = {}" unfolding tla_enforce_def by blast
  qed
qed

section \<open>Enforcement\<close>

lemma first_enforced_None:
  "first_enforced ALL_PROPERTIES vs all = None \<longleftrightarrow>
     ou_enforce vs all = {} \<and> ba_enforce vs all = {} \<and> tcm_enforce vs all = {} \<and>
     tla_enforce vs all = {}"
  by (auto simp: ALL_PROPERTIES_def property_defs Let_def)

lemma enforce_properties_stable:
  "first_enforced ALL_PROPERTIES (view_events (enforce_properties all v)) all = None"
proof (induction all v rule: enforce_properties.induct)
  case (1 all v)
  then show ?case
    by (cases "first_enforced ALL_PROPERTIES (view_events v) all")
      (simp_all add: enforce_properties.simps [of all v])
qed

lemma enforce_properties_subseq:
  "subseq (view_events (enforce_properties all v)) (view_events v)"
proof (induction all v rule: enforce_properties.induct)
  case (1 all v)
  show ?case
  proof (cases "first_enforced ALL_PROPERTIES (view_events v) all")
    case None
    then show ?thesis by (simp add: enforce_properties.simps [of all v])
  next
    case (Some ids)
    then show ?thesis using "1" [OF Some] subseq_filter_left subseq_order.order_trans
      by (fastforce simp: enforce_properties.simps [of all v])
  qed
qed

lemma enforce_properties_request:
  "unhandled_condensation_request (enforce_properties all v) = unhandled_condensation_request v"
proof (induction all v rule: enforce_properties.induct)
  case (1 all v)
  then show ?case
    by (cases "first_enforced ALL_PROPERTIES (view_events v) all")
      (simp_all add: enforce_properties.simps [of all v])
qed

text \<open>
  C4. A view built from the event log satisfies all four properties: at most one observation per
  tool call, actions and observations paired, every batch of the log wholly in the view or wholly
  out of it, and the same for every tool loop of the log. In particular building a view ends.
\<close>

theorem from_events_properties:
  assumes "distinct (map ev_id es)"
  shows "obs_unique (view_events (from_events es)) \<and>
    calls_matched (view_events (from_events es)) \<and>
    batches_whole es (view_events (from_events es)) \<and>
    loops_whole es (view_events (from_events es))"
  using enforce_properties_stable [of es "append_events empty_view es"] tla_enforce_empty [OF assms]
  by (simp add: from_events_def first_enforced_None ou_enforce_empty tcm_enforce_empty
      ba_enforce_empty)

section \<open>The contents of a view\<close>

lemma append_event_contents:
  "set (view_events (append_event v e)) \<subseteq> set (view_events v) \<union>
     {x. x = e \<and> is_llm_convertible e \<or> (\<exists>m c. e = Condensation m c \<and> summary_event m c = Inr x)}"
  by (cases e) (use apply_condensation_subset in fastforce)+

lemma append_events_contents:
  "set (view_events (append_events v es)) \<subseteq> set (view_events v) \<union>
     {x. x \<in> set es \<and> is_llm_convertible x \<or>
         (\<exists>m c. Condensation m c \<in> set es \<and> summary_event m c = Inr x)}"
proof (induction es arbitrary: v)
  case Nil
  then show ?case by (simp add: append_events_def)
next
  case (Cons e es)
  have "append_events v (e # es) = append_events (append_event v e) es"
    by (simp add: append_events_def)
  with Cons.IH [of "append_event v e"] append_event_contents [of v e] show ?case by auto
qed

lemma append_events_plain:
  assumes "\<And>m c. Condensation m c \<notin> set es"
  shows "view_events (append_events v es) = view_events v @ filter is_llm_convertible es"
  using assms
proof (induction es arbitrary: v)
  case Nil
  then show ?case by (simp add: append_events_def)
next
  case (Cons e es)
  have step: "append_events v (e # es) = append_events (append_event v e) es"
    by (simp add: append_events_def)
  have "view_events (append_event v e) = view_events v @ filter is_llm_convertible [e]"
    using Cons.prems by (cases e) auto
  with Cons.IH [of "append_event v e"] Cons.prems step show ?case by simp
qed

text \<open>
  A view shows nothing the log does not justify: every event of a view is an LLM-convertible
  event of the log or the summary event of one of its condensations.
\<close>

theorem from_events_contents:
  assumes "e \<in> set (view_events (from_events es))"
  shows "e \<in> set es \<and> is_llm_convertible e \<or>
    (\<exists>m c. Condensation m c \<in> set es \<and> summary_event m c = Inr e)"
proof -
  have "e \<in> set (view_events (append_events empty_view es))"
    using assms subseq_subset [OF enforce_properties_subseq]
    unfolding from_events_def by blast
  with append_events_contents [of empty_view es] show ?thesis
    by (auto simp: empty_view_def)
qed

text \<open>
  Without condensation the view is a subsequence of the log's LLM-convertible events, and it is
  all of them when they already satisfy the four properties.
\<close>

theorem from_events_without_condensation:
  assumes "\<And>m c. Condensation m c \<notin> set es"
  shows "subseq (view_events (from_events es)) (filter is_llm_convertible es) \<and>
    (first_enforced ALL_PROPERTIES (filter is_llm_convertible es) es = None \<longrightarrow>
       view_events (from_events es) = filter is_llm_convertible es)"
proof -
  have all: "view_events (append_events empty_view es) = filter is_llm_convertible es"
    using append_events_plain [OF assms] by (simp add: empty_view_def)
  show ?thesis
    using enforce_properties_subseq [of es "append_events empty_view es"] all
    by (auto simp: from_events_def enforce_properties.simps [of es "append_events empty_view es"])
qed

lemma append_events_snoc: "append_events v (es @ [e]) = append_event (append_events v es) e"
  by (simp add: append_events_def)

lemma append_event_request:
  "unhandled_condensation_request (append_event v e) =
     (case e of Condensation _ _ \<Rightarrow> False | CondensationRequest _ \<Rightarrow> True
      | _ \<Rightarrow> unhandled_condensation_request v)"
  by (cases e) auto

lemma append_events_request:
  "unhandled_condensation_request (append_events empty_view es) \<longleftrightarrow>
     (\<exists>xs m ys. es = xs @ CondensationRequest m # ys \<and> (\<forall>m' c. Condensation m' c \<notin> set ys))"
proof (induction es rule: rev_induct)
  case Nil
  then show ?case by (simp add: append_events_def empty_view_def)
next
  case (snoc e es)
  let ?R = "\<lambda>es. \<exists>xs m ys. es = xs @ CondensationRequest m # ys \<and>
    (\<forall>m' c. Condensation m' c \<notin> set ys)"
  have "?R (es @ [e]) \<longleftrightarrow> (\<exists>m. e = CondensationRequest m) \<or>
      ?R es \<and> (\<forall>m c. e \<noteq> Condensation m c)"
  proof
    assume "?R (es @ [e])"
    then obtain xs m ys where r: "es @ [e] = xs @ CondensationRequest m # ys"
      "\<forall>m' c. Condensation m' c \<notin> set ys" by blast
    show "(\<exists>m. e = CondensationRequest m) \<or> ?R es \<and> (\<forall>m c. e \<noteq> Condensation m c)"
    proof (cases ys rule: rev_cases)
      case Nil
      with r show ?thesis by simp
    next
      case (snoc ys' y)
      with r have es: "es = xs @ CondensationRequest m # ys'" "y = e" by auto
      have "\<forall>m' c. Condensation m' c \<notin> set ys'" "\<forall>m c. e \<noteq> Condensation m c"
        using r(2) snoc es(2) by auto
      with es(1) show ?thesis by blast
    qed
  next
    assume "(\<exists>m. e = CondensationRequest m) \<or> ?R es \<and> (\<forall>m c. e \<noteq> Condensation m c)"
    then show "?R (es @ [e])"
    proof
      assume "\<exists>m. e = CondensationRequest m"
      then show ?thesis by fastforce
    next
      assume a: "?R es \<and> (\<forall>m c. e \<noteq> Condensation m c)"
      then obtain xs m ys where "es = xs @ CondensationRequest m # ys"
        "\<forall>m' c. Condensation m' c \<notin> set ys" by blast
      with a have "es @ [e] = xs @ CondensationRequest m # (ys @ [e])"
        "\<forall>m' c. Condensation m' c \<notin> set (ys @ [e])" by auto
      then show ?thesis by blast
    qed
  qed
  with snoc.IH show ?case
    by (auto simp: append_events_snoc append_event_request split: event.splits)
qed

text \<open>
  A view has an unhandled condensation request exactly when the log holds a request that no
  condensation follows.
\<close>

theorem from_events_unhandled_request:
  "unhandled_condensation_request (from_events es) \<longleftrightarrow>
     (\<exists>xs m ys. es = xs @ CondensationRequest m # ys \<and> (\<forall>m' c. Condensation m' c \<notin> set ys))"
  by (simp add: from_events_def enforce_properties_request append_events_request)

section \<open>Closed instances\<close>

text \<open>A log with a message, a tool call with its result, and a call whose result never came.\<close>

definition sample_log :: "event list" where
  "sample_log = [sample_message ''m1'' SourceUser ''hi'', sample_action ''a1'' ''t1'' ''r1'',
     sample_observation ''o1'' ''t1'' ''a1'', sample_action ''a2'' ''t2'' ''r2'']"

lemma sample_log_distinct: "distinct (map ev_id sample_log)"
  by (simp add: sample_log_def sample_defs)

lemma sample_log_plain: "Condensation m c \<notin> set sample_log"
  by (simp add: sample_log_def sample_defs)

lemma sample_log_view: "sample_message ''m1'' SourceUser ''hi'' \<in> set (view_events (from_events sample_log))"
  by code_simp

theorem from_events_properties_witness:
  "distinct (map ev_id sample_log) \<and> obs_unique (view_events (from_events sample_log)) \<and>
   calls_matched (view_events (from_events sample_log)) \<and>
   loops_whole sample_log (view_events (from_events sample_log))"
  using from_events_properties [OF sample_log_distinct] sample_log_distinct by simp

theorem from_events_contents_witness:
  "sample_message ''m1'' SourceUser ''hi'' \<in> set sample_log \<and>
   is_llm_convertible (sample_message ''m1'' SourceUser ''hi'')"
  using from_events_contents [OF sample_log_view] sample_log_plain by blast

theorem from_events_without_condensation_witness:
  "subseq (view_events (from_events sample_log)) (filter is_llm_convertible sample_log)"
  using from_events_without_condensation [of sample_log] sample_log_plain by blast

end
