(* ===== verification/View_Cuts.thy ===== *)
theory View_Cuts
  imports View_Soundness
begin

text \<open>
  Manipulation indices: when computing them succeeds, which positions they are, and why a condenser
  may delete the events between two of them and insert a summary there. Deleting \<open>[i:j)\<close> and
  inserting the events \<open>ss\<close> is \<open>cut_view i j ss\<close>.
\<close>

section \<open>Pending tool calls\<close>

lemma pending_bounds:
  assumes "tcm_pending es P = Inr Q"
  shows "Q \<subseteq> P \<union> action_tool_call_ids es"
    and "observation_tool_call_ids es \<subseteq> P \<union> action_tool_call_ids es"
    and "(P \<union> action_tool_call_ids es) - observation_tool_call_ids es \<subseteq> Q"
proof -
  have "Q \<subseteq> P \<union> action_tool_call_ids es \<and>
    observation_tool_call_ids es \<subseteq> P \<union> action_tool_call_ids es \<and>
    (P \<union> action_tool_call_ids es) - observation_tool_call_ids es \<subseteq> Q"
    using assms
  proof (induction es arbitrary: P)
    case Nil
    then show ?case by (auto simp: action_tool_call_ids_def observation_tool_call_ids_def)
  next
    case (Cons e es)
    then obtain P' where P': "tcm_pending_step e P = Inr P'" "tcm_pending es P' = Inr Q"
      by (auto simp: and_then_Inr_iff)
    from Cons.IH [OF P'(2)] P'(1) show ?case
      by (auto simp: tcm_pending_step_def action_tool_call_ids_def observation_tool_call_ids_def
          split: if_splits)
  qed
  then show "Q \<subseteq> P \<union> action_tool_call_ids es"
    and "observation_tool_call_ids es \<subseteq> P \<union> action_tool_call_ids es"
    and "(P \<union> action_tool_call_ids es) - observation_tool_call_ids es \<subseteq> Q"
    by blast+
qed

lemma balanced_matched: "tcm_pending es {} = Inr {} \<Longrightarrow> calls_matched es"
  using pending_bounds [of es "{}" "{}"] by (auto simp: calls_matched_def)

lemma tcm_pending_error: "tcm_pending es P = Inl er \<Longrightarrow> er = KeyError"
proof (induction es arbitrary: P)
  case (Cons e es)
  then show ?case
    by (cases "tcm_pending_step e P")
      (auto simp: tcm_pending_step_def py_remove_def split: if_splits)
qed simp

text \<open>Every observation comes after an action with its tool call id.\<close>

fun calls_ordered :: "event list \<Rightarrow> tool_call_id set \<Rightarrow> bool" where
  "calls_ordered [] seen = True"
| "calls_ordered (e # es) seen =
     (if is_action e then calls_ordered es (insert (tool_call_id e) seen)
      else (is_observation_base e \<longrightarrow> tool_call_id e \<in> seen) \<and> calls_ordered es seen)"

lemma pending_ok_ordered:
  "tcm_pending es P = Inr Q \<Longrightarrow> P \<subseteq> seen \<Longrightarrow> calls_ordered es seen"
proof (induction es arbitrary: P seen)
  case (Cons e es)
  then obtain P' where P': "tcm_pending_step e P = Inr P'" "tcm_pending es P' = Inr Q"
    by (auto simp: and_then_Inr_iff)
  with Cons.IH [OF P'(2), of seen] Cons.IH [OF P'(2), of "insert (tool_call_id e) seen"]
    Cons.prems(2)
  show ?case by (auto simp: tcm_pending_step_def split: if_splits)
qed simp

lemma ordered_pending_ok:
  "calls_ordered es seen \<Longrightarrow> obs_unique es \<Longrightarrow>
   observation_tool_call_ids es \<inter> seen \<subseteq> P \<Longrightarrow> \<exists>Q. tcm_pending es P = Inr Q"
proof (induction es arbitrary: P seen)
  case (Cons e es)
  consider "is_action e" | "is_observation_base e" | "\<not> is_action e" "\<not> is_observation_base e"
    by blast
  then show ?case
  proof cases
    case 1
    have "\<exists>Q. tcm_pending es (insert (tool_call_id e) P) = Inr Q"
      by (rule Cons.IH [of "insert (tool_call_id e) seen"])
        (use 1 Cons.prems in \<open>auto simp: obs_unique_def observation_tool_call_ids_def\<close>)
    with 1 show ?thesis by (simp add: tcm_pending_step_def)
  next
    case 2
    then have t: "tool_call_id e \<in> P"
      using Cons.prems by (auto simp: observation_tool_call_ids_def)
    have "\<exists>Q. tcm_pending es (P - {tool_call_id e}) = Inr Q"
      by (rule Cons.IH [of seen])
        (use 2 Cons.prems in \<open>auto simp: obs_unique_def observation_tool_call_ids_def image_iff\<close>)
    with 2 t show ?thesis by (simp add: tcm_pending_step_def py_remove_def)
  next
    case 3
    have "\<exists>Q. tcm_pending es P = Inr Q"
      by (rule Cons.IH [of seen])
        (use 3 Cons.prems in \<open>auto simp: obs_unique_def observation_tool_call_ids_def\<close>)
    with 3 show ?thesis by (simp add: tcm_pending_step_def)
  qed
qed simp

section \<open>The manipulation indices of a view\<close>

text \<open>A position every property allows.\<close>

definition is_cut :: "event list \<Rightarrow> nat \<Rightarrow> bool" where
  "is_cut vs i \<longleftrightarrow> i \<le> length vs
     \<and> (0 < i \<and> i < length vs \<longrightarrow> \<not> same_batch (vs ! (i - 1)) (vs ! i))
     \<and> tcm_pending (take i vs) {} = Inr {}
     \<and> (i < length vs \<longrightarrow> \<not> (continues_loop (vs ! i) \<and> in_loop_after (take i vs) False))"

lemma manipulation_indices_ok:
  assumes "tcm_pending (view_events v) {} = Inr Q"
  shows "manipulation_indices v = Inr {i. is_cut (view_events v) i}"
proof -
  let ?vs = "view_events v"
  obtain B where B: "ba_manipulation_indices ?vs = Inr B" "B \<subseteq> {..length ?vs}" "0 \<in> B"
    "length ?vs \<in> B"
    "\<forall>i. 0 < i \<and> i < length ?vs \<longrightarrow> (i \<in> B \<longleftrightarrow> \<not> same_batch (?vs ! (i - 1)) (?vs ! i))"
    using ba_indices_char by blast
  obtain T where T: "tcm_manipulation_indices ?vs = Inr T" "T \<subseteq> {..length ?vs}"
    "\<forall>i \<le> length ?vs. i \<in> T \<longleftrightarrow> tcm_pending (take i ?vs) {} = Inr {}"
    using tcm_indices_char [OF assms] by blast
  obtain L where L: "tla_manipulation_indices ?vs = Inr L" "L \<subseteq> {..length ?vs}" "length ?vs \<in> L"
    "\<forall>i < length ?vs. i \<in> L \<longleftrightarrow>
       \<not> (continues_loop (?vs ! i) \<and> in_loop_after (take i ?vs) False)"
    using tla_indices_char by blast
  have b: "i \<in> B \<longleftrightarrow> (0 < i \<and> i < length ?vs \<longrightarrow> \<not> same_batch (?vs ! (i - 1)) (?vs ! i))"
    if "i \<le> length ?vs" for i
    using B(3-5) that by (cases "i = 0"; cases "i = length ?vs") auto
  have l: "i \<in> L \<longleftrightarrow>
      (i < length ?vs \<longrightarrow> \<not> (continues_loop (?vs ! i) \<and> in_loop_after (take i ?vs) False))"
    if "i \<le> length ?vs" for i
    using L(3,4) that by (cases "i = length ?vs") auto
  have "manipulation_indices v = Inr ({..length ?vs} \<inter> {..length ?vs} \<inter> B \<inter> T \<inter> L)"
    using B(1) T(1) L(1)
    by (simp add: manipulation_indices_def ALL_PROPERTIES_def property_defs
        ou_manipulation_indices_def)
  moreover have "{..length ?vs} \<inter> {..length ?vs} \<inter> B \<inter> T \<inter> L = {i. is_cut ?vs i}"
    using b l T(3) by (auto simp: is_cut_def)
  ultimately show ?thesis by simp
qed

lemma manipulation_indices_error:
  assumes "tcm_pending (view_events v) {} = Inl er"
  shows "manipulation_indices v = Inl KeyError"
proof -
  obtain B where "ba_manipulation_indices (view_events v) = Inr B"
    using ba_indices_char by blast
  with tcm_indices_error [OF assms] tcm_pending_error [OF assms] show ?thesis
    by (simp add: manipulation_indices_def ALL_PROPERTIES_def property_defs
        ou_manipulation_indices_def)
qed

lemma manipulation_indices_Inr:
  assumes "manipulation_indices v = Inr I"
  shows "I = {i. is_cut (view_events v) i}"
    and "\<exists>Q. tcm_pending (view_events v) {} = Inr Q"
  using assms manipulation_indices_ok [of v] manipulation_indices_error [of v]
  by (cases "tcm_pending (view_events v) {}"; auto)+

lemma manipulation_indices_unique:
  assumes "obs_unique (view_events v)"
  shows "manipulation_indices v =
      (if calls_ordered (view_events v) {} then Inr {i. is_cut (view_events v) i}
       else Inl KeyError)"
proof (cases "tcm_pending (view_events v) {}")
  case (Inl er)
  then have "\<not> calls_ordered (view_events v) {}"
    using ordered_pending_ok [OF _ assms, of "{}" "{}"] by fastforce
  with manipulation_indices_error [OF Inl] show ?thesis by simp
next
  case (Inr Q)
  with pending_ok_ordered [OF Inr, of "{}"] manipulation_indices_ok [OF Inr] show ?thesis by simp
qed

text \<open>
  On a view with at most one observation per tool call, the manipulation indices are defined
  exactly when every observation comes after its action, and the only error otherwise is the
  \<open>KeyError\<close> of \<open>pending_tool_call_ids.remove\<close>; when they are defined, they are the positions
  that neither split adjacent actions of a batch, nor separate an action from its observation, nor
  lie inside a tool loop.
\<close>

theorem manipulation_indices_defined:
  assumes "obs_unique (view_events v)"
  shows "manipulation_indices v =
      (if calls_ordered (view_events v) {} then Inr {i. is_cut (view_events v) i}
       else Inl KeyError)"
  using assms by (rule manipulation_indices_unique)

section \<open>Deleting between two manipulation indices\<close>

definition cut_view :: "nat \<Rightarrow> nat \<Rightarrow> event list \<Rightarrow> event list \<Rightarrow> event list" where
  "cut_view i j ss vs = take i vs @ ss @ drop j vs"

text \<open>Events that take no part in a tool call, such as a condensation summary.\<close>

definition no_tool_events :: "event list \<Rightarrow> bool" where
  "no_tool_events ss \<longleftrightarrow> (\<forall>e \<in> set ss. \<not> is_action e \<and> \<not> is_observation_base e)"

lemma no_tool_events_ids:
  assumes "no_tool_events ss"
  shows "filter is_action ss = []" and "filter is_observation_base ss = []"
    and "tcm_pending ss P = Inr P"
proof -
  show "filter is_action ss = []" "filter is_observation_base ss = []"
    using assms by (auto simp: no_tool_events_def filter_empty_conv)
  show "tcm_pending ss P = Inr P"
    using assms by (induction ss) (auto simp: no_tool_events_def tcm_pending_step_def)
qed

lemma call_ids_append:
  "action_tool_call_ids (xs @ ys) = action_tool_call_ids xs \<union> action_tool_call_ids ys"
  "observation_tool_call_ids (xs @ ys) =
     observation_tool_call_ids xs \<union> observation_tool_call_ids ys"
  by (auto simp: action_tool_call_ids_def observation_tool_call_ids_def)

lemma cut_pending_suffix:
  assumes "is_cut vs j" and "tcm_pending vs {} = Inr Q"
  shows "tcm_pending (drop j vs) {} = Inr Q"
proof -
  have "tcm_pending (take j vs @ drop j vs) {} = Inr Q" using assms(2) by simp
  with assms(1) show ?thesis by (simp add: tcm_pending_append is_cut_def del: append_take_drop_id)
qed

lemma cut_tool_calls:
  assumes idx: "manipulation_indices v = Inr I" and "i \<in> I" and "j \<in> I" and "i \<le> j"
    and uniq: "obs_unique (view_events v)" and matched: "calls_matched (view_events v)"
    and calls: "distinct (map tool_call_id (filter is_action (view_events v)))"
    and ss: "no_tool_events ss"
  shows "obs_unique (cut_view i j ss (view_events v)) \<and>
    calls_matched (cut_view i j ss (view_events v)) \<and>
    calls_ordered (cut_view i j ss (view_events v)) {}"
proof -
  let ?vs = "view_events v"
  let ?pre = "take i ?vs" and ?mid = "drop i (take j ?vs)" and ?post = "drop j ?vs"
  have split: "?vs = ?pre @ ?mid @ ?post"
    using \<open>i \<le> j\<close> by (rule take_append_drop_middle)
  from manipulation_indices_Inr [OF idx] assms(2,3) obtain Q
    where ci: "is_cut ?vs i" and cj: "is_cut ?vs j" and Q: "tcm_pending ?vs {} = Inr Q"
    by auto
  have pre: "tcm_pending ?pre {} = Inr {}" using ci by (simp add: is_cut_def)
  have post: "tcm_pending ?post {} = Inr Q" by (rule cut_pending_suffix [OF cj Q])
  have whole: "tcm_pending (?pre @ ss @ ?post) {} = Inr Q"
    using pre post no_tool_events_ids(3) [OF ss] by (simp add: tcm_pending_append)
  have uniq': "obs_unique (?pre @ ss @ ?post)"
  proof -
    have "distinct (map tool_call_id (filter is_observation_base (?pre @ ?mid @ ?post)))"
      using uniq split unfolding obs_unique_def by simp
    then show ?thesis using no_tool_events_ids(2) [OF ss] by (auto simp: obs_unique_def)
  qed
  have matched_post: "calls_matched ?post"
  proof -
    have take_j: "calls_matched (take j ?vs)"
      by (rule balanced_matched) (use cj in \<open>simp add: is_cut_def\<close>)
    have parts: "action_tool_call_ids ?vs = action_tool_call_ids (take j ?vs) \<union>
        action_tool_call_ids ?post"
      "observation_tool_call_ids ?vs = observation_tool_call_ids (take j ?vs) \<union>
        observation_tool_call_ids ?post"
      using call_ids_append [of "take j ?vs" ?post] by simp_all
    have "action_tool_call_ids (take j ?vs) \<inter> action_tool_call_ids ?post = {}"
    proof -
      have "distinct (map tool_call_id (filter is_action (take j ?vs @ ?post)))"
        using calls by simp
      then show ?thesis unfolding filter_append map_append distinct_append
        by (auto simp: action_tool_call_ids_def)
    qed
    moreover have "observation_tool_call_ids ?post \<subseteq> action_tool_call_ids ?post"
      using pending_bounds(2) [OF post] by simp
    ultimately show ?thesis
      using take_j matched parts by (auto simp: calls_matched_def)
  qed
  have "calls_matched (?pre @ ss @ ?post)"
    using matched_post balanced_matched [OF pre] no_tool_events_ids(1,2) [OF ss]
    by (simp add: calls_matched_def call_ids_append action_tool_call_ids_def
        observation_tool_call_ids_def image_Un)
  with uniq' pending_ok_ordered [OF whole, of "{}"] show ?thesis by (simp add: cut_view_def)
qed

text \<open>
  Forgetting the events between two manipulation indices and inserting a summary there keeps
  tool calls paired: the result still has one observation per call, matched calls, and every
  observation after its action, so the manipulation indices of the result are defined again.
\<close>

theorem cut_keeps_tool_calls:
  assumes idx: "manipulation_indices v = Inr I" and "i \<in> I" and "j \<in> I" and "i \<le> j"
    and uniq: "obs_unique (view_events v)" and matched: "calls_matched (view_events v)"
    and calls: "distinct (map tool_call_id (filter is_action (view_events v)))"
    and ss: "no_tool_events ss"
  shows "obs_unique (cut_view i j ss (view_events v)) \<and>
    calls_matched (cut_view i j ss (view_events v)) \<and>
    calls_ordered (cut_view i j ss (view_events v)) {}"
  using assms by (rule cut_tool_calls)

text \<open>
  The actions of each batch stand side by side in the view.
\<close>

definition batches_contiguous :: "event list \<Rightarrow> bool" where
  "batches_contiguous vs \<longleftrightarrow>
     (\<forall>c \<in> {..<length vs}. \<forall>b \<in> {..<c}. \<forall>a \<in> {..<b}.
        same_batch (vs ! a) (vs ! c) \<longrightarrow> same_batch (vs ! a) (vs ! b))"

lemma same_batch_sym: "same_batch x y \<Longrightarrow> same_batch y x"
  by (simp add: same_batch_def)

lemma same_batch_trans: "same_batch x y \<Longrightarrow> same_batch y z \<Longrightarrow> same_batch x z"
  by (simp add: same_batch_def)

lemma cut_not_in_batch:
  assumes "batches_contiguous vs" and "is_cut vs i" and "a < i" and "i \<le> c" and "c < length vs"
  shows "\<not> same_batch (vs ! a) (vs ! c)"
proof
  assume ac: "same_batch (vs ! a) (vs ! c)"
  have left: "same_batch (vs ! a) (vs ! (i - 1))"
  proof (cases "a = i - 1")
    case True
    then show ?thesis using ac by (simp add: same_batch_def)
  next
    case False
    then have "a < i - 1" "i - 1 < c" using assms(3,4) by auto
    with assms(1,5) ac show ?thesis by (auto simp: batches_contiguous_def)
  qed
  have right: "same_batch (vs ! a) (vs ! i)"
  proof (cases "i = c")
    case True
    with ac show ?thesis by simp
  next
    case False
    then have "i < c" using assms(4) by simp
    with assms(1,3,5) ac show ?thesis by (auto simp: batches_contiguous_def)
  qed
  have "same_batch (vs ! (i - 1)) (vs ! i)"
    using same_batch_trans [OF same_batch_sym [OF left] right] .
  moreover have "0 < i" "i < length vs" using assms(3-5) by auto
  ultimately show False using assms(2) by (simp add: is_cut_def)
qed

lemma batch_ids_append: "batch_ids (xs @ ys) r = batch_ids xs r \<union> batch_ids ys r"
  by (auto simp: batch_ids_def)

lemma batch_ids_no_tool: "no_tool_events ss \<Longrightarrow> batch_ids ss r = {}"
  by (auto simp: no_tool_events_def batch_ids_def)

lemma batch_on_one_side:
  assumes "batches_contiguous vs" and "is_cut vs i"
  shows "batch_ids (take i vs) r = {} \<or> batch_ids (drop i vs) r = {}"
proof (rule ccontr)
  assume "\<not> ?thesis"
  then obtain e f where e: "e \<in> set (take i vs)" "is_action e" "response_id e = r"
    and f: "f \<in> set (drop i vs)" "is_action f" "response_id f = r"
    by (auto simp: batch_ids_def)
  from e(1) obtain a where a: "a < i" "a < length vs" "vs ! a = e"
    by (auto simp: in_set_conv_nth)
  from f(1) obtain k where k: "k < length vs - i" "drop i vs ! k = f"
    by (auto simp: in_set_conv_nth)
  then have c: "i + k < length vs" "vs ! (i + k) = f" by auto
  have "same_batch (vs ! a) (vs ! (i + k))"
    using e f a(3) c(2) by (simp add: same_batch_def)
  with cut_not_in_batch [OF assms a(1) _ c(1)] show False by simp
qed

text \<open>
  When the actions of each LLM response stand side by side, forgetting the events between two
  manipulation indices keeps batches whole: of every batch either all actions remain or none.
\<close>

theorem cut_keeps_batches:
  assumes idx: "manipulation_indices v = Inr I" and "i \<in> I" and "j \<in> I" and "i \<le> j"
    and cont: "batches_contiguous (view_events v)" and ss: "no_tool_events ss"
  shows "batches_whole (view_events v) (cut_view i j ss (view_events v))"
proof -
  let ?vs = "view_events v"
  let ?pre = "take i ?vs" and ?mid = "drop i (take j ?vs)" and ?post = "drop j ?vs"
  have ci: "is_cut ?vs i" and cj: "is_cut ?vs j"
    using manipulation_indices_Inr [OF idx] assms(2,3) by auto
  have split: "?vs = ?pre @ ?mid @ ?post"
    using \<open>i \<le> j\<close> by (rule take_append_drop_middle)
  have tj: "take j ?vs = ?pre @ ?mid"
    using \<open>i \<le> j\<close> by (metis append_take_drop_id min.absorb1 take_take)
  have di: "drop i ?vs = ?mid @ ?post"
    using \<open>i \<le> j\<close> by (metis append.assoc append_same_eq append_take_drop_id split same_append_eq)
  show ?thesis unfolding batches_whole_def
  proof
    fix r
    have all: "batch_ids ?vs r = batch_ids ?pre r \<union> batch_ids ?mid r \<union> batch_ids ?post r"
      using arg_cong [OF split, of "\<lambda>l. batch_ids l r"] by (simp only: batch_ids_append) blast
    have cut: "batch_ids (cut_view i j ss ?vs) r = batch_ids ?pre r \<union> batch_ids ?post r"
      using batch_ids_no_tool [OF ss, of r] by (simp add: cut_view_def batch_ids_append)
    have "batch_ids ?pre r = {} \<or> batch_ids ?mid r \<union> batch_ids ?post r = {}"
      using batch_on_one_side [OF cont ci, of r] di by (simp add: batch_ids_append)
    moreover have "batch_ids ?pre r \<union> batch_ids ?mid r = {} \<or> batch_ids ?post r = {}"
      using batch_on_one_side [OF cont cj, of r] batch_ids_append [of ?pre ?mid r]
      by (simp flip: tj)
    ultimately show "batch_ids (cut_view i j ss ?vs) r = {} \<or>
        batch_ids (cut_view i j ss ?vs) r = batch_ids ?vs r"
      using all cut by auto
  qed
qed

section \<open>Tool loops at a manipulation index\<close>

lemma loops_scan_split:
  assumes "ys = [] \<or> \<not> continues_loop (hd ys) \<or> \<not> in_loop_after xs (cur \<noteq> None)"
  shows "loops_scan (xs @ ys) ls cur = loops_scan xs ls cur @ tool_loops ys"
  using assms
proof (induction xs arbitrary: ls cur)
  case Nil
  show ?case
  proof (cases ys)
    case Nil
    then show ?thesis by (simp add: tool_loops_def)
  next
    case (Cons y zs)
    show ?thesis
    proof (cases cur)
      case None
      then show ?thesis using loops_scan_prefix [of ys ls "[]" None] by (simp add: tool_loops_def)
    next
      case (Some l)
      with Nil.prems Cons have "\<not> continues_loop y" by simp
      with Some Cons loops_scan_prefix [of zs "ls @ [l]" "[]"] show ?thesis
        by (auto simp: tool_loops_def continues_loop_def)
    qed
  qed
next
  case (Cons x xs)
  show ?case
    by (cases "is_thinking_action x"; cases "is_action x \<or> is_observation_base x")
      (use Cons in \<open>auto simp del: not_action_and_observation\<close>)
qed

lemma tool_loops_at_cut:
  assumes "is_cut vs i"
  shows "tool_loops vs = tool_loops (take i vs) @ tool_loops (drop i vs)"
proof -
  have "drop i vs = [] \<or> \<not> continues_loop (hd (drop i vs)) \<or> \<not> in_loop_after (take i vs) False"
    using assms by (cases "i < length vs") (auto simp: is_cut_def hd_drop_conv_nth)
  from loops_scan_split [of "drop i vs" "take i vs" None "[]"] this show ?thesis
    by (simp add: tool_loops_def)
qed

lemma is_cut_take:
  assumes "is_cut vs i" and "i \<le> j"
  shows "is_cut (take j vs) i"
  using assms by (auto simp: is_cut_def min.absorb1)

lemma tool_loops_summary:
  assumes "no_tool_events ss" and "ss \<noteq> []"
  shows "tool_loops (xs @ ss @ ys) = tool_loops xs @ tool_loops ys"
proof -
  have ss: "loops_scan (ss @ ys) [] None = tool_loops ys"
    using assms(1) by (induction ss) (auto simp: no_tool_events_def tool_loops_def)
  have "\<not> continues_loop (hd (ss @ ys))"
    using assms by (cases ss) (auto simp: no_tool_events_def continues_loop_def)
  then have "loops_scan (xs @ (ss @ ys)) [] None = loops_scan xs [] None @ tool_loops (ss @ ys)"
    by (intro loops_scan_split) blast
  with ss show ?thesis by (simp add: tool_loops_def)
qed

text \<open>
  Replacing the events between two manipulation indices by a summary removes tool loops as a
  whole: the loops of the view are those before the range, those in it and those after it, and the
  loops of the result are exactly the first and the last of these, none split and none merged.
\<close>

theorem cut_keeps_tool_loops:
  assumes idx: "manipulation_indices v = Inr I" and "i \<in> I" and "j \<in> I" and "i \<le> j"
    and "no_tool_events ss" and "ss \<noteq> []"
  shows "tool_loops (view_events v) =
      tool_loops (take i (view_events v)) @ tool_loops (drop i (take j (view_events v))) @
      tool_loops (drop j (view_events v)) \<and>
    tool_loops (cut_view i j ss (view_events v)) =
      tool_loops (take i (view_events v)) @ tool_loops (drop j (view_events v))"
proof -
  let ?vs = "view_events v"
  have ci: "is_cut ?vs i" and cj: "is_cut ?vs j"
    using manipulation_indices_Inr [OF idx] assms(2,3) by auto
  have "tool_loops (take j ?vs) = tool_loops (take i ?vs) @ tool_loops (drop i (take j ?vs))"
    using tool_loops_at_cut [OF is_cut_take [OF ci \<open>i \<le> j\<close>]] \<open>i \<le> j\<close> by (simp add: min.absorb1)
  with tool_loops_at_cut [OF cj] tool_loops_summary [OF assms(5,6)] show ?thesis
    by (simp add: cut_view_def)
qed

section \<open>Closed instances\<close>

text \<open>A message, a batch of two calls with their results, and an agent message.\<close>

definition sample_view :: view where
  "sample_view = \<lparr>view_events = [sample_message ''m1'' SourceUser ''hi'',
     sample_action ''a1'' ''t1'' ''r1'', sample_action ''a2'' ''t2'' ''r1'',
     sample_observation ''o1'' ''t1'' ''a1'', sample_observation ''o2'' ''t2'' ''a2'',
     sample_message ''m2'' SourceAgent ''done''], unhandled_condensation_request = False\<rparr>"

lemma sample_view_indices: "manipulation_indices sample_view = Inr {0, 1, 5, 6}"
  by code_simp

lemma sample_view_facts:
  "obs_unique (view_events sample_view)" "calls_matched (view_events sample_view)"
  "distinct (map tool_call_id (filter is_action (view_events sample_view)))"
  "no_tool_events [sample_summary ''s'']"
  by (code_simp, code_simp, code_simp, code_simp)

lemma sample_view_contiguous: "batches_contiguous (view_events sample_view)"
  by code_simp

theorem manipulation_indices_defined_witness:
  "obs_unique (view_events sample_view) \<and>
   manipulation_indices sample_view = Inr {i. is_cut (view_events sample_view) i}"
proof -
  have "calls_ordered (view_events sample_view) {}" by code_simp
  then show ?thesis using manipulation_indices_defined [OF sample_view_facts(1)]
      sample_view_facts(1) by simp
qed

theorem cut_keeps_tool_calls_witness:
  "calls_matched (cut_view 1 5 [sample_summary ''s''] (view_events sample_view)) \<and>
   calls_ordered (cut_view 1 5 [sample_summary ''s''] (view_events sample_view)) {}"
  using cut_keeps_tool_calls [OF sample_view_indices, of 1 5] sample_view_facts by simp

theorem cut_keeps_batches_witness:
  "batches_whole (view_events sample_view)
     (cut_view 1 5 [sample_summary ''s''] (view_events sample_view))"
  using cut_keeps_batches [OF sample_view_indices, of 1 5] sample_view_facts sample_view_contiguous
  by simp

theorem cut_keeps_tool_loops_witness:
  "tool_loops (cut_view 1 5 [sample_summary ''s''] (view_events sample_view)) =
     tool_loops (take 1 (view_events sample_view)) @ tool_loops (drop 5 (view_events sample_view))"
  using cut_keeps_tool_loops [OF sample_view_indices, of 1 5] sample_view_facts(4) by simp

text \<open>A response of two calls of which the first has invalid arguments.\<close>

definition sample_split_view :: view where
  "sample_split_view = \<lparr>view_events = [sample_action ''a1'' ''t1'' ''r1'', sample_error ''e1'' ''t1'',
     sample_action ''a2'' ''t2'' ''r1'', sample_observation ''o2'' ''t2'' ''a2''],
     unhandled_condensation_request = False\<rparr>"

text \<open>
  The contiguity hypothesis of the previous property is needed. When the first call of a
  response has invalid arguments, its error event is emitted before the next action of the same
  response. The position after that error event is a manipulation index although it lies inside
  the batch, and forgetting up to it leaves half a batch behind.
\<close>

theorem batch_split_at_manipulation_index:
  "\<exists>v I. manipulation_indices v = Inr I \<and> 0 \<in> I \<and> 2 \<in> I \<and>
     \<not> batches_whole (view_events v) (cut_view 0 2 [] (view_events v))"
proof -
  let ?v = sample_split_view
  have idx: "manipulation_indices ?v = Inr {0, 2, 4}" by code_simp
  have ids: "batch_ids (cut_view 0 2 [] (view_events ?v)) ''r1'' = {''a2''}"
    "batch_ids (view_events ?v) ''r1'' = {''a1'', ''a2''}"
    by (code_simp, code_simp)
  have "\<not> batches_whole (view_events ?v) (cut_view 0 2 [] (view_events ?v))"
  proof
    assume "batches_whole (view_events ?v) (cut_view 0 2 [] (view_events ?v))"
    then have "{''a2''} = ({} :: string set) \<or> {''a2''} = {''a1'', ''a2''}"
      unfolding batches_whole_def using ids by metis
    then show False by (auto simp: doubleton_eq_iff)
  qed
  with idx show ?thesis by blast
qed

end
