(* ===== verification/Messages.thy ===== *)
theory Messages
  imports Events Samples
begin

text \<open>
  The projection of events to LLM messages: \<open>to_llm_message\<close> of every event class and
  \<open>LLMConvertibleEvent.events_to_messages\<close> of \<^verbatim>\<open>agentrt/sdk/event/base.py\<close>, which recombines the
  actions of one LLM response and merges consecutive plain user turns.
\<close>

section \<open>One event\<close>

definition tool_message :: "string \<Rightarrow> string \<Rightarrow> content list \<Rightarrow> message" where
  "tool_message tool_name call_id c =
     (plain_message RoleTool c)\<lparr>msg_name := Some tool_name, msg_tool_call_id := Some call_id\<rparr>"

text \<open>The assistant turn an action event stands for, with the tool calls \<open>calls\<close>.\<close>

definition assistant_message :: "action_fields \<Rightarrow> message_tool_call list \<Rightarrow> message" where
  "assistant_message a calls =
     (plain_message RoleAssistant (ae_thought a))
       \<lparr>msg_tool_calls := Some calls,
        msg_reasoning_content := ae_reasoning_content a,
        msg_thinking_blocks := ae_thinking_blocks a,
        msg_responses_reasoning_item := ae_responses_reasoning_item a\<rparr>"

definition action_to_llm_message :: "action_fields \<Rightarrow> message" where
  [simp]: "action_to_llm_message a = assistant_message a [ae_tool_call a]"

definition observation_to_llm_message :: "observation_fields \<Rightarrow> message" where
  [simp]: "observation_to_llm_message x =
     tool_message (oe_tool_name x) (oe_tool_call_id x)
       (to_llm_content (oe_observation x) @ oe_extended_content x)"

definition reject_to_llm_message :: "reject_fields \<Rightarrow> message" where
  [simp]: "reject_to_llm_message x =
     tool_message (re_tool_name x) (re_tool_call_id x)
       [TextContent (''Action rejected: '' @ re_rejection_reason x)]"

definition error_to_llm_message :: "error_fields \<Rightarrow> message" where
  [simp]: "error_to_llm_message x =
     tool_message (ee_tool_name x) (ee_tool_call_id x) [TextContent (ee_error x)]"

definition message_to_llm_message :: "message_fields \<Rightarrow> message" where
  [simp]: "message_to_llm_message x =
     (me_llm_message x)
       \<lparr>msg_content := msg_content (me_llm_message x) @ me_extended_content x\<rparr>"

definition system_to_llm_message :: "system_fields \<Rightarrow> message" where
  [simp]: "system_to_llm_message x =
     plain_message RoleSystem
       (case se_dynamic_context x of
          Some d \<Rightarrow> [TextContent (se_system_prompt x), TextContent d]
        | None \<Rightarrow> [TextContent (se_system_prompt x)])"

definition summary_to_llm_message :: "string \<Rightarrow> message" where
  [simp]: "summary_to_llm_message summary = plain_message RoleUser [TextContent summary]"

text \<open>The method of the event's class; events that are not LLM-convertible have none.\<close>

fun to_llm_message :: "event \<Rightarrow> message result" where
  "to_llm_message (ActionEvent _ a) = Inr (action_to_llm_message a)"
| "to_llm_message (ObservationEvent _ x) = Inr (observation_to_llm_message x)"
| "to_llm_message (UserRejectObservation _ x) = Inr (reject_to_llm_message x)"
| "to_llm_message (AgentErrorEvent _ x) = Inr (error_to_llm_message x)"
| "to_llm_message (MessageEvent _ x) = Inr (message_to_llm_message x)"
| "to_llm_message (SystemPromptEvent _ x) = Inr (system_to_llm_message x)"
| "to_llm_message (CondensationSummaryEvent _ s) = Inr (summary_to_llm_message s)"
| "to_llm_message _ = Inl AttributeError"

section \<open>Batches and merging\<close>

fun thought :: "event \<Rightarrow> content list" where
  "thought (ActionEvent _ a) = ae_thought a"
| "thought _ = []"

text \<open>The \<open>tool_call\<close> of an action event, as a list.\<close>

fun action_calls :: "event \<Rightarrow> message_tool_call list" where
  "action_calls (ActionEvent _ a) = [ae_tool_call a]"
| "action_calls _ = []"

fun combine_action_events :: "event list \<Rightarrow> message result" where
  "combine_action_events [e] = to_llm_message e"
| "combine_action_events (ActionEvent m a # es) =
     (if list_all (\<lambda>e. thought e = []) es
      then Inr (assistant_message a (concat (map action_calls (ActionEvent m a # es))))
      else Inl AssertionError)"
| "combine_action_events _ = Inl AttributeError"

definition is_plain_user_message :: "message \<Rightarrow> bool" where
  "is_plain_user_message m \<longleftrightarrow>
     msg_role m = RoleUser \<and> msg_tool_calls m = None \<and> msg_tool_call_id m = None \<and>
     msg_name m = None"

definition can_merge_user_messages :: "message \<Rightarrow> message \<Rightarrow> bool" where
  "can_merge_user_messages previous current \<longleftrightarrow>
     is_plain_user_message previous \<and> is_plain_user_message current"

text \<open>Append a message, or merge its content into the last one.\<close>

definition push_message :: "message list \<Rightarrow> message \<Rightarrow> message list" where
  "push_message messages msg =
     (if messages \<noteq> [] \<and> can_merge_user_messages (last messages) msg
      then butlast messages @
        [(last messages)\<lparr>msg_content := msg_content (last messages) @ msg_content msg\<rparr>]
      else messages @ [msg])"

definition same_response :: "event \<Rightarrow> event \<Rightarrow> bool" where
  "same_response e f \<longleftrightarrow> is_action f \<and> response_id f = response_id e"

function messages_from :: "event list \<Rightarrow> message list \<Rightarrow> message list result" where
  "messages_from [] messages = Inr messages"
| "messages_from (e # es) messages =
     (if is_action e then
        and_then (combine_action_events (e # takeWhile (same_response e) es)) (\<lambda>msg.
          messages_from (dropWhile (same_response e) es) (push_message messages msg))
      else
        and_then (to_llm_message e) (\<lambda>msg.
          messages_from es (push_message messages msg)))"
  by pat_completeness auto
termination
  by (relation "measure (\<lambda>(es, _). length es)")
    (auto simp: less_Suc_eq_le length_dropWhile_le)

definition events_to_messages :: "event list \<Rightarrow> message list result" where
  "events_to_messages events = messages_from events []"

section \<open>What the projection keeps\<close>

definition message_calls :: "message \<Rightarrow> message_tool_call list" where
  "message_calls m = (case msg_tool_calls m of None \<Rightarrow> [] | Some cs \<Rightarrow> cs)"

definition message_result_ids :: "message \<Rightarrow> string list" where
  "message_result_ids m = (case msg_tool_call_id m of None \<Rightarrow> [] | Some i \<Rightarrow> [i])"

text \<open>What one event contributes: its content, tool calls and tool result id.\<close>

definition event_message :: "event \<Rightarrow> message" where
  "event_message e = (case to_llm_message e of Inr m \<Rightarrow> m | Inl _ \<Rightarrow> plain_message RoleUser [])"

abbreviation event_content :: "event \<Rightarrow> content list" where
  "event_content e \<equiv> msg_content (event_message e)"

abbreviation event_calls :: "event \<Rightarrow> message_tool_call list" where
  "event_calls e \<equiv> message_calls (event_message e)"

abbreviation event_result_ids :: "event \<Rightarrow> string list" where
  "event_result_ids e \<equiv> message_result_ids (event_message e)"

lemmas message_simps =
  plain_message_def tool_message_def assistant_message_def message_calls_def
  message_result_ids_def

lemma convertible_to_llm_message:
  "is_llm_convertible e \<longleftrightarrow> is_ok (to_llm_message e)"
  by (cases e) auto

lemma event_message_action [simp]:
  "event_message (ActionEvent m a) = assistant_message a [ae_tool_call a]"
  by (simp add: event_message_def)

text \<open>
  The observable parts of a message list as a function of its messages; a projection is kept by
  \<open>push_message\<close> when it maps a merged message to the concatenation.
\<close>

locale message_projection =
  fixes proj :: "message \<Rightarrow> 'a list"
  assumes proj_merge:
    "can_merge_user_messages m n \<Longrightarrow>
       proj (m\<lparr>msg_content := msg_content m @ msg_content n\<rparr>) = proj m @ proj n"
    and proj_batch:
    "list_all (\<lambda>e. is_action e) es \<Longrightarrow> list_all (\<lambda>e. thought e = []) es \<Longrightarrow>
       proj (assistant_message a (c # concat (map action_calls es))) =
         proj (assistant_message a [c]) @ concat (map (\<lambda>e. proj (event_message e)) es)"
begin

lemma push_proj:
  "concat (map proj (push_message ms m)) = concat (map proj ms) @ proj m"
  by (cases ms rule: rev_cases) (auto simp: push_message_def proj_merge)

lemma combine_proj:
  assumes "combine_action_events (e # es) = Inr m" and "is_action e" and "list_all is_action es"
  shows "proj m = concat (map (\<lambda>e. proj (event_message e)) (e # es))"
proof (cases es)
  case Nil
  with assms(1) show ?thesis by (simp add: event_message_def)
next
  case (Cons f fs)
  from assms(2) obtain k a where e: "e = ActionEvent k a" by (cases e) auto
  with Cons assms(1) have th: "list_all (\<lambda>e. thought e = []) es"
    and m: "m = assistant_message a (ae_tool_call a # concat (map action_calls es))"
    by (auto split: if_splits)
  show ?thesis using proj_batch [OF assms(3) th] m e by simp
qed

lemma messages_from_proj:
  "messages_from es ms = Inr ms' \<Longrightarrow>
     concat (map proj ms') = concat (map proj ms) @ concat (map (\<lambda>e. proj (event_message e)) es)"
proof (induction es ms arbitrary: ms' rule: messages_from.induct)
  case (2 e es ms)
  let ?tw = "takeWhile (same_response e) es" and ?dw = "dropWhile (same_response e) es"
  show ?case
  proof (cases "is_action e")
    case True
    with "2.prems" obtain m where m: "combine_action_events (e # ?tw) = Inr m"
      and r: "messages_from ?dw (push_message ms m) = Inr ms'"
      by (auto simp: and_then_Inr_iff)
    have "list_all is_action ?tw"
      by (auto simp: list_all_iff same_response_def dest: set_takeWhileD)
    from combine_proj [OF m True this] "2.IH"(1) [OF True m r] push_proj
    have "concat (map proj ms') = concat (map proj ms) @ proj (event_message e) @
        concat (map (\<lambda>e. proj (event_message e)) ?tw) @
        concat (map (\<lambda>e. proj (event_message e)) ?dw)" by simp
    then show ?thesis
      by (simp only: concat_append [symmetric] map_append [symmetric] takeWhile_dropWhile_id
          list.map concat.simps)
  next
    case False
    with "2.prems" obtain m where m: "to_llm_message e = Inr m"
      and r: "messages_from es (push_message ms m) = Inr ms'"
      by (auto simp: and_then_Inr_iff)
    from "2.IH"(2) [OF False m r] push_proj m show ?thesis by (simp add: event_message_def)
  qed
qed simp

lemma events_to_messages_proj:
  "events_to_messages es = Inr ms \<Longrightarrow>
     concat (map proj ms) = concat (map (\<lambda>e. proj (event_message e)) es)"
  unfolding events_to_messages_def by (drule messages_from_proj) simp

end

lemma thoughtless_contents:
  assumes "list_all is_action es" and "list_all (\<lambda>e. thought e = []) es"
  shows "concat (map event_content es) = []"
  using assms
proof (induction es)
  case (Cons e es)
  then show ?case by (cases e) (auto simp: message_simps)
qed simp

lemma action_event_calls:
  "list_all is_action es \<Longrightarrow> concat (map event_calls es) = concat (map action_calls es)"
proof (induction es)
  case (Cons e es)
  then show ?case by (cases e) (auto simp: message_simps)
qed simp

lemma action_result_ids:
  "list_all is_action es \<Longrightarrow> concat (map event_result_ids es) = []"
proof (induction es)
  case (Cons e es)
  then show ?case by (cases e) (auto simp: message_simps)
qed simp

interpretation contents: message_projection msg_content
proof unfold_locales
  fix es :: "event list" and a :: action_fields and c :: message_tool_call
  assume "list_all (\<lambda>e. is_action e) es" "list_all (\<lambda>e. thought e = []) es"
  then show "msg_content (assistant_message a (c # concat (map action_calls es))) =
      msg_content (assistant_message a [c]) @ concat (map event_content es)"
    by (simp add: thoughtless_contents) (simp add: message_simps)
qed simp

interpretation calls: message_projection message_calls
proof unfold_locales
  fix es :: "event list" and a :: action_fields and c :: message_tool_call
  assume "list_all (\<lambda>e. is_action e) es" "list_all (\<lambda>e. thought e = []) es"
  then show "message_calls (assistant_message a (c # concat (map action_calls es))) =
      message_calls (assistant_message a [c]) @ concat (map event_calls es)"
    by (simp add: action_event_calls) (simp add: message_simps)
qed (simp add: can_merge_user_messages_def is_plain_user_message_def message_calls_def)

interpretation results: message_projection message_result_ids
proof unfold_locales
  fix es :: "event list" and a :: action_fields and c :: message_tool_call
  assume "list_all (\<lambda>e. is_action e) es" "list_all (\<lambda>e. thought e = []) es"
  then show "message_result_ids (assistant_message a (c # concat (map action_calls es))) =
      message_result_ids (assistant_message a [c]) @ concat (map event_result_ids es)"
    by (simp add: action_result_ids) (simp add: message_simps)
qed (simp add: can_merge_user_messages_def is_plain_user_message_def message_result_ids_def)

text \<open>
  C30. The projection loses nothing and reorders nothing: the contents, the tool calls and the tool
  result ids of the messages, read in order, are those of the events, although the actions of one
  response share one message and consecutive user turns are merged.
\<close>

theorem events_to_messages_keeps:
  assumes "events_to_messages es = Inr ms"
  shows "concat (map msg_content ms) = concat (map event_content es) \<and>
    concat (map message_calls ms) = concat (map event_calls es) \<and>
    concat (map message_result_ids ms) = concat (map event_result_ids es)"
  using contents.events_to_messages_proj [OF assms] calls.events_to_messages_proj [OF assms]
    results.events_to_messages_proj [OF assms] by blast

section \<open>User turns alternate\<close>

lemma push_successively:
  assumes "successively (\<lambda>m n. \<not> can_merge_user_messages m n) ms"
  shows "successively (\<lambda>m n. \<not> can_merge_user_messages m n) (push_message ms m)"
proof (cases ms rule: rev_cases)
  case Nil
  then show ?thesis by (simp add: push_message_def)
next
  case (snoc ms' l)
  then show ?thesis using assms
    by (auto simp: push_message_def successively_append_iff can_merge_user_messages_def
        is_plain_user_message_def)
qed

lemma messages_from_successively:
  assumes "messages_from es ms = Inr ms'"
    and "successively (\<lambda>m n. \<not> can_merge_user_messages m n) ms"
  shows "successively (\<lambda>m n. \<not> can_merge_user_messages m n) ms'"
  using assms
proof (induction es ms arbitrary: ms' rule: messages_from.induct)
  case (2 e es ms)
  then show ?case
    by (cases "is_action e") (auto simp: and_then_Inr_iff push_successively)
qed simp

text \<open>
  After the projection no two adjacent messages are plain user turns: every run of user
  messages and summaries reaches the LLM as one turn.
\<close>

theorem events_to_messages_user_turns:
  assumes "events_to_messages es = Inr ms" and "Suc i < length ms"
  shows "\<not> (is_plain_user_message (ms ! i) \<and> is_plain_user_message (ms ! Suc i))"
proof -
  have "successively (\<lambda>m n. \<not> can_merge_user_messages m n) ms"
    using assms(1) unfolding events_to_messages_def
    by (rule messages_from_successively) simp
  with assms(2) show ?thesis
    by (auto simp: successively_conv_nth can_merge_user_messages_def)
qed

section \<open>When the projection is defined\<close>

text \<open>An action that continues the response of the action right before it carries no thought.\<close>

definition batch_thoughts_ok :: "event list \<Rightarrow> bool" where
  "batch_thoughts_ok es \<longleftrightarrow>
     successively (\<lambda>e f. is_action e \<and> same_response e f \<longrightarrow> thought f = []) es"

lemma combine_ok:
  assumes "is_action e" and "list_all is_action es"
  shows "combine_action_events (e # es) =
    (if es \<noteq> [] \<and> \<not> list_all (\<lambda>e. thought e = []) es then Inl AssertionError
     else Inr (event_message e \<lparr>msg_tool_calls := Some (concat (map action_calls (e # es)))\<rparr>))"
proof -
  from assms(1) obtain k a where "e = ActionEvent k a" by (cases e) auto
  then show ?thesis by (cases es) (auto simp: message_simps)
qed

lemma run_thoughts:
  assumes "is_action e" and "list_all (same_response e) es"
  shows "batch_thoughts_ok (e # es) \<longleftrightarrow> list_all (\<lambda>e. thought e = []) es"
  using assms
proof (induction es arbitrary: e)
  case Nil
  then show ?case by (simp add: batch_thoughts_ok_def)
next
  case (Cons f es)
  have f: "is_action f" "same_response e f" "list_all (same_response f) es"
    using Cons.prems by (auto simp: same_response_def list_all_iff)
  show ?case using Cons.IH [OF f(1,3)] f Cons.prems(1)
    by (auto simp: batch_thoughts_ok_def)
qed

lemma batch_thoughts_split:
  assumes "is_action e"
  shows "batch_thoughts_ok (e # es) \<longleftrightarrow>
    list_all (\<lambda>e. thought e = []) (takeWhile (same_response e) es) \<and>
    batch_thoughts_ok (dropWhile (same_response e) es)"
proof -
  let ?tw = "takeWhile (same_response e) es" and ?dw = "dropWhile (same_response e) es"
  let ?l = "last (e # ?tw)"
  have tw: "list_all (same_response e) ?tw" by (auto simp: list_all_iff dest: set_takeWhileD)
  have l: "is_action ?l \<and> response_id ?l = response_id e"
    using tw assms by (cases "?tw" rule: rev_cases) (auto simp: same_response_def)
  have link: "?dw \<noteq> [] \<longrightarrow> \<not> same_response ?l (hd ?dw)"
    using l hd_dropWhile [of "same_response e" es] by (auto simp: same_response_def)
  have "batch_thoughts_ok ((e # ?tw) @ ?dw) \<longleftrightarrow>
      batch_thoughts_ok (e # ?tw) \<and> batch_thoughts_ok ?dw"
    using link unfolding batch_thoughts_ok_def successively_append_iff by auto
  then show ?thesis using run_thoughts [OF assms tw] by simp
qed

lemma batch_thoughts_tail:
  "\<not> is_action e \<Longrightarrow> batch_thoughts_ok (e # es) = batch_thoughts_ok es"
  by (cases es) (auto simp: batch_thoughts_ok_def)

lemma messages_from_defined:
  assumes "list_all is_llm_convertible es"
  shows "(if batch_thoughts_ok es then is_ok (messages_from es ms)
    else messages_from es ms = Inl AssertionError)"
  using assms
proof (induction es ms rule: messages_from.induct)
  case (1 ms)
  then show ?case by (simp add: batch_thoughts_ok_def)
next
  case (2 e es ms)
  let ?tw = "takeWhile (same_response e) es" and ?dw = "dropWhile (same_response e) es"
  show ?case
  proof (cases "is_action e")
    case True
    have tw: "list_all is_action ?tw"
      by (auto simp: list_all_iff same_response_def dest: set_takeWhileD)
    have dw: "list_all is_llm_convertible ?dw"
      using "2.prems" by (auto simp: list_all_iff dest: set_dropWhileD)
    note c = combine_ok [OF True tw] and s = batch_thoughts_split [OF True, of es]
    show ?thesis
    proof (cases "list_all (\<lambda>e. thought e = []) ?tw")
      case t: True
      with c obtain m where m: "combine_action_events (e # ?tw) = Inr m" by auto
      show ?thesis using "2.IH"(1) [OF True m dw] True m s t by simp
    next
      case False
      with c s True show ?thesis by auto
    qed
  next
    case False
    with "2.prems" obtain m where m: "to_llm_message e = Inr m"
      by (auto simp: convertible_to_llm_message is_ok_iff)
    show ?thesis using "2.IH"(2) [OF False m] "2.prems" False m batch_thoughts_tail by auto
  qed
qed

text \<open>
  On LLM-convertible events the projection returns exactly when no action that continues the
  response of the action right before it carries a thought; otherwise the assertion of
  \<open>_combine_action_events\<close> fails, and no other error is possible.
\<close>

theorem events_to_messages_defined:
  assumes "list_all is_llm_convertible es"
  shows "(is_ok (events_to_messages es) \<longleftrightarrow> batch_thoughts_ok es) \<and>
    (\<forall>err. events_to_messages es = Inl err \<longleftrightarrow> \<not> batch_thoughts_ok es \<and> err = AssertionError)"
  using messages_from_defined [OF assms, of "[]"]
  by (auto simp: events_to_messages_def is_ok_iff split: if_splits)

section \<open>Closed instances\<close>

text \<open>Two user turns, one response with two tool calls, and the two results.\<close>

definition sample_turns :: "event list" where
  "sample_turns = [sample_message ''m1'' SourceUser ''hi'', sample_message ''m2'' SourceUser ''go'',
     sample_action ''a1'' ''t1'' ''r1'', sample_action ''a2'' ''t2'' ''r1'',
     sample_observation ''o1'' ''t1'' ''a1'', sample_observation ''o2'' ''t2'' ''a2'']"

definition sample_turn_messages :: "message list" where
  "sample_turn_messages =
     (case events_to_messages sample_turns of Inr ms \<Rightarrow> ms | Inl _ \<Rightarrow> [])"

lemma sample_turns_ok:
  "events_to_messages sample_turns = Inr sample_turn_messages" "length sample_turn_messages = 4"
  by code_simp+

theorem events_to_messages_keeps_witness:
  "concat (map message_calls sample_turn_messages) = concat (map event_calls sample_turns) \<and>
   concat (map message_result_ids sample_turn_messages) = [''t1'', ''t2'']"
proof -
  have "concat (map event_result_ids sample_turns) = [''t1'', ''t2'']" by code_simp
  with events_to_messages_keeps [OF sample_turns_ok(1)] show ?thesis by simp
qed

theorem events_to_messages_user_turns_witness:
  "\<not> (is_plain_user_message (sample_turn_messages ! 0) \<and>
       is_plain_user_message (sample_turn_messages ! Suc 0))"
  using events_to_messages_user_turns [OF sample_turns_ok(1), of 0] sample_turns_ok(2) by simp

theorem events_to_messages_defined_witness:
  "list_all is_llm_convertible sample_turns \<and>
   is_ok (events_to_messages sample_turns) = batch_thoughts_ok sample_turns"
proof -
  have "list_all is_llm_convertible sample_turns" by code_simp
  with events_to_messages_defined show ?thesis by blast
qed

end
