(* ===== verification/Text_Utils.thy ===== *)
theory Text_Utils
  imports Prelude
begin

text \<open>
  Strings: decimal numerals (Python's \<open>str(n)\<close> and \<open>int(s)\<close> on digit strings), line splitting,
  whitespace stripping, and the middle truncation of \<^verbatim>\<open>agentrt/sdk/utils/truncate.py\<close>. A
  \<open>string\<close> is a list of 8-bit characters, read as the code points of Latin-1 text.
\<close>

section \<open>Decimal numerals\<close>

definition digit_char :: "nat \<Rightarrow> char" where
  "digit_char d = char_of (48 + d)"

definition char_digit :: "char \<Rightarrow> nat" where
  "char_digit c = of_char c - 48"

definition is_digit :: "char \<Rightarrow> bool" where
  "is_digit c \<longleftrightarrow> (48::nat) \<le> of_char c \<and> of_char c \<le> (57::nat)"

fun dec :: "nat \<Rightarrow> string" where
  "dec n = (if n < 10 then [digit_char n] else dec (n div 10) @ [digit_char (n mod 10)])"

declare dec.simps [simp del]

definition parse_dec :: "string \<Rightarrow> nat" where
  "parse_dec s = foldl (\<lambda>a c. 10 * a + char_digit c) 0 s"

lemma char_digit_char [simp]: "d < 10 \<Longrightarrow> char_digit (digit_char d) = d"
  by (simp add: char_digit_def digit_char_def)

lemma is_digit_char [simp]: "d < 10 \<Longrightarrow> is_digit (digit_char d)"
  by (simp add: is_digit_def digit_char_def)

lemma dec_digits: "list_all is_digit (dec n)"
proof (induction n rule: dec.induct)
  case (1 n)
  then show ?case by (subst dec.simps) auto
qed

lemma dec_nonempty [simp]: "dec n \<noteq> []"
  by (subst dec.simps) auto

lemma parse_dec_snoc: "parse_dec (s @ [c]) = 10 * parse_dec s + char_digit c"
  by (simp add: parse_dec_def)

lemma parse_dec_dec [simp]: "parse_dec (dec n) = n"
proof (induction n rule: dec.induct)
  case (1 n)
  show ?case
  proof (cases "n < 10")
    case True
    then show ?thesis by (subst dec.simps) (simp add: parse_dec_def)
  next
    case False
    with 1 show ?thesis by (subst dec.simps) (simp add: parse_dec_snoc)
  qed
qed

lemma parse_dec_zeros: "parse_dec (replicate k (digit_char 0) @ s) = parse_dec s"
proof -
  have "foldl (\<lambda>a c. 10 * a + char_digit c) 0 (replicate k (digit_char 0)) = 0"
    by (induction k) auto
  then show ?thesis by (simp add: parse_dec_def)
qed

lemma dec_inject [simp]: "dec m = dec n \<longleftrightarrow> m = n"
  by (metis parse_dec_dec)

text \<open>\<open>f"{n:05d}"\<close>: padded with zeros to at least \<open>w\<close> characters.\<close>

definition dec_padded :: "nat \<Rightarrow> nat \<Rightarrow> string" where
  "dec_padded w n = replicate (w - length (dec n)) (digit_char 0) @ dec n"

lemma parse_dec_padded [simp]: "parse_dec (dec_padded w n) = n"
  by (simp add: dec_padded_def parse_dec_zeros)

lemma dec_padded_digits: "list_all is_digit (dec_padded w n)"
  using dec_digits [of n] by (auto simp: dec_padded_def list_all_iff)

lemma dec_padded_length: "w \<le> length (dec_padded w n)"
  by (simp add: dec_padded_def)

lemma dec_padded_inject [simp]: "dec_padded w m = dec_padded w n \<longleftrightarrow> m = n"
  by (metis parse_dec_padded)

section \<open>Whitespace\<close>

text \<open>\<open>str.strip()\<close>.\<close>

definition is_space :: "char \<Rightarrow> bool" where
  "is_space c \<longleftrightarrow>
     (of_char c :: nat) \<in> {9, 10, 11, 12, 13, 28, 29, 30, 31, 32, 133, 160}"

definition strip :: "string \<Rightarrow> string" where
  "strip s = rev (dropWhile is_space (rev (dropWhile is_space s)))"

text \<open>\<open>sep.join(parts)\<close>.\<close>

fun join :: "string \<Rightarrow> string list \<Rightarrow> string" where
  "join sep [] = []"
| "join sep [s] = s"
| "join sep (s # t # ss) = s @ sep @ join sep (t # ss)"

section \<open>Truncation\<close>

text \<open>
  \<open>len(s.splitlines())\<close>: a line ends at a line feed, a carriage return (with a following line
  feed), a vertical tab, a form feed, a file, group or record separator or a next-line character;
  text after the last end of line is a line of its own.
\<close>

definition is_line_end :: "char \<Rightarrow> bool" where
  "is_line_end c \<longleftrightarrow> (of_char c :: nat) \<in> {10, 11, 12, 13, 28, 29, 30, 133}"

fun count_lines :: "string \<Rightarrow> nat" where
  "count_lines [] = 0"
| "count_lines [c] = 1"
| "count_lines (c # d # cs) =
     (if c = CHR 0x0D \<and> d = CHR 0x0A then Suc (count_lines cs)
      else if is_line_end c then Suc (count_lines (d # cs))
      else count_lines (d # cs))"

definition DEFAULT_TRUNCATE_NOTICE :: string where
  "DEFAULT_TRUNCATE_NOTICE =
     ''<response clipped><NOTE>Due to the max output limit, only part of the full '' @
     ''response has been shown to you.</NOTE>''"

definition persist_notice :: "string \<Rightarrow> nat \<Rightarrow> string" where
  "persist_notice file_path line_num =
     ''<response clipped><NOTE>Due to the max output limit, only part of the full '' @
     ''response has been shown to you. The complete output has been saved to '' @ file_path @
     '' - you can use other tools to view the full content (truncated '' @
     ''part starts around line '' @ dec line_num @ '').</NOTE>''"

text \<open>
  \<open>maybe_truncate\<close>; \<open>saved\<close> is the path \<open>_save_full_content\<close> returns when a save directory is
  given and the file can be written, and \<open>None\<close> otherwise.
\<close>

definition clip :: "string \<Rightarrow> nat \<Rightarrow> nat \<Rightarrow> string \<Rightarrow> string" where
  "clip content n proposed_head final_notice =
     (if n \<le> length final_notice then take n final_notice
      else
        let remaining = n - length final_notice;
            head_chars = min proposed_head remaining;
            tail_chars = remaining - head_chars
        in take head_chars content @ final_notice @
           (if 0 < tail_chars then drop (length content - tail_chars) content else []))"

definition maybe_truncate ::
    "string \<Rightarrow> int option \<Rightarrow> string \<Rightarrow> string option \<Rightarrow> string" where
  "maybe_truncate content truncate_after truncate_notice saved =
     (case truncate_after of
        None \<Rightarrow> content
      | Some limit \<Rightarrow>
          if limit = 0 \<or> int (length content) \<le> limit \<or> limit < 0 then content
          else let n = nat limit in
            if n \<le> length truncate_notice then take n truncate_notice
            else
              let available_chars = n - length truncate_notice;
                  proposed_head = available_chars div 2 + available_chars mod 2;
                  final_notice =
                    (case saved of
                       None \<Rightarrow> truncate_notice
                     | Some path \<Rightarrow>
                         persist_notice path (count_lines (take proposed_head content) + 1))
              in clip content n proposed_head final_notice)"

lemma clip_fits: "n \<le> length content \<Longrightarrow> length (clip content n h notice) \<le> n"
  by (auto simp: clip_def Let_def)

text \<open>
  Truncation with a positive limit always fits the limit, whatever the notice and whether or
  not the full content was saved, and a text within the limit is returned unchanged.
\<close>

theorem maybe_truncate_fits:
  assumes "0 < limit"
  shows "int (length (maybe_truncate content (Some limit) notice saved)) \<le> limit \<and>
    (int (length content) \<le> limit \<longrightarrow>
       maybe_truncate content (Some limit) notice saved = content)"
  using assms clip_fits [of "nat limit" content]
  by (simp add: maybe_truncate_def Let_def) (smt (verit) length_take min.cobounded2 nat_int_comparison(3) int_nat_eq)

text \<open>
  When the notice leaves room, truncation keeps both ends of the text: the result starts with
  a prefix of the content and ends with a suffix of it, the head at most one character longer than
  the tail, and is exactly as long as the limit.
\<close>

theorem maybe_truncate_keeps_both_ends:
  assumes "int (length notice) < limit" and "limit < int (length content)"
  shows "\<exists>h t. maybe_truncate content (Some limit) notice None =
      take h content @ notice @ drop (length content - t) content \<and>
      (h = t \<or> h = Suc t) \<and> h + length notice + t = nat limit \<and> h + t < length content"
proof -
  define n where "n = nat limit"
  define a where "a = n - length notice"
  have n: "limit = int n" "length notice < n" "n < length content"
    using assms by (auto simp: n_def)
  let ?h = "a div 2 + a mod 2" and ?t = "a - (a div 2 + a mod 2)"
  have ht: "?h = ?t \<or> ?h = Suc ?t" "?h + ?t = a" by presburger+
  have min: "min ?h a = ?h" using ht(2) by linarith
  have clip: "clip content n ?h notice =
      take ?h content @ notice @ (if 0 < ?t then drop (length content - ?t) content else [])"
    unfolding clip_def a_def [symmetric] Let_def min using n by simp
  have "maybe_truncate content (Some limit) notice None =
      take ?h content @ notice @ (if 0 < ?t then drop (length content - ?t) content else [])"
    using n unfolding clip [symmetric] by (simp add: maybe_truncate_def Let_def a_def)
  also have "(if 0 < ?t then drop (length content - ?t) content else []) =
      drop (length content - ?t) content" by simp
  finally have eq: "maybe_truncate content (Some limit) notice None =
      take ?h content @ notice @ drop (length content - ?t) content" .
  have sum: "h + length notice + t = nat limit \<and> h + t < length content" if "h + t = a" for h t
    using that n by (auto simp: a_def)
  show ?thesis using eq ht(1) sum [OF ht(2)] by blast
qed

theorem maybe_truncate_fits_witness:
  "(0::int) < 5 \<and>
   int (length (maybe_truncate ''abcdefgh'' (Some 5) ''...'' None)) \<le> 5"
  using maybe_truncate_fits [of 5 "''abcdefgh''" "''...''" None] by simp

theorem maybe_truncate_keeps_both_ends_witness:
  "\<exists>h t. maybe_truncate ''abcdefgh'' (Some 6) ''...'' None =
      take h ''abcdefgh'' @ ''...'' @ drop (length ''abcdefgh'' - t) ''abcdefgh''"
  using maybe_truncate_keeps_both_ends [of "''...''" 6 "''abcdefgh''"] by auto

end
