(* ===== verification/Event_Strings.thy ===== *)
theory Event_Strings
  imports Messages Text_Utils
begin

text \<open>
  The plain text form of events, \<open>str(event)\<close>: what the summarizing condenser shows the LLM of the
  events it forgets. Every class cuts its text to \<open>N_CHAR_PREVIEW\<close> characters, in its own way.
\<close>

definition N_CHAR_PREVIEW :: nat where
  "N_CHAR_PREVIEW = 500"

definition newline :: string where
  "newline = [CHR 0x0A]"

fun source_name :: "source_type \<Rightarrow> string" where
  "source_name SourceAgent = ''agent''"
| "source_name SourceUser = ''user''"
| "source_name SourceEnvironment = ''environment''"
| "source_name SourceHook = ''hook''"

fun role_name :: "role \<Rightarrow> string" where
  "role_name RoleUser = ''user''"
| "role_name RoleSystem = ''system''"
| "role_name RoleAssistant = ''assistant''"
| "role_name RoleTool = ''tool''"

fun class_name :: "event \<Rightarrow> string" where
  "class_name (ActionEvent _ _) = ''ActionEvent''"
| "class_name (ObservationEvent _ _) = ''ObservationEvent''"
| "class_name (UserRejectObservation _ _) = ''UserRejectObservation''"
| "class_name (AgentErrorEvent _ _) = ''AgentErrorEvent''"
| "class_name (MessageEvent _ _) = ''MessageEvent''"
| "class_name (SystemPromptEvent _ _) = ''SystemPromptEvent''"
| "class_name (CondensationSummaryEvent _ _) = ''CondensationSummaryEvent''"
| "class_name (Condensation _ _) = ''Condensation''"
| "class_name (CondensationRequest _) = ''CondensationRequest''"
| "class_name (OtherEvent _ c _) = c"

text \<open>\<open>Event.__str__\<close>, which every other form starts with.\<close>

definition base_str :: "event \<Rightarrow> string" where
  "base_str e = class_name e @ '' ('' @ source_name (ev_source e) @ '')''"

fun content_part :: "content \<Rightarrow> string" where
  "content_part (TextContent t) = t"
| "content_part (ImageContent urls) = ''[Image: '' @ dec (length urls) @ '' URLs]''"

definition content_to_str :: "content list \<Rightarrow> string list" where
  "content_to_str contents = map content_part contents"

text \<open>\<open>text[:N_CHAR_PREVIEW] + "..."\<close> for a longer text.\<close>

definition preview :: "string \<Rightarrow> string" where
  "preview t =
     (if N_CHAR_PREVIEW < length t then take N_CHAR_PREVIEW t @ ''...'' else t)"

text \<open>\<open>text[: N_CHAR_PREVIEW - 3] + "..."\<close> for a longer text.\<close>

definition short_preview :: "string \<Rightarrow> string" where
  "short_preview t =
     (if N_CHAR_PREVIEW < length t then take (N_CHAR_PREVIEW - 3) t @ ''...'' else t)"

text \<open>\<open>LLMConvertibleEvent.__str__\<close>, on the event's message.\<close>

definition message_str :: "event \<Rightarrow> message \<Rightarrow> string" where
  "message_str e msg =
     base_str e @ newline @ ''  '' @ role_name (msg_role msg) @ '': '' @
     (if msg_content msg = [] then ''[no text content]''
      else short_preview (join '' '' (content_to_str (msg_content msg))))"

fun action_class_name :: "action \<Rightarrow> string" where
  "action_class_name (InvokeSkillAction _) = ''InvokeSkillAction''"
| "action_class_name (OtherAction c _) = c"

definition action_str :: "event_meta \<Rightarrow> action_fields \<Rightarrow> string" where
  "action_str m a =
     (let thought_preview = preview (join '' '' (content_to_str (ae_thought a)))
      in base_str (ActionEvent m a) @ newline @ ''  Thought: '' @ thought_preview @ newline @
         (case ae_action a of
            Some act \<Rightarrow> ''  Action: '' @ action_class_name act
          | None \<Rightarrow> ''  Action: (not executed)'' @ newline @ ''  Call: '' @
                    tc_name (ae_tool_call a) @ '':'' @ tc_id (ae_tool_call a)))"

definition observation_str :: "event_meta \<Rightarrow> observation_fields \<Rightarrow> string" where
  "observation_str m x =
     base_str (ObservationEvent m x) @ newline @ ''  Tool: '' @ oe_tool_name x @ newline @
     ''  Result: '' @ preview (concat (content_to_str (to_llm_content (oe_observation x))))"

definition reject_str :: "event_meta \<Rightarrow> reject_fields \<Rightarrow> string" where
  "reject_str m x =
     base_str (UserRejectObservation m x) @ newline @ ''  Tool: '' @ re_tool_name x @ newline @
     ''  Reason: '' @ preview (re_rejection_reason x)"

definition error_str :: "event_meta \<Rightarrow> error_fields \<Rightarrow> string" where
  "error_str m x =
     base_str (AgentErrorEvent m x) @ newline @ ''  Error: '' @ preview (ee_error x)"

definition message_event_str :: "event_meta \<Rightarrow> message_fields \<Rightarrow> string" where
  "message_event_str m x =
     (let msg = message_to_llm_message x;
          skill_info = (if me_activated_skills x = [] then []
            else '' [Skills: '' @ join '', '' (me_activated_skills x) @ '']'');
          blocks = msg_thinking_blocks (me_llm_message x);
          thinking_info = (if blocks = [] then []
            else '' [Thinking blocks: '' @ dec (length blocks) @ '']'')
      in if msg_content msg = [] then message_str (MessageEvent m x) msg
         else message_str (MessageEvent m x) msg @ skill_info @ thinking_info)"

definition system_str :: "event_meta \<Rightarrow> system_fields \<Rightarrow> string" where
  "system_str m x =
     base_str (SystemPromptEvent m x) @ newline @ ''  System: '' @ preview (se_system_prompt x) @
     newline @ ''  Tools: '' @ dec (length (se_tools x)) @ '' available'' @
     (case se_dynamic_context x of
        None \<Rightarrow> []
      | Some d \<Rightarrow> newline @ ''  Dynamic Context: '' @ dec (length d) @ '' chars'')"

text \<open>
  \<open>str(event)\<close> by class. Only LLM-convertible events reach it from the code modelled here; the
  other classes are shown in the form of the base class.
\<close>

fun event_str :: "event \<Rightarrow> string" where
  "event_str (ActionEvent m a) = action_str m a"
| "event_str (ObservationEvent m x) = observation_str m x"
| "event_str (UserRejectObservation m x) = reject_str m x"
| "event_str (AgentErrorEvent m x) = error_str m x"
| "event_str (MessageEvent m x) = message_event_str m x"
| "event_str (SystemPromptEvent m x) = system_str m x"
| "event_str (CondensationSummaryEvent m s) =
     message_str (CondensationSummaryEvent m s) (summary_to_llm_message s)"
| "event_str e = base_str e"

lemmas event_str_defs = action_str_def observation_str_def reject_str_def error_str_def
  message_event_str_def system_str_def message_str_def base_str_def

lemma event_str_nonempty: "event_str e \<noteq> []"
  by (cases e) (auto simp: event_str_defs Let_def)

end
