(* ===== verification/Condenser.thy ===== *)
theory Condenser
  imports View_Cuts Event_Strings "HOL-Library.Product_Lexorder"
begin

text \<open>
  The condensers of \<^verbatim>\<open>agentrt/sdk/context/condenser\<close>: token counting and the binary search for a
  prefix above a token count, the rolling condenser and its recovery path, the LLM-summarizing
  condenser with its cached token count, and the pipeline. The LLM calls, the prompt template and
  the JSON size of an event are parameters. The factors 0.8 and 0.6 are the exact fractions 4/5 and
  3/5; a configured fraction is a numerator and a denominator.
\<close>

section \<open>Token counts\<close>

text \<open>What the condensers use of the agent's \<open>LLM\<close>.\<close>

record agent_llm =
  effective_max_input_tokens :: "int option"
  get_token_count :: "message list \<Rightarrow> string list option \<Rightarrow> bool \<Rightarrow> int"

text \<open>The tools of the first system prompt event.\<close>

fun system_tools :: "event list \<Rightarrow> string list option" where
  "system_tools [] = None"
| "system_tools (SystemPromptEvent _ x # es) = Some (se_tools x)"
| "system_tools (_ # es) = system_tools es"

definition get_total_token_count :: "event list \<Rightarrow> agent_llm \<Rightarrow> int result" where
  "get_total_token_count events llm =
     and_then (events_to_messages events) (\<lambda>messages.
       let tools = (case system_tools events of Some [] \<Rightarrow> None | t \<Rightarrow> t)
       in Inr (get_token_count llm messages tools (tools \<noteq> None)))"

text \<open>The binary search: \<open>tokens k\<close> is the token count of the prefix of length \<open>k\<close>.\<close>

function shortest_prefix_search ::
    "(nat \<Rightarrow> int result) \<Rightarrow> int \<Rightarrow> nat \<Rightarrow> nat \<Rightarrow> nat result" where
  "shortest_prefix_search tokens token_count left right =
     (if left < right then
        let mid = (left + right) div 2 in
        and_then (tokens mid) (\<lambda>prefix_tokens.
          if token_count < prefix_tokens
          then shortest_prefix_search tokens token_count left mid
          else shortest_prefix_search tokens token_count (mid + 1) right)
      else Inr left)"
  by pat_completeness auto
termination by (relation "measure (\<lambda>(_, _, left, right). right - left)") auto

declare shortest_prefix_search.simps [simp del]

definition get_shortest_prefix_above_token_count ::
    "event list \<Rightarrow> agent_llm \<Rightarrow> int \<Rightarrow> event list \<Rightarrow> nat result" where
  "get_shortest_prefix_above_token_count events llm token_count base_events =
     (if events = [] then Inr 0
      else
        and_then (if base_events \<noteq> [] then get_total_token_count base_events llm else Inr 0)
          (\<lambda>base_tokens.
            and_then (get_total_token_count (base_events @ events) llm) (\<lambda>total_tokens.
              if total_tokens - base_tokens \<le> token_count then Inr (length events)
              else shortest_prefix_search
                (\<lambda>mid. and_then (get_total_token_count (base_events @ take mid events) llm)
                   (\<lambda>t. Inr (t - base_tokens)))
                token_count 1 (length events))))"

definition get_suffix_length_for_token_reduction ::
    "event list \<Rightarrow> agent_llm \<Rightarrow> int \<Rightarrow> event list \<Rightarrow> nat result" where
  "get_suffix_length_for_token_reduction events llm token_reduction base_events =
     (if events = [] then Inr 0
      else if token_reduction \<le> 0 then Inr (length events)
      else and_then (get_shortest_prefix_above_token_count events llm token_reduction base_events)
        (\<lambda>prefix_length. Inr (length events - prefix_length)))"

section \<open>The rolling condenser\<close>

datatype requirement = HARD | SOFT

datatype condense_result = CondensedView view | CondensedBy condensation_fields

text \<open>
  \<open>RollingCondenser.condense\<close> over the three methods of the concrete condenser, which share its
  private state \<open>'s\<close>.
\<close>

definition rolling_condense ::
    "(view \<Rightarrow> 's \<Rightarrow> requirement option result \<times> 's) \<Rightarrow>
     (view \<Rightarrow> 's \<Rightarrow> condensation_fields result \<times> 's) \<Rightarrow>
     (view \<Rightarrow> condensation_fields option result) \<Rightarrow>
     view \<Rightarrow> 's \<Rightarrow> condense_result result \<times> 's" where
  "rolling_condense condensation_requirement get_condensation hard_context_reset v st =
     (case condensation_requirement v st of
        (Inl e, st1) \<Rightarrow> (Inl e, st1)
      | (Inr None, st1) \<Rightarrow> (Inr (CondensedView v), st1)
      | (Inr (Some request), st1) \<Rightarrow>
          (case get_condensation v st1 of
             (Inr c, st2) \<Rightarrow> (Inr (CondensedBy c), st2)
           | (Inl e, st2) \<Rightarrow>
               if e \<noteq> NoCondensationAvailable then (Inl e, st2)
               else if request = SOFT then (Inr (CondensedView v), st2)
               else case hard_context_reset v of
                   Inr (Some c) \<Rightarrow> (Inr (CondensedBy c), st2)
                 | Inr None \<Rightarrow> (Inl e, st2)
                 | Inl e' \<Rightarrow> (Inl e', st2)))"

text \<open>\<open>NoOpCondenser.condense\<close> and \<open>PipelineCondenser.condense\<close>.\<close>

definition no_op_condense :: "view \<Rightarrow> 's \<Rightarrow> condense_result result \<times> 's" where
  "no_op_condense v st = (Inr (CondensedView v), st)"

fun pipeline_from ::
    "(view \<Rightarrow> 's \<Rightarrow> condense_result result \<times> 's) list \<Rightarrow>
     condense_result \<Rightarrow> 's \<Rightarrow> condense_result result \<times> 's" where
  "pipeline_from [] r st = (Inr r, st)"
| "pipeline_from (c # cs) (CondensedBy x) st = (Inr (CondensedBy x), st)"
| "pipeline_from (c # cs) (CondensedView v) st =
     (case c v st of
        (Inl e, st') \<Rightarrow> (Inl e, st')
      | (Inr r, st') \<Rightarrow> pipeline_from cs r st')"

definition pipeline_condense ::
    "(view \<Rightarrow> 's \<Rightarrow> condense_result result \<times> 's) list \<Rightarrow>
     view \<Rightarrow> 's \<Rightarrow> condense_result result \<times> 's" where
  "pipeline_condense condensers v st = pipeline_from condensers (CondensedView v) st"

definition pipeline_handles_condensation_requests :: "bool list \<Rightarrow> bool" where
  "pipeline_handles_condensation_requests handles = list_ex (\<lambda>h. h) handles"

section \<open>The summarizing condenser\<close>

record condenser =
  max_size :: nat
  max_tokens :: "int option"
  keep_first :: nat
  minimum_progress :: "nat \<times> nat"
  hard_context_reset_max_retries :: nat
  hard_context_reset_context_scaling :: "nat \<times> nat"

record llm_response =
  resp_id :: string
  resp_message :: message

text \<open>
  The outside world of the condenser: the summarizing LLM, by the number of the call, the prompt
  template, and the length of an event's JSON form.
\<close>

record summarizer =
  completion :: "nat \<Rightarrow> message list \<Rightarrow> llm_response result"
  render_template :: "string list \<Rightarrow> string"
  json_length :: "event \<Rightarrow> nat"

definition proper_fraction :: "nat \<times> nat \<Rightarrow> bool" where
  "proper_fraction q \<longleftrightarrow> 0 < fst q \<and> fst q < snd q"

text \<open>The field constraints and the model validator: construction raises \<open>ValueError\<close>.\<close>

definition validate_keep_first_vs_max_size :: "condenser \<Rightarrow> condenser result" where
  "validate_keep_first_vs_max_size cfg =
     (let events_from_tail = int (max_size cfg div 2) - int (keep_first cfg) - 1
      in if max_size cfg = 0 \<or> \<not> proper_fraction (minimum_progress cfg) \<or>
            hard_context_reset_max_retries cfg = 0 \<or>
            \<not> proper_fraction (hard_context_reset_context_scaling cfg) \<or>
            events_from_tail \<le> 0
         then Inl ValueError else Inr cfg)"

definition default_condenser :: condenser where
  "default_condenser =
     \<lparr>max_size = 80, max_tokens = None, keep_first = 4, minimum_progress = (1, 10),
      hard_context_reset_max_retries = 5, hard_context_reset_context_scaling = (4, 5)\<rparr>"

definition effective_max_tokens :: "condenser \<Rightarrow> agent_llm option \<Rightarrow> int option" where
  "effective_max_tokens cfg agent_llm =
     (case (max_tokens cfg, Option.bind agent_llm effective_max_input_tokens) of
        (None, limit) \<Rightarrow> limit
      | (Some m, None) \<Rightarrow> Some m
      | (Some m, Some n) \<Rightarrow> Some (min m n))"

definition EXACT_EVERY :: int where
  "EXACT_EVERY = 40"

text \<open>The event ids and the token count of the last exactly counted view.\<close>

type_synonym counted = "event_id list \<times> int"

definition token_estimate :: "summarizer \<Rightarrow> event list \<Rightarrow> int" where
  "token_estimate env events = (\<Sum>e\<leftarrow>events. int (json_length env e div 3))"

definition token_count ::
    "summarizer \<Rightarrow> view \<Rightarrow> agent_llm \<Rightarrow> int \<Rightarrow> counted \<Rightarrow> int result \<times> counted" where
  "token_count env v llm limit st =
     (let ids = map ev_id (view_events v);
          counted_ids = fst st;
          n = length counted_ids;
          estimate = snd st + token_estimate env (drop n (view_events v))
      in if n \<noteq> 0 \<and> int (length ids) - int n < EXACT_EVERY \<and> take n ids = counted_ids \<and>
            5 * estimate < 4 * limit
         then (Inr estimate, st)
         else case get_total_token_count (view_events v) llm of
             Inl e \<Rightarrow> (Inl e, st)
           | Inr total_tokens \<Rightarrow> (Inr total_tokens, (ids, total_tokens)))"

datatype reason = REQUEST | TOKENS | EVENTS

definition get_condensation_reasons ::
    "condenser \<Rightarrow> summarizer \<Rightarrow> agent_llm option \<Rightarrow> view \<Rightarrow> counted \<Rightarrow> reason set result \<times> counted"
where
  "get_condensation_reasons cfg env agent_llm v st =
     (let requests = (if unhandled_condensation_request v then {REQUEST} else {});
          events = (if max_size cfg < length (view_events v) then {EVENTS} else {})
      in case (effective_max_tokens cfg agent_llm, agent_llm) of
           (Some limit, Some llm) \<Rightarrow>
             (case token_count env v llm limit st of
                (Inl e, st') \<Rightarrow> (Inl e, st')
              | (Inr total_tokens, st') \<Rightarrow>
                  (Inr (requests \<union> (if limit < total_tokens then {TOKENS} else {}) \<union> events), st'))
         | _ \<Rightarrow> (Inr (requests \<union> events), st))"

definition requirement_of :: "reason set \<Rightarrow> requirement option" where
  "requirement_of reasons =
     (if reasons = {} then None
      else if TOKENS \<in> reasons then Some HARD
      else if reasons \<subseteq> {EVENTS} then Some SOFT
      else if REQUEST \<in> reasons then Some HARD
      else None)"

definition condensation_requirement ::
    "condenser \<Rightarrow> summarizer \<Rightarrow> agent_llm option \<Rightarrow> view \<Rightarrow> counted \<Rightarrow>
     requirement option result \<times> counted"
where
  "condensation_requirement cfg env agent_llm v st =
     (case get_condensation_reasons cfg env agent_llm v st of
        (Inl e, st') \<Rightarrow> (Inl e, st')
      | (Inr reasons, st') \<Rightarrow> (Inr (requirement_of reasons), st'))"

subsection \<open>Writing the condensation\<close>

definition summary_text :: "message \<Rightarrow> string option" where
  "summary_text msg =
     (case msg_content msg of TextContent t # _ \<Rightarrow> Some t | _ \<Rightarrow> None)"

definition summary_prompt :: "summarizer \<Rightarrow> event list \<Rightarrow> nat option \<Rightarrow> message list" where
  "summary_prompt env forgotten max_event_str_length =
     [plain_message RoleUser [TextContent (render_template env
        (map (\<lambda>e. maybe_truncate (event_str e) (map_option int max_event_str_length)
           DEFAULT_TRUNCATE_NOTICE None) forgotten))]]"

definition generate_condensation ::
    "summarizer \<Rightarrow> nat \<Rightarrow> event list \<Rightarrow> nat \<Rightarrow> nat option \<Rightarrow> condensation_fields result" where
  "generate_condensation env call forgotten offset max_event_str_length =
     (if forgotten = [] then Inl AssertionError
      else case completion env call (summary_prompt env forgotten max_event_str_length) of
          Inl _ \<Rightarrow> Inl NoCondensationAvailable
        | Inr r \<Rightarrow>
            Inr \<lparr>co_forgotten_event_ids = ev_id ` set forgotten,
                 co_summary = summary_text (resp_message r),
                 co_summary_offset = Some offset,
                 co_llm_response_id = resp_id r\<rparr>)"

text \<open>\<open>call\<close> numbers the LLM calls: \<open>get_condensation\<close> makes call 0, a reset those from 1.\<close>

fun hard_reset_loop ::
    "condenser \<Rightarrow> summarizer \<Rightarrow> event list \<Rightarrow> nat \<Rightarrow> nat \<Rightarrow> nat option \<Rightarrow>
     condensation_fields option result"
where
  "hard_reset_loop cfg env events 0 call max_len = Inr None"
| "hard_reset_loop cfg env events (Suc attempts) call max_len =
     (case generate_condensation env call events 0 max_len of
        Inr c \<Rightarrow> Inr (Some c)
      | Inl _ \<Rightarrow>
          if max_len = None \<and> events = [] then Inl ValueError
          else
            let m = (case max_len of
                  None \<Rightarrow> Max (set (map (\<lambda>e. length (event_str e)) events)) | Some m \<Rightarrow> m);
                (num, den) = hard_context_reset_context_scaling cfg
            in hard_reset_loop cfg env events attempts (Suc call) (Some (m * num div den)))"

definition hard_context_reset ::
    "condenser \<Rightarrow> summarizer \<Rightarrow> view \<Rightarrow> condensation_fields option result" where
  "hard_context_reset cfg env v =
     hard_reset_loop cfg env (view_events v) (hard_context_reset_max_retries cfg) 1 None"

subsection \<open>Choosing what to forget\<close>

text \<open>
  The pairs of an \<open>invoke_skill\<close> action and its observation: the observations by action id, the
  last one winning, then the latest complete pair per skill.
\<close>

fun skill_observation :: "event \<Rightarrow> (event_id \<times> string) option" where
  "skill_observation (ObservationEvent _ x) =
     (case obs_class (oe_observation x) of
        InvokeSkillObservation s \<Rightarrow> Some (oe_action_id x, s) | OtherObservation _ _ \<Rightarrow> None)"
| "skill_observation _ = None"

fun skill_action :: "event \<Rightarrow> string option" where
  "skill_action (ActionEvent _ a) =
     (case ae_action a of Some (InvokeSkillAction name) \<Rightarrow> Some name | _ \<Rightarrow> None)"
| "skill_action _ = None"

fun observations_by_action_id ::
    "nat \<Rightarrow> event list \<Rightarrow> (event_id \<Rightarrow> (nat \<times> string) option) \<Rightarrow> event_id \<Rightarrow> (nat \<times> string) option"
where
  "observations_by_action_id i [] d = d"
| "observations_by_action_id i (e # es) d =
     observations_by_action_id (Suc i) es
       (case skill_observation e of None \<Rightarrow> d | Some (aid, s) \<Rightarrow> d(aid := Some (i, s)))"

fun latest_pairs ::
    "(event_id \<Rightarrow> (nat \<times> string) option) \<Rightarrow> nat \<Rightarrow> event list \<Rightarrow> (string \<times> (nat \<times> nat)) list \<Rightarrow>
     (string \<times> (nat \<times> nat)) list"
where
  "latest_pairs obs i [] d = d"
| "latest_pairs obs i (e # es) d =
     latest_pairs obs (Suc i) es
       (case skill_action e of
          None \<Rightarrow> d
        | Some name \<Rightarrow>
            (case obs (ev_id e) of
               None \<Rightarrow> d
             | Some (j, s) \<Rightarrow> if s \<noteq> strip name then d else AList.update (strip name) (i, j) d))"

definition skill_pairs :: "event list \<Rightarrow> (nat \<times> nat) list" where
  "skill_pairs events =
     rev (sort (map snd
       (latest_pairs (observations_by_action_id 0 events (\<lambda>_. None)) 0 events [])))"

definition PINNED_SKILL_MAX_TOKENS :: int where
  "PINNED_SKILL_MAX_TOKENS = 12000"

definition pin_limit :: "int option \<Rightarrow> int" where
  "pin_limit token_target =
     (case token_target of
        None \<Rightarrow> PINNED_SKILL_MAX_TOKENS
      | Some t \<Rightarrow>
          min PINNED_SKILL_MAX_TOKENS (if 0 \<le> t then 3 * t div 5 else - (- 3 * t div 5)))"

fun pin_pairs ::
    "(nat \<times> nat \<Rightarrow> int result) \<Rightarrow> int \<Rightarrow> (nat \<times> nat) list \<Rightarrow> nat set \<Rightarrow> int \<Rightarrow> nat set result" where
  "pin_pairs tokens limit [] pinned used = Inr pinned"
| "pin_pairs tokens limit (p # ps) pinned used =
     and_then (tokens p) (\<lambda>t.
       if used + t \<le> limit
       then pin_pairs tokens limit ps (pinned \<union> {fst p, snd p}) (used + t)
       else pin_pairs tokens limit ps pinned used)"

definition pinned_indices ::
    "summarizer \<Rightarrow> agent_llm option \<Rightarrow> int option \<Rightarrow> event list \<Rightarrow> nat set result" where
  "pinned_indices env agent_llm token_target events =
     pin_pairs
       (\<lambda>(i, j).
          let pair_events = [events ! i, events ! j] in
          case agent_llm of
            Some llm \<Rightarrow> get_total_token_count pair_events llm
          | None \<Rightarrow> Inr (token_estimate env pair_events))
       (pin_limit token_target) (skill_pairs events) {} 0"

definition forgotten_between :: "event list \<Rightarrow> nat set \<Rightarrow> nat \<Rightarrow> nat \<Rightarrow> event list" where
  "forgotten_between events pinned start stop =
     map ((!) events) (filter (\<lambda>i. i \<notin> pinned) [start..<stop])"

text \<open>The loop over the later manipulation indices, until the survivors meet the target.\<close>

fun extend_end :: "(nat \<Rightarrow> int result) \<Rightarrow> int \<Rightarrow> nat list \<Rightarrow> nat \<Rightarrow> nat result" where
  "extend_end survivors_tokens target [] stop = Inr stop"
| "extend_end survivors_tokens target (c # cs) stop =
     and_then (survivors_tokens c) (\<lambda>t.
       if t \<le> target then Inr c else extend_end survivors_tokens target cs c)"

definition survivors :: "event list \<Rightarrow> nat set \<Rightarrow> nat \<Rightarrow> nat \<Rightarrow> event list" where
  "survivors events pinned start stop =
     (let forgotten_ids = ev_id ` set (forgotten_between events pinned start stop)
      in filter (\<lambda>e. ev_id e \<notin> forgotten_ids) events)"

text \<open>The number of events to keep at the end, one candidate per reason.\<close>

definition suffix_events_to_keep ::
    "condenser \<Rightarrow> agent_llm option \<Rightarrow> int option \<Rightarrow> reason set \<Rightarrow> event list \<Rightarrow> int set result" where
  "suffix_events_to_keep cfg agent_llm token_target reasons events =
     (let request = (if REQUEST \<in> reasons
            then {int (length events div 2) - int (keep_first cfg) - 1} else {});
          size = (if EVENTS \<in> reasons
            then {int (max_size cfg div 2) - int (keep_first cfg) - 1} else {})
      in if TOKENS \<in> reasons then
           (case (token_target, agent_llm) of
              (Some target, Some llm) \<Rightarrow>
                and_then (get_total_token_count events llm) (\<lambda>total_tokens.
                and_then (get_suffix_length_for_token_reduction (drop (keep_first cfg) events) llm
                    (total_tokens - target) (take (keep_first cfg) events)) (\<lambda>k.
                  Inr (request \<union> size \<union> {int k})))
            | _ \<Rightarrow> Inl AssertionError)
         else Inr (request \<union> size))"

text \<open>Under token pressure the end of the range moves on along the candidates.\<close>

definition forgetting_end ::
    "agent_llm option \<Rightarrow> int option \<Rightarrow> reason set \<Rightarrow> event list \<Rightarrow> nat set \<Rightarrow> nat \<Rightarrow> nat list \<Rightarrow>
     nat \<Rightarrow> nat result"
where
  "forgetting_end agent_llm token_target reasons events pinned start candidates stop =
     (case (TOKENS \<in> reasons, token_target, agent_llm) of
        (True, Some target, Some llm) \<Rightarrow>
          extend_end (\<lambda>c. get_total_token_count (survivors events pinned start c) llm) target
            candidates stop
      | _ \<Rightarrow> Inr stop)"

text \<open>The part of \<open>_get_forgotten_events\<close> after the reasons.\<close>

definition forgotten_for ::
    "condenser \<Rightarrow> summarizer \<Rightarrow> agent_llm option \<Rightarrow> view \<Rightarrow> reason set \<Rightarrow> (event list \<times> nat) result"
where
  "forgotten_for cfg env agent_llm v reasons =
     (if reasons = {} then Inl AssertionError
      else
        let events = view_events v;
            token_target = map_option (\<lambda>m. m div 2) (effective_max_tokens cfg agent_llm)
        in
        and_then (suffix_events_to_keep cfg agent_llm token_target reasons events) (\<lambda>keep.
        let naive_end = int (length events) - Min keep in
        and_then (manipulation_indices v) (\<lambda>idxs.
        and_then (find_next idxs (int (keep_first cfg))) (\<lambda>start.
        and_then (find_next idxs naive_end) (\<lambda>stop.
        and_then (pinned_indices env agent_llm token_target events) (\<lambda>pinned.
        and_then (forgetting_end agent_llm token_target reasons events pinned start
            (sorted_list_of_set {i \<in> idxs. naive_end \<le> int i}) stop) (\<lambda>stop'.
        Inr (forgotten_between events pinned start stop', start))))))))"

definition get_forgotten_events ::
    "condenser \<Rightarrow> summarizer \<Rightarrow> agent_llm option \<Rightarrow> view \<Rightarrow> counted \<Rightarrow>
     (event list \<times> nat) result \<times> counted"
where
  "get_forgotten_events cfg env agent_llm v st =
     (case get_condensation_reasons cfg env agent_llm v st of
        (Inl e, st') \<Rightarrow> (Inl e, st')
      | (Inr reasons, st') \<Rightarrow> (forgotten_for cfg env agent_llm v reasons, st'))"

definition get_condensation ::
    "condenser \<Rightarrow> summarizer \<Rightarrow> agent_llm option \<Rightarrow> view \<Rightarrow> counted \<Rightarrow>
     condensation_fields result \<times> counted"
where
  "get_condensation cfg env agent_llm v st =
     (case get_forgotten_events cfg env agent_llm v st of
        (Inl e, st') \<Rightarrow> (Inl (if e = ValueError then NoCondensationAvailable else e), st')
      | (Inr (forgotten, offset), st') \<Rightarrow>
          ((if forgotten = [] then Inl NoCondensationAvailable
            else if length forgotten * snd (minimum_progress cfg) <
                length (view_events v) * fst (minimum_progress cfg)
            then Inl NoCondensationAvailable
            else generate_condensation env 0 forgotten offset None), st'))"

definition condense ::
    "condenser \<Rightarrow> summarizer \<Rightarrow> agent_llm option \<Rightarrow> view \<Rightarrow> counted \<Rightarrow>
     condense_result result \<times> counted"
where
  "condense cfg env agent_llm =
     rolling_condense (condensation_requirement cfg env agent_llm)
       (get_condensation cfg env agent_llm) (hard_context_reset cfg env)"

end
