(* ===== verification/Condenser_Laws.thy ===== *)
theory Condenser_Laws
  imports Condenser
begin

text \<open>
  What the condensers guarantee: the binary search finds a shortest prefix, the two evaluations of
  the condensation reasons in one run agree, a condensation cuts the view at manipulation indices,
  spares the first \<open>keep_first\<close> events and forgets enough, the token target is met when a cut that
  meets it exists, and an explicit request is answered.
\<close>

section \<open>Binary search\<close>

lemma shortest_prefix_search_correct:
  assumes "\<And>k. k \<le> right \<Longrightarrow> tokens k = Inr (tok k)"
    and "left \<le> right" and "lo \<le> left" and "count < tok right"
    and "left = lo \<or> tok (left - 1) \<le> count"
  shows "\<exists>k. shortest_prefix_search tokens count left right = Inr k \<and> left \<le> k \<and> k \<le> right \<and>
    count < tok k \<and> (k = lo \<or> tok (k - 1) \<le> count)"
  using assms
proof (induction tokens count left right rule: shortest_prefix_search.induct)
  case (1 tokens count left right)
  show ?case
  proof (cases "left < right")
    case False
    with "1.prems" show ?thesis by (subst shortest_prefix_search.simps) auto
  next
    case True
    define mid where "mid = (left + right) div 2"
    have mid: "left \<le> mid" "mid < right" using True by (auto simp: mid_def)
    have tm: "tokens mid = Inr (tok mid)" using "1.prems"(1) mid by simp
    have step: "shortest_prefix_search tokens count left right =
        (if count < tok mid then shortest_prefix_search tokens count left mid
         else shortest_prefix_search tokens count (mid + 1) right)"
      using True tm by (subst shortest_prefix_search.simps) (simp add: Let_def mid_def)
    show ?thesis
    proof (cases "count < tok mid")
      case lt: True
      have "\<exists>k. shortest_prefix_search tokens count left mid = Inr k \<and> left \<le> k \<and> k \<le> mid \<and>
          count < tok k \<and> (k = lo \<or> tok (k - 1) \<le> count)"
        by (rule "1.IH"(1) [OF True mid_def tm lt]) (use "1.prems" mid lt in auto)
      with step lt mid show ?thesis by auto
    next
      case ge: False
      have "\<exists>k. shortest_prefix_search tokens count (mid + 1) right = Inr k \<and> mid + 1 \<le> k \<and>
          k \<le> right \<and> count < tok k \<and> (k = lo \<or> tok (k - 1) \<le> count)"
        by (rule "1.IH"(2) [OF True mid_def tm ge]) (use "1.prems" mid ge in auto)
      with step ge mid show ?thesis by auto
    qed
  qed
qed

text \<open>
  The binary search is right without any assumption on the tokenizer: when the whole list
  exceeds the target, the returned prefix exceeds it and the next shorter one does not (or the
  prefix is a single event); when token counts grow with the prefix it is the shortest one; and
  when the whole list fits, its length is returned.
\<close>

theorem get_shortest_prefix_above_token_count_correct:
  assumes "events \<noteq> []"
    and "\<And>k. k \<le> length events \<Longrightarrow>
      get_total_token_count (base @ take k events) llm = Inr (tok k)"
  defines "used \<equiv> \<lambda>k. tok k - (if base = [] then 0 else tok 0)"
  shows "\<exists>k. get_shortest_prefix_above_token_count events llm count base = Inr k \<and>
    1 \<le> k \<and> k \<le> length events \<and>
    (used (length events) \<le> count \<longrightarrow> k = length events) \<and>
    (count < used (length events) \<longrightarrow>
       count < used k \<and> (k = 1 \<or> used (k - 1) \<le> count) \<and>
       ((\<forall>i j. i \<le> j \<and> j \<le> length events \<longrightarrow> used i \<le> used j) \<longrightarrow>
          (\<forall>j. 1 \<le> j \<and> j < k \<longrightarrow> used j \<le> count)))"
proof -
  let ?n = "length events" and ?b = "if base = [] then 0 else tok 0"
  have base: "(if base \<noteq> [] then get_total_token_count base llm else Inr 0) = Inr ?b"
    using assms(2) [of 0] by auto
  have all: "get_total_token_count (base @ events) llm = Inr (tok ?n)"
    using assms(2) [of ?n] by simp
  let ?tokens = "\<lambda>mid. and_then (get_total_token_count (base @ take mid events) llm)
    (\<lambda>t. Inr (t - ?b))"
  have tokens: "?tokens k = Inr (used k)" if "k \<le> ?n" for k
    using assms(2) [OF that] by (simp add: used_def)
  have eq: "get_shortest_prefix_above_token_count events llm count base =
      (if used ?n \<le> count then Inr ?n else shortest_prefix_search ?tokens count 1 ?n)"
    unfolding get_shortest_prefix_above_token_count_def base all used_def
    using assms(1) by simp
  have n1: "1 \<le> ?n" using assms(1) by (simp add: Suc_leI)
  show ?thesis
  proof (cases "used ?n \<le> count")
    case True
    with eq n1 show ?thesis by auto
  next
    case False
    then obtain k where k: "shortest_prefix_search ?tokens count 1 ?n = Inr k" "1 \<le> k" "k \<le> ?n"
      "count < used k" "k = 1 \<or> used (k - 1) \<le> count"
      using shortest_prefix_search_correct [of ?n ?tokens used 1 1 count] tokens n1 by auto
    have "used j \<le> count" if "\<forall>i j. i \<le> j \<and> j \<le> ?n \<longrightarrow> used i \<le> used j" "1 \<le> j" "j < k" for j
    proof -
      have "j \<le> k - 1" "k - 1 \<le> ?n" "k \<noteq> 1" using that k(3) by auto
      with that(1) have "used j \<le> used (k - 1)" by blast
      with k(5) \<open>k \<noteq> 1\<close> show ?thesis by simp
    qed
    with k eq False show ?thesis by auto
  qed
qed

section \<open>The reasons are stable\<close>

lemma token_count_stable:
  "token_count env v llm limit st = (Inr t, st') \<Longrightarrow>
     token_count env v llm limit st' = (Inr t, st')"
  by (auto simp: token_count_def Let_def token_estimate_def split: if_splits sum.splits)

lemma reasons_stable:
  "get_condensation_reasons cfg env llm v st = (Inr rs, st') \<Longrightarrow>
     get_condensation_reasons cfg env llm v st' = (Inr rs, st')"
  by (auto simp: get_condensation_reasons_def Let_def dest: token_count_stable
      split: option.splits prod.splits sum.splits)

text \<open>
  One run of the condenser evaluates the reasons twice, with a cache of the last token count in
  between. The second evaluation returns the reasons of the first: whenever the condenser finds a
  requirement, the assertion of \<open>_get_forgotten_events\<close> that there are reasons holds.
\<close>

theorem condensation_reasons_stable:
  assumes "condensation_requirement cfg env llm v st = (Inr (Some r), st')"
  shows "\<exists>reasons. get_condensation_reasons cfg env llm v st' = (Inr reasons, st') \<and>
    reasons \<noteq> {} \<and> requirement_of reasons = Some r \<and>
    get_forgotten_events cfg env llm v st' = (forgotten_for cfg env llm v reasons, st')"
proof -
  from assms obtain rs where rs: "get_condensation_reasons cfg env llm v st = (Inr rs, st')"
    "requirement_of rs = Some r"
    by (auto simp: condensation_requirement_def split: prod.splits sum.splits)
  with reasons_stable [OF rs(1)] show ?thesis
    by (auto simp: requirement_of_def get_forgotten_events_def)
qed

section \<open>Which events are forgotten\<close>

lemma find_next_Inr:
  assumes "find_next I t = Inr k" and "finite I"
  shows "k \<in> I" and "t \<le> int k" and "\<And>i. i \<in> I \<Longrightarrow> t \<le> int i \<Longrightarrow> k \<le> i"
proof -
  let ?V = "{idx \<in> I. t \<le> int idx}"
  have ne: "?V \<noteq> {}" and k: "k = Min ?V"
    using assms(1) by (auto simp: find_next_def Let_def split: if_splits)
  have fin: "finite ?V" using assms(2) by simp
  have "k \<in> ?V" using Min_in [OF fin ne] k by simp
  then show "k \<in> I" "t \<le> int k" by auto
  show "k \<le> i" if "i \<in> I" "t \<le> int i" for i
    using Min_le [OF fin] that k by simp
qed

lemma extend_end_in:
  "extend_end tokens target cs stop = Inr k \<Longrightarrow> k \<in> insert stop (set cs)"
  by (induction cs arbitrary: stop) (auto simp: and_then_Inr_iff split: if_splits)

lemma extend_end_target:
  assumes "extend_end tokens target cs stop = Inr k" and "sorted cs" and "cs \<noteq> []"
  shows "\<exists>t. tokens k = Inr t \<and> (t \<le> target \<or> k = last cs)"
  using assms
proof (induction cs arbitrary: stop)
  case (Cons c cs)
  then show ?case
    by (cases "cs = []") (auto simp: and_then_Inr_iff split: if_splits)
qed simp

lemma sorted_le_last:
  fixes xs :: "nat list"
  shows "x \<in> set xs \<Longrightarrow> sorted xs \<Longrightarrow> x \<le> last xs"
  by (induction xs) auto

lemma forgetting_end_in:
  "forgetting_end llm tt rs es pinned start cs stop = Inr k \<Longrightarrow> k \<in> insert stop (set cs)"
  using extend_end_in [of _ _ cs stop k]
  by (simp add: forgetting_end_def split: bool.splits option.splits)

lemma manipulation_indices_range:
  assumes "manipulation_indices v = Inr I"
  shows "I \<subseteq> {..length (view_events v)}" and "finite I"
proof -
  have "I = {i. is_cut (view_events v) i}"
    using assms manipulation_indices_Inr by blast
  then show "I \<subseteq> {..length (view_events v)}" by (auto simp: is_cut_def)
  then show "finite I" by (rule finite_subset) simp
qed

lemma forgotten_forD:
  assumes "forgotten_for cfg env llm v rs = Inr (fs, start)"
  shows "\<exists>I pinned stop. manipulation_indices v = Inr I \<and> start \<in> I \<and> stop \<in> I \<and>
    keep_first cfg \<le> start \<and> fs = forgotten_between (view_events v) pinned start stop \<and>
    pinned_indices env llm (map_option (\<lambda>m. m div 2) (effective_max_tokens cfg llm))
      (view_events v) = Inr pinned \<and>
    (TOKENS \<in> rs \<longrightarrow> (\<exists>m l t. effective_max_tokens cfg llm = Some m \<and> llm = Some l \<and>
       get_total_token_count (survivors (view_events v) pinned start stop) l = Inr t \<and>
       (t \<le> m div 2 \<or> (\<forall>i \<in> I. i \<le> stop))))"
proof -
  let ?es = "view_events v"
  let ?tt = "map_option (\<lambda>m. m div 2) (effective_max_tokens cfg llm)"
  from assms obtain keep I stop0 pinned stop where
    keep: "suffix_events_to_keep cfg llm ?tt rs ?es = Inr keep"
    and I: "manipulation_indices v = Inr I"
    and start: "find_next I (int (keep_first cfg)) = Inr start"
    and stop0: "find_next I (int (length ?es) - Min keep) = Inr stop0"
    and pinned: "pinned_indices env llm ?tt ?es = Inr pinned"
    and stop: "forgetting_end llm ?tt rs ?es pinned start
      (sorted_list_of_set {i \<in> I. int (length ?es) - Min keep \<le> int i}) stop0 = Inr stop"
    and fs: "fs = forgotten_between ?es pinned start stop"
    unfolding forgotten_for_def Let_def
    by (simp add: and_then_Inr_iff split: if_split_asm) blast
  note fin = manipulation_indices_range(2) [OF I]
  let ?cs = "sorted_list_of_set {i \<in> I. int (length ?es) - Min keep \<le> int i}"
  have cs: "set ?cs = {i \<in> I. int (length ?es) - Min keep \<le> int i}" "sorted ?cs" "?cs \<noteq> []"
    using fin find_next_Inr [OF stop0 fin] by auto
  have stop_in: "stop \<in> I"
    using forgetting_end_in [OF stop] find_next_Inr(1) [OF stop0 fin] cs(1) by blast
  have last: "i \<le> last ?cs" if "i \<in> I" for i
  proof (cases "int (length ?es) - Min keep \<le> int i")
    case True
    then have "i \<in> set ?cs" using that cs(1) by simp
    then show ?thesis using cs(2) by (rule sorted_le_last)
  next
    case False
    moreover have "last ?cs \<in> set ?cs" using cs(3) by simp
    ultimately show ?thesis using cs(1) by auto
  qed
  have tok: "\<exists>m l t. effective_max_tokens cfg llm = Some m \<and> llm = Some l \<and>
       get_total_token_count (survivors ?es pinned start stop) l = Inr t \<and>
       (t \<le> m div 2 \<or> (\<forall>i \<in> I. i \<le> stop))" if "TOKENS \<in> rs"
  proof -
    from keep that obtain m l where ml: "effective_max_tokens cfg llm = Some m" "llm = Some l"
      by (auto simp: suffix_events_to_keep_def Let_def split: option.splits)
    with stop that have "extend_end (\<lambda>c. get_total_token_count (survivors ?es pinned start c) l)
        (m div 2) ?cs stop0 = Inr stop" by (simp add: forgetting_end_def)
    from extend_end_target [OF this cs(2,3)] ml last show ?thesis by auto
  qed
  show ?thesis
    using I find_next_Inr [OF start fin] stop_in fs pinned tok by auto
qed

section \<open>The condensed view\<close>

lemma map_nth_range: "j \<le> length es \<Longrightarrow> map ((!) es) [i..<j] = drop i (take j es)"
  by (rule nth_equalityI) auto

lemma survivors_shape:
  assumes "distinct (map ev_id es)" and "start \<le> stop" and "stop \<le> length es"
  shows "survivors es pinned start stop =
    take start es @ map ((!) es) (filter (\<lambda>i. i \<in> pinned) [start..<stop]) @ drop stop es"
proof -
  let ?n = "length es"
  let ?ids = "ev_id ` set (forgotten_between es pinned start stop)"
  have ids: "ev_id (es ! i) \<in> ?ids \<longleftrightarrow> start \<le> i \<and> i < stop \<and> i \<notin> pinned" if "i < ?n" for i
  proof -
    have inj: "ev_id (es ! i) = ev_id (es ! j) \<longleftrightarrow> i = j" if "j < ?n" for j
      using nth_eq_iff_index_eq [OF assms(1), of i j] \<open>i < ?n\<close> that by simp
    show ?thesis
    proof
      assume "ev_id (es ! i) \<in> ?ids"
      then obtain j where "ev_id (es ! i) = ev_id (es ! j)" "start \<le> j" "j < stop" "j \<notin> pinned"
        by (auto simp: forgotten_between_def)
      with inj [of j] assms(3) show "start \<le> i \<and> i < stop \<and> i \<notin> pinned" by auto
    qed (auto simp: forgotten_between_def)
  qed
  have split: "[0..<?n] = [0..<start] @ [start..<stop] @ [stop..<?n]"
    using assms(2,3) upt_add_eq_append [of 0 start "stop - start"]
      upt_add_eq_append [of 0 stop "?n - stop"] by simp
  have "survivors es pinned start stop =
      filter (\<lambda>e. ev_id e \<notin> ?ids) (map ((!) es) [0..<?n])"
    by (simp add: survivors_def map_nth)
  also have "\<dots> = map ((!) es) (filter (\<lambda>i. ev_id (es ! i) \<notin> ?ids) [0..<?n])"
    by (simp add: filter_map o_def)
  also have "filter (\<lambda>i. ev_id (es ! i) \<notin> ?ids) [0..<?n] =
      filter (\<lambda>i. \<not> (start \<le> i \<and> i < stop \<and> i \<notin> pinned)) [0..<?n]"
    by (rule filter_cong) (auto simp: ids)
  also have "\<dots> = [0..<start] @ filter (\<lambda>i. i \<in> pinned) [start..<stop] @ [stop..<?n]"
    unfolding split filter_append
    by (intro arg_cong2 [where f = append] filter_True filter_cong) auto
  finally show ?thesis
    using assms(2,3) by (simp add: map_nth_range [of _ es] del: map_nth)
qed

lemma generate_condensation_Inr:
  assumes "generate_condensation env call fs start max_len = Inr c"
  shows "\<exists>r :: llm_response. c = \<lparr>co_forgotten_event_ids = ev_id ` set fs,
    co_summary = summary_text (resp_message r), co_summary_offset = Some start,
    co_llm_response_id = resp_id r\<rparr>"
proof (cases "completion env call (summary_prompt env fs max_len)")
  case (Inr r)
  with assms have "c = \<lparr>co_forgotten_event_ids = ev_id ` set fs,
    co_summary = summary_text (resp_message r), co_summary_offset = Some start,
    co_llm_response_id = resp_id r\<rparr>"
    by (simp add: generate_condensation_def split: if_splits)
  then show ?thesis by (rule exI)
qed (use assms in \<open>simp add: generate_condensation_def split: if_splits\<close>)

lemma get_condensationD:
  assumes "get_condensation cfg env llm v st = (Inr c, st')"
  shows "\<exists>rs fs start (r :: llm_response). get_condensation_reasons cfg env llm v st = (Inr rs, st') \<and>
    forgotten_for cfg env llm v rs = Inr (fs, start) \<and> fs \<noteq> [] \<and>
    length (view_events v) * fst (minimum_progress cfg) \<le> length fs * snd (minimum_progress cfg) \<and>
    c = \<lparr>co_forgotten_event_ids = ev_id ` set fs, co_summary = summary_text (resp_message r),
      co_summary_offset = Some start, co_llm_response_id = resp_id r\<rparr>"
proof -
  obtain r st1 where r: "get_condensation_reasons cfg env llm v st = (r, st1)"
    by (cases "get_condensation_reasons cfg env llm v st")
  with assms obtain rs where rs: "r = Inr rs" "st1 = st'"
    by (cases r) (auto simp: get_condensation_def get_forgotten_events_def
        split: sum.splits prod.splits)
  with r assms obtain fs start where fs: "forgotten_for cfg env llm v rs = Inr (fs, start)"
    by (cases "forgotten_for cfg env llm v rs")
      (auto simp: get_condensation_def get_forgotten_events_def)
  have eq: "(if fs = [] then Inl NoCondensationAvailable
      else if length fs * snd (minimum_progress cfg) <
          length (view_events v) * fst (minimum_progress cfg)
      then Inl NoCondensationAvailable
      else generate_condensation env 0 fs start None) = Inr c"
    using assms r rs fs by (simp add: get_condensation_def get_forgotten_events_def)
  then have "generate_condensation env 0 fs start None = Inr c" by (simp split: if_splits)
  then obtain resp :: llm_response where "c = \<lparr>co_forgotten_event_ids = ev_id ` set fs,
      co_summary = summary_text (resp_message resp), co_summary_offset = Some start,
      co_llm_response_id = resp_id resp\<rparr>"
    using generate_condensation_Inr by blast
  then show ?thesis using eq r rs fs
    by (intro exI [of _ rs] exI [of _ fs] exI [of _ start] exI [of _ resp])
      (auto split: if_splits)
qed

lemma forgotten_between_nonempty:
  "forgotten_between es pinned start stop \<noteq> [] \<Longrightarrow> start < stop"
  by (auto simp: forgotten_between_def filter_empty_conv)

text \<open>Everything a successful condensation says, in one place.\<close>

lemma condensation_cut:
  assumes "get_condensation cfg env llm v st = (Inr c, st')"
    and "distinct (map ev_id (view_events v))"
  shows "\<exists>I pinned start stop rs. manipulation_indices v = Inr I \<and> start \<in> I \<and> stop \<in> I \<and>
    keep_first cfg \<le> start \<and> start < stop \<and> stop \<le> length (view_events v) \<and>
    co_summary_offset c = Some start \<and>
    co_forgotten_event_ids c =
      ev_id ` set (forgotten_between (view_events v) pinned start stop) \<and>
    filter (\<lambda>e. ev_id e \<notin> co_forgotten_event_ids c) (view_events v) =
      survivors (view_events v) pinned start stop \<and>
    pinned_indices env llm (map_option (\<lambda>m. m div 2) (effective_max_tokens cfg llm))
      (view_events v) = Inr pinned \<and>
    length (view_events v) * fst (minimum_progress cfg) \<le>
      length (forgotten_between (view_events v) pinned start stop) * snd (minimum_progress cfg) \<and>
    get_condensation_reasons cfg env llm v st = (Inr rs, st') \<and>
    (TOKENS \<in> rs \<longrightarrow> (\<exists>m l t. effective_max_tokens cfg llm = Some m \<and> llm = Some l \<and>
       get_total_token_count (survivors (view_events v) pinned start stop) l = Inr t \<and>
       (t \<le> m div 2 \<or> (\<forall>i \<in> I. i \<le> stop))))"
proof -
  from get_condensationD [OF assms(1)] obtain rs fs start and r :: llm_response where
    rs: "get_condensation_reasons cfg env llm v st = (Inr rs, st')"
    and fs: "forgotten_for cfg env llm v rs = Inr (fs, start)" "fs \<noteq> []"
    and prog: "length (view_events v) * fst (minimum_progress cfg) \<le>
      length fs * snd (minimum_progress cfg)"
    and c: "c = \<lparr>co_forgotten_event_ids = ev_id ` set fs,
      co_summary = summary_text (resp_message r),
      co_summary_offset = Some start, co_llm_response_id = resp_id r\<rparr>" by blast
  from forgotten_forD [OF fs(1)] obtain I pinned stop where
    I: "manipulation_indices v = Inr I" "start \<in> I" "stop \<in> I" "keep_first cfg \<le> start"
    and f: "fs = forgotten_between (view_events v) pinned start stop"
    and p: "pinned_indices env llm (map_option (\<lambda>m. m div 2) (effective_max_tokens cfg llm))
      (view_events v) = Inr pinned"
    and t: "TOKENS \<in> rs \<longrightarrow> (\<exists>m l t. effective_max_tokens cfg llm = Some m \<and> llm = Some l \<and>
       get_total_token_count (survivors (view_events v) pinned start stop) l = Inr t \<and>
       (t \<le> m div 2 \<or> (\<forall>i \<in> I. i \<le> stop)))" by blast
  have "start < stop" "stop \<le> length (view_events v)"
    using forgotten_between_nonempty fs(2) f manipulation_indices_range(1) [OF I(1)] I(3) by auto
  then show ?thesis
    using I p t rs prog c f by (intro exI [of _ I] exI [of _ pinned] exI [of _ start]
        exI [of _ stop] exI [of _ rs]) (simp add: survivors_def)
qed

text \<open>
  The skills that survive: an \<open>invoke_skill\<close> action with the last observation of it, which names the same
  skill, and of these the one with the latest action for the skill.
\<close>

definition skill_pair :: "event list \<Rightarrow> string \<Rightarrow> nat \<Rightarrow> nat \<Rightarrow> bool" where
  "skill_pair es name i j \<longleftrightarrow>
     i < length es \<and> j < length es \<and> (\<exists>n. skill_action (es ! i) = Some n \<and> strip n = name) \<and>
     skill_observation (es ! j) = Some (ev_id (es ! i), name) \<and>
     (\<forall>k s. j < k \<and> k < length es \<longrightarrow> skill_observation (es ! k) \<noteq> Some (ev_id (es ! i), s))"

definition latest_skill_pair :: "event list \<Rightarrow> string \<Rightarrow> nat \<Rightarrow> nat \<Rightarrow> bool" where
  "latest_skill_pair es name i j \<longleftrightarrow> skill_pair es name i j \<and> (\<forall>k l. i < k \<longrightarrow> \<not> skill_pair es name k l)"

lemma observations_snoc:
  "observations_by_action_id i (es @ [e]) d =
     (case skill_observation e of None \<Rightarrow> observations_by_action_id i es d
      | Some (aid, s) \<Rightarrow> (observations_by_action_id i es d)(aid := Some (i + length es, s)))"
  by (induction es arbitrary: i d; cases "skill_observation e") auto

lemma observations_last:
  "observations_by_action_id 0 es (\<lambda>_. None) x = Some (j, s) \<longleftrightarrow>
     j < length es \<and> skill_observation (es ! j) = Some (x, s) \<and>
     (\<forall>k s. j < k \<and> k < length es \<longrightarrow> skill_observation (es ! k) \<noteq> Some (x, s))"
proof (induction es rule: rev_induct)
  case (snoc e es)
  show ?case
  proof (cases "\<exists>s. skill_observation e = Some (x, s)")
    case True
    then show ?thesis by (auto simp: observations_snoc nth_append less_Suc_eq)
  next
    case False
    then have "observations_by_action_id 0 (es @ [e]) (\<lambda>_. None) x = observations_by_action_id 0 es (\<lambda>_. None) x"
      by (auto simp: observations_snoc split: option.splits)
    then show ?thesis using snoc False by (auto simp: nth_append less_Suc_eq)
  qed
qed simp

lemma latest_pairs_snoc:
  "latest_pairs obs i (es @ [e]) d =
     (let d1 = latest_pairs obs i es d
      in case skill_action e of
           None \<Rightarrow> d1
         | Some name \<Rightarrow>
             (case obs (ev_id e) of
                None \<Rightarrow> d1
              | Some (j, s) \<Rightarrow> if s \<noteq> strip name then d1 else AList.update (strip name) (i + length es, j) d1))"
  by (induction es arbitrary: i d; cases "skill_action e"; cases "obs (ev_id e)") (auto simp: Let_def)

definition completes :: "(event_id \<Rightarrow> (nat \<times> string) option) \<Rightarrow> event \<Rightarrow> string \<Rightarrow> nat \<Rightarrow> bool" where
  "completes obs e name j \<longleftrightarrow> (\<exists>n. skill_action e = Some n \<and> strip n = name) \<and> obs (ev_id e) = Some (j, name)"

lemma latest_pairs_last:
  "map_of (latest_pairs obs 0 es []) name = Some (i, j) \<longleftrightarrow>
     i < length es \<and> completes obs (es ! i) name j \<and>
     (\<forall>k l. i < k \<and> k < length es \<longrightarrow> \<not> completes obs (es ! k) name l)"
proof (induction es rule: rev_induct)
  case (snoc e es)
  show ?case
  proof (cases "\<exists>l. completes obs e name l")
    case True
    then obtain n l where n: "skill_action e = Some n" "strip n = name" "obs (ev_id e) = Some (l, name)"
      by (auto simp: completes_def)
    then have "map_of (latest_pairs obs 0 (es @ [e]) []) name = Some (length es, l)"
      by (simp add: latest_pairs_snoc update_conv')
    moreover have "completes obs ((es @ [e]) ! length es) name k \<longleftrightarrow> k = l" for k
      using n by (auto simp: completes_def)
    ultimately show ?thesis by (auto simp: less_Suc_eq)
  next
    case False
    then have "map_of (latest_pairs obs 0 (es @ [e]) []) name = map_of (latest_pairs obs 0 es []) name"
      by (auto simp: latest_pairs_snoc completes_def Let_def update_conv' split: option.splits)
    then show ?thesis using snoc False by (auto simp: nth_append less_Suc_eq)
  qed
qed simp

lemma distinct_latest_pairs: "distinct (map fst d) \<Longrightarrow> distinct (map fst (latest_pairs obs i es d))"
  by (induction obs i es d rule: latest_pairs.induct) (auto simp: distinct_update split: option.splits prod.splits)

lemma completes_pair:
  "i < length es \<Longrightarrow> completes (observations_by_action_id 0 es (\<lambda>_. None)) (es ! i) name j \<longleftrightarrow> skill_pair es name i j"
  by (auto simp: completes_def skill_pair_def observations_last)

lemma skill_pair_index: "skill_pair es name i j \<Longrightarrow> i < length es"
  by (simp add: skill_pair_def)

lemma skill_pairs_latest: "(i, j) \<in> set (skill_pairs es) \<longleftrightarrow> (\<exists>name. latest_skill_pair es name i j)"
proof -
  let ?obs = "observations_by_action_id 0 es (\<lambda>_. None)"
  have "(i, j) \<in> set (skill_pairs es) \<longleftrightarrow> (\<exists>name. (name, i, j) \<in> set (latest_pairs ?obs 0 es []))"
    by (force simp: skill_pairs_def)
  also have "\<dots> \<longleftrightarrow> (\<exists>name. map_of (latest_pairs ?obs 0 es []) name = Some (i, j))"
    using distinct_latest_pairs [of "[]"] by (simp add: map_of_eq_Some_iff)
  also have "\<dots> \<longleftrightarrow> (\<exists>name. latest_skill_pair es name i j)"
  proof (intro iff_exI)
    fix name
    have "(\<forall>k l. i < k \<and> k < length es \<longrightarrow> \<not> completes ?obs (es ! k) name l) \<longleftrightarrow> (\<forall>k l. i < k \<longrightarrow> \<not> skill_pair es name k l)"
      using completes_pair [of _ es name] skill_pair_index [of es name] by blast
    moreover have "i < length es \<and> completes ?obs (es ! i) name j \<longleftrightarrow> skill_pair es name i j"
      using completes_pair [of i es name j] skill_pair_index [of es name i j] by blast
    ultimately show "map_of (latest_pairs ?obs 0 es []) name = Some (i, j) \<longleftrightarrow> latest_skill_pair es name i j"
      unfolding latest_pairs_last latest_skill_pair_def by blast
  qed
  finally show ?thesis .
qed

lemma pin_pairs_whole:
  "pin_pairs tokens limit ps pinned used = Inr pinned' \<Longrightarrow>
     \<exists>qs. subseq qs ps \<and> pinned' = pinned \<union> fst ` set qs \<union> snd ` set qs"
proof (induction tokens limit ps pinned used rule: pin_pairs.induct)
  case (2 tokens limit p ps pinned used)
  then obtain t where t: "tokens p = Inr t" by (cases "tokens p") auto
  show ?case
  proof (cases "used + t \<le> limit")
    case True
    then obtain qs where "subseq qs ps" "pinned' = pinned \<union> {fst p, snd p} \<union> fst ` set qs \<union> snd ` set qs"
      using 2(1) [OF t True] 2(3) t by auto
    then show ?thesis by (intro exI [of _ "p # qs"]) auto
  next
    case False
    then obtain qs where "subseq qs ps" "pinned' = pinned \<union> fst ` set qs \<union> snd ` set qs"
      using 2(2) [OF t False] 2(3) t by auto
    then show ?thesis by (intro exI [of _ qs]) auto
  qed
qed (auto intro: exI [of _ "[]"])

lemma pinned_are_latest:
  assumes "pinned_indices env llm target es = Inr pinned" and "k \<in> pinned"
  shows "\<exists>name i j. latest_skill_pair es name i j \<and> {i, j} \<subseteq> pinned \<and> k \<in> {i, j}"
proof -
  obtain qs where qs: "subseq qs (skill_pairs es)" "pinned = fst ` set qs \<union> snd ` set qs"
    using pin_pairs_whole [OF assms(1) [unfolded pinned_indices_def]] by auto
  then obtain i j where "(i, j) \<in> set qs" "k \<in> {i, j}" using assms(2) by auto
  moreover from this have "(i, j) \<in> set (skill_pairs es)" using list_emb_set [OF qs(1)] by auto
  moreover have "{i, j} \<subseteq> pinned" using calculation(1) qs(2) by force
  ultimately show ?thesis using skill_pairs_latest by blast
qed

text \<open>
  C28. Applying a condensation of the summarizing condenser cuts one range out of the view, between
  two manipulation indices at or after \<open>keep_first\<close>: the events before the range stay, then comes
  the summary (if the LLM gave text), then exactly the pinned events of the range in their order, then
  the events after the range; in particular the first \<open>keep_first\<close> events stay where they are. What is
  pinned are whole pairs of an \<open>invoke_skill\<close> action and its observation, and of a skill only the latest.
\<close>

theorem condensation_shape:
  assumes "get_condensation cfg env llm v st = (Inr c, st')"
    and "distinct (map ev_id (view_events v))"
  shows "\<exists>I start stop pinned. manipulation_indices v = Inr I \<and> start \<in> I \<and> stop \<in> I \<and>
    keep_first cfg \<le> start \<and> start < stop \<and>
    pinned_indices env llm (map_option (\<lambda>m. m div 2) (effective_max_tokens cfg llm)) (view_events v) = Inr pinned \<and>
    (\<forall>k \<in> pinned. \<exists>name i j. latest_skill_pair (view_events v) name i j \<and> {i, j} \<subseteq> pinned \<and> k \<in> {i, j}) \<and>
    apply_condensation m c (view_events v) =
      take start (view_events v) @ (case summary_event m c of Inr s \<Rightarrow> [s] | Inl _ \<Rightarrow> []) @
      map ((!) (view_events v)) (filter (\<lambda>i. i \<in> pinned) [start..<stop]) @ drop stop (view_events v) \<and>
    take (keep_first cfg) (apply_condensation m c (view_events v)) =
      take (keep_first cfg) (view_events v)"
proof -
  let ?es = "view_events v"
  from condensation_cut [OF assms] obtain I pinned start stop where
    I: "manipulation_indices v = Inr I" "start \<in> I" "stop \<in> I" "keep_first cfg \<le> start"
      "start < stop" "stop \<le> length ?es"
    and off: "co_summary_offset c = Some start"
    and fil: "filter (\<lambda>e. ev_id e \<notin> co_forgotten_event_ids c) ?es =
      survivors ?es pinned start stop"
    and pin: "pinned_indices env llm (map_option (\<lambda>m. m div 2) (effective_max_tokens cfg llm)) ?es = Inr pinned" by blast
  let ?pins = "map ((!) ?es) (filter (\<lambda>i. i \<in> pinned) [start..<stop])"
  have sv: "survivors ?es pinned start stop = take start ?es @ ?pins @ drop stop ?es"
    using survivors_shape [OF assms(2)] I(5,6) by simp
  have len: "length (take start ?es) = start" using I(5,6) by simp
  have ap: "apply_condensation m c ?es = take start ?es @
      (case summary_event m c of Inr s \<Rightarrow> [s] | Inl _ \<Rightarrow> []) @ ?pins @ drop stop ?es"
    using fil sv off len
    by (auto simp: apply_condensation_def has_summary_metadata_def summary_event_def py_insert_def
        split: option.splits)
  have "take (keep_first cfg) (apply_condensation m c ?es) = take (keep_first cfg) ?es"
    unfolding ap using I(4) len by (simp add: min_absorb1)
  with I ap pin pinned_are_latest [OF pin] show ?thesis by blast
qed

text \<open>
  A condensation makes progress: it forgets at least one event and at least the configured
  fraction of the view, and exactly the forgotten ids leave the view.
\<close>

theorem condensation_progress:
  assumes "get_condensation cfg env llm v st = (Inr c, st')"
    and "distinct (map ev_id (view_events v))"
  shows "0 < card (co_forgotten_event_ids c) \<and>
    length (view_events v) * fst (minimum_progress cfg) \<le>
      card (co_forgotten_event_ids c) * snd (minimum_progress cfg) \<and>
    length (filter (\<lambda>e. ev_id e \<notin> co_forgotten_event_ids c) (view_events v)) +
      card (co_forgotten_event_ids c) = length (view_events v)"
proof -
  let ?es = "view_events v"
  from condensation_cut [OF assms] obtain pinned start stop where
    lt: "start < stop" "stop \<le> length ?es"
    and ids: "co_forgotten_event_ids c = ev_id ` set (forgotten_between ?es pinned start stop)"
    and prog: "length ?es * fst (minimum_progress cfg) \<le>
      length (forgotten_between ?es pinned start stop) * snd (minimum_progress cfg)"
    by blast
  let ?fs = "forgotten_between ?es pinned start stop"
  from get_condensationD [OF assms(1)] have ne: "co_forgotten_event_ids c \<noteq> {}" by auto
  have "distinct (map (\<lambda>i. map ev_id ?es ! i) (filter (\<lambda>i. i \<notin> pinned) [start..<stop]))"
    using lt(2) by (auto simp: distinct_map intro!: inj_on_nth [OF assms(2)])
  moreover have "map (\<lambda>i. map ev_id ?es ! i) (filter (\<lambda>i. i \<notin> pinned) [start..<stop]) =
      map ev_id ?fs"
    using lt(2) by (auto simp: forgotten_between_def)
  ultimately have d: "distinct (map ev_id ?fs)" by simp
  have sub: "set ?fs \<subseteq> set ?es" using lt(2) by (auto simp: forgotten_between_def)
  have card: "card (co_forgotten_event_ids c) = length ?fs"
    using distinct_card [OF d] ids by simp
  have "card (co_forgotten_event_ids c) =
      card (ev_id ` set (filter (\<lambda>e. ev_id e \<in> co_forgotten_event_ids c) ?es))"
    using ids sub by (intro arg_cong [where f = card]) auto
  also have "\<dots> = length (map ev_id (filter (\<lambda>e. ev_id e \<in> co_forgotten_event_ids c) ?es))"
    using distinct_card [of "map ev_id (filter (\<lambda>e. ev_id e \<in> co_forgotten_event_ids c) ?es)"]
      assms(2) by (simp add: distinct_map_filter)
  finally have "length (filter (\<lambda>e. ev_id e \<notin> co_forgotten_event_ids c) ?es) +
      card (co_forgotten_event_ids c) = length ?es"
    using sum_length_filter_compl [of "\<lambda>e. ev_id e \<in> co_forgotten_event_ids c" ?es] by simp
  with prog card ne ids show ?thesis by (simp add: card_gt_0_iff)
qed

text \<open>
  Under token pressure the condensation meets its target: the events it leaves fit half the
  token limit, unless the cut already extends to the last manipulation index of the view.
\<close>

theorem condensation_token_target:
  assumes "get_condensation cfg env llm v st = (Inr c, st')"
    and "distinct (map ev_id (view_events v))"
    and "get_condensation_reasons cfg env llm v st = (Inr rs, st')" and "TOKENS \<in> rs"
  shows "\<exists>limit l t I stop. effective_max_tokens cfg llm = Some limit \<and> llm = Some l \<and>
    manipulation_indices v = Inr I \<and> stop \<in> I \<and>
    co_forgotten_event_ids c \<subseteq> ev_id ` set (take stop (view_events v)) \<and>
    get_total_token_count
      (filter (\<lambda>e. ev_id e \<notin> co_forgotten_event_ids c) (view_events v)) l = Inr t \<and>
    (t \<le> limit div 2 \<or> stop = Max I)"
proof -
  let ?es = "view_events v"
  from condensation_cut [OF assms(1,2)] assms(3,4) obtain I pinned start stop limit l t where
    I: "manipulation_indices v = Inr I" "stop \<in> I" "stop \<le> length ?es"
    and ids: "co_forgotten_event_ids c = ev_id ` set (forgotten_between ?es pinned start stop)"
    and fil: "filter (\<lambda>e. ev_id e \<notin> co_forgotten_event_ids c) ?es =
      survivors ?es pinned start stop"
    and m: "effective_max_tokens cfg llm = Some limit" "llm = Some l"
      "get_total_token_count (survivors ?es pinned start stop) l = Inr t"
      "t \<le> limit div 2 \<or> (\<forall>i \<in> I. i \<le> stop)"
    by auto
  have sub: "set (forgotten_between ?es pinned start stop) \<subseteq> set (take stop ?es)"
  proof
    fix e assume "e \<in> set (forgotten_between ?es pinned start stop)"
    then obtain i where "i < stop" "e = ?es ! i" by (auto simp: forgotten_between_def)
    then have "e = take stop ?es ! i" "i < length (take stop ?es)" using I(3) by auto
    then show "e \<in> set (take stop ?es)" by (metis nth_mem)
  qed
  have "(\<forall>i \<in> I. i \<le> stop) \<longrightarrow> stop = Max I"
    using Max_eqI [OF manipulation_indices_range(2) [OF I(1)] _ I(2)] by auto
  with m(4) have "t \<le> limit div 2 \<or> stop = Max I" by blast
  moreover have "co_forgotten_event_ids c \<subseteq> ev_id ` set (take stop ?es)"
    unfolding ids using sub by blast
  ultimately show ?thesis using I m(1-3) fil by auto
qed

section \<open>The condensed view stays well formed\<close>

lemma summary_no_tool_events:
  "no_tool_events (case summary_event m c of Inr s \<Rightarrow> [s] | Inl _ \<Rightarrow> [])"
  using summary_event_facts [of m c] by (auto simp: no_tool_events_def split: sum.splits)

lemma no_skill_pairs_no_pins:
  "skill_pairs es = [] \<Longrightarrow> pinned_indices env llm tt es = Inr pinned \<Longrightarrow> pinned = {}"
  by (simp add: pinned_indices_def)

text \<open>
  Condensing a well-formed view gives a well-formed view: when no skill pair is pinned, the
  condensed view still has one observation per tool call, its calls and results are matched and in
  order, and it ends up with defined manipulation indices, so the next condensation can start.
\<close>

theorem condensation_keeps_tool_calls:
  assumes "get_condensation cfg env llm v st = (Inr c, st')"
    and "distinct (map ev_id (view_events v))"
    and "obs_unique (view_events v)" and "calls_matched (view_events v)"
    and "distinct (map tool_call_id (filter is_action (view_events v)))"
    and "skill_pairs (view_events v) = []"
  shows "let es = apply_condensation m c (view_events v) in
    obs_unique es \<and> calls_matched es \<and> calls_ordered es {} \<and>
    is_ok (manipulation_indices \<lparr>view_events = es, unhandled_condensation_request = False\<rparr>)"
proof -
  let ?es = "view_events v" and ?ss = "case summary_event m c of Inr s \<Rightarrow> [s] | Inl _ \<Rightarrow> []"
  from condensation_cut [OF assms(1,2)] obtain I pinned start stop where
    I: "manipulation_indices v = Inr I" "start \<in> I" "stop \<in> I" "start < stop"
      "stop \<le> length ?es"
    and off: "co_summary_offset c = Some start"
    and fil: "filter (\<lambda>e. ev_id e \<notin> co_forgotten_event_ids c) ?es =
      survivors ?es pinned start stop"
    and pin: "pinned_indices env llm (map_option (\<lambda>m. m div 2) (effective_max_tokens cfg llm)) ?es =
      Inr pinned" by blast
  have sv: "survivors ?es {} start stop = take start ?es @ drop stop ?es"
    using survivors_shape [OF assms(2)] I(4,5) by simp
  have "apply_condensation m c ?es = cut_view start stop ?ss ?es"
    using fil sv off I(4,5) no_skill_pairs_no_pins [OF assms(6) pin]
    by (auto simp: apply_condensation_def has_summary_metadata_def summary_event_def py_insert_def
        cut_view_def split: option.splits)
  moreover have "obs_unique (cut_view start stop ?ss ?es) \<and>
      calls_matched (cut_view start stop ?ss ?es) \<and> calls_ordered (cut_view start stop ?ss ?es) {}"
    using cut_tool_calls [OF I(1-3) _ assms(3-5) summary_no_tool_events] I(4) by simp
  ultimately show ?thesis
    using manipulation_indices_unique [of
        "\<lparr>view_events = apply_condensation m c ?es, unhandled_condensation_request = False\<rparr>"]
    by (simp add: Let_def)
qed

section \<open>Hard resets and requests\<close>

lemma hard_reset_loop_result:
  assumes "es \<noteq> []"
  shows "\<exists>r. hard_reset_loop cfg env es n call max_len = Inr r \<and>
    (\<forall>c. r = Some c \<longrightarrow> co_forgotten_event_ids c = ev_id ` set es \<and> co_summary_offset c = Some 0) \<and>
    ((\<exists>k. call \<le> k \<and> k < call + n \<and> (\<forall>ms. is_ok (completion env k ms))) \<longrightarrow> r \<noteq> None)"
  using assms
proof (induction n arbitrary: call max_len)
  case 0
  then show ?case by auto
next
  case (Suc n)
  show ?case
  proof (cases "generate_condensation env call es 0 max_len")
    case (Inr c)
    then show ?thesis using Suc.prems
      by (auto simp: generate_condensation_def split: sum.splits)
  next
    case (Inl e)
    then have "\<not> is_ok (completion env call (summary_prompt env es max_len))"
      using Suc.prems by (auto simp: generate_condensation_def is_ok_iff)
    then have fail: "\<not> (\<forall>ms. is_ok (completion env call ms))" by blast
    obtain num den where q: "hard_context_reset_context_scaling cfg = (num, den)" by force
    define m where "m = (case max_len of
      None \<Rightarrow> Max (set (map (\<lambda>e. length (event_str e)) es)) | Some m \<Rightarrow> m)"
    have eq: "hard_reset_loop cfg env es (Suc n) call max_len =
        hard_reset_loop cfg env es n (Suc call) (Some (m * num div den))"
      using Inl Suc.prems q by (simp add: m_def)
    have later: "\<exists>k. Suc call \<le> k \<and> k < Suc call + n \<and> (\<forall>ms. is_ok (completion env k ms))"
      if "\<exists>k. call \<le> k \<and> k < call + Suc n \<and> (\<forall>ms. is_ok (completion env k ms))"
      using that fail by (metis Suc_leI add_Suc add_Suc_right le_neq_implies_less)
    show ?thesis using Suc.IH [OF Suc.prems, of "Suc call" "Some (m * num div den)"] eq later
      by auto
  qed
qed

text \<open>
  A hard context reset of a non-empty view ends after at most the configured number of LLM
  calls, without an error: it returns a condensation if some call succeeds, and that condensation
  forgets every event of the view, the first \<open>keep_first\<close> ones included, and puts the summary at
  the start.
\<close>

theorem hard_context_reset_result:
  assumes "view_events v \<noteq> []"
  shows "\<exists>r. hard_context_reset cfg env v = Inr r \<and>
    (\<forall>c. r = Some c \<longrightarrow>
       co_forgotten_event_ids c = ev_id ` set (view_events v) \<and> co_summary_offset c = Some 0 \<and>
       filter (\<lambda>e. ev_id e \<notin> co_forgotten_event_ids c) (view_events v) = []) \<and>
    ((\<exists>k \<in> {1..hard_context_reset_max_retries cfg}. \<forall>ms. is_ok (completion env k ms)) \<longrightarrow>
       r \<noteq> None)"
proof -
  obtain r where r: "hard_context_reset cfg env v = Inr r"
    "\<forall>c. r = Some c \<longrightarrow>
       co_forgotten_event_ids c = ev_id ` set (view_events v) \<and> co_summary_offset c = Some 0"
    "(\<exists>k. 1 \<le> k \<and> k < 1 + hard_context_reset_max_retries cfg \<and>
       (\<forall>ms. is_ok (completion env k ms))) \<longrightarrow> r \<noteq> None"
    using hard_reset_loop_result [OF assms, of cfg env "hard_context_reset_max_retries cfg" 1 None]
    unfolding hard_context_reset_def by blast
  have "r \<noteq> None" if "k \<in> {1..hard_context_reset_max_retries cfg}"
    "\<forall>ms. is_ok (completion env k ms)" for k
    using r(3) that by (auto simp: less_Suc_eq_le)
  with r(1,2) show ?thesis by (auto simp: filter_empty_conv)
qed

text \<open>A view whose events can be counted in any selection.\<close>

definition countable_view :: "agent_llm option \<Rightarrow> view \<Rightarrow> bool" where
  "countable_view llm v \<longleftrightarrow>
     (\<forall>l es. llm = Some l \<and> set es \<subseteq> set (view_events v) \<longrightarrow> is_ok (get_total_token_count es l))"

lemma shortest_prefix_search_ok:
  "(\<And>k. is_ok (tokens k)) \<Longrightarrow> is_ok (shortest_prefix_search tokens count left right)"
proof (induction tokens count left right rule: shortest_prefix_search.induct)
  case (1 tokens count left right)
  show ?case
  proof (cases "left < right")
    case True
    obtain t where "tokens ((left + right) div 2) = Inr t"
      using "1.prems" by (auto simp: is_ok_iff)
    with True "1.IH" [OF True refl this] "1.prems" show ?thesis
      by (subst shortest_prefix_search.simps) (auto simp: Let_def)
  qed (subst shortest_prefix_search.simps, simp)
qed

lemma and_then_ok: "is_ok r \<Longrightarrow> (\<And>a. r = Inr a \<Longrightarrow> is_ok (f a)) \<Longrightarrow> is_ok (and_then r f)"
  by (cases r) auto

lemma suffix_length_ok:
  assumes "\<And>es. set es \<subseteq> set base \<union> set events \<Longrightarrow> is_ok (get_total_token_count es l)"
  shows "is_ok (get_suffix_length_for_token_reduction events l n base)"
proof -
  have sub: "set (base @ take k events) \<subseteq> set base \<union> set events" for k
    using set_take_subset [of k events] by auto
  have "is_ok (get_shortest_prefix_above_token_count events l n base)"
    unfolding get_shortest_prefix_above_token_count_def
    by (auto intro!: and_then_ok assms shortest_prefix_search_ok sub [THEN assms]
        dest: in_set_takeD)
  then show ?thesis
    by (auto simp: get_suffix_length_for_token_reduction_def intro: and_then_ok)
qed

lemma observations_by_action_id_range:
  assumes "\<And>a j s. d a = Some (j, s) \<Longrightarrow> j < i"
    and "observations_by_action_id i es d a = Some (j, s)"
  shows "j < i + length es"
  using assms
proof (induction es arbitrary: i d)
  case (Cons e es)
  let ?d = "case skill_observation e of None \<Rightarrow> d | Some (aid, s) \<Rightarrow> d(aid := Some (i, s))"
  have "\<And>a j s. ?d a = Some (j, s) \<Longrightarrow> j < Suc i"
    using Cons.prems(1) by (fastforce split: option.splits if_splits)
  from Cons.IH [OF this] Cons.prems(2) show ?case by fastforce
qed auto

lemma set_map_snd_update:
  "snd ` set (AList.update k v d) \<subseteq> insert v (snd ` set d)"
  by (induction d) auto

lemma latest_pairs_range:
  assumes "\<And>a j s. obs a = Some (j, s) \<Longrightarrow> j < n" and "i + length es \<le> n"
    and "\<And>p. p \<in> snd ` set d \<Longrightarrow> fst p < n \<and> snd p < n"
  shows "p \<in> snd ` set (latest_pairs obs i es d) \<Longrightarrow> fst p < n \<and> snd p < n"
  using assms(2,3)
proof (induction es arbitrary: i d)
  case (Cons e es)
  let ?d = "case skill_action e of None \<Rightarrow> d | Some name \<Rightarrow>
    (case obs (ev_id e) of None \<Rightarrow> d
     | Some (j, s) \<Rightarrow> if s \<noteq> strip name then d else AList.update (strip name) (i, j) d)"
  have d: "fst q < n \<and> snd q < n" if "q \<in> snd ` set ?d" for q
  proof -
    have "?d = d \<or> (\<exists>s j. obs (ev_id e) = Some (j, s) \<and> ?d = AList.update s (i, j) d)"
      by (cases "skill_action e"; cases "obs (ev_id e)") auto
    with that consider "q \<in> snd ` set d"
      | s j where "obs (ev_id e) = Some (j, s)" "q = (i, j)"
      using set_map_snd_update [of _ _ d] by (smt (verit) insertE subsetD)
    then show ?thesis using Cons.prems(2,3) assms(1) by cases auto
  qed
  show ?case by (rule Cons.IH [of "Suc i" ?d]) (use Cons.prems d in auto)
qed simp

lemma skill_pairs_range:
  assumes "p \<in> set (skill_pairs es)"
  shows "fst p < length es \<and> snd p < length es"
proof -
  let ?obs = "observations_by_action_id 0 es (\<lambda>_. None)"
  have "\<And>a j s. ?obs a = Some (j, s) \<Longrightarrow> j < length es"
    using observations_by_action_id_range [where d = "\<lambda>_. None" and i = 0 and es = es] by simp
  from latest_pairs_range [OF this, where i = 0 and es = es and d = "[]" and p = p] assms show ?thesis
    by (auto simp: skill_pairs_def)
qed

lemma pin_pairs_ok:
  "(\<And>p. p \<in> set ps \<Longrightarrow> is_ok (tokens p)) \<Longrightarrow> is_ok (pin_pairs tokens limit ps pinned used)"
  by (induction ps arbitrary: pinned used) (auto intro!: and_then_ok)

lemma extend_end_ok:
  "(\<And>c. is_ok (tokens c)) \<Longrightarrow> is_ok (extend_end tokens target cs stop)"
  by (induction cs arbitrary: stop) (auto intro!: and_then_ok)

lemma countable_count:
  "countable_view (Some l) v \<Longrightarrow> set es \<subseteq> set (view_events v) \<Longrightarrow>
     is_ok (get_total_token_count es l)"
  by (simp add: countable_view_def)

lemma pinned_indices_ok:
  assumes "countable_view llm v"
  shows "is_ok (pinned_indices env llm tt (view_events v))"
  unfolding pinned_indices_def
proof (rule pin_pairs_ok)
  fix p assume "p \<in> set (skill_pairs (view_events v))"
  from skill_pairs_range [OF this]
  have "set [view_events v ! fst p, view_events v ! snd p] \<subseteq> set (view_events v)" by auto
  with assms show "is_ok (case p of (i, j) \<Rightarrow>
      let pair_events = [view_events v ! i, view_events v ! j] in
      case llm of Some l \<Rightarrow> get_total_token_count pair_events l
      | None \<Rightarrow> Inr (token_estimate env pair_events))"
    by (auto simp: Let_def countable_view_def split: prod.splits option.splits)
qed

lemma find_next_error: "find_next I t = Inl e \<Longrightarrow> e = ValueError"
  by (auto simp: find_next_def Let_def split: if_splits)

lemma forgotten_for_error:
  assumes "countable_view llm v" and "is_ok (manipulation_indices v)" and "rs \<noteq> {}"
    and "TOKENS \<in> rs \<longrightarrow> llm \<noteq> None \<and> effective_max_tokens cfg llm \<noteq> None"
    and "forgotten_for cfg env llm v rs = Inl e"
  shows "e = ValueError"
proof -
  let ?es = "view_events v"
  let ?tt = "map_option (\<lambda>m. m div 2) (effective_max_tokens cfg llm)"
  have count: "is_ok (get_total_token_count es l)" if "llm = Some l" "set es \<subseteq> set ?es" for es l
    using countable_count assms(1) that by blast
  have suffix: "is_ok (suffix_events_to_keep cfg llm ?tt rs ?es)"
    using assms(4) unfolding suffix_events_to_keep_def Let_def
    by (auto intro!: and_then_ok count suffix_length_ok split: option.splits
        dest: in_set_takeD in_set_dropD)
  have stop: "is_ok (forgetting_end llm ?tt rs ?es pinned start cs stop)" for pinned start cs stop
    by (auto simp: forgetting_end_def survivors_def Let_def intro!: extend_end_ok count
        split: bool.splits option.splits)
  then have no_stop: "forgetting_end llm ?tt rs ?es pinned start cs stop \<noteq> Inl e"
    for pinned start cs stop by (metis is_ok_simps(2))
  obtain keep I pinned where "suffix_events_to_keep cfg llm ?tt rs ?es = Inr keep"
    "manipulation_indices v = Inr I" "pinned_indices env llm ?tt ?es = Inr pinned"
    using suffix assms(2) pinned_indices_ok [OF assms(1), of env ?tt] by (auto simp: is_ok_iff)
  with assms(3,5) no_stop show ?thesis
    by (auto simp: forgotten_for_def Let_def and_then_def split: sum.splits dest: find_next_error)
qed

text \<open>
  A condensation request is always answered: on a non-empty view with defined manipulation
  indices whose tokens can be counted, and with an LLM that answers, the condenser returns a
  condensation (regular or by a hard reset), never the unchanged view and never an error, and
  appending that condensation clears the request.
\<close>

theorem condense_answers_request:
  assumes "unhandled_condensation_request v" and "view_events v \<noteq> []"
    and "countable_view llm v" and "is_ok (manipulation_indices v)"
    and "\<And>k ms. is_ok (completion env k ms)" and "0 < hard_context_reset_max_retries cfg"
  shows "\<exists>c st'. condense cfg env llm v st = (Inr (CondensedBy c), st') \<and>
    \<not> unhandled_condensation_request (append_event v (Condensation m c))"
proof -
  have tc: "\<exists>t st'. token_count env v l limit st = (Inr t, st')" if "llm = Some l" for l limit
    using countable_count [of l v "view_events v"] assms(3) that
    by (auto simp: token_count_def Let_def is_ok_iff split: sum.splits)
  obtain rs st1 where rs: "get_condensation_reasons cfg env llm v st = (Inr rs, st1)"
    "REQUEST \<in> rs"
    "TOKENS \<in> rs \<longrightarrow> llm \<noteq> None \<and> effective_max_tokens cfg llm \<noteq> None"
  proof (cases "llm = None \<or> effective_max_tokens cfg llm = None")
    case True
    then have "get_condensation_reasons cfg env llm v st = (Inr ({REQUEST} \<union>
        (if max_size cfg < length (view_events v) then {EVENTS} else {})), st)"
      using assms(1) by (auto simp: get_condensation_reasons_def Let_def split: option.splits)
    then show ?thesis by (rule that) auto
  next
    case False
    then obtain l limit where l: "llm = Some l" "effective_max_tokens cfg llm = Some limit" by auto
    obtain t st1 where "token_count env v l limit st = (Inr t, st1)" using tc [OF l(1)] by blast
    with l assms(1) have "get_condensation_reasons cfg env llm v st = (Inr ({REQUEST} \<union>
        (if limit < t then {TOKENS} else {}) \<union>
        (if max_size cfg < length (view_events v) then {EVENTS} else {})), st1)"
      by (simp add: get_condensation_reasons_def Let_def)
    then show ?thesis by (rule that) (use l in auto)
  qed
  have hard: "condensation_requirement cfg env llm v st = (Inr (Some HARD), st1)"
    using rs by (auto simp: condensation_requirement_def requirement_of_def)
  have "\<exists>k. 1 \<le> k \<and> k < 1 + hard_context_reset_max_retries cfg \<and>
      (\<forall>ms. is_ok (completion env k ms))"
    using assms(5,6) by (intro exI [of _ 1]) simp
  with hard_reset_loop_result [OF assms(2), of cfg env "hard_context_reset_max_retries cfg" 1 None]
  obtain r where r: "hard_context_reset cfg env v = Inr (Some r)"
    unfolding hard_context_reset_def by auto
  have get: "get_condensation cfg env llm v st1 = (Inl NoCondensationAvailable, st1) \<or>
      (\<exists>c. get_condensation cfg env llm v st1 = (Inr c, st1))"
  proof (cases "forgotten_for cfg env llm v rs")
    case (Inl e)
    with forgotten_for_error [OF assms(3,4) _ rs(3)] rs(2) have "e = ValueError" by blast
    with Inl reasons_stable [OF rs(1)] show ?thesis
      by (simp add: get_condensation_def get_forgotten_events_def)
  next
    case (Inr x)
    obtain fs start where x: "x = (fs, start)" by force
    have "is_ok (generate_condensation env 0 fs start None)" if "fs \<noteq> []"
      using that assms(5) [of 0 "summary_prompt env fs None"]
      by (auto simp: generate_condensation_def is_ok_def split: sum.splits)
    with Inr x reasons_stable [OF rs(1)] show ?thesis
      by (auto simp: get_condensation_def get_forgotten_events_def is_ok_iff)
  qed
  then show ?thesis using hard r
    by (auto simp: condense_def rolling_condense_def)
qed

section \<open>Pipelines\<close>

text \<open>
  A pipeline is the sequential composition of its condensers: running one pipeline and, if it
  still returns a view, a second one on that view is running their concatenation; the first
  condensation ends it.
\<close>

theorem pipeline_condense_append:
  "pipeline_condense (cs @ ds) v st =
     (case pipeline_condense cs v st of
        (Inr (CondensedView w), st') \<Rightarrow> pipeline_condense ds w st'
      | r \<Rightarrow> r)"
proof -
  have stop: "pipeline_from ds (CondensedBy x) st = (Inr (CondensedBy x), st)" for ds x st
    by (cases ds) auto
  have "pipeline_from (cs @ ds) r st =
      (case pipeline_from cs r st of
         (Inr (CondensedView w), st') \<Rightarrow> pipeline_from ds (CondensedView w) st' | q \<Rightarrow> q)" for r
    by (induction cs r st rule: pipeline_from.induct)
      (auto simp: stop split: prod.splits sum.splits condense_result.splits)
  then show ?thesis unfolding pipeline_condense_def .
qed

section \<open>Closed instances\<close>

text \<open>Four user messages, a limit of 30 tokens, and a tokenizer of ten tokens per part.\<close>

definition sample_history :: view where
  "sample_history = \<lparr>view_events = map (\<lambda>i. sample_message i SourceUser ''hi'')
     [''1'', ''2'', ''3'', ''4''],
     unhandled_condensation_request = True\<rparr>"

definition sample_condenser :: condenser where
  "sample_condenser =
     \<lparr>max_size = 6, max_tokens = Some 30, keep_first = 1, minimum_progress = (1, 10),
      hard_context_reset_max_retries = 2, hard_context_reset_context_scaling = (4, 5)\<rparr>"

definition sample_llm :: agent_llm where
  "sample_llm = \<lparr>effective_max_input_tokens = None,
     get_token_count = (\<lambda>ms tools risk. 10 * int (length (concat (map msg_content ms))))\<rparr>"

definition sample_env :: summarizer where
  "sample_env = \<lparr>completion = (\<lambda>k ms. Inr \<lparr>resp_id = ''r'',
       resp_message = plain_message RoleAssistant [TextContent ''s'']\<rparr>),
     render_template = concat, json_length = (\<lambda>e. 30)\<rparr>"

definition sample_condensed :: condensation_fields where
  "sample_condensed =
     \<lparr>co_forgotten_event_ids = {''2'', ''3'', ''4''}, co_summary = Some ''s'',
      co_summary_offset = Some 1, co_llm_response_id = ''r''\<rparr>"

definition sample_counted :: counted where
  "sample_counted = ([''1'', ''2'', ''3'', ''4''], 40)"


lemma sample_reasons:
  "get_condensation_reasons sample_condenser sample_env (Some sample_llm) sample_history ([], 0) =
     (Inr {REQUEST, TOKENS}, sample_counted)"
  by code_simp

lemma sample_indices: "manipulation_indices sample_history = Inr {0, 1, 2, 3, 4}"
  by code_simp

lemma sample_forgotten:
  "forgotten_for sample_condenser sample_env (Some sample_llm) sample_history {REQUEST, TOKENS} =
     Inr (tl (view_events sample_history), 1)"
  by code_simp

lemma sample_get_condensation:
  "get_condensation sample_condenser sample_env (Some sample_llm) sample_history ([], 0) =
     (Inr sample_condensed, sample_counted)"
  by (simp add: get_condensation_def get_forgotten_events_def sample_reasons sample_forgotten)
    (simp add: generate_condensation_def sample_env_def sample_condensed_def sample_history_def
      sample_condenser_def sample_defs summary_text_def plain_message_def)

lemma sample_history_facts:
  "distinct (map ev_id (view_events sample_history))" "obs_unique (view_events sample_history)"
  "calls_matched (view_events sample_history)"
  "distinct (map tool_call_id (filter is_action (view_events sample_history)))"
  "skill_pairs (view_events sample_history) = []" "view_events sample_history \<noteq> []"
  by code_simp+

theorem get_shortest_prefix_above_token_count_correct_witness:
  "\<exists>k. get_shortest_prefix_above_token_count (view_events sample_history) sample_llm 25 [] = Inr k \<and>
     1 \<le> k \<and> k \<le> length (view_events sample_history)"
proof -
  have "get_total_token_count (view_events sample_history) sample_llm = Inr 40"
    "get_total_token_count (take 0 (view_events sample_history)) sample_llm = Inr 0"
    "get_total_token_count (take 1 (view_events sample_history)) sample_llm = Inr 10"
    "get_total_token_count (take 2 (view_events sample_history)) sample_llm = Inr 20"
    "get_total_token_count (take 3 (view_events sample_history)) sample_llm = Inr 30"
    "length (view_events sample_history) = 4"
    by code_simp+
  then have "get_total_token_count ([] @ take k (view_events sample_history)) sample_llm =
      Inr (10 * int k)" if "k \<le> length (view_events sample_history)" for k
    using that by (auto simp: le_Suc_eq numeral_eq_Suc)
  from get_shortest_prefix_above_token_count_correct [OF sample_history_facts(6) this, of 25]
  show ?thesis by blast
qed

theorem condensation_reasons_stable_witness:
  "get_condensation_reasons sample_condenser sample_env (Some sample_llm) sample_history
     sample_counted = (Inr {REQUEST, TOKENS}, sample_counted)"
proof -
  have "condensation_requirement sample_condenser sample_env (Some sample_llm) sample_history
      ([], 0) = (Inr (Some HARD), sample_counted)"
    by (simp add: condensation_requirement_def sample_reasons requirement_of_def)
  from condensation_reasons_stable [OF this] show ?thesis
    using reasons_stable [OF sample_reasons] by blast
qed

theorem condensation_shape_witness:
  "take 1 (apply_condensation (sample_meta ''c'' SourceEnvironment) sample_condensed
      (view_events sample_history)) = take 1 (view_events sample_history)"
  using condensation_shape [OF sample_get_condensation sample_history_facts(1),
      of "sample_meta ''c'' SourceEnvironment"] by (auto simp: sample_condenser_def)

theorem condensation_progress_witness:
  "0 < card (co_forgotten_event_ids sample_condensed) \<and>
   length (view_events sample_history) * 1 \<le> card (co_forgotten_event_ids sample_condensed) * 10"
  using condensation_progress [OF sample_get_condensation sample_history_facts(1)]
  by (auto simp: sample_condenser_def)

theorem condensation_token_target_witness:
  "\<exists>t. get_total_token_count (filter (\<lambda>e. ev_id e \<notin> co_forgotten_event_ids sample_condensed)
     (view_events sample_history)) sample_llm = Inr t"
  using condensation_token_target [OF sample_get_condensation sample_history_facts(1)
      sample_reasons] by auto

theorem condensation_keeps_tool_calls_witness:
  "calls_matched (apply_condensation (sample_meta ''c'' SourceEnvironment) sample_condensed
     (view_events sample_history))"
  using condensation_keeps_tool_calls [OF sample_get_condensation sample_history_facts(1-5),
      of "sample_meta ''c'' SourceEnvironment"] by (simp add: Let_def)

lemma sample_env_answers: "is_ok (completion sample_env k ms)"
  by (simp add: sample_env_def)

theorem hard_context_reset_result_witness:
  "\<exists>c. hard_context_reset sample_condenser sample_env sample_history = Inr (Some c) \<and>
     ''1'' \<in> co_forgotten_event_ids c"
proof -
  have "\<exists>k \<in> {1..hard_context_reset_max_retries sample_condenser}.
      \<forall>ms. is_ok (completion sample_env k ms)"
    using sample_env_answers by (intro bexI [of _ 1]) (auto simp: sample_condenser_def)
  moreover have "''1'' \<in> ev_id ` set (view_events sample_history)" by code_simp
  ultimately show ?thesis
    using hard_context_reset_result [OF sample_history_facts(6), of sample_condenser sample_env]
    by auto
qed

theorem condense_answers_request_witness:
  "\<exists>c st'. condense sample_condenser sample_env None sample_history ([], 0) =
     (Inr (CondensedBy c), st')"
  using condense_answers_request [of sample_history None sample_env sample_condenser]
    sample_history_facts(6) sample_indices sample_env_answers
  by (auto simp: countable_view_def sample_condenser_def sample_history_def)

end
