(* ===== verification/Event_Log.thy ===== *)
theory Event_Log
  imports Text_Utils Events
begin

text \<open>
  The persistent event log of \<^verbatim>\<open>agentrt/sdk/conversation/event_store.py\<close> on a file store: file
  names, the index scan, reading with a cache, appending under the lock with the length marker, and
  the walk to the root. The file store is the record of its operations, the JSON codec of events is
  a parameter, and dictionaries are association lists in insertion order.
\<close>

section \<open>File stores\<close>

text \<open>The \<open>FileStore\<close> interface over a store state \<open>'s\<close>; any operation may raise.\<close>

record 's file_store =
  fs_write :: "string \<Rightarrow> string \<Rightarrow> 's \<Rightarrow> 's result"
  fs_read :: "string \<Rightarrow> 's \<Rightarrow> string result \<times> 's"
  fs_list :: "string \<Rightarrow> 's \<Rightarrow> string list result"
  fs_delete :: "string \<Rightarrow> 's \<Rightarrow> 's result"
  fs_exists :: "string \<Rightarrow> 's \<Rightarrow> bool result"

text \<open>\<open>model_dump_json\<close> and \<open>model_validate_json\<close> of the event classes.\<close>

record event_codec =
  dump_json :: "event \<Rightarrow> string"
  validate_json :: "string \<Rightarrow> event result"

section \<open>File names\<close>

definition slash :: char where
  "slash = CHR ''/''"

definition to_posix_path :: "string \<Rightarrow> string" where
  "to_posix_path p = map (\<lambda>c. if c = CHR 0x5C then slash else c) p"

definition posix_path_name :: "string \<Rightarrow> string" where
  "posix_path_name p =
     rev (takeWhile (\<lambda>c. c \<noteq> slash) (dropWhile (\<lambda>c. c = slash) (rev (to_posix_path p))))"

definition event_file_name :: "nat \<Rightarrow> event_id \<Rightarrow> string" where
  "event_file_name idx event_id = ''event-'' @ dec_padded 5 idx @ ''-'' @ event_id @ ''.json''"

text \<open>The class \<open>[0-9a-fA-F\-]\<close>.\<close>

definition is_id_char :: "char \<Rightarrow> bool" where
  "is_id_char c \<longleftrightarrow>
     is_digit c \<or> c = CHR ''-'' \<or>
     (65 \<le> (of_char c :: nat) \<and> (of_char c :: nat) \<le> 70) \<or>
     (97 \<le> (of_char c :: nat) \<and> (of_char c :: nat) \<le> 102)"

text \<open>
  \<open>EVENT_NAME_RE.match\<close>. The digits cannot contain the dash that follows them, nor the id the dot,
  so the greedy groups are the longest runs; \<open>$\<close> also matches before a final line feed.
\<close>

definition match_event_name :: "string \<Rightarrow> (nat \<times> event_id) option" where
  "match_event_name name =
     (if \<not> prefix ''event-'' name then None
      else
        let rest = drop 6 name;
            digits = takeWhile is_digit rest;
            rest2 = dropWhile is_digit rest
        in if length digits < 5 \<or> \<not> prefix ''-'' rest2 then None
           else
             let ident = takeWhile is_id_char (tl rest2);
                 rest3 = dropWhile is_id_char (tl rest2)
             in if length ident < 8 \<or> (rest3 \<noteq> ''.json'' \<and> rest3 \<noteq> ''.json'' @ [CHR 0x0A]) then None
                else Some (parse_dec digits, ident))"

definition valid_event_id :: "event_id \<Rightarrow> bool" where
  "valid_event_id i \<longleftrightarrow> list_all is_id_char i \<and> 8 \<le> length i"

definition marker_name :: "nat \<Rightarrow> string" where
  "marker_name n = ''.eventlog-len-'' @ dec n @ ''.marker''"

definition path_in :: "string \<Rightarrow> string \<Rightarrow> string" where
  "path_in dir name = dir @ ''/'' @ name"

section \<open>The log\<close>

record event_log =
  id_to_idx :: "(event_id \<times> nat) list"
  idx_to_id :: "(nat \<times> event_id) list"
  event_cache :: "(nat \<times> event) list"
  log_length :: nat

definition empty_log :: event_log where
  "empty_log = \<lparr>id_to_idx = [], idx_to_id = [], event_cache = [], log_length = 0\<rparr>"

definition get_index :: "event_log \<Rightarrow> event_id \<Rightarrow> nat result" where
  "get_index log event_id =
     (case map_of (id_to_idx log) event_id of None \<Rightarrow> Inl KeyError | Some i \<Rightarrow> Inr i)"

definition get_id :: "event_log \<Rightarrow> int \<Rightarrow> event_id result" where
  "get_id log idx =
     (let i = (if idx < 0 then idx + int (log_length log) else idx)
      in if i < 0 \<or> int (log_length log) \<le> i then Inl IndexError
         else case map_of (idx_to_id log) (nat i) of None \<Rightarrow> Inl KeyError | Some e \<Rightarrow> Inr e)"

definition log_contains :: "event_log \<Rightarrow> event_id \<Rightarrow> bool" where
  "log_contains log event_id \<longleftrightarrow> map_of (id_to_idx log) event_id \<noteq> None"

text \<open>\<open>self._path(idx)\<close> raises \<open>KeyError\<close> for an index without an id.\<close>

definition event_path :: "string \<Rightarrow> event_log \<Rightarrow> nat \<Rightarrow> string result" where
  "event_path dir log idx =
     (case map_of (idx_to_id log) idx of
        None \<Rightarrow> Inl KeyError
      | Some event_id \<Rightarrow> Inr (path_in dir (event_file_name idx event_id)))"

definition effective_parent_id :: "event_log \<Rightarrow> nat \<Rightarrow> event \<Rightarrow> event_id option result" where
  "effective_parent_id log idx e =
     (case ev_parent_id e of
        Some p \<Rightarrow> if p = ROOT_PARENT_ID then Inr None else Inr (Some p)
      | None \<Rightarrow> if idx = 0 then Inr None
               else and_then (get_id log (int idx - 1)) (\<lambda>p. Inr (Some p)))"

subsection \<open>Scanning the directory\<close>

fun collect_names :: "string list \<Rightarrow> (nat \<times> event_id) list \<Rightarrow> (nat \<times> event_id) list" where
  "collect_names [] by_idx = by_idx"
| "collect_names (p # ps) by_idx =
     collect_names ps
       (case match_event_name (posix_path_name p) of
          Some (idx, evt_id) \<Rightarrow> AList.update idx evt_id by_idx
        | None \<Rightarrow> by_idx)"

text \<open>The loop that counts indices up to the first gap.\<close>

function first_gap :: "(nat \<times> event_id) list \<Rightarrow> nat \<Rightarrow> nat" where
  "first_gap by_idx n = (if n \<in> fst ` set by_idx then first_gap by_idx (Suc n) else n)"
  by pat_completeness auto
termination
proof (relation "measure (\<lambda>(by_idx, n). card {k \<in> fst ` set by_idx. n \<le> k})")
  fix by_idx :: "(nat \<times> event_id) list" and n :: nat
  assume n: "n \<in> fst ` set by_idx"
  have "{k \<in> fst ` set by_idx. Suc n \<le> k} \<subset> {k \<in> fst ` set by_idx. n \<le> k}"
  proof (rule psubsetI)
    have "n \<in> {k \<in> fst ` set by_idx. n \<le> k}" "n \<notin> {k \<in> fst ` set by_idx. Suc n \<le> k}"
      using n by auto
    then show "{k \<in> fst ` set by_idx. Suc n \<le> k} \<noteq> {k \<in> fst ` set by_idx. n \<le> k}" by blast
  qed auto
  then show "((by_idx, Suc n), by_idx, n) \<in>
      measure (\<lambda>(by_idx, n). card {k \<in> fst ` set by_idx. n \<le> k})"
    by (auto intro!: psubset_card_mono)
qed simp

declare first_gap.simps [simp del]

text \<open>The id of an index keeps its first occurrence.\<close>

fun index_ids :: "(nat \<times> event_id) list \<Rightarrow> nat list \<Rightarrow> event_log \<Rightarrow> event_log" where
  "index_ids by_idx [] log = log"
| "index_ids by_idx (i # is) log =
     index_ids by_idx is
       (case map_of by_idx i of
          None \<Rightarrow> log
        | Some evt_id \<Rightarrow>
            log\<lparr>idx_to_id := AList.update i evt_id (idx_to_id log),
                id_to_idx := (if map_of (id_to_idx log) evt_id \<noteq> None then id_to_idx log
                              else AList.update evt_id i (id_to_idx log))\<rparr>)"

text \<open>
  \<open>_scan_and_build_index\<close>: the new maps and the length it returns, which the caller stores; the
  cache is emptied. Listing errors and directories without event files give the empty index.
\<close>

definition scan_and_build_index ::
    "'s file_store \<Rightarrow> string \<Rightarrow> 's \<Rightarrow> event_log \<Rightarrow> event_log \<times> nat" where
  "scan_and_build_index fs dir s log =
     (let cleared = log\<lparr>id_to_idx := [], idx_to_id := [], event_cache := []\<rparr>
      in case fs_list fs dir s of
           Inl _ \<Rightarrow> (cleared, 0)
         | Inr paths \<Rightarrow>
             let by_idx = collect_names paths []
             in if by_idx = [] then (cleared, 0)
                else let n = first_gap by_idx 0 in (index_ids by_idx [0..<n] cleared, n))"

definition open_log :: "'s file_store \<Rightarrow> string \<Rightarrow> 's \<Rightarrow> event_log" where
  "open_log fs dir s =
     (let (log, n) = scan_and_build_index fs dir s empty_log in log\<lparr>log_length := n\<rparr>)"

subsection \<open>Reading\<close>

text \<open>Read the file at \<open>path\<close> and cache its event at index \<open>i\<close>.\<close>

definition load_event ::
    "'s file_store \<Rightarrow> event_codec \<Rightarrow> nat \<Rightarrow> string \<Rightarrow> event_log \<Rightarrow> 's \<Rightarrow>
     event result \<times> event_log \<times> 's"
where
  "load_event fs codec i path log s =
     (case fs_read fs path s of
        (Inl e, s') \<Rightarrow> (Inl e, log, s')
      | (Inr txt, s') \<Rightarrow>
          if txt = [] then (Inl FileNotFoundError, log, s')
          else case validate_json codec txt of
              Inl e \<Rightarrow> (Inl e, log, s')
            | Inr evt \<Rightarrow>
                (Inr evt, log\<lparr>event_cache := AList.update i evt (event_cache log)\<rparr>, s'))"

definition get_single_item ::
    "'s file_store \<Rightarrow> event_codec \<Rightarrow> string \<Rightarrow> int \<Rightarrow> event_log \<Rightarrow> 's \<Rightarrow>
     event result \<times> event_log \<times> 's"
where
  "get_single_item fs codec dir idx log s =
     (let j = (if idx < 0 then idx + int (log_length log) else idx); i = nat j
      in if j < 0 \<or> int (log_length log) \<le> j then (Inl IndexError, log, s)
         else case map_of (event_cache log) i of
             Some cached \<Rightarrow> (Inr cached, log, s)
           | None \<Rightarrow>
               (case event_path dir log i of
                  Inr path \<Rightarrow> load_event fs codec i path log s
                | Inl _ \<Rightarrow>
                    let (scanned, n) = scan_and_build_index fs dir s log;
                        log' = scanned\<lparr>log_length := n\<rparr>
                    in if n \<le> i then (Inl IndexError, log', s)
                       else case event_path dir log' i of
                           Inl e \<Rightarrow> (Inl e, log', s)
                         | Inr path \<Rightarrow> load_event fs codec i path log' s))"

text \<open>Iteration, which skips empty files and completes the index as it goes.\<close>

fun iter_from ::
    "'s file_store \<Rightarrow> event_codec \<Rightarrow> string \<Rightarrow> nat list \<Rightarrow> event_log \<Rightarrow> 's \<Rightarrow>
     event list result \<times> event_log \<times> 's"
where
  "iter_from fs codec dir [] log s = (Inr [], log, s)"
| "iter_from fs codec dir (i # is) log s =
     (case map_of (event_cache log) i of
        Some cached \<Rightarrow>
          (case iter_from fs codec dir is log s of
             (Inl e, log', s') \<Rightarrow> (Inl e, log', s')
           | (Inr es, log', s') \<Rightarrow> (Inr (cached # es), log', s'))
      | None \<Rightarrow>
          (case event_path dir log i of
             Inl e \<Rightarrow> (Inl e, log, s)
           | Inr path \<Rightarrow>
               (case fs_read fs path s of
                  (Inl e, s') \<Rightarrow> (Inl e, log, s')
                | (Inr txt, s') \<Rightarrow>
                    if txt = [] then iter_from fs codec dir is log s'
                    else case validate_json codec txt of
                        Inl e \<Rightarrow> (Inl e, log, s')
                      | Inr evt \<Rightarrow>
                          let log1 = (if map_of (idx_to_id log) i = None
                                then log\<lparr>idx_to_id := AList.update i (ev_id evt) (idx_to_id log),
                                   id_to_idx := (if map_of (id_to_idx log) (ev_id evt) = None
                                     then AList.update (ev_id evt) i (id_to_idx log)
                                     else id_to_idx log)\<rparr>
                                else log);
                              log2 = log1\<lparr>event_cache := AList.update i evt (event_cache log1)\<rparr>
                          in (case iter_from fs codec dir is log2 s' of
                                (Inl e, log', s'') \<Rightarrow> (Inl e, log', s'')
                              | (Inr es, log', s'') \<Rightarrow> (Inr (evt # es), log', s'')))))"

definition iter_events ::
    "'s file_store \<Rightarrow> event_codec \<Rightarrow> string \<Rightarrow> event_log \<Rightarrow> 's \<Rightarrow>
     event list result \<times> event_log \<times> 's"
where
  "iter_events fs codec dir log s = iter_from fs codec dir [0..<log_length log] log s"

text \<open>
  \<open>path_to_root\<close>: the walk from the leaf, newest first, which ends at the root, at the limit, or in
  an error. Not returning would be \<open>None\<close>.
\<close>

partial_function (option) walk_to_root ::
    "'s file_store \<Rightarrow> event_codec \<Rightarrow> string \<Rightarrow> nat option \<Rightarrow> event_id option \<Rightarrow> event_id list \<Rightarrow>
     event list \<Rightarrow> event_log \<Rightarrow> 's \<Rightarrow> (event list result \<times> event_log \<times> 's) option"
where
  "walk_to_root fs codec dir limit cur seen chain log s =
     (case cur of
        None \<Rightarrow> Some (Inr chain, log, s)
      | Some cur_id \<Rightarrow>
          if limit \<noteq> None \<and> the limit \<le> length chain then Some (Inr chain, log, s)
          else if cur_id \<in> set seen then Some (Inl ValueError, log, s)
          else case get_index log cur_id of
              Inl e \<Rightarrow> Some (Inl e, log, s)
            | Inr idx \<Rightarrow>
                (case get_single_item fs codec dir (int idx) log s of
                   (Inl e, log', s') \<Rightarrow> Some (Inl e, log', s')
                 | (Inr evt, log', s') \<Rightarrow>
                     (case effective_parent_id log' idx evt of
                        Inl e \<Rightarrow> Some (Inl e, log', s')
                      | Inr parent \<Rightarrow>
                          walk_to_root fs codec dir limit parent (cur_id # seen) (evt # chain)
                            log' s')))"

definition path_to_root ::
    "'s file_store \<Rightarrow> event_codec \<Rightarrow> string \<Rightarrow> event_id option \<Rightarrow> nat option \<Rightarrow> event_log \<Rightarrow> 's \<Rightarrow>
     (event list result \<times> event_log \<times> 's) option"
where
  "path_to_root fs codec dir leaf limit log s = walk_to_root fs codec dir limit leaf [] [] log s"

subsection \<open>Appending\<close>

definition marker_path :: "string \<Rightarrow> nat \<Rightarrow> string" where
  "marker_path dir n = path_in dir (marker_name n)"

definition marker_matches_length :: "'s file_store \<Rightarrow> string \<Rightarrow> event_log \<Rightarrow> 's \<Rightarrow> bool" where
  "marker_matches_length fs dir log s =
     (case fs_exists fs (marker_path dir (log_length log)) s of Inl _ \<Rightarrow> False | Inr b \<Rightarrow> b)"

text \<open>Delete the old marker, then write the new one; an error leaves what was done.\<close>

definition advance_length_marker ::
    "'s file_store \<Rightarrow> string \<Rightarrow> nat \<Rightarrow> event_log \<Rightarrow> 's \<Rightarrow> 's" where
  "advance_length_marker fs dir previous_length log s =
     (case fs_delete fs (marker_path dir previous_length) s of
        Inl _ \<Rightarrow> s
      | Inr s1 \<Rightarrow>
          (case fs_write fs (marker_path dir (log_length log)) [] s1 of
             Inl _ \<Rightarrow> s1
           | Inr s2 \<Rightarrow> s2))"

definition is_event_file :: "string \<Rightarrow> bool" where
  "is_event_file p \<longleftrightarrow> prefix ''event-'' (posix_path_name p) \<and> suffix ''.json'' p"

definition count_events_on_disk :: "'s file_store \<Rightarrow> string \<Rightarrow> 's \<Rightarrow> nat" where
  "count_events_on_disk fs dir s =
     (case fs_list fs dir s of
        Inl _ \<Rightarrow> 0
      | Inr paths \<Rightarrow> length (filter is_event_file paths))"

fun restore_mappings :: "(nat \<times> event_id) list \<Rightarrow> event_log \<Rightarrow> event_log" where
  "restore_mappings [] log = log"
| "restore_mappings ((idx, evt_id) # rest) log =
     restore_mappings rest
       (let log1 = (if map_of (idx_to_id log) idx = None
              then log\<lparr>idx_to_id := AList.update idx evt_id (idx_to_id log)\<rparr> else log)
        in if map_of (id_to_idx log1) evt_id = None
           then log1\<lparr>id_to_idx := AList.update evt_id idx (id_to_idx log1)\<rparr> else log1)"

definition sync_from_disk ::
    "'s file_store \<Rightarrow> string \<Rightarrow> nat \<Rightarrow> 's \<Rightarrow> event_log \<Rightarrow> event_log" where
  "sync_from_disk fs dir disk_length s log =
     (let (scanned, n) = scan_and_build_index fs dir s log
      in (restore_mappings (idx_to_id log) scanned)\<lparr>log_length := max n disk_length\<rparr>)"

text \<open>The synchronisation at the start of an append.\<close>

definition sync_log :: "'s file_store \<Rightarrow> string \<Rightarrow> 's \<Rightarrow> event_log \<Rightarrow> event_log" where
  "sync_log fs dir s log =
     (if marker_matches_length fs dir log s then log
      else let disk_length = count_events_on_disk fs dir s
           in if log_length log < disk_length then sync_from_disk fs dir disk_length s log
              else log)"

text \<open>
  \<open>append\<close>. \<open>locked\<close> tells whether the lock was acquired in time; \<open>guard\<close> is the error the write
  guard raises, if any.
\<close>

definition append ::
    "'s file_store \<Rightarrow> event_codec \<Rightarrow> string \<Rightarrow> bool \<Rightarrow> py_error option \<Rightarrow> event \<Rightarrow> event_log \<Rightarrow> 's \<Rightarrow>
     nat result \<times> event_log \<times> 's"
where
  "append fs codec dir locked guard evt log0 s =
     (if \<not> locked then (Inl TimeoutError, log0, s)
      else
        let log = sync_log fs dir s log0 in
        if log_contains log (ev_id evt) then (Inl ValueError, log, s)
        else if (case ev_parent_id evt of
               None \<Rightarrow> False
             | Some p \<Rightarrow> p \<noteq> ROOT_PARENT_ID \<and> \<not> log_contains log p)
        then (Inl ValueError, log, s)
        else case guard of
            Some e \<Rightarrow> (Inl e, log, s)
          | None \<Rightarrow>
              let idx = log_length log in
              (case fs_write fs (path_in dir (event_file_name idx (ev_id evt)))
                   (dump_json codec evt) s of
                 Inl e \<Rightarrow> (Inl e, log, s)
               | Inr s1 \<Rightarrow>
                   let log' = log\<lparr>idx_to_id := AList.update idx (ev_id evt) (idx_to_id log),
                         id_to_idx := AList.update (ev_id evt) idx (id_to_idx log),
                         event_cache := AList.update idx evt (event_cache log),
                         log_length := Suc idx\<rparr>
                   in (Inr idx, log', advance_length_marker fs dir idx log' s1)))"

section \<open>File names round-trip\<close>

lemma takeWhile_dropWhile_run:
  assumes "list_all P xs" and "ys = [] \<or> \<not> P (hd ys)"
  shows "takeWhile P (xs @ ys) = xs" and "dropWhile P (xs @ ys) = ys"
proof -
  have "takeWhile P ys = []" "dropWhile P ys = ys"
    using assms(2) by (cases ys; auto)+
  then show "takeWhile P (xs @ ys) = xs" "dropWhile P (xs @ ys) = ys"
    using assms(1) by (simp_all add: list_all_iff)
qed

lemma match_event_file_name:
  assumes "valid_event_id i"
  shows "match_event_name (event_file_name n i) = Some (n, i)"
proof -
  let ?rest = "dec_padded 5 n @ ''-'' @ i @ ''.json''"
  have d: "list_all is_digit (dec_padded 5 n)" by (rule dec_padded_digits)
  have digits: "takeWhile is_digit ?rest = dec_padded 5 n"
    "dropWhile is_digit ?rest = ''-'' @ i @ ''.json''"
    using takeWhile_dropWhile_run [OF d, of "''-'' @ i @ ''.json''"] by (auto simp: is_digit_def)
  have "list_all is_id_char i" using assms by (simp add: valid_event_id_def)
  from takeWhile_dropWhile_run [OF this, of "''.json''"]
  have ident: "takeWhile is_id_char (i @ ''.json'') = i"
    "dropWhile is_id_char (i @ ''.json'') = ''.json''"
    by (auto simp: is_id_char_def is_digit_def)
  have "drop 6 (event_file_name n i) = ?rest" "prefix ''event-'' (event_file_name n i)"
    by (simp_all add: event_file_name_def)
  then show ?thesis
    using digits ident assms dec_padded_length [of 5 n]
    by (simp add: match_event_name_def Let_def valid_event_id_def)
qed

end
