(* ===== verification/File_Store.thy ===== *)
theory File_Store
  imports Event_Log
begin

text \<open>
  The file stores of \<^verbatim>\<open>agentrt/sdk/io\<close>: the cache bounded by entries and memory, the store on the
  local disk with that cache in front, and the in-memory store, which is nothing but such a cache.
  A normalized absolute path is the list of its components. \<open>cachetools.LRUCache\<close> is third-party:
  the entries are kept in order of last use, and the entry its \<open>popitem\<close> evicts is the parameter
  \<open>evict\<close>.
\<close>

section \<open>The bounded cache\<close>

record 'k cache =
  entries :: "('k \<times> string) list"
  current_memory :: int

record 'k cache_config =
  max_memory :: int
  max_entries :: nat
  evict :: "('k \<times> string) list \<Rightarrow> 'k"

definition empty_cache :: "'k cache" where
  "empty_cache = \<lparr>entries = [], current_memory = 0\<rparr>"

definition cached :: "'k cache \<Rightarrow> 'k \<Rightarrow> string option" where
  "cached c k = map_of (entries c) k"

text \<open>Reading an entry makes it the most recently used one.\<close>

definition touch :: "'k \<Rightarrow> 'k cache \<Rightarrow> 'k cache" where
  "touch k c =
     (case cached c k of
        None \<Rightarrow> c
      | Some v \<Rightarrow> c\<lparr>entries := AList.delete k (entries c) @ [(k, v)]\<rparr>)"

definition cache_delete :: "'k \<Rightarrow> 'k cache \<Rightarrow> 'k cache result" where
  "cache_delete k c =
     (case cached c k of
        None \<Rightarrow> Inl KeyError
      | Some v \<Rightarrow> Inr (c\<lparr>entries := AList.delete k (entries c),
                         current_memory := current_memory c - int (length v)\<rparr>))"

text \<open>\<open>popitem\<close> evicts through \<open>__delitem__\<close>.\<close>

definition popitem :: "'k cache_config \<Rightarrow> 'k cache \<Rightarrow> 'k cache result" where
  "popitem cfg c =
     (if entries c = [] then Inl KeyError else cache_delete (evict cfg (entries c)) c)"

lemma length_alist_delete:
  "map_of xs k = Some v \<Longrightarrow> length (AList.delete k xs) < length xs"
  by (induction xs) (auto simp: le_imp_less_Suc length_delete_le)

lemma popitem_smaller: "popitem cfg c = Inr c' \<Longrightarrow> length (entries c') < length (entries c)"
  by (auto simp: popitem_def cache_delete_def cached_def intro!: length_alist_delete
      split: if_splits option.splits)

function evict_memory :: "'k cache_config \<Rightarrow> 'k cache \<Rightarrow> 'k cache result" where
  "evict_memory cfg c =
     (if max_memory cfg < current_memory c \<and> entries c \<noteq> []
      then and_then (popitem cfg c) (evict_memory cfg) else Inr c)"
  by pat_completeness auto
termination
  by (relation "measure (\<lambda>(_, c). length (entries c))") (auto dest: popitem_smaller)

declare evict_memory.simps [simp del]

function evict_entries :: "'k cache_config \<Rightarrow> 'k cache \<Rightarrow> 'k cache result" where
  "evict_entries cfg c =
     (if max 1 (max_entries cfg) \<le> length (entries c)
      then and_then (popitem cfg c) (evict_entries cfg) else Inr c)"
  by pat_completeness auto
termination
  by (relation "measure (\<lambda>(_, c). length (entries c))") (auto dest: popitem_smaller)

declare evict_entries.simps [simp del]

text \<open>\<open>super().__setitem__\<close>: room is made for a new key, and the key is the most recent one.\<close>

definition lru_setitem :: "'k cache_config \<Rightarrow> 'k \<Rightarrow> string \<Rightarrow> 'k cache \<Rightarrow> 'k cache result" where
  "lru_setitem cfg k v c =
     and_then (if cached c k \<noteq> None then Inr c else evict_entries cfg c) (\<lambda>c'.
       Inr (c'\<lparr>entries := AList.delete k (entries c') @ [(k, v)]\<rparr>))"

definition cache_setitem :: "'k cache_config \<Rightarrow> 'k \<Rightarrow> string \<Rightarrow> 'k cache \<Rightarrow> 'k cache result" where
  "cache_setitem cfg k v c =
     (let new_size = int (length v)
      in if max_memory cfg < new_size then Inr c
         else
           let c1 = (case cached c k of
                 None \<Rightarrow> c
               | Some old \<Rightarrow>
                   (touch k c)\<lparr>current_memory := current_memory c - int (length old)\<rparr>);
               c2 = c1\<lparr>current_memory := current_memory c1 + new_size\<rparr>
           in and_then (evict_memory cfg c2) (lru_setitem cfg k v))"

section \<open>Paths\<close>

text \<open>\<open>s.split("/")\<close>.\<close>

fun split_slash :: "string \<Rightarrow> string list" where
  "split_slash [] = [[]]"
| "split_slash (c # cs) =
     (case split_slash cs of
        [] \<Rightarrow> [[c]]
      | p # ps \<Rightarrow> if c = slash then [] # p # ps else (c # p) # ps)"

text \<open>\<open>os.path.normpath\<close> on the components of an absolute path, innermost first.\<close>

fun normalize :: "string list \<Rightarrow> string list \<Rightarrow> string list" where
  "normalize stack [] = stack"
| "normalize stack (p # ps) =
     (if p = [] \<or> p = ''.'' then normalize stack ps
      else if p = ''..'' then normalize (tl stack) ps
      else normalize (p # stack) ps)"

type_synonym full_path = "string list"

definition get_full_path :: "full_path \<Rightarrow> string \<Rightarrow> full_path result" where
  "get_full_path root path =
     (let stripped = (if prefix [slash] path then tl path else path);
          normalized_path = to_posix_path stripped;
          base = (if prefix [slash] normalized_path then [] else root);
          full = rev (normalize (rev base) (split_slash normalized_path))
      in if take (length root) full \<noteq> root then Inl ValueError else Inr full)"

section \<open>The local file store\<close>

text \<open>
  The disk: its files in creation order and its directories. The order of \<open>os.listdir\<close> is not
  specified, so it is a parameter of the store, like the eviction order of its cache.
\<close>

record local_store =
  disk :: "(full_path \<times> string) list"
  dirs :: "full_path list"
  file_cache :: "full_path cache"

record local_config =
  root :: full_path
  listdir :: "string list \<Rightarrow> string list"
  cache_config :: "full_path cache_config"

definition is_file :: "local_store \<Rightarrow> full_path \<Rightarrow> bool" where
  "is_file s p \<longleftrightarrow> map_of (disk s) p \<noteq> None"

definition is_dir :: "local_store \<Rightarrow> full_path \<Rightarrow> bool" where
  "is_dir s p \<longleftrightarrow> p \<in> set (dirs s)"

text \<open>\<open>os.makedirs(os.path.dirname(p), exist_ok=True)\<close> creates the missing ancestors of \<open>p\<close>.\<close>

definition ancestors :: "full_path \<Rightarrow> full_path list" where
  "ancestors p = map (\<lambda>n. take n p) [0..<length p]"

definition makedirs :: "full_path \<Rightarrow> local_store \<Rightarrow> local_store result" where
  "makedirs full s =
     (if list_ex (is_file s) (ancestors full) then Inl OSError
      else Inr (s\<lparr>dirs := dirs s @ filter (\<lambda>d. \<not> is_dir s d) (ancestors full)\<rparr>))"

text \<open>
  \<open>write\<close> of text: create the parent directories, replace the file, cache the contents. Paths are compared as
  they are spelled, as in the program, and the disk of the model has no symbolic links, which the program
  neither resolves nor refuses.
\<close>

definition lfs_write :: "local_config \<Rightarrow> string \<Rightarrow> string \<Rightarrow> local_store \<Rightarrow> local_store result" where
  "lfs_write cfg path contents s =
     and_then (get_full_path (root cfg) path) (\<lambda>full.
     and_then (makedirs full s) (\<lambda>s1.
       if is_dir s1 full then Inl OSError
       else
         and_then (cache_setitem (cache_config cfg) full contents (file_cache s1)) (\<lambda>c.
           Inr (s1\<lparr>disk := AList.update full contents (disk s1), file_cache := c\<rparr>))))"

definition lfs_read :: "local_config \<Rightarrow> string \<Rightarrow> local_store \<Rightarrow> string result \<times> local_store" where
  "lfs_read cfg path s =
     (case get_full_path (root cfg) path of
        Inl e \<Rightarrow> (Inl e, s)
      | Inr full \<Rightarrow>
          (case cached (file_cache s) full of
             Some v \<Rightarrow> (Inr v, s\<lparr>file_cache := touch full (file_cache s)\<rparr>)
           | None \<Rightarrow>
               if is_dir s full then (Inl OSError, s)
               else case map_of (disk s) full of
                   None \<Rightarrow> (Inl FileNotFoundError, s)
                 | Some v \<Rightarrow>
                     (case cache_setitem (cache_config cfg) full v (file_cache s) of
                        Inl e \<Rightarrow> (Inl e, s)
                      | Inr c \<Rightarrow> (Inr v, s\<lparr>file_cache := c\<rparr>))))"

text \<open>The names of the direct children of a directory.\<close>

definition children :: "full_path \<Rightarrow> full_path list \<Rightarrow> string list" where
  "children d ps = map last (filter (\<lambda>p. p \<noteq> [] \<and> butlast p = d) ps)"

text \<open>\<open>os.path.join\<close> of a path and a name.\<close>

definition join_path :: "string \<Rightarrow> string \<Rightarrow> string" where
  "join_path path name =
     (if path = [] then name else if suffix [slash] path then path @ name else path @ [slash] @ name)"

definition lfs_list :: "local_config \<Rightarrow> string \<Rightarrow> local_store \<Rightarrow> string list result" where
  "lfs_list cfg path s =
     and_then (get_full_path (root cfg) path) (\<lambda>full.
       if is_file s full then Inr [path]
       else if \<not> is_dir s full then Inr []
       else
         let names = listdir cfg (children full (map fst (disk s) @ dirs s));
             files = map (join_path path) names
         in map_result (\<lambda>f. and_then (get_full_path (root cfg) f) (\<lambda>p.
              Inr (if is_dir s p then f @ [slash] else f))) files)"

text \<open>\<open>delete\<close> swallows every error.\<close>

definition below :: "full_path \<Rightarrow> full_path \<Rightarrow> bool" where
  "below d p \<longleftrightarrow> take (length d) p = d"

definition lfs_delete :: "local_config \<Rightarrow> string \<Rightarrow> local_store \<Rightarrow> local_store result" where
  "lfs_delete cfg path s =
     Inr (case get_full_path (root cfg) path of
        Inl e \<Rightarrow> s
      | Inr full \<Rightarrow>
          if is_file s full then
            s\<lparr>disk := AList.delete full (disk s),
              file_cache := (case cache_delete full (file_cache s) of
                 Inl e \<Rightarrow> file_cache s | Inr c \<Rightarrow> c)\<rparr>
          else if is_dir s full then
            s\<lparr>disk := filter (\<lambda>(p, v). \<not> below full p) (disk s),
              dirs := filter (\<lambda>d. \<not> below full d) (dirs s), file_cache := empty_cache\<rparr>
          else s)"

definition lfs_exists :: "local_config \<Rightarrow> string \<Rightarrow> local_store \<Rightarrow> bool result" where
  "lfs_exists cfg path s =
     and_then (get_full_path (root cfg) path) (\<lambda>full. Inr (is_file s full \<or> is_dir s full))"

definition local_fs :: "local_config \<Rightarrow> local_store file_store" where
  "local_fs cfg =
     \<lparr>fs_write = lfs_write cfg, fs_read = lfs_read cfg, fs_list = lfs_list cfg,
      fs_delete = lfs_delete cfg, fs_exists = lfs_exists cfg\<rparr>"

section \<open>The in-memory store\<close>

text \<open>All files are cache entries, so the cache may also drop them.\<close>

definition mem_write ::
    "string cache_config \<Rightarrow> string \<Rightarrow> string \<Rightarrow> string cache \<Rightarrow> string cache result" where
  "mem_write cfg path contents c = cache_setitem cfg path contents c"

definition mem_read :: "string \<Rightarrow> string cache \<Rightarrow> string result \<times> string cache" where
  "mem_read path c =
     (case cached c path of None \<Rightarrow> (Inl FileNotFoundError, c) | Some v \<Rightarrow> (Inr v, touch path c))"

fun mem_delete_keys :: "string list \<Rightarrow> string cache \<Rightarrow> string cache" where
  "mem_delete_keys [] c = c"
| "mem_delete_keys (k # ks) c =
     (case cache_delete k c of Inl _ \<Rightarrow> c | Inr c' \<Rightarrow> mem_delete_keys ks c')"

definition mem_delete :: "string \<Rightarrow> string cache \<Rightarrow> string cache result" where
  "mem_delete path c =
     Inr (mem_delete_keys (filter (prefix path) (map fst (entries c))) c)"

definition mem_exists :: "string \<Rightarrow> string cache \<Rightarrow> bool result" where
  "mem_exists path c =
     Inr (cached c path \<noteq> None \<or> list_ex (prefix (path @ [slash])) (map fst (entries c)))"

text \<open>One step of \<open>list\<close> for the file \<open>file\<close>.\<close>

definition mem_list_step :: "string \<Rightarrow> string \<Rightarrow> string list \<Rightarrow> string list result" where
  "mem_list_step path file files =
     (if \<not> prefix path file then Inr files
      else
        let parts0 = split_slash (drop (length path) file);
            parts = (if hd parts0 = [] then tl parts0 else parts0)
        in case parts of
             [] \<Rightarrow> Inl IndexError
           | [_] \<Rightarrow> Inr (files @ [file])
           | p # _ \<Rightarrow>
               let dir0 = join_path path p;
                   dir_path = (if suffix [slash] dir0 then dir0 else dir0 @ [slash])
               in Inr (if dir_path \<in> set files then files else files @ [dir_path]))"

fun mem_list_from :: "string \<Rightarrow> string list \<Rightarrow> string list \<Rightarrow> string list result" where
  "mem_list_from path [] files = Inr files"
| "mem_list_from path (f # fs) files =
     and_then (mem_list_step path f files) (mem_list_from path fs)"

definition mem_list :: "string \<Rightarrow> string cache \<Rightarrow> string list result" where
  "mem_list path c = mem_list_from path (map fst (entries c)) []"

end
