(* ===== verification/Event_Log_Laws.thy ===== *)
theory Event_Log_Laws
  imports Event_Log
begin

text \<open>
  The event log on any file store that keeps the contract of a directory: the locale
  \<open>event_directory\<close> states what the log relies on, and the lemmas inside it show that a log, however
  stale, synchronises with the directory, appends at the end, and reads back what was appended.
\<close>

section \<open>Names in an event directory\<close>

definition plain_name :: "string \<Rightarrow> bool" where
  "plain_name n \<longleftrightarrow> n \<noteq> [] \<and> slash \<notin> set n \<and> CHR 0x5C \<notin> set n \<and> n \<noteq> ''.'' \<and> n \<noteq> ''..''"

definition lock_name :: string where
  "lock_name = ''.eventlog.lock''"

lemma is_digit_plain: "is_digit c \<Longrightarrow> c \<noteq> slash \<and> c \<noteq> CHR 0x5C"
  by (auto simp: is_digit_def slash_def)

lemma is_id_char_plain: "is_id_char c \<Longrightarrow> c \<noteq> slash \<and> c \<noteq> CHR 0x5C"
  by (auto simp: is_id_char_def is_digit_def slash_def)

lemma plain_event_file_name:
  assumes "valid_event_id i"
  shows "plain_name (event_file_name n i)"
proof -
  have "slash \<notin> set (dec_padded 5 n)" "CHR 0x5C \<notin> set (dec_padded 5 n)"
    using dec_padded_digits [of 5 n] is_digit_plain by (auto simp: list_all_iff)
  moreover have "slash \<notin> set i" "CHR 0x5C \<notin> set i"
    using assms is_id_char_plain by (auto simp: valid_event_id_def list_all_iff)
  ultimately show ?thesis by (auto simp: plain_name_def event_file_name_def slash_def)
qed

lemma plain_marker_name: "plain_name (marker_name n)"
proof -
  have "slash \<notin> set (dec n)" "CHR 0x5C \<notin> set (dec n)"
    using dec_digits [of n] is_digit_plain by (auto simp: list_all_iff)
  then show ?thesis by (auto simp: plain_name_def marker_name_def slash_def)
qed

lemma to_posix_append: "to_posix_path (xs @ ys) = to_posix_path xs @ to_posix_path ys"
  by (simp add: to_posix_path_def)

lemma to_posix_plain: "plain_name n \<Longrightarrow> to_posix_path n = n"
  by (auto simp: to_posix_path_def plain_name_def intro!: map_idI)

lemma posix_path_name_in:
  assumes "plain_name n"
  shows "posix_path_name (path_in dir n) = n"
proof -
  have rev: "list_all (\<lambda>c. c \<noteq> slash) (rev n)" and hd: "rev n \<noteq> []" "hd (rev n) \<noteq> slash"
    using assms by (auto simp: plain_name_def list_all_iff hd_rev) (metis last_in_set)
  have "rev (to_posix_path (path_in dir n)) = rev n @ slash # rev (to_posix_path dir)"
    using to_posix_plain [OF assms]
    by (simp add: path_in_def to_posix_append) (simp add: to_posix_path_def slash_def)
  moreover have "dropWhile (\<lambda>c. c = slash) (rev n @ slash # rev (to_posix_path dir)) =
      rev n @ slash # rev (to_posix_path dir)"
    using hd by (cases "rev n") auto
  ultimately show ?thesis
    using takeWhile_dropWhile_run(1) [OF rev, of "slash # rev (to_posix_path dir)"]
    by (simp add: posix_path_name_def)
qed

lemma event_file_name_inject:
  assumes "valid_event_id i" and "valid_event_id j"
  shows "event_file_name m i = event_file_name n j \<longleftrightarrow> m = n \<and> i = j"
proof
  assume "event_file_name m i = event_file_name n j"
  then have "match_event_name (event_file_name m i) = match_event_name (event_file_name n j)"
    by (rule arg_cong)
  then have "Some (m, i) = Some (n, j)"
    unfolding match_event_file_name [OF assms(1)] match_event_file_name [OF assms(2)] .
  then show "m = n \<and> i = j" by simp
qed simp

lemma marker_name_inject [simp]: "marker_name m = marker_name n \<longleftrightarrow> m = n"
  by (simp add: marker_name_def)

lemma names_apart [simp]:
  "event_file_name m i \<noteq> marker_name n" "marker_name n \<noteq> event_file_name m i"
  "event_file_name m i \<noteq> lock_name" "lock_name \<noteq> event_file_name m i"
  by (auto simp: event_file_name_def marker_name_def lock_name_def)

lemma marker_not_lock [simp]: "marker_name n \<noteq> lock_name" "lock_name \<noteq> marker_name n"
  by (auto simp: marker_name_def lock_name_def)

lemma path_in_inject [simp]: "path_in dir m = path_in dir n \<longleftrightarrow> m = n"
  by (simp add: path_in_def)

lemma match_sidecar: "match_event_name (marker_name n) = None" "match_event_name lock_name = None"
  by (auto simp: match_event_name_def marker_name_def lock_name_def)

section \<open>What a directory and a log hold\<close>

text \<open>The names of an event directory: event files, length markers and the lock file.\<close>

definition event_names :: "event list \<Rightarrow> string set" where
  "event_names es = {event_file_name i (ev_id (es ! i)) |i. i < length es}"

text \<open>
  The directory \<open>files\<close> holds the events \<open>es\<close>: one file each, with its JSON text, no other event
  file, and a length marker only for the true length.
\<close>

definition holds_events :: "event_codec \<Rightarrow> (string \<Rightarrow> string option) \<Rightarrow> event list \<Rightarrow> bool" where
  "holds_events codec files es \<longleftrightarrow>
     distinct (map ev_id es) \<and> (\<forall>e \<in> set es. valid_event_id (ev_id e)) \<and>
     (\<forall>i < length es. files (event_file_name i (ev_id (es ! i))) = Some (dump_json codec (es ! i))) \<and>
     dom files \<subseteq> event_names es \<union> range marker_name \<union> {lock_name} \<and>
     (\<forall>k. files (marker_name k) \<noteq> None \<longrightarrow> k = length es)"

text \<open>The log's maps describe a prefix of \<open>es\<close>; it is stale when the prefix is proper.\<close>

definition knows_prefix :: "event_log \<Rightarrow> event list \<Rightarrow> bool" where
  "knows_prefix log es \<longleftrightarrow>
     log_length log \<le> length es \<and> distinct (map fst (idx_to_id log)) \<and>
     (\<forall>i. map_of (idx_to_id log) i =
        (if i < log_length log then Some (ev_id (es ! i)) else None)) \<and>
     (\<forall>x i. map_of (id_to_idx log) x = Some i \<longleftrightarrow> i < log_length log \<and> ev_id (es ! i) = x) \<and>
     (\<forall>i e. map_of (event_cache log) i = Some e \<longrightarrow> i < log_length log \<and> e = es ! i)"

lemma knows_prefix_append: "knows_prefix log es \<Longrightarrow> knows_prefix log (es @ fs)"
  unfolding knows_prefix_def by (force simp: nth_append)

lemma knows_prefix_empty: "knows_prefix empty_log es"
  by (simp add: knows_prefix_def empty_log_def)

lemma knows_prefix_contains:
  assumes "knows_prefix log es" and "log_length log = length es"
  shows "log_contains log x \<longleftrightarrow> x \<in> ev_id ` set es"
proof -
  have "log_contains log x \<longleftrightarrow> (\<exists>i. map_of (id_to_idx log) x = Some i)"
    by (auto simp: log_contains_def)
  also have "\<dots> \<longleftrightarrow> (\<exists>i < length es. ev_id (es ! i) = x)"
    using assms by (simp add: knows_prefix_def)
  also have "\<dots> \<longleftrightarrow> x \<in> ev_id ` set es" by (metis (no_types, lifting) image_iff in_set_conv_nth)
  finally show ?thesis .
qed

lemma event_names_snoc:
  "event_names (es @ [e]) = insert (event_file_name (length es) (ev_id e)) (event_names es)"
proof -
  have "event_names (es @ [e]) =
      (\<lambda>i. event_file_name i (ev_id ((es @ [e]) ! i))) ` {..<Suc (length es)}"
    by (auto simp: event_names_def)
  also have "\<dots> = insert (event_file_name (length es) (ev_id e))
      ((\<lambda>i. event_file_name i (ev_id ((es @ [e]) ! i))) ` {..<length es})"
    by (simp add: lessThan_Suc)
  also have "(\<lambda>i. event_file_name i (ev_id ((es @ [e]) ! i))) ` {..<length es} = event_names es"
    by (auto simp: event_names_def nth_append image_iff)
  finally show ?thesis .
qed

section \<open>Index maps\<close>

lemma first_gap_eq:
  assumes "\<And>i. i \<in> fst ` set by_idx \<longleftrightarrow> i < n" and "k \<le> n"
  shows "first_gap by_idx k = n"
  using assms(2)
proof (induction "n - k" arbitrary: k)
  case 0
  then have "k = n" by simp
  then show ?case using assms(1) by (subst first_gap.simps) simp
next
  case (Suc m)
  then have "k < n" "m = n - Suc k" by auto
  with Suc.hyps(1) [of "Suc k"] show ?case using assms(1) by (subst first_gap.simps) simp
qed

lemma collect_names_map:
  assumes "\<And>p i x. p \<in> set ps \<Longrightarrow> match_event_name (posix_path_name p) = Some (i, x) \<Longrightarrow> f i = Some x"
    and "map_of d \<subseteq>\<^sub>m f"
  shows "map_of (collect_names ps d) \<subseteq>\<^sub>m f"
  using assms
proof (induction ps arbitrary: d)
  case (Cons p ps)
  let ?d = "case match_event_name (posix_path_name p) of
    Some (idx, evt_id) \<Rightarrow> AList.update idx evt_id d | None \<Rightarrow> d"
  have "map_of ?d \<subseteq>\<^sub>m f"
    using Cons.prems
    by (fastforce simp: map_le_def update_conv' split: option.splits)
  then have "map_of (collect_names ps ?d) \<subseteq>\<^sub>m f"
    by (rule Cons.IH [rotated]) (rule Cons.prems(1), auto)
  then show ?case by simp
qed simp

lemma collect_names_dom:
  "dom (map_of (collect_names ps d)) =
     dom (map_of d) \<union> {i. \<exists>p \<in> set ps. \<exists>x. match_event_name (posix_path_name p) = Some (i, x)}"
proof (induction ps arbitrary: d)
  case (Cons p ps)
  show ?case
    by (cases "match_event_name (posix_path_name p)") (auto simp: Cons.IH update_conv' split: if_splits)
qed simp

lemma index_ids_maps:
  assumes "\<And>i. i < n \<Longrightarrow> map_of by_idx i = Some (ev_id (es ! i))" and "n \<le> length es"
    and "distinct (map ev_id es)"
    and "idx_to_id log = [] \<and> id_to_idx log = []"
  shows "(\<forall>i. map_of (idx_to_id (index_ids by_idx [0..<n] log)) i =
      (if i < n then Some (ev_id (es ! i)) else None)) \<and>
    (\<forall>x i. map_of (id_to_idx (index_ids by_idx [0..<n] log)) x = Some i \<longleftrightarrow>
       i < n \<and> ev_id (es ! i) = x) \<and>
    event_cache (index_ids by_idx [0..<n] log) = event_cache log \<and>
    log_length (index_ids by_idx [0..<n] log) = log_length log"
  using assms(1,2)
proof (induction n)
  case 0
  then show ?case using assms(4) by simp
next
  case (Suc n)
  have app: "index_ids by_idx (xs @ ys) l = index_ids by_idx ys (index_ids by_idx xs l)" for xs ys l
    by (induction xs arbitrary: l) auto
  let ?l = "index_ids by_idx [0..<n] log"
  have IH: "\<forall>i. map_of (idx_to_id ?l) i = (if i < n then Some (ev_id (es ! i)) else None)"
    "\<forall>x i. map_of (id_to_idx ?l) x = Some i \<longleftrightarrow> i < n \<and> ev_id (es ! i) = x"
    "event_cache ?l = event_cache log" "log_length ?l = log_length log"
    using Suc by auto
  have inj: "ev_id (es ! i) = ev_id (es ! n) \<longleftrightarrow> i = n" if "i < length es" for i
    using nth_eq_iff_index_eq [OF assms(3), of i n] that Suc.prems(2) by simp
  have new: "map_of (id_to_idx ?l) (ev_id (es ! n)) = None"
  proof (cases "map_of (id_to_idx ?l) (ev_id (es ! n))")
    case (Some i)
    with IH(2) have "i < n" "ev_id (es ! i) = ev_id (es ! n)" by auto
    with inj [of i] Suc.prems(2) show ?thesis by simp
  qed
  have step: "index_ids by_idx [0..<Suc n] log =
      ?l\<lparr>idx_to_id := AList.update n (ev_id (es ! n)) (idx_to_id ?l),
         id_to_idx := AList.update (ev_id (es ! n)) n (id_to_idx ?l)\<rparr>"
    using Suc.prems(1) [of n] new by (simp add: app)
  have m1: "map_of (idx_to_id (index_ids by_idx [0..<Suc n] log)) i =
      (if i < Suc n then Some (ev_id (es ! i)) else None)" for i
    unfolding step using IH(1) by (auto simp: update_conv' less_Suc_eq)
  have m2: "map_of (id_to_idx (index_ids by_idx [0..<Suc n] log)) x = Some i \<longleftrightarrow>
       i < Suc n \<and> ev_id (es ! i) = x" for x i
    unfolding step using IH(2) inj [of i] Suc.prems(2)
    by (auto simp: update_conv' less_Suc_eq)
  show ?case using m1 m2 IH(3,4) unfolding step by simp
qed

lemma index_ids_distinct:
  "distinct (map fst (idx_to_id log)) \<Longrightarrow> distinct (map fst (idx_to_id (index_ids by_idx is log)))"
proof (induction "is" arbitrary: log)
  case (Cons i "is")
  then show ?case by (cases "map_of by_idx i") (auto intro!: Cons.IH distinct_update)
qed simp

lemma restore_mappings_known:
  assumes "\<And>i x. (i, x) \<in> set ms \<Longrightarrow> map_of (idx_to_id log) i \<noteq> None"
    and "\<And>i x. (i, x) \<in> set ms \<Longrightarrow> map_of (id_to_idx log) x \<noteq> None"
  shows "restore_mappings ms log = log"
  using assms
proof (induction ms)
  case (Cons m ms)
  obtain i x where m: "m = (i, x)" by force
  have "map_of (idx_to_id log) i \<noteq> None" "map_of (id_to_idx log) x \<noteq> None"
    using Cons.prems m by force+
  then have "restore_mappings (m # ms) log = restore_mappings ms log"
    by (auto simp: m Let_def)
  also have "\<dots> = log" by (rule Cons.IH) (use Cons.prems in force)+
  finally show ?case .
qed simp

section \<open>Appending one event\<close>

lemma holds_new_name:
  assumes "holds_events codec F es" and "valid_event_id x"
  shows "F (event_file_name (length es) x) = None"
proof (rule ccontr)
  assume "F (event_file_name (length es) x) \<noteq> None"
  then have "event_file_name (length es) x \<in> event_names es \<union> range marker_name \<union> {lock_name}"
    using assms(1) by (auto simp: holds_events_def)
  then have "event_file_name (length es) x \<in> event_names es" by auto
  then obtain j where "j < length es" "event_file_name (length es) x =
      event_file_name j (ev_id (es ! j))" by (auto simp: event_names_def)
  moreover have "valid_event_id (ev_id (es ! j))"
    using assms(1) \<open>j < length es\<close> by (simp add: holds_events_def)
  ultimately show False using event_file_name_inject [OF assms(2)] by simp
qed

lemma holds_events_snoc:
  assumes h: "holds_events codec F es" and "valid_event_id (ev_id e)" and "ev_id e \<notin> ev_id ` set es"
  shows "holds_events codec
    (F(event_file_name (length es) (ev_id e) \<mapsto> dump_json codec e, marker_name (length es) := None,
       marker_name (Suc (length es)) \<mapsto> [])) (es @ [e])"
    (is "holds_events codec ?G _")
proof -
  let ?n = "event_file_name (length es) (ev_id e)"
  have old: "event_file_name i (ev_id (es ! i)) \<noteq> ?n" if "i < length es" for i
    using event_file_name_inject [of "ev_id (es ! i)" "ev_id e" i "length es"] assms(1,2) that
    by (auto simp: holds_events_def)
  have a: "?G (event_file_name i (ev_id ((es @ [e]) ! i))) = Some (dump_json codec ((es @ [e]) ! i))"
    if "i < length (es @ [e])" for i
  proof (cases "i < length es")
    case True
    then show ?thesis using h old by (simp add: nth_append holds_events_def)
  next
    case False
    with that have "i = length es" by simp
    then show ?thesis by simp
  qed
  have b: "dom ?G \<subseteq> event_names (es @ [e]) \<union> range marker_name \<union> {lock_name}"
    using h by (auto simp: holds_events_def event_names_snoc split: if_splits)
  have c: "k = length (es @ [e])" if "?G (marker_name k) \<noteq> None" for k
    using h that by (auto simp: holds_events_def split: if_splits)
  have d: "distinct (map ev_id (es @ [e]))" "\<forall>x \<in> set (es @ [e]). valid_event_id (ev_id x)"
    using h assms(2,3) by (auto simp: holds_events_def)
  show ?thesis unfolding holds_events_def using a b c d by blast
qed

lemma knows_prefix_snoc:
  assumes k: "knows_prefix log es" and len: "log_length log = length es"
    and new: "ev_id e \<notin> ev_id ` set es"
  shows "knows_prefix
    (log\<lparr>idx_to_id := AList.update (length es) (ev_id e) (idx_to_id log),
        id_to_idx := AList.update (ev_id e) (length es) (id_to_idx log),
        event_cache := AList.update (length es) e (event_cache log),
        log_length := Suc (length es)\<rparr>) (es @ [e])"
proof -
  have fresh: "ev_id (es ! i) \<noteq> ev_id e" if "i < length es" for i
    using new that by (metis image_eqI nth_mem)
  have m: "map_of (idx_to_id log) i = (if i < length es then Some (ev_id (es ! i)) else None)"
    "map_of (id_to_idx log) x = Some i \<longleftrightarrow> i < length es \<and> ev_id (es ! i) = x"
    "map_of (event_cache log) i = Some y \<Longrightarrow> i < length es \<and> y = es ! i" for i x y
    using k len by (auto simp: knows_prefix_def)
  show ?thesis
    using k m fresh
    by (auto simp: knows_prefix_def update_conv' nth_append distinct_update less_Suc_eq)
qed

section \<open>The tree of events\<close>

text \<open>Every explicit parent is an earlier event; \<open>append\<close> keeps this.\<close>

definition parents_precede :: "event list \<Rightarrow> bool" where
  "parents_precede es \<longleftrightarrow>
     (\<forall>i < length es. \<forall>p. ev_parent_id (es ! i) = Some p \<and> p \<noteq> ROOT_PARENT_ID \<longrightarrow>
        p \<in> ev_id ` set (take i es))"

lemma parents_precede_snoc:
  "parents_precede es \<Longrightarrow>
   (\<forall>p. ev_parent_id e = Some p \<and> p \<noteq> ROOT_PARENT_ID \<longrightarrow> p \<in> ev_id ` set es) \<Longrightarrow>
   parents_precede (es @ [e])"
  by (auto simp: parents_precede_def nth_append less_Suc_eq)

text \<open>The index of the effective parent: explicit, or the previous event for legacy events.\<close>

definition index_of :: "event list \<Rightarrow> event_id \<Rightarrow> nat" where
  "index_of es x = length (takeWhile (\<lambda>e. ev_id e \<noteq> x) es)"

definition parent_index :: "event list \<Rightarrow> nat \<Rightarrow> nat option" where
  "parent_index es i =
     (case ev_parent_id (es ! i) of
        Some p \<Rightarrow> if p = ROOT_PARENT_ID then None else Some (index_of es p)
      | None \<Rightarrow> if i = 0 then None else Some (i - 1))"

text \<open>The branch from the root to an event, as indices.\<close>

function ancestry :: "event list \<Rightarrow> nat \<Rightarrow> nat list" where
  "ancestry es i =
     (case parent_index es i of
        None \<Rightarrow> [i]
      | Some j \<Rightarrow> if j < i then ancestry es j @ [i] else [i])"
  by pat_completeness auto
termination by (relation "measure snd") auto

declare ancestry.simps [simp del]

definition branch :: "event list \<Rightarrow> nat \<Rightarrow> event list" where
  "branch es i = map ((!) es) (ancestry es i)"

definition last_n :: "nat option \<Rightarrow> 'a list \<Rightarrow> 'a list" where
  "last_n limit xs = (case limit of None \<Rightarrow> xs | Some n \<Rightarrow> drop (length xs - n) xs)"

lemma index_of_nth:
  assumes "distinct (map ev_id es)" and "j < length es"
  shows "index_of es (ev_id (es ! j)) = j"
proof -
  have "takeWhile (\<lambda>e. ev_id e \<noteq> ev_id (es ! j)) es = take j es"
  proof (rule takeWhile_eq_take_P_nth)
    fix i assume "i < j" "i < length es"
    then show "ev_id (es ! i) \<noteq> ev_id (es ! j)"
      using nth_eq_iff_index_eq [OF assms(1), of i j] assms(2) by simp
  qed (use assms in auto)
  then show ?thesis using assms(2) by (simp add: index_of_def)
qed

lemma parent_index_less:
  assumes "parents_precede es" and "distinct (map ev_id es)" and "i < length es"
    and "parent_index es i = Some j"
  shows "j < i"
proof (cases "ev_parent_id (es ! i)")
  case None
  then show ?thesis using assms(4) by (auto simp: parent_index_def split: if_splits)
next
  case (Some p)
  with assms(4) have p: "p \<noteq> ROOT_PARENT_ID" "j = index_of es p"
    by (auto simp: parent_index_def split: if_splits)
  with Some assms(1,3) have "p \<in> ev_id ` set (take i es)" by (auto simp: parents_precede_def)
  then obtain k where "k < i" "k < length es" "p = ev_id (es ! k)"
    by (auto simp: in_set_conv_nth)
  with p index_of_nth [OF assms(2)] show ?thesis by simp
qed

section \<open>The contract of the directory\<close>

text \<open>
  What the log relies on. \<open>files\<close> abstracts the store's state to the files of the directory, \<open>ok\<close>
  is the store's invariant. A write must be able to create a file or to (re)write an empty one.
\<close>

locale event_directory =
  fixes fs :: "'s file_store" and dir :: string
    and files :: "'s \<Rightarrow> string \<Rightarrow> string option" and ok :: "'s \<Rightarrow> bool"
  assumes write_law: "ok s \<Longrightarrow> plain_name n \<Longrightarrow> files s n = None \<or> c = [] \<Longrightarrow>
      \<exists>s'. fs_write fs (path_in dir n) c s = Inr s' \<and> ok s' \<and> files s' = (files s)(n \<mapsto> c)"
    and read_law: "ok s \<Longrightarrow> plain_name n \<Longrightarrow> files s n = Some c \<Longrightarrow>
      \<exists>s'. fs_read fs (path_in dir n) s = (Inr c, s') \<and> ok s' \<and> files s' = files s"
    and list_law: "ok s \<Longrightarrow>
      \<exists>ps. fs_list fs dir s = Inr ps \<and> distinct ps \<and> set ps = path_in dir ` dom (files s)"
    and delete_law: "ok s \<Longrightarrow> plain_name n \<Longrightarrow>
      \<exists>s'. fs_delete fs (path_in dir n) s = Inr s' \<and> ok s' \<and> files s' = (files s)(n := None)"
    and exists_law: "ok s \<Longrightarrow> plain_name n \<Longrightarrow>
      fs_exists fs (path_in dir n) s = Inr (files s n \<noteq> None)"
begin

lemma holds_match:
  assumes "holds_events codec (files s) es" and "n \<in> dom (files s)"
  shows "match_event_name (posix_path_name (path_in dir n)) = Some (i, x) \<longleftrightarrow>
    i < length es \<and> x = ev_id (es ! i) \<and> n = event_file_name i x"
proof -
  have valid: "valid_event_id (ev_id (es ! j))" if "j < length es" for j
    using assms(1) that by (auto simp: holds_events_def)
  from assms consider j where "j < length es" "n = event_file_name j (ev_id (es ! j))"
    | k where "n = marker_name k" | "n = lock_name"
    unfolding holds_events_def event_names_def by blast
  then show ?thesis
  proof cases
    case 1
    then show ?thesis
      using posix_path_name_in [OF plain_event_file_name [OF valid [OF 1(1)]]]
        match_event_file_name [OF valid [OF 1(1)]] event_file_name_inject [OF valid valid]
      by auto
  next
    case 2
    then show ?thesis using posix_path_name_in [OF plain_marker_name] match_sidecar by simp
  next
    case 3
    moreover have "plain_name lock_name" by (simp add: plain_name_def lock_name_def slash_def)
    ultimately show ?thesis using posix_path_name_in match_sidecar by simp
  qed
qed

lemma holds_file:
  assumes "holds_events codec (files s) es" and "i < length es"
  shows "event_file_name i (ev_id (es ! i)) \<in> dom (files s)"
  using assms by (auto simp: holds_events_def)

lemma scan_knows:
  assumes "ok s" and h: "holds_events codec (files s) es"
    and "scan_and_build_index fs dir s log = (log', n)"
  shows "n = length es" and "knows_prefix (log'\<lparr>log_length := n\<rparr>) es"
proof -
  from list_law [OF assms(1)] obtain ps where
    ps: "fs_list fs dir s = Inr ps" "set ps = path_in dir ` dom (files s)" by blast
  let ?b = "collect_names ps []"
  let ?f = "\<lambda>i. if i < length es then Some (ev_id (es ! i)) else None"
  have sub: "map_of ?b \<subseteq>\<^sub>m ?f"
  proof (rule collect_names_map)
    fix p i x assume "p \<in> set ps" and m: "match_event_name (posix_path_name p) = Some (i, x)"
    then obtain n where "p = path_in dir n" "n \<in> dom (files s)" using ps(2) by blast
    with holds_match [OF h this(2)] m show "?f i = Some x" by simp
  qed simp
  have dom: "dom (map_of ?b) = {..<length es}"
    unfolding collect_names_dom ps(2)
    using holds_match [OF h] holds_file [OF h] by auto blast
  have b: "map_of ?b i = Some (ev_id (es ! i))" if "i < length es" for i
    using sub dom that by (fastforce simp: map_le_def)
  have keys: "i \<in> fst ` set ?b \<longleftrightarrow> i < length es" for i
    using dom by (auto simp flip: dom_map_of_conv_image_fst)
  have gap: "first_gap ?b 0 = length es" by (rule first_gap_eq [OF keys]) simp
  have empty: "?b = [] \<longleftrightarrow> es = []"
    using keys by (cases ?b; cases es) force+
  have d: "distinct (map ev_id es)" using h by (simp add: holds_events_def)
  let ?c = "log\<lparr>id_to_idx := [], idx_to_id := [], event_cache := []\<rparr>"
  have scan: "scan_and_build_index fs dir s log =
      (index_ids ?b [0..<length es] ?c, length es)"
    unfolding scan_and_build_index_def ps(1) using gap empty by (auto simp: Let_def)
  with assms(3) show n: "n = length es" by simp
  have maps: "(\<forall>i. map_of (idx_to_id (index_ids ?b [0..<length es] ?c)) i =
      (if i < length es then Some (ev_id (es ! i)) else None)) \<and>
    (\<forall>x i. map_of (id_to_idx (index_ids ?b [0..<length es] ?c)) x = Some i \<longleftrightarrow>
       i < length es \<and> ev_id (es ! i) = x) \<and>
    event_cache (index_ids ?b [0..<length es] ?c) = event_cache ?c \<and>
    log_length (index_ids ?b [0..<length es] ?c) = log_length ?c"
    by (rule index_ids_maps) (use b d in auto)
  then show "knows_prefix (log'\<lparr>log_length := n\<rparr>) es"
    using scan assms(3) index_ids_distinct [of ?c ?b "[0..<length es]"]
    by (auto simp: knows_prefix_def)
qed

lemma open_log_knows:
  assumes "ok s" and "holds_events codec (files s) es"
  shows "knows_prefix (open_log fs dir s) es" and "log_length (open_log fs dir s) = length es"
proof -
  obtain log n where sc: "scan_and_build_index fs dir s empty_log = (log, n)" by force
  from scan_knows [OF assms sc] sc show "knows_prefix (open_log fs dir s) es"
    "log_length (open_log fs dir s) = length es" by (auto simp: open_log_def)
qed

lemma count_events:
  assumes "ok s" and h: "holds_events codec (files s) es"
  shows "count_events_on_disk fs dir s = length es"
proof -
  from list_law [OF assms(1)] obtain ps where
    ps: "fs_list fs dir s = Inr ps" "distinct ps" "set ps = path_in dir ` dom (files s)" by blast
  have valid: "valid_event_id (ev_id (es ! j))" if "j < length es" for j
    using h that by (auto simp: holds_events_def)
  have event: "is_event_file (path_in dir n) \<longleftrightarrow> n \<in> event_names es" if "n \<in> dom (files s)" for n
  proof -
    from h that consider j where "j < length es" "n = event_file_name j (ev_id (es ! j))"
      | k where "n = marker_name k" | "n = lock_name"
      unfolding holds_events_def event_names_def by blast
    then show ?thesis
    proof cases
      case 1
      then show ?thesis
        using posix_path_name_in [OF plain_event_file_name [OF valid [OF 1(1)]]]
        by (auto simp: is_event_file_def event_names_def) (auto simp: event_file_name_def
            path_in_def suffix_def)
    next
      case 2
      then show ?thesis
        using posix_path_name_in [OF plain_marker_name]
        by (auto simp: is_event_file_def event_names_def) (auto simp: marker_name_def)
    next
      case 3
      moreover have "plain_name lock_name" by (simp add: plain_name_def lock_name_def slash_def)
      ultimately show ?thesis
        using posix_path_name_in by (auto simp: is_event_file_def event_names_def)
          (auto simp: lock_name_def)
    qed
  qed
  have "set (filter is_event_file ps) = path_in dir ` event_names es"
  proof -
    have "set (filter is_event_file ps) =
        path_in dir ` {n \<in> dom (files s). is_event_file (path_in dir n)}"
      using ps(3) by auto
    also have "{n \<in> dom (files s). is_event_file (path_in dir n)} = event_names es"
      using event holds_file [OF h] by (auto simp: event_names_def)
    finally show ?thesis .
  qed
  moreover have "card (path_in dir ` event_names es) = length es"
  proof -
    have "inj_on (\<lambda>i. path_in dir (event_file_name i (ev_id (es ! i)))) {..<length es}"
      by (rule inj_onI) (use event_file_name_inject valid in auto)
    from card_image [OF this] show ?thesis
      by (simp add: event_names_def image_Collect [symmetric] image_image setcompr_eq_image
          lessThan_def)
  qed
  ultimately have "length (filter is_event_file ps) = length es"
    using distinct_card [OF distinct_filter [OF ps(2)]] by metis
  then show ?thesis by (simp add: count_events_on_disk_def ps(1))
qed

lemma sync_log_current:
  assumes "ok s" and h: "holds_events codec (files s) es" and k: "knows_prefix log es"
  shows "knows_prefix (sync_log fs dir s log) es" and "log_length (sync_log fs dir s log) = length es"
proof -
  have "knows_prefix (sync_log fs dir s log) es \<and> log_length (sync_log fs dir s log) = length es"
  proof (cases "marker_matches_length fs dir log s")
    case True
    with exists_law [OF assms(1) plain_marker_name] h k show ?thesis
      by (auto simp: sync_log_def marker_matches_length_def marker_path_def holds_events_def)
  next
    case False
    note count = count_events [OF assms(1) h]
    show ?thesis
    proof (cases "log_length log < length es")
      case True
      obtain sc n where sc: "scan_and_build_index fs dir s log = (sc, n)" by force
      note kn = scan_knows [OF assms(1) h sc]
      have maps: "map_of (idx_to_id sc) i = (if i < n then Some (ev_id (es ! i)) else None)"
        "map_of (id_to_idx sc) x = Some i \<longleftrightarrow> i < n \<and> ev_id (es ! i) = x" for i x
        using kn(2) by (simp_all add: knows_prefix_def)
      have "restore_mappings (idx_to_id log) sc = sc"
      proof (rule restore_mappings_known)
        fix i x assume "(i, x) \<in> set (idx_to_id log)"
        then obtain y where y: "map_of (idx_to_id log) i = Some y" by (metis weak_map_of_SomeI)
        with k have "i < log_length log" by (auto simp: knows_prefix_def split: if_splits)
        with True kn(1) maps(1) show "map_of (idx_to_id sc) i \<noteq> None" by simp
      next
        fix i x assume ix: "(i, x) \<in> set (idx_to_id log)"
        have "distinct (map fst (idx_to_id log))" using k by (simp add: knows_prefix_def)
        with ix have "map_of (idx_to_id log) i = Some x" by simp
        with k have "i < log_length log" "x = ev_id (es ! i)"
          by (auto simp: knows_prefix_def split: if_splits)
        with True kn(1) maps(2) [of x i] show "map_of (id_to_idx sc) x \<noteq> None" by simp
      qed
      then show ?thesis
        using False True count sc kn by (simp add: sync_log_def sync_from_disk_def)
    next
      case ge: False
      with k have "log_length log = length es" by (simp add: knows_prefix_def)
      then show ?thesis using False ge count k by (simp add: sync_log_def)
    qed
  qed
  then show "knows_prefix (sync_log fs dir s log) es"
    "log_length (sync_log fs dir s log) = length es" by auto
qed

lemma get_single_item_current:
  assumes "ok s" and h: "holds_events codec (files s) es" and k: "knows_prefix log es"
    and codec: "\<And>e. e \<in> set es \<Longrightarrow>
      dump_json codec e \<noteq> [] \<and> validate_json codec (dump_json codec e) = Inr e"
    and "i < log_length log"
  shows "\<exists>log' s'. get_single_item fs codec dir (int i) log s = (Inr (es ! i), log', s') \<and> ok s' \<and>
    files s' = files s \<and> knows_prefix log' es \<and> log_length log' = log_length log \<and>
    idx_to_id log' = idx_to_id log \<and> id_to_idx log' = id_to_idx log"
proof (cases "map_of (event_cache log) i")
  case (Some e)
  with k have "e = es ! i" by (auto simp: knows_prefix_def)
  with Some assms(1-3,5) show ?thesis by (simp add: get_single_item_def Let_def)
next
  case None
  have i: "i < length es" using k assms(5) by (simp add: knows_prefix_def)
  let ?n = "event_file_name i (ev_id (es ! i))"
  have path: "event_path dir log i = Inr (path_in dir ?n)"
    using k assms(5) by (simp add: event_path_def knows_prefix_def)
  have fl: "files s ?n = Some (dump_json codec (es ! i))" "plain_name ?n"
    using h i plain_event_file_name by (auto simp: holds_events_def)
  from read_law [OF assms(1) fl(2,1)] obtain s' where
    r: "fs_read fs (path_in dir ?n) s = (Inr (dump_json codec (es ! i)), s')" "ok s'"
      "files s' = files s" by blast
  have c: "dump_json codec (es ! i) \<noteq> []"
    "validate_json codec (dump_json codec (es ! i)) = Inr (es ! i)"
    using codec i by auto
  let ?log = "log\<lparr>event_cache := AList.update i (es ! i) (event_cache log)\<rparr>"
  have "get_single_item fs codec dir (int i) log s = (Inr (es ! i), ?log, s')"
    using None path r c assms(5)
    by (simp add: get_single_item_def Let_def load_event_def)
  moreover have "knows_prefix ?log es"
    using k assms(5) by (auto simp: knows_prefix_def update_conv')
  ultimately show ?thesis using r(2,3) by auto
qed

lemma iter_from_current:
  assumes "ok s" and "holds_events codec (files s) es" and "knows_prefix log es"
    and codec: "\<And>e. e \<in> set es \<Longrightarrow>
      dump_json codec e \<noteq> [] \<and> validate_json codec (dump_json codec e) = Inr e"
    and "set is \<subseteq> {..<log_length log}"
  shows "\<exists>log' s'. iter_from fs codec dir is log s = (Inr (map ((!) es) is), log', s') \<and> ok s' \<and>
    files s' = files s \<and> knows_prefix log' es \<and> log_length log' = log_length log"
  using assms(1-3,5)
proof (induction "is" arbitrary: log s)
  case (Cons i "is")
  show ?case
  proof (cases "map_of (event_cache log) i")
    case (Some e)
    then have "e = es ! i" using Cons.prems(3) by (auto simp: knows_prefix_def)
    with Some Cons.IH [OF Cons.prems(1-3)] Cons.prems(4) show ?thesis by auto
  next
    case None
    let ?n = "event_file_name i (ev_id (es ! i))"
    have i: "i < log_length log" "i < length es"
      using Cons.prems by (auto simp: knows_prefix_def)
    have id: "map_of (idx_to_id log) i = Some (ev_id (es ! i))"
      using Cons.prems(3) i by (simp add: knows_prefix_def)
    have fl: "files s ?n = Some (dump_json codec (es ! i))" "plain_name ?n"
      using Cons.prems(2) i plain_event_file_name by (auto simp: holds_events_def)
    from read_law [OF Cons.prems(1) fl(2,1)] obtain s' where
      r: "fs_read fs (path_in dir ?n) s = (Inr (dump_json codec (es ! i)), s')" "ok s'"
        "files s' = files s" by blast
    have c: "dump_json codec (es ! i) \<noteq> []"
      "validate_json codec (dump_json codec (es ! i)) = Inr (es ! i)"
      using codec i by auto
    let ?log = "log\<lparr>event_cache := AList.update i (es ! i) (event_cache log)\<rparr>"
    have k: "knows_prefix ?log es"
      using Cons.prems(3) i by (auto simp: knows_prefix_def update_conv')
    have "set is \<subseteq> {..<log_length ?log}" "holds_events codec (files s') es"
      using Cons.prems(2,4) r(3) by auto
    from Cons.IH [OF r(2) this(2) k this(1)] None id r c show ?thesis
      by (auto simp: event_path_def Let_def)
  qed
qed auto

text \<open>One append to a directory, by a log that knows any prefix of it.\<close>

lemma append_current:
  assumes "ok s" and h: "holds_events codec (files s) es" and k: "knows_prefix log es"
    and valid: "valid_event_id (ev_id e)"
    and "append fs codec dir True None e log s = (r, log', s')"
  shows "r = (if ev_id e \<in> ev_id ` set es \<or>
        (\<exists>p. ev_parent_id e = Some p \<and> p \<noteq> ROOT_PARENT_ID \<and> p \<notin> ev_id ` set es)
      then Inl ValueError else Inr (length es))"
    and "ok s'" and "holds_events codec (files s') (if is_ok r then es @ [e] else es)"
    and "knows_prefix log' (if is_ok r then es @ [e] else es)"
proof -
  let ?log = "sync_log fs dir s log" and ?n = "event_file_name (length es) (ev_id e)"
  note sy = sync_log_current [OF assms(1) h k]
  note con = knows_prefix_contains [OF sy]
  let ?dup = "ev_id e \<in> ev_id ` set es"
  let ?orphan = "\<exists>p. ev_parent_id e = Some p \<and> p \<noteq> ROOT_PARENT_ID \<and> p \<notin> ev_id ` set es"
  have orphan: "(case ev_parent_id e of None \<Rightarrow> False
      | Some p \<Rightarrow> p \<noteq> ROOT_PARENT_ID \<and> \<not> log_contains ?log p) \<longleftrightarrow> ?orphan"
    using con by (auto split: option.splits)
  have all: "r = (if ?dup \<or> ?orphan then Inl ValueError else Inr (length es)) \<and> ok s' \<and>
    holds_events codec (files s') (if is_ok r then es @ [e] else es) \<and>
    knows_prefix log' (if is_ok r then es @ [e] else es)"
  proof (cases "?dup \<or> ?orphan")
    case True
    then have "append fs codec dir True None e log s = (Inl ValueError, ?log, s)"
      using con orphan by (auto simp: append_def Let_def)
    with True assms(1,5) h sy show ?thesis by auto
  next
    case False
    let ?log' = "?log\<lparr>idx_to_id := AList.update (length es) (ev_id e) (idx_to_id ?log),
      id_to_idx := AList.update (ev_id e) (length es) (id_to_idx ?log),
      event_cache := AList.update (length es) e (event_cache ?log),
      log_length := Suc (length es)\<rparr>"
    have new: "files s ?n = None" by (rule holds_new_name [OF h valid])
    from write_law [OF assms(1) plain_event_file_name [OF valid], of "length es"] new
    obtain s1 where s1: "fs_write fs (path_in dir ?n) (dump_json codec e) s = Inr s1" "ok s1"
      "files s1 = (files s)(?n \<mapsto> dump_json codec e)" by blast
    from delete_law [OF s1(2) plain_marker_name] obtain s2 where
      s2: "fs_delete fs (path_in dir (marker_name (length es))) s1 = Inr s2" "ok s2"
      "files s2 = (files s1)(marker_name (length es) := None)" by blast
    from write_law [OF s2(2) plain_marker_name] obtain s3 where
      s3: "fs_write fs (path_in dir (marker_name (Suc (length es)))) [] s2 = Inr s3" "ok s3"
      "files s3 = (files s2)(marker_name (Suc (length es)) \<mapsto> [])" by blast
    have "append fs codec dir True None e log s = (Inr (length es), ?log', s3)"
      using False con orphan sy(2) s1(1) s2(1) s3(1)
      by (auto simp: append_def Let_def advance_length_marker_def marker_path_def)
    moreover have "holds_events codec (files s3) (es @ [e])"
      unfolding s3(3) s2(3) s1(3) using holds_events_snoc [OF h valid] False by simp
    moreover have "knows_prefix ?log' (es @ [e])"
      using knows_prefix_snoc [OF sy] False by simp
    ultimately show ?thesis using False assms(5) s3(2) by auto
  qed
  then show "r = (if ?dup \<or> ?orphan then Inl ValueError else Inr (length es))" "ok s'"
    "holds_events codec (files s') (if is_ok r then es @ [e] else es)"
    "knows_prefix log' (if is_ok r then es @ [e] else es)" by blast+
qed

lemma effective_parent_current:
  assumes k: "knows_prefix log es" and len: "log_length log = length es"
    and p: "parents_precede es" and d: "distinct (map ev_id es)" and i: "i < length es"
  shows "effective_parent_id log i (es ! i) =
    Inr (map_option (\<lambda>j. ev_id (es ! j)) (parent_index es i))"
proof (cases "ev_parent_id (es ! i)")
  case None
  have "map_of (idx_to_id log) (i - 1) = Some (ev_id (es ! (i - 1)))"
    using k len i by (simp add: knows_prefix_def)
  with None i len show ?thesis
    by (auto simp: effective_parent_id_def parent_index_def get_id_def Let_def nat_diff_distrib)
next
  case (Some x)
  show ?thesis
  proof (cases "x = ROOT_PARENT_ID")
    case True
    with Some show ?thesis by (simp add: effective_parent_id_def parent_index_def)
  next
    case False
    with Some p i have "x \<in> ev_id ` set (take i es)" by (auto simp: parents_precede_def)
    then obtain j where "j < length es" "x = ev_id (es ! j)" by (auto simp: in_set_conv_nth)
    with Some False index_of_nth [OF d] show ?thesis
      by (simp add: effective_parent_id_def parent_index_def)
  qed
qed

lemma walk_to_root_branch:
  assumes "ok s" and h: "holds_events codec (files s) es" and "knows_prefix log es"
    and "log_length log = length es" and p: "parents_precede es"
    and codec: "\<And>e. e \<in> set es \<Longrightarrow>
      dump_json codec e \<noteq> [] \<and> validate_json codec (dump_json codec e) = Inr e"
    and "i < length es"
    and "\<And>x. x \<in> set seen \<Longrightarrow> \<exists>j. i < j \<and> j < length es \<and> x = ev_id (es ! j)"
    and "\<And>n. limit = Some n \<Longrightarrow> length chain \<le> n"
  shows "\<exists>log' s'. walk_to_root fs codec dir limit (Some (ev_id (es ! i))) seen chain log s =
      Some (Inr (last_n limit (branch es i @ chain)), log', s') \<and> ok s' \<and> files s' = files s \<and>
      knows_prefix log' es \<and> log_length log' = length es"
  using assms(1-4,7-9)
proof (induction i arbitrary: seen chain log s rule: less_induct)
  case (less i)
  note prems = less.prems
  have d: "distinct (map ev_id es)" using h by (simp add: holds_events_def)
  show ?case
  proof (cases "limit \<noteq> None \<and> the limit \<le> length chain")
    case True
    with prems(7) have "limit = Some (length chain)" by fastforce
    with prems(1-4) show ?thesis by (simp add: walk_to_root.simps last_n_def)
  next
    case False
    have unseen: "ev_id (es ! i) \<notin> set seen"
    proof
      assume "ev_id (es ! i) \<in> set seen"
      with prems(6) obtain j where "i < j" "j < length es" "ev_id (es ! i) = ev_id (es ! j)" by blast
      with nth_eq_iff_index_eq [OF d, of i j] prems(5) show False by simp
    qed
    have "map_of (id_to_idx log) (ev_id (es ! i)) = Some i"
      using prems(3-5) by (simp add: knows_prefix_def)
    then have gi: "get_index log (ev_id (es ! i)) = Inr i" by (simp add: get_index_def)
    from get_single_item_current [OF prems(1-3) codec, of i] prems(4,5) obtain log1 s1 where
      gs: "get_single_item fs codec dir (int i) log s = (Inr (es ! i), log1, s1)" "ok s1"
        "files s1 = files s" "knows_prefix log1 es" "log_length log1 = length es" by auto
    note ep = effective_parent_current [OF gs(4,5) p d prems(5)]
    have step: "walk_to_root fs codec dir limit (Some (ev_id (es ! i))) seen chain log s =
        walk_to_root fs codec dir limit (map_option (\<lambda>j. ev_id (es ! j)) (parent_index es i))
          (ev_id (es ! i) # seen) (es ! i # chain) log1 s1"
      by (subst walk_to_root.simps) (use False unseen gi gs(1) ep in auto)
    have lim: "length (es ! i # chain) \<le> n" if "limit = Some n" for n
      using False prems(7) [OF that] that by auto
    show ?thesis
    proof (cases "parent_index es i")
      case None
      then have "branch es i = [es ! i]" by (simp add: branch_def ancestry.simps)
      moreover have "last_n limit (es ! i # chain) = es ! i # chain"
        using lim by (auto simp: last_n_def split: option.splits)
      ultimately show ?thesis using step None gs by (simp add: walk_to_root.simps)
    next
      case (Some j)
      have ji: "j < i" by (rule parent_index_less [OF p d prems(5) Some])
      have br: "branch es i = branch es j @ [es ! i]"
        using Some ji by (simp add: branch_def ancestry.simps [of es i])
      have "\<exists>log' s'. walk_to_root fs codec dir limit (Some (ev_id (es ! j)))
          (ev_id (es ! i) # seen) (es ! i # chain) log1 s1 =
          Some (Inr (last_n limit (branch es j @ es ! i # chain)), log', s') \<and> ok s' \<and>
          files s' = files s1 \<and> knows_prefix log' es \<and> log_length log' = length es"
      proof (rule less.IH [OF ji gs(2)])
        show "holds_events codec (files s1) es" using prems(2) gs(3) by simp
        show "j < length es" using ji prems(5) by simp
        fix x assume "x \<in> set (ev_id (es ! i) # seen)"
        then show "\<exists>k. j < k \<and> k < length es \<and> x = ev_id (es ! k)"
          using ji prems(5,6) by (metis less_trans set_ConsD)
      qed (use gs lim in auto)
      then show ?thesis using step Some br gs(3) by simp
    qed
  qed
qed

end

section \<open>Concurrent writers\<close>

text \<open>
  Appends by several writers, each with its own log, in the order in which they get the lock. The
  pair \<open>(w, e)\<close> is writer \<open>w\<close> appending \<open>e\<close>.
\<close>

fun run_writers ::
    "'s file_store \<Rightarrow> event_codec \<Rightarrow> string \<Rightarrow> (nat \<times> event) list \<Rightarrow> (nat \<Rightarrow> event_log) \<Rightarrow> 's \<Rightarrow>
     nat result list \<times> (nat \<Rightarrow> event_log) \<times> 's"
where
  "run_writers fs codec dir [] logs s = ([], logs, s)"
| "run_writers fs codec dir ((w, e) # ops) logs s =
     (let (r, log, s1) = append fs codec dir True None e (logs w) s;
          (rs, logs', s') = run_writers fs codec dir ops (logs(w := log)) s1
      in (r # rs, logs', s'))"

text \<open>The appended events and the indices returned, in order.\<close>

definition appended :: "(nat \<times> event) list \<Rightarrow> nat result list \<Rightarrow> event list" where
  "appended ops rs = map (\<lambda>p. snd (fst p)) (filter (\<lambda>p. is_ok (snd p)) (zip ops rs))"

fun indices_of :: "nat result list \<Rightarrow> nat list" where
  "indices_of [] = []"
| "indices_of (Inr i # rs) = i # indices_of rs"
| "indices_of (Inl _ # rs) = indices_of rs"

context event_directory
begin

lemma run_writers_linear:
  assumes "ok s" and "holds_events codec (files s) es" and "parents_precede es"
    and "\<And>w. knows_prefix (logs w) es"
    and "\<And>w e. (w, e) \<in> set ops \<Longrightarrow> valid_event_id (ev_id e)"
    and "run_writers fs codec dir ops logs s = (rs, logs', s')"
  shows "ok s' \<and> holds_events codec (files s') (es @ appended ops rs) \<and>
    parents_precede (es @ appended ops rs) \<and>
    (\<forall>w. knows_prefix (logs' w) (es @ appended ops rs)) \<and>
    indices_of rs = [length es..<length (es @ appended ops rs)]"
  using assms
proof (induction ops arbitrary: es logs s rs)
  case Nil
  then show ?case by (simp add: appended_def)
next
  case (Cons op ops)
  obtain w e where op: "op = (w, e)" by force
  obtain r log s1 where ap: "append fs codec dir True None e (logs w) s = (r, log, s1)"
    by (cases "append fs codec dir True None e (logs w) s") auto
  obtain rs' where rw: "run_writers fs codec dir ops (logs(w := log)) s1 = (rs', logs', s')"
    and rs: "rs = r # rs'"
    using Cons.prems(6) op ap by (auto simp: Let_def split: prod.splits)
  have valid: "valid_event_id (ev_id e)" using Cons.prems(5) op by auto
  let ?es = "if is_ok r then es @ [e] else es"
  note A = append_current [OF Cons.prems(1,2,4) valid ap]
  have pp: "parents_precede ?es"
    using A(1) Cons.prems(3) parents_precede_snoc [of es e] by (auto split: if_splits)
  have kn: "knows_prefix ((logs(w := log)) w') ?es" for w'
    using A(4) Cons.prems(4) knows_prefix_append by auto
  have IH: "ok s' \<and> holds_events codec (files s') (?es @ appended ops rs') \<and>
      parents_precede (?es @ appended ops rs') \<and>
      (\<forall>w. knows_prefix (logs' w) (?es @ appended ops rs')) \<and>
      indices_of rs' = [length ?es..<length (?es @ appended ops rs')]"
    by (rule Cons.IH [OF A(2,3) pp kn _ rw]) (use Cons.prems(5) in auto)
  have ap': "appended (op # ops) rs = (if is_ok r then [e] else []) @ appended ops rs'"
    by (simp add: appended_def rs op)
  show ?case
  proof (cases r)
    case (Inl er)
    then show ?thesis using IH ap' rs by simp
  next
    case (Inr i)
    then have "i = length es" using A(1) by (auto split: if_splits)
    moreover have "[length es..<length (es @ e # appended ops rs')] =
        length es # [Suc (length es)..<length (es @ e # appended ops rs')]"
      by (subst upt_conv_Cons) auto
    ultimately show ?thesis using IH ap' rs Inr by (simp del: upt_Suc)
  qed
qed

lemma reopen_reads:
  assumes "ok s" and "holds_events codec (files s) es"
    and "\<And>e. e \<in> set es \<Longrightarrow>
      dump_json codec e \<noteq> [] \<and> validate_json codec (dump_json codec e) = Inr e"
  shows "fst (iter_events fs codec dir (open_log fs dir s) s) = Inr es"
proof -
  note o = open_log_knows [OF assms(1,2)]
  have "\<exists>log' s'. iter_from fs codec dir [0..<length es] (open_log fs dir s) s =
      (Inr (map ((!) es) [0..<length es]), log', s')"
    using iter_from_current [OF assms(1,2) o(1) assms(3), of "[0..<length es]"] o(2) by fastforce
  then show ?thesis using o(2) by (auto simp: iter_events_def map_nth)
qed

lemma path_to_root_current:
  assumes "ok s" and "holds_events codec (files s) es" and "knows_prefix log es"
    and "log_length log = length es" and "parents_precede es"
    and "\<And>e. e \<in> set es \<Longrightarrow>
      dump_json codec e \<noteq> [] \<and> validate_json codec (dump_json codec e) = Inr e"
    and "i < length es"
  shows "\<exists>log' s'. path_to_root fs codec dir (Some (ev_id (es ! i))) limit log s =
    Some (Inr (last_n limit (branch es i)), log', s')"
  using walk_to_root_branch [OF assms, of "[]" limit "[]"] by (auto simp: path_to_root_def)

text \<open>
  A writer that dies between writing its event and moving the marker leaves the old marker behind,
  and any other writer that knew the old length believes it.
\<close>

lemma stale_marker_collision:
  assumes "ok s" and h: "holds_events codec (files s) es" and k: "knows_prefix log es"
    and len: "log_length log = length es" and marker: "files s (marker_name (length es)) \<noteq> None"
    and valid: "valid_event_id (ev_id e1)" "valid_event_id (ev_id e2)"
    and ids: "ev_id e1 \<noteq> ev_id e2" "ev_id e2 \<notin> ev_id ` set es" and parent: "ev_parent_id e2 = None"
    and crash: "fs_write fs (path_in dir (event_file_name (length es) (ev_id e1)))
      (dump_json codec e1) s = Inr s1"
  shows "\<exists>log' s2. append fs codec dir True None e2 log s1 = (Inr (length es), log', s2) \<and>
    files s2 (event_file_name (length es) (ev_id e1)) \<noteq> None \<and>
    files s2 (event_file_name (length es) (ev_id e2)) \<noteq> None"
proof -
  let ?n1 = "event_file_name (length es) (ev_id e1)" and ?n2 = "event_file_name (length es) (ev_id e2)"
  have new: "files s ?n1 = None" "files s ?n2 = None" using holds_new_name [OF h] valid by auto
  have s1: "ok s1" "files s1 = (files s)(?n1 \<mapsto> dump_json codec e1)"
    using write_law [OF assms(1) plain_event_file_name [OF valid(1)], of "length es" "dump_json codec e1"]
      new(1) crash by auto
  have "?n1 \<noteq> ?n2" using event_file_name_inject [OF valid] ids(1) by simp
  with new(2) s1(2) have "files s1 ?n2 = None" by simp
  with write_law [OF s1(1) plain_event_file_name [OF valid(2)], of "length es"] obtain s2 where
    s2: "fs_write fs (path_in dir ?n2) (dump_json codec e2) s1 = Inr s2" "ok s2"
      "files s2 = (files s1)(?n2 \<mapsto> dump_json codec e2)" by blast
  from delete_law [OF s2(2) plain_marker_name] obtain s3 where
    s3: "fs_delete fs (path_in dir (marker_name (length es))) s2 = Inr s3" "ok s3"
      "files s3 = (files s2)(marker_name (length es) := None)" by blast
  from write_law [OF s3(2) plain_marker_name] obtain s4 where
    s4: "fs_write fs (path_in dir (marker_name (Suc (length es)))) [] s3 = Inr s4" "ok s4"
      "files s4 = (files s3)(marker_name (Suc (length es)) \<mapsto> [])" by blast
  have "marker_matches_length fs dir log s1"
    using exists_law [OF s1(1) plain_marker_name] s1(2) marker len
    by (simp add: marker_matches_length_def marker_path_def)
  then have sync: "sync_log fs dir s1 log = log" by (simp add: sync_log_def)
  have "\<not> log_contains log (ev_id e2)" using knows_prefix_contains [OF k len] ids(2) by simp
  then have "\<exists>log'. append fs codec dir True None e2 log s1 = (Inr (length es), log', s4)"
    using sync parent len s2(1) s3(1) s4(1)
    by (simp add: append_def Let_def advance_length_marker_def marker_path_def)
  moreover have "files s4 ?n1 \<noteq> None" "files s4 ?n2 \<noteq> None"
    using s4(3) s3(3) s2(3) s1(2) by simp_all
  ultimately show ?thesis by blast
qed

end

end
