(* ===== verification/File_Store_Laws.thy ===== *)
theory File_Store_Laws
  imports File_Store Event_Log_Laws "HOL-Library.Multiset"
begin

text \<open>
  The file stores keep their contracts: the cache accounts for its memory and stays within both
  limits, the local store reads back what is on the disk whatever the cache evicts, and it is a
  directory an event log can live in. Also the one way in which the cache goes stale.
\<close>

section \<open>The cache\<close>

definition sizes :: "('k \<times> string) list \<Rightarrow> int" where
  "sizes xs = (\<Sum>(k, v)\<leftarrow>xs. int (length v))"

lemma sizes_simps [simp]:
  "sizes [] = 0" "sizes ((k, v) # xs) = int (length v) + sizes xs"
  "sizes (xs @ ys) = sizes xs + sizes ys"
  by (simp_all add: sizes_def)

lemma sizes_nonneg: "0 \<le> sizes xs"
  by (induction xs) auto

lemma sizes_delete:
  "distinct (map fst xs) \<Longrightarrow> map_of xs k = Some v \<Longrightarrow>
     sizes (AList.delete k xs) = sizes xs - int (length v)"
  by (induction xs) (auto simp: delete_id)

text \<open>The accounting invariant, and both limits.\<close>

definition cache_ok :: "'k cache_config \<Rightarrow> 'k cache \<Rightarrow> bool" where
  "cache_ok cfg c \<longleftrightarrow>
     distinct (map fst (entries c)) \<and> current_memory c = sizes (entries c) \<and>
     current_memory c \<le> max_memory cfg \<and> length (entries c) \<le> max 1 (max_entries cfg)"

text \<open>\<open>popitem\<close> of an LRU cache removes the least recently used entry.\<close>

definition evicts_lru :: "'k cache_config \<Rightarrow> bool" where
  "evicts_lru cfg \<longleftrightarrow> (\<forall>x xs. evict cfg (x # xs) = fst x)"

lemma popitem_lru:
  assumes "evicts_lru cfg" and "entries c = x # xs" and "distinct (map fst (x # xs))"
  shows "popitem cfg c =
    Inr (c\<lparr>entries := xs, current_memory := current_memory c - int (length (snd x))\<rparr>)"
  using assms by (cases x) (auto simp: popitem_def evicts_lru_def cache_delete_def cached_def
      intro: delete_id)

lemma evict_memory_lru:
  assumes "evicts_lru cfg" and "n \<le> max_memory cfg"
    and "distinct (map fst (others @ rest))" and "entries c = others @ rest"
    and "current_memory c = sizes others + n"
  shows "\<exists>j c'. evict_memory cfg c = Inr c' \<and> entries c' = drop j others @ rest \<and>
    current_memory c' = sizes (drop j others) + n \<and> current_memory c' \<le> max_memory cfg"
  using assms(3-5)
proof (induction others arbitrary: c)
  case Nil
  then have "evict_memory cfg c = Inr c"
    using assms(2) by (subst evict_memory.simps) simp
  with Nil assms(2) show ?case by auto
next
  case (Cons x others)
  show ?case
  proof (cases "max_memory cfg < current_memory c")
    case False
    then have "evict_memory cfg c = Inr c" by (subst evict_memory.simps) simp
    with Cons.prems False show ?thesis by (intro exI [of _ 0] exI [of _ c]) auto
  next
    case True
    let ?c = "c\<lparr>entries := others @ rest, current_memory := current_memory c - int (length (snd x))\<rparr>"
    have "popitem cfg c = Inr ?c"
      using popitem_lru [OF assms(1), of c x "others @ rest"] Cons.prems by simp
    then have eq: "evict_memory cfg c = evict_memory cfg ?c"
      using True Cons.prems(2) by (subst evict_memory.simps) simp
    have "current_memory ?c = sizes others + n" using Cons.prems(3) by (cases x) simp
    with Cons.IH [of ?c] Cons.prems(1) obtain j c' where
      "evict_memory cfg ?c = Inr c'" "entries c' = drop j others @ rest"
      "current_memory c' = sizes (drop j others) + n" "current_memory c' \<le> max_memory cfg"
      by auto
    with eq show ?thesis by (intro exI [of _ "Suc j"] exI [of _ c']) auto
  qed
qed

lemma evict_entries_lru:
  assumes "evicts_lru cfg" and "distinct (map fst (entries c))"
    and "current_memory c = sizes (entries c) + n"
  shows "\<exists>j c'. evict_entries cfg c = Inr c' \<and> entries c' = drop j (entries c) \<and>
    current_memory c' = sizes (entries c') + n \<and> length (entries c') < max 1 (max_entries cfg)"
  using assms(2,3)
proof (induction "entries c" arbitrary: c)
  case Nil
  then have "evict_entries cfg c = Inr c" by (subst evict_entries.simps) simp
  with Nil show ?case by (intro exI [of _ 0] exI [of _ c]) auto
next
  case (Cons x xs)
  show ?case
  proof (cases "max 1 (max_entries cfg) \<le> length (entries c)")
    case False
    then have "evict_entries cfg c = Inr c" by (subst evict_entries.simps) auto
    with Cons.prems False show ?thesis by (intro exI [of _ 0] exI [of _ c]) auto
  next
    case True
    let ?c = "c\<lparr>entries := xs, current_memory := current_memory c - int (length (snd x))\<rparr>"
    have "popitem cfg c = Inr ?c"
      using popitem_lru [OF assms(1), of c x xs] Cons.hyps(2) Cons.prems(1) by simp
    then have eq: "evict_entries cfg c = evict_entries cfg ?c"
      using True by (subst evict_entries.simps) simp
    have "distinct (map fst (entries ?c))" "current_memory ?c = sizes (entries ?c) + n"
      using Cons.prems Cons.hyps(2) [symmetric] by (cases x, auto)+
    with Cons.hyps(1) [of ?c] obtain j c' where "evict_entries cfg ?c = Inr c'"
      "entries c' = drop j xs" "current_memory c' = sizes (entries c') + n"
      "length (entries c') < max 1 (max_entries cfg)" by auto
    with eq Cons.hyps(2) [symmetric] show ?thesis
      by (intro exI [of _ "Suc j"] exI [of _ c']) auto
  qed
qed

lemma distinct_drop_keys: "distinct (map fst xs) \<Longrightarrow> distinct (map fst (drop j xs))"
  by (simp add: drop_map [symmetric])

lemma set_drop_keys: "fst ` set (drop j xs) \<subseteq> fst ` set xs"
  by (auto dest: in_set_dropD)

lemma map_of_snoc [simp]: "k \<notin> fst ` set xs \<Longrightarrow> map_of (xs @ [(k, v)]) k = Some v"
  by (induction xs) auto

lemma delete_snoc: "k \<notin> fst ` set xs \<Longrightarrow> AList.delete k (xs @ [(k, v)]) = xs"
  by (induction xs) auto

lemma cache_setitem_lru:
  assumes ok: "cache_ok cfg c" and lru: "evicts_lru cfg" and small: "int (length v) \<le> max_memory cfg"
  shows "\<exists>c'. cache_setitem cfg k v c = Inr c' \<and> cache_ok cfg c' \<and> cached c' k = Some v"
proof -
  let ?n = "int (length v)" and ?others = "AList.delete k (entries c)"
  have d: "distinct (map fst (entries c))" "current_memory c = sizes (entries c)"
    "length (entries c) \<le> max 1 (max_entries cfg)" using ok by (auto simp: cache_ok_def)
  have dk: "distinct (map fst ?others)" "k \<notin> fst ` set ?others"
    using d(1) delete_notin_dom [of k "entries c"] by (simp_all add: distinct_delete)
  show ?thesis
  proof (cases "cached c k")
    case None
    then have others: "?others = entries c"
      by (intro delete_id) (simp add: cached_def map_of_eq_None_iff)
    let ?c = "c\<lparr>current_memory := current_memory c + ?n\<rparr>"
    have "distinct (map fst (entries c @ []))" "entries ?c = entries c @ []"
      "current_memory ?c = sizes (entries c) + ?n" using d by simp_all
    from evict_memory_lru [OF lru small this] obtain j c1 where
      e1: "evict_memory cfg ?c = Inr c1" "entries c1 = drop j (entries c) @ []"
        "current_memory c1 = sizes (drop j (entries c)) + ?n" "current_memory c1 \<le> max_memory cfg"
      by blast
    note c1 = e1(1) e1(2) [unfolded append_Nil2] e1(3,4)
    have k1: "k \<notin> fst ` set (entries c1)"
      unfolding c1(2) using dk(2) others set_drop_keys [of j "entries c"] by auto
    then have nk: "cached c1 k = None" by (simp add: cached_def map_of_eq_None_iff)
    have d1: "distinct (map fst (entries c1))" "current_memory c1 = sizes (entries c1) + ?n"
      using c1 distinct_drop_keys [OF d(1)] by auto
    from evict_entries_lru [OF lru d1] obtain i c2 where
      c2: "evict_entries cfg c1 = Inr c2" "entries c2 = drop i (entries c1)"
        "current_memory c2 = sizes (entries c2) + ?n"
        "length (entries c2) < max 1 (max_entries cfg)" by blast
    have k2: "k \<notin> fst ` set (entries c2)"
      unfolding c2(2) using k1 set_drop_keys [of i "entries c1"] by blast
    have le: "current_memory c2 \<le> max_memory cfg"
    proof -
      have "sizes (entries c1) = sizes (take i (entries c1)) + sizes (entries c2)"
        using c2(2) by (metis append_take_drop_id sizes_simps(3))
      with c1(4) d1(2) c2(3) sizes_nonneg [of "take i (entries c1)"] show ?thesis by simp
    qed
    have "cache_setitem cfg k v c = Inr (c2\<lparr>entries := entries c2 @ [(k, v)]\<rparr>)"
      using None small c1(1) nk c2(1) k2
      by (simp add: cache_setitem_def Let_def lru_setitem_def delete_id)
    moreover have "cache_ok cfg (c2\<lparr>entries := entries c2 @ [(k, v)]\<rparr>)"
      using c2 le k2 distinct_drop_keys [OF d1(1), of i] by (auto simp: cache_ok_def)
    moreover have "cached (c2\<lparr>entries := entries c2 @ [(k, v)]\<rparr>) k = Some v"
      using k2 by (simp add: cached_def del: map_of_append)
    ultimately show ?thesis by blast
  next
    case (Some old)
    let ?c = "c\<lparr>entries := ?others @ [(k, old)],
      current_memory := current_memory c - int (length old) + ?n\<rparr>"
    have "distinct (map fst (?others @ [(k, old)]))" "entries ?c = ?others @ [(k, old)]"
      "current_memory ?c = sizes ?others + ?n"
      using Some d dk by (simp_all add: sizes_delete cached_def)
    from evict_memory_lru [OF lru small this] obtain j c1 where
      c1: "evict_memory cfg ?c = Inr c1" "entries c1 = drop j ?others @ [(k, old)]"
        "current_memory c1 = sizes (drop j ?others) + ?n" "current_memory c1 \<le> max_memory cfg"
      by blast
    have kd: "k \<notin> fst ` set (drop j ?others)"
      using dk(2) set_drop_keys [of j ?others] by blast
    have hit: "cached c1 k \<noteq> None"
      by (simp add: cached_def c1(2) map_of_eq_None_iff)
    have del: "AList.delete k (entries c1) = drop j ?others"
      unfolding c1(2) using kd by (rule delete_snoc)
    have "cache_setitem cfg k v c = Inr (c1\<lparr>entries := drop j ?others @ [(k, v)]\<rparr>)"
      using Some small c1(1) hit del
      by (simp add: cache_setitem_def Let_def lru_setitem_def touch_def)
    moreover have "cache_ok cfg (c1\<lparr>entries := drop j ?others @ [(k, v)]\<rparr>)"
    proof -
      have "length ?others < length (entries c)"
        using Some by (auto simp: cached_def intro: length_alist_delete)
      then show ?thesis
        using c1(3,4) kd distinct_drop_keys [OF dk(1)] d(3) by (auto simp: cache_ok_def)
    qed
    moreover have "cached (c1\<lparr>entries := drop j ?others @ [(k, v)]\<rparr>) k = Some v"
      using kd by (simp add: cached_def del: map_of_append)
    ultimately show ?thesis by blast
  qed
qed

lemma cache_setitem_ok:
  assumes "cache_ok cfg c" and "evicts_lru cfg"
  shows "\<exists>c'. cache_setitem cfg k v c = Inr c' \<and> cache_ok cfg c'"
  using assms cache_setitem_lru [OF assms, of v k] by (cases "int (length v) \<le> max_memory cfg")
    (auto simp: cache_setitem_def Let_def)

lemma cached_touch [simp]: "cached (touch k c) = cached c"
  by (auto simp: touch_def cached_def delete_conv' fun_eq_iff map_add_def split: option.splits)

lemma cached_delete:
  "cache_delete k c = Inr c' \<Longrightarrow> cached c' = (cached c)(k := None)"
  by (auto simp: cache_delete_def cached_def delete_conv' split: option.splits)

lemma cache_ok_touch: "cache_ok cfg c \<Longrightarrow> cache_ok cfg (touch k c)"
proof (cases "cached c k")
  case (Some v)
  assume ok: "cache_ok cfg c"
  have "length (AList.delete k (entries c)) < length (entries c)"
    using Some by (auto simp: cached_def intro: length_alist_delete)
  with ok Some delete_notin_dom [of k "entries c"] show ?thesis
    by (auto simp: cache_ok_def touch_def cached_def sizes_delete distinct_delete)
qed (simp add: touch_def)

lemma cache_ok_delete: "cache_ok cfg c \<Longrightarrow> cache_delete k c = Inr c' \<Longrightarrow> cache_ok cfg c'"
  using length_delete_le [of k "entries c"]
  by (auto simp: cache_ok_def cache_delete_def cached_def sizes_delete distinct_delete
      split: option.splits)

text \<open>Evictions only forget.\<close>

lemma popitem_forgets: "popitem cfg c = Inr c' \<Longrightarrow> cached c' \<subseteq>\<^sub>m cached c"
  by (auto simp: popitem_def dest!: cached_delete split: if_splits simp: map_le_def)

lemma evict_memory_forgets: "evict_memory cfg c = Inr c' \<Longrightarrow> cached c' \<subseteq>\<^sub>m cached c"
proof (induction cfg c rule: evict_memory.induct)
  case (1 cfg c)
  show ?case
  proof (cases "max_memory cfg < current_memory c \<and> entries c \<noteq> []")
    case True
    with 1(2) obtain c1 where "popitem cfg c = Inr c1" "evict_memory cfg c1 = Inr c'"
      by (subst (asm) evict_memory.simps) (auto dest!: and_then_InrD)
    with 1(1) [OF True] popitem_forgets show ?thesis by (metis map_le_trans)
  next
    case False
    with 1(2) show ?thesis by (subst (asm) evict_memory.simps) (simp split: if_splits)
  qed
qed

lemma evict_entries_forgets: "evict_entries cfg c = Inr c' \<Longrightarrow> cached c' \<subseteq>\<^sub>m cached c"
proof (induction cfg c rule: evict_entries.induct)
  case (1 cfg c)
  show ?case
  proof (cases "max 1 (max_entries cfg) \<le> length (entries c)")
    case True
    with 1(2) obtain c1 where "popitem cfg c = Inr c1" "evict_entries cfg c1 = Inr c'"
      by (subst (asm) evict_entries.simps) (auto dest!: and_then_InrD)
    with 1(1) [OF True] popitem_forgets show ?thesis by (metis map_le_trans)
  next
    case False
    with 1(2) show ?thesis by (subst (asm) evict_entries.simps) (simp split: if_splits)
  qed
qed

lemma cache_setitem_map:
  assumes "cache_setitem cfg k v c = Inr c'" and "int (length v) \<le> max_memory cfg"
  shows "cached c' \<subseteq>\<^sub>m (cached c)(k \<mapsto> v)"
proof -
  let ?c1 = "case cached c k of None \<Rightarrow> c | Some old \<Rightarrow>
    (touch k c)\<lparr>current_memory := current_memory c - int (length old)\<rparr>"
  let ?c2 = "?c1\<lparr>current_memory := current_memory ?c1 + int (length v)\<rparr>"
  from assms obtain c3 where c3: "evict_memory cfg ?c2 = Inr c3" "lru_setitem cfg k v c3 = Inr c'"
    by (auto simp: cache_setitem_def Let_def dest!: and_then_InrD)
  have "cached ?c2 = cached (touch k c)"
    by (simp add: cached_def touch_def fun_eq_iff split: option.splits)
  then have m3: "cached c3 \<subseteq>\<^sub>m cached c" using evict_memory_forgets [OF c3(1)] by simp
  from c3(2) obtain c4 where
    e4: "(if cached c3 k \<noteq> None then Inr c3 else evict_entries cfg c3) = Inr c4" and
    c': "c' = c4\<lparr>entries := AList.delete k (entries c4) @ [(k, v)]\<rparr>"
    by (auto simp: lru_setitem_def dest!: and_then_InrD)
  from e4 have "cached c4 \<subseteq>\<^sub>m cached c3"
    by (cases "cached c3 k") (auto dest: evict_entries_forgets)
  note c4 = this c'
  have "cached c' = (cached c4)(k \<mapsto> v)"
    by (auto simp: c4(2) cached_def delete_conv' fun_eq_iff map_add_def split: option.splits)
  moreover have "cached c4 \<subseteq>\<^sub>m cached c" using c4(1) m3 by (rule map_le_trans)
  ultimately show ?thesis by (auto simp: map_le_def)
qed

section \<open>The local store\<close>

text \<open>Every cached text is the text on the disk.\<close>

definition coherent :: "local_store \<Rightarrow> bool" where
  "coherent s \<longleftrightarrow> cached (file_cache s) \<subseteq>\<^sub>m map_of (disk s)"

definition store_ok :: "local_config \<Rightarrow> local_store \<Rightarrow> bool" where
  "store_ok cfg s \<longleftrightarrow>
     cache_ok (cache_config cfg) (file_cache s) \<and> coherent s \<and> distinct (map fst (disk s)) \<and>
     distinct (dirs s) \<and> (\<forall>d \<in> set (dirs s). \<not> is_file s d)"

lemma coherent_cached:
  "coherent s \<Longrightarrow> cached (file_cache s) p = Some v \<Longrightarrow> map_of (disk s) p = Some v"
  by (auto simp: coherent_def map_le_def dom_def)

lemma get_full_path_below: "get_full_path r path = Inr full \<Longrightarrow> below r full"
  by (auto simp: get_full_path_def below_def Let_def split: if_splits)

lemma full_not_ancestor: "full \<notin> set (ancestors full)"
proof
  assume "full \<in> set (ancestors full)"
  then obtain n where n: "n < length full" "full = take n full" by (auto simp: ancestors_def)
  then have "length full = min (length full) n" by (metis length_take)
  with n(1) show False by simp
qed

lemma distinct_ancestors: "distinct (ancestors p)"
  by (auto simp: ancestors_def distinct_map intro!: inj_onI dest: arg_cong [of _ _ length])

lemma makedirs_cases:
  assumes "makedirs full s = Inr s1"
  shows "disk s1 = disk s" and "file_cache s1 = file_cache s"
    and "set (dirs s1) = set (dirs s) \<union> set (ancestors full)"
    and "\<forall>a \<in> set (ancestors full). \<not> is_file s a"
    and "distinct (dirs s) \<Longrightarrow> distinct (dirs s1)"
  using assms distinct_ancestors
  by (auto simp: makedirs_def list_ex_iff is_dir_def split: if_splits)

lemma lfs_write_cases:
  assumes "lfs_write cfg path contents s = Inr s'"
  obtains full c where "get_full_path (root cfg) path = Inr full" "\<not> is_dir s full"
    "\<forall>a \<in> set (ancestors full). \<not> is_file s a" "disk s' = AList.update full contents (disk s)"
    "set (dirs s') = set (dirs s) \<union> set (ancestors full)" "distinct (dirs s) \<Longrightarrow> distinct (dirs s')"
    "cache_setitem (cache_config cfg) full contents (file_cache s) = Inr c" "file_cache s' = c"
proof -
  from assms obtain full s1 c where w: "get_full_path (root cfg) path = Inr full"
    "makedirs full s = Inr s1" "\<not> is_dir s1 full"
    "cache_setitem (cache_config cfg) full contents (file_cache s1) = Inr c"
    "s' = s1\<lparr>disk := AList.update full contents (disk s1), file_cache := c\<rparr>"
    by (auto simp: lfs_write_def dest!: and_then_InrD split: if_splits)
  show ?thesis
    by (rule that [of full c]) (use w makedirs_cases [OF w(2)] in \<open>auto simp: is_dir_def\<close>)
qed

text \<open>A write keeps the invariant unless it replaces a cached text by one too large to cache.\<close>

definition stale_write :: "local_config \<Rightarrow> string \<Rightarrow> string \<Rightarrow> local_store \<Rightarrow> bool" where
  "stale_write cfg path contents s \<longleftrightarrow>
     max_memory (cache_config cfg) < int (length contents) \<and>
     (case get_full_path (root cfg) path of
        Inl _ \<Rightarrow> False
      | Inr full \<Rightarrow> cached (file_cache s) full \<noteq> None)"

lemma lfs_write_keeps:
  assumes ok: "store_ok cfg s" and lru: "evicts_lru (cache_config cfg)"
    and w: "lfs_write cfg path contents s = Inr s'" and fresh: "\<not> stale_write cfg path contents s"
  shows "store_ok cfg s'"
proof -
  obtain full c where full: "get_full_path (root cfg) path = Inr full" "\<not> is_dir s full"
    "\<forall>a \<in> set (ancestors full). \<not> is_file s a" "disk s' = AList.update full contents (disk s)"
    "set (dirs s') = set (dirs s) \<union> set (ancestors full)" "distinct (dirs s) \<Longrightarrow> distinct (dirs s')"
    and c: "cache_setitem (cache_config cfg) full contents (file_cache s) = Inr c"
      "file_cache s' = c"
    by (rule lfs_write_cases [OF w]) blast
  have "cache_ok (cache_config cfg) c"
    using cache_setitem_ok [of "cache_config cfg" "file_cache s" full contents] c(1) ok lru
    by (auto simp: store_ok_def)
  moreover have "coherent s'"
  proof (cases "int (length contents) \<le> max_memory (cache_config cfg)")
    case True
    have "cached c \<subseteq>\<^sub>m (cached (file_cache s))(full \<mapsto> contents)"
      by (rule cache_setitem_map [OF c(1) True])
    also have "\<dots> \<subseteq>\<^sub>m (map_of (disk s))(full \<mapsto> contents)"
      using ok by (auto simp: store_ok_def coherent_def map_le_def)
    finally show ?thesis by (simp add: coherent_def full(4) c(2) update_conv')
  next
    case False
    then have "c = file_cache s" using c(1) by (simp add: cache_setitem_def)
    moreover have "cached (file_cache s) full = None"
      using fresh False full(1) by (simp add: stale_write_def)
    ultimately show ?thesis using ok c(2)
      by (auto simp: store_ok_def coherent_def full(4) update_conv' map_le_def)
  qed
  moreover have "distinct (map fst (disk s'))" "distinct (dirs s')"
    using ok full(4,6) by (auto simp: store_ok_def distinct_update)
  moreover have "\<forall>d \<in> set (dirs s'). \<not> is_file s' d"
    using ok full(2,3,4,5) full_not_ancestor [of full]
    by (auto simp: store_ok_def is_file_def is_dir_def update_conv')
  ultimately show ?thesis using c(2) by (simp add: store_ok_def)
qed

lemma lfs_read_keeps:
  assumes "store_ok cfg s" and "evicts_lru (cache_config cfg)"
    and "get_full_path (root cfg) path = Inr full" and "map_of (disk s) full = Some v"
  shows "\<exists>c. lfs_read cfg path s = (Inr v, s\<lparr>file_cache := c\<rparr>) \<and>
    store_ok cfg (s\<lparr>file_cache := c\<rparr>)"
proof (cases "cached (file_cache s) full")
  case None
  have nd: "\<not> is_dir s full" using assms(1,4) by (auto simp: store_ok_def is_file_def is_dir_def)
  from cache_setitem_ok [of "cache_config cfg" "file_cache s" full v] assms(1,2) obtain c where
    c: "cache_setitem (cache_config cfg) full v (file_cache s) = Inr c"
      "cache_ok (cache_config cfg) c" by (auto simp: store_ok_def)
  have "coherent (s\<lparr>file_cache := c\<rparr>)"
  proof (cases "int (length v) \<le> max_memory (cache_config cfg)")
    case True
    with cache_setitem_map [OF c(1)] assms(1,4) show ?thesis
      by (auto simp: coherent_def store_ok_def map_le_def split: if_splits) (metis domI option.inject)
  next
    case False
    with c(1) assms(1) show ?thesis by (simp add: cache_setitem_def store_ok_def coherent_def)
  qed
  with c assms nd None show ?thesis
    by (auto simp: lfs_read_def store_ok_def is_file_def)
next
  case (Some w)
  then have "w = v" using coherent_cached [of s full] assms(1,4) by (auto simp: store_ok_def)
  with Some assms show ?thesis
    by (auto simp: lfs_read_def store_ok_def is_file_def coherent_def cache_ok_touch)
qed

lemma lfs_delete_file:
  assumes "store_ok cfg s" and "get_full_path (root cfg) path = Inr full" and "\<not> is_dir s full"
  shows "\<exists>c. lfs_delete cfg path s =
      Inr (s\<lparr>disk := AList.delete full (disk s), file_cache := c\<rparr>) \<and>
    store_ok cfg (s\<lparr>disk := AList.delete full (disk s), file_cache := c\<rparr>)"
proof (cases "is_file s full")
  case True
  let ?c = "case cache_delete full (file_cache s) of Inl e \<Rightarrow> file_cache s | Inr c \<Rightarrow> c"
  have "cached ?c = (cached (file_cache s))(full := None)"
    by (cases "cache_delete full (file_cache s)")
      (auto simp: cached_delete, auto simp: cache_delete_def fun_eq_iff split: option.splits)
  then have "coherent (s\<lparr>disk := AList.delete full (disk s), file_cache := ?c\<rparr>)"
    using assms(1) by (auto simp: store_ok_def coherent_def delete_conv' map_le_def)
  moreover have "cache_ok (cache_config cfg) ?c"
    using assms(1) cache_ok_delete by (auto simp: store_ok_def split: sum.splits)
  ultimately show ?thesis using True assms
    by (intro exI [of _ ?c])
      (auto simp: lfs_delete_def store_ok_def is_file_def distinct_delete delete_conv')
next
  case False
  then have "AList.delete full (disk s) = disk s"
    by (simp add: is_file_def delete_id map_of_eq_None_iff)
  with False assms show ?thesis
    by (intro exI [of _ "file_cache s"]) (simp add: lfs_delete_def)
qed

section \<open>The local store holds event directories\<close>

lemma split_slash_plain: "slash \<notin> set n \<Longrightarrow> split_slash n = [n]"
  by (induction n) auto

lemma split_slash_nonempty [simp]: "split_slash xs \<noteq> []"
  by (induction xs) (auto split: list.splits)

lemma split_slash_append: "slash \<notin> set a \<Longrightarrow> split_slash (a @ slash # b) = a # split_slash b"
proof (induction a)
  case Nil
  show ?case by (cases "split_slash b") auto
qed auto

definition EVENTS_DIR :: string where
  "EVENTS_DIR = ''events''"

definition events_path :: "local_config \<Rightarrow> full_path" where
  "events_path cfg = root cfg @ [EVENTS_DIR]"

lemma plain_events: "plain_name EVENTS_DIR"
  by (simp add: plain_name_def EVENTS_DIR_def slash_def)

lemma full_path_events [simp]: "get_full_path (root cfg) EVENTS_DIR = Inr (events_path cfg)"
  by (simp add: get_full_path_def events_path_def EVENTS_DIR_def to_posix_path_def slash_def)

lemma full_path_event_file:
  assumes "plain_name n"
  shows "get_full_path (root cfg) (path_in EVENTS_DIR n) = Inr (events_path cfg @ [n])"
proof -
  have "to_posix_path (path_in EVENTS_DIR n) = EVENTS_DIR @ slash # n"
    using to_posix_plain [OF assms] to_posix_plain [OF plain_events]
    by (simp add: path_in_def to_posix_append) (simp add: to_posix_path_def slash_def)
  moreover have "split_slash (EVENTS_DIR @ slash # n) = [EVENTS_DIR, n]"
    using assms plain_events by (simp add: split_slash_append split_slash_plain plain_name_def)
  moreover have "\<not> prefix [slash] (path_in EVENTS_DIR n)"
    "\<not> prefix [slash] (EVENTS_DIR @ slash # n)"
    by (simp_all add: path_in_def EVENTS_DIR_def slash_def)
  ultimately show ?thesis
    using assms plain_events by (simp add: get_full_path_def Let_def plain_name_def events_path_def)
qed

text \<open>The files of the event directory, by name.\<close>

definition event_files :: "local_config \<Rightarrow> local_store \<Rightarrow> string \<Rightarrow> string option" where
  "event_files cfg s n = map_of (disk s) (events_path cfg @ [n])"

text \<open>An event directory: only plainly named files in it, and no file above it.\<close>

definition events_ok :: "local_config \<Rightarrow> local_store \<Rightarrow> bool" where
  "events_ok cfg s \<longleftrightarrow>
     store_ok cfg s \<and>
     (\<forall>n. \<not> is_dir s (events_path cfg @ [n])) \<and>
     (\<forall>a \<in> set (ancestors (events_path cfg)). \<not> is_file s a) \<and> \<not> is_file s (events_path cfg) \<and>
     (\<forall>n. is_file s (events_path cfg @ [n]) \<longrightarrow> plain_name n \<and> is_dir s (events_path cfg))"

lemma ancestors_snoc: "ancestors (p @ [n]) = ancestors p @ [p]"
proof -
  have "map (\<lambda>k. take k (p @ [n])) [0..<length p] = map (\<lambda>k. take k p) [0..<length p]"
    by (rule map_cong) auto
  then show ?thesis by (simp add: ancestors_def)
qed

text \<open>
  What the event log relies on: the cache of the store evicts in order of use, and \<open>os.listdir\<close>
  returns each name once.
\<close>

locale local_directory =
  fixes cfg :: local_config
  assumes lru: "evicts_lru (cache_config cfg)"
    and listdir_mset: "mset (listdir cfg ns) = mset ns"
begin

lemma lfs_write_event:
  assumes ok: "events_ok cfg s" and n: "plain_name n"
    and new: "event_files cfg s n = None \<or> c = []"
  shows "\<exists>s'. lfs_write cfg (path_in EVENTS_DIR n) c s = Inr s' \<and> events_ok cfg s' \<and>
    event_files cfg s' = (event_files cfg s)(n \<mapsto> c)"
proof -
  let ?p = "events_path cfg @ [n]" and ?path = "path_in EVENTS_DIR n"
  note fp = full_path_event_file [OF n, of cfg]
  have s: "store_ok cfg s" using ok by (simp add: events_ok_def)
  obtain k where k: "cache_setitem (cache_config cfg) ?p c (file_cache s) = Inr k"
    using cache_setitem_ok [OF _ lru] s by (metis store_ok_def)
  have "\<exists>s'. lfs_write cfg ?path c s = Inr s'"
    using ok fp k full_not_ancestor [of ?p]
    by (auto simp: lfs_write_def makedirs_def events_ok_def ancestors_snoc list_ex_iff is_dir_def)
  then obtain s' where w: "lfs_write cfg ?path c s = Inr s'" by blast
  have "\<not> stale_write cfg ?path c s"
  proof -
    have "0 \<le> max_memory (cache_config cfg)"
      using s sizes_nonneg [of "entries (file_cache s)"] by (simp add: store_ok_def cache_ok_def)
    moreover have "cached (file_cache s) ?p = None" if "event_files cfg s n = None"
      using that s coherent_cached [of s ?p] by (cases "cached (file_cache s) ?p")
        (auto simp: event_files_def store_ok_def)
    ultimately show ?thesis using new fp by (auto simp: stale_write_def)
  qed
  with lfs_write_keeps [OF s lru w] have s': "store_ok cfg s'" by blast
  obtain full where full: "full = ?p" "disk s' = AList.update full c (disk s)"
    "set (dirs s') = set (dirs s) \<union> set (ancestors full)"
    by (rule lfs_write_cases [OF w]) (use fp in auto)
  have "event_files cfg s' = (event_files cfg s)(n \<mapsto> c)"
    by (auto simp: event_files_def full(1,2) update_conv' fun_eq_iff)
  moreover have "events_ok cfg s'"
    using ok s' full(2,3) n unfolding events_ok_def full(1)
    by (auto simp: is_file_def is_dir_def update_conv' ancestors_snoc ancestors_def
        dest: arg_cong [of _ _ length])
  ultimately show ?thesis using w by blast
qed

lemma lfs_read_event:
  assumes "events_ok cfg s" and "plain_name n" and "event_files cfg s n = Some v"
  shows "\<exists>s'. lfs_read cfg (path_in EVENTS_DIR n) s = (Inr v, s') \<and> events_ok cfg s' \<and>
    event_files cfg s' = event_files cfg s"
proof -
  from lfs_read_keeps [where s = s, OF _ lru full_path_event_file [OF assms(2)], of v] assms obtain c where
    "lfs_read cfg (path_in EVENTS_DIR n) s = (Inr v, s\<lparr>file_cache := c\<rparr>)"
    "store_ok cfg (s\<lparr>file_cache := c\<rparr>)" by (auto simp: events_ok_def event_files_def)
  with assms(1) show ?thesis
    by (auto simp: events_ok_def event_files_def is_file_def is_dir_def fun_eq_iff)
qed

lemma lfs_delete_event:
  assumes "events_ok cfg s" and "plain_name n"
  shows "\<exists>s'. lfs_delete cfg (path_in EVENTS_DIR n) s = Inr s' \<and> events_ok cfg s' \<and>
    event_files cfg s' = (event_files cfg s)(n := None)"
proof -
  from lfs_delete_file [where s = s and cfg = cfg, OF _ full_path_event_file [OF assms(2)]] assms(1) obtain c where
    "lfs_delete cfg (path_in EVENTS_DIR n) s =
       Inr (s\<lparr>disk := AList.delete (events_path cfg @ [n]) (disk s), file_cache := c\<rparr>)"
    "store_ok cfg (s\<lparr>disk := AList.delete (events_path cfg @ [n]) (disk s), file_cache := c\<rparr>)"
    by (auto simp: events_ok_def)
  with assms(1) show ?thesis
    by (auto simp: events_ok_def event_files_def is_file_def is_dir_def fun_eq_iff delete_conv')
qed

lemma lfs_exists_event:
  assumes "events_ok cfg s" and "plain_name n"
  shows "lfs_exists cfg (path_in EVENTS_DIR n) s = Inr (event_files cfg s n \<noteq> None)"
  using assms full_path_event_file [OF assms(2)]
  by (simp add: lfs_exists_def event_files_def is_file_def events_ok_def)

lemma children_names:
  assumes "distinct ps"
  shows "distinct (children d ps)" and "set (children d ps) = {n. d @ [n] \<in> set ps}"
proof -
  have "p = d @ [last p]" if "p \<noteq> [] \<and> butlast p = d" for p :: full_path
    using that append_butlast_last_id [of p] by simp
  then have "inj_on last {p \<in> set ps. p \<noteq> [] \<and> butlast p = d}"
    by (intro inj_onI) (metis (mono_tags, lifting) mem_Collect_eq)
  with assms show "distinct (children d ps)" by (simp add: children_def distinct_map)
  show "set (children d ps) = {n. d @ [n] \<in> set ps}"
  proof (intro set_eqI iffI)
    fix n assume "n \<in> {n. d @ [n] \<in> set ps}"
    then have "d @ [n] \<in> set (filter (\<lambda>p. p \<noteq> [] \<and> butlast p = d) ps)" by simp
    then have "last (d @ [n]) \<in> set (children d ps)"
      unfolding children_def set_map by (rule imageI)
    then show "n \<in> set (children d ps)" by simp
  qed (auto simp: children_def)
qed

lemma map_result_id:
  "(\<And>x. x \<in> set xs \<Longrightarrow> f x = Inr x) \<Longrightarrow> map_result f xs = Inr xs"
  by (induction xs) auto

lemma lfs_list_events:
  assumes ok: "events_ok cfg s"
  shows "\<exists>ps. lfs_list cfg EVENTS_DIR s = Inr ps \<and> distinct ps \<and>
    set ps = path_in EVENTS_DIR ` dom (event_files cfg s)"
proof (cases "is_dir s (events_path cfg)")
  case False
  then have "dom (event_files cfg s) = {}"
    using ok by (auto simp: events_ok_def event_files_def is_file_def)
  with False ok show ?thesis by (simp add: lfs_list_def events_ok_def)
next
  case True
  let ?all = "map fst (disk s) @ dirs s"
  let ?names = "listdir cfg (children (events_path cfg) ?all)"
  have "set (map fst (disk s)) \<inter> set (dirs s) = {}"
    using ok by (auto simp: events_ok_def store_ok_def is_file_def map_of_eq_None_iff)
  with ok have "distinct ?all" by (simp add: events_ok_def store_ok_def)
  note ch = children_names [OF this, of "events_path cfg"]
  have nd: "\<not> is_dir s (events_path cfg @ [n])" for n using ok by (simp add: events_ok_def)
  note perm = listdir_mset [of "children (events_path cfg) ?all"]
  have "set ?names = {n. events_path cfg @ [n] \<in> set ?all}"
    using mset_eq_setD [OF perm] ch(2) by simp
  also have "\<dots> = dom (event_files cfg s)"
    using nd by (auto simp: event_files_def is_dir_def dom_def map_of_eq_None_iff
      simp flip: not_None_eq)
  finally have names: "distinct ?names" "set ?names = dom (event_files cfg s)"
    using ch(1) mset_eq_imp_distinct_iff [OF perm] by simp_all
  have plain: "plain_name n" if "n \<in> set ?names" for n
    using ok that names(2) by (auto simp: events_ok_def event_files_def is_file_def)
  have join: "join_path EVENTS_DIR n = path_in EVENTS_DIR n" for n
    by (simp add: join_path_def path_in_def EVENTS_DIR_def slash_def suffix_def)
  have "lfs_list cfg EVENTS_DIR s = Inr (map (join_path EVENTS_DIR) ?names)"
    using True ok nd full_path_event_file [OF plain] join
    by (auto simp: lfs_list_def events_ok_def intro!: map_result_id)
  moreover have "distinct (map (join_path EVENTS_DIR) ?names)"
    using names(1) by (simp add: join distinct_map inj_on_def)
  ultimately show ?thesis using names(2) by (auto simp: join)
qed

end

sublocale local_directory \<subseteq> ev: event_directory "local_fs cfg" EVENTS_DIR "event_files cfg" "events_ok cfg"
  by unfold_locales
    (simp_all add: local_fs_def lfs_write_event lfs_read_event lfs_list_events lfs_delete_event
      lfs_exists_event)

text \<open>The constructor's defaults, with a cache that evicts the least recently used entry.\<close>

definition default_config :: "full_path \<Rightarrow> local_config" where
  "default_config r =
     \<lparr>root = r, listdir = id,
      cache_config = \<lparr>max_memory = 20 * 1024 * 1024, max_entries = 500, evict = \<lambda>xs. fst (hd xs)\<rparr>\<rparr>"

interpretation default_store: local_directory "default_config r" for r
  by unfold_locales (simp_all add: default_config_def evicts_lru_def)

text \<open>The constructor creates the root directory.\<close>

definition lfs_init :: "local_config \<Rightarrow> local_store" where
  "lfs_init cfg = \<lparr>disk = [], dirs = ancestors (root cfg) @ [root cfg], file_cache = empty_cache\<rparr>"

lemma lfs_init_ok:
  assumes "0 \<le> max_memory (cache_config cfg)"
  shows "events_ok cfg (lfs_init cfg)" and "event_files cfg (lfs_init cfg) = Map.empty"
proof -
  have "p = root cfg \<or> length p < length (root cfg)" if "p \<in> set (ancestors (root cfg) @ [root cfg])" for p
    using that by (auto simp: ancestors_def)
  then have "\<not> is_dir (lfs_init cfg) (events_path cfg @ [n])" for n
    by (auto simp: is_dir_def lfs_init_def events_path_def ancestors_def dest!: arg_cong [of _ _ length])
  with assms show "events_ok cfg (lfs_init cfg)"
    using distinct_ancestors [of "root cfg"] full_not_ancestor [of "root cfg"]
    by (auto simp: events_ok_def store_ok_def lfs_init_def cache_ok_def empty_cache_def coherent_def
        cached_def is_file_def fun_eq_iff map_le_def)
  show "event_files cfg (lfs_init cfg) = Map.empty"
    by (simp add: event_files_def lfs_init_def fun_eq_iff)
qed

end
