(* ===== verification/Memory_Store.thy ===== *)
theory Memory_Store
  imports File_Store_Laws
begin

text \<open>
  The in-memory file store: what deleting and listing by plain string prefix does.
\<close>

lemma mem_delete_keys_cached:
  assumes "\<And>k. k \<in> set ks \<Longrightarrow> cached c k \<noteq> None" and "distinct ks"
  shows "cached (mem_delete_keys ks c) k = (if k \<in> set ks then None else cached c k)"
  using assms
proof (induction ks arbitrary: c)
  case (Cons x ks)
  then obtain c' where d: "cache_delete x c = Inr c'"
    by (force simp: cache_delete_def)
  have "cached (mem_delete_keys ks c') k = (if k \<in> set ks then None else cached c' k)"
    by (rule Cons.IH) (use Cons.prems cached_delete [OF d] in auto)
  then show ?case using d cached_delete [OF d] by auto
qed simp

lemma mem_list_from_raises:
  "path \<in> set fs \<Longrightarrow> mem_list_from path fs acc = Inl IndexError"
proof (induction fs arbitrary: acc)
  case (Cons f fs)
  have "mem_list_step path path acc = Inl IndexError" for acc
    by (simp add: mem_list_step_def)
  moreover have "is_ok (mem_list_step path f acc) \<or> mem_list_step path f acc = Inl IndexError"
    by (auto simp: mem_list_step_def Let_def split: list.splits)
  ultimately show ?case using Cons by (cases "mem_list_step path f acc") auto
qed simp

section \<open>Properties\<close>

text \<open>
  Deleting a path from the in-memory store removes every file whose name merely starts with that
  path, so also siblings of the file or directory named, and nothing else.
\<close>

theorem mem_delete_takes_siblings:
  assumes "distinct (map fst (entries c))"
  shows "\<exists>c'. mem_delete path c = Inr c' \<and>
    (\<forall>k. cached c' k = (if prefix path k then None else cached c k))"
proof -
  let ?ks = "filter (prefix path) (map fst (entries c))"
  have known: "cached c k \<noteq> None" if "k \<in> set ?ks" for k
    using that by (auto simp: cached_def map_of_eq_None_iff)
  have "distinct ?ks" using assms by simp
  note D = mem_delete_keys_cached [where ks = ?ks and c = c, OF known this]
  have "cached c k = None" if "k \<notin> set ?ks" "prefix path k" for k
    using that by (auto simp: cached_def map_of_eq_None_iff)
  with D show ?thesis by (auto simp: mem_delete_def)
qed

theorem mem_delete_takes_siblings_witness:
  "\<exists>c'. mem_delete ''a'' \<lparr>entries = [(''a/x'', ''1''), (''ab'', ''2'')], current_memory = 2\<rparr> = Inr c' \<and>
    cached c' ''ab'' = None"
  using mem_delete_takes_siblings
    [of "\<lparr>entries = [(''a/x'', ''1''), (''ab'', ''2'')], current_memory = 2\<rparr>" "''a''"] by auto

text \<open>
  Listing a path that is itself a stored file raises an index error, where the local store returns
  the file.
\<close>

theorem mem_list_of_file_raises:
  assumes "cached c path = Some v"
  shows "mem_list path c = Inl IndexError"
proof -
  have "path \<in> set (map fst (entries c))"
    using assms by (auto simp: cached_def dest!: map_of_SomeD intro: rev_image_eqI)
  then show ?thesis unfolding mem_list_def by (rule mem_list_from_raises)
qed

theorem mem_list_of_file_raises_witness:
  "mem_list ''a'' \<lparr>entries = [(''a'', ''1'')], current_memory = 1\<rparr> = Inl IndexError"
  by (rule mem_list_of_file_raises [of _ _ "''1''"]) (simp add: cached_def)

end
