(* ===== verification/Fifo_Lock.thy ===== *)
theory Fifo_Lock
  imports Prelude
begin

text \<open>
  The fair reentrant lock of \<^verbatim>\<open>agentrt/sdk/conversation/fifo_lock.py\<close>. Each operation holds the
  internal mutex, so it is one function on the lock's state; blocking in \<open>me.wait\<close> splits
  \<open>acquire\<close> into the entry and the wake-ups. A waiter is the condition object it queued, identified by a
  ticket, with its thread and whether it has been notified since it began to wait.
\<close>

type_synonym thread = nat

record waiter =
  w_ticket :: nat
  w_thread :: thread
  w_signalled :: bool

record fifo_lock =
  lk_owner :: "thread option"
  lk_count :: nat
  lk_waiters :: "waiter list"
  lk_next :: nat

definition new_lock :: fifo_lock where
  "new_lock = \<lparr>lk_owner = None, lk_count = 0, lk_waiters = [], lk_next = 0\<rparr>"

datatype outcome = Acquired | Refused | TimedOut | Waiting

definition clear_signal :: "nat \<Rightarrow> waiter \<Rightarrow> waiter" where
  "clear_signal ticket w = (if w_ticket w = ticket then w\<lparr>w_signalled := False\<rparr> else w)"

text \<open>
  One pass of the waiting loop for the waiter \<open>ticket\<close>: take the lock at the front of the queue when
  nobody owns it, else give up when the time is over, else wait for the next notification.
\<close>

definition waiting_pass :: "nat \<Rightarrow> thread \<Rightarrow> bool \<Rightarrow> fifo_lock \<Rightarrow> outcome \<times> fifo_lock" where
  "waiting_pass ticket ident expired l =
     (if w_ticket (hd (lk_waiters l)) = ticket \<and> lk_owner l = None then
        (Acquired, l\<lparr>lk_waiters := tl (lk_waiters l), lk_owner := Some ident, lk_count := 1\<rparr>)
      else if expired then
        (TimedOut, l\<lparr>lk_waiters := filter (\<lambda>w. w_ticket w \<noteq> ticket) (lk_waiters l)\<rparr>)
      else
        (Waiting, l\<lparr>lk_waiters := map (clear_signal ticket) (lk_waiters l)\<rparr>))"

text \<open>\<open>acquire\<close> up to its first wait; \<open>expired\<close> tells whether a given timeout is already over.\<close>

definition acquire :: "thread \<Rightarrow> bool \<Rightarrow> bool \<Rightarrow> fifo_lock \<Rightarrow> outcome \<times> fifo_lock" where
  "acquire ident blocking expired l =
     (if lk_owner l = Some ident then (Acquired, l\<lparr>lk_count := lk_count l + 1\<rparr>)
      else if lk_owner l = None \<and> lk_waiters l = [] then
        (Acquired, l\<lparr>lk_owner := Some ident, lk_count := 1\<rparr>)
      else if \<not> blocking then (Refused, l)
      else
        let me = \<lparr>w_ticket = lk_next l, w_thread = ident, w_signalled = False\<rparr>
        in waiting_pass (lk_next l) ident expired
             (l\<lparr>lk_waiters := lk_waiters l @ [me], lk_next := Suc (lk_next l)\<rparr>))"

text \<open>A waiter comes out of \<open>me.wait\<close>, notified or because its time is over.\<close>

definition wake_up :: "waiter \<Rightarrow> bool \<Rightarrow> fifo_lock \<Rightarrow> outcome \<times> fifo_lock" where
  "wake_up w expired l = waiting_pass (w_ticket w) (w_thread w) expired l"

definition notify_first :: "fifo_lock \<Rightarrow> fifo_lock" where
  "notify_first l =
     (case lk_waiters l of
        [] \<Rightarrow> l
      | w # ws \<Rightarrow> l\<lparr>lk_waiters := w\<lparr>w_signalled := True\<rparr> # ws\<rparr>)"

definition release :: "thread \<Rightarrow> fifo_lock \<Rightarrow> fifo_lock result" where
  "release ident l =
     (if lk_owner l \<noteq> Some ident then Inl RuntimeError
      else if lk_count l < 1 then Inl AssertionError
      else
        let l1 = l\<lparr>lk_count := lk_count l - 1\<rparr>
        in Inr (if lk_count l1 = 0 then notify_first (l1\<lparr>lk_owner := None\<rparr>) else l1))"

definition release_all :: "thread \<Rightarrow> fifo_lock \<Rightarrow> (nat \<times> fifo_lock) result" where
  "release_all ident l =
     (if lk_owner l \<noteq> Some ident then Inl RuntimeError
      else Inr (lk_count l, notify_first (l\<lparr>lk_count := 0, lk_owner := None\<rparr>)))"

text \<open>\<open>reacquire\<close> is a blocking \<open>acquire\<close> without timeout, unless \<open>depth <= 0\<close>, and then this.\<close>

definition restore_depth :: "nat \<Rightarrow> fifo_lock \<Rightarrow> fifo_lock" where
  "restore_depth depth l = l\<lparr>lk_count := depth\<rparr>"

definition locked :: "fifo_lock \<Rightarrow> bool" where
  "locked l \<longleftrightarrow> lk_owner l \<noteq> None"

definition owned :: "thread \<Rightarrow> fifo_lock \<Rightarrow> bool" where
  "owned ident l \<longleftrightarrow> lk_owner l = Some ident"

abbreviation waiting_threads :: "fifo_lock \<Rightarrow> thread list" where
  "waiting_threads l \<equiv> map w_thread (lk_waiters l)"

section \<open>Executions\<close>

text \<open>What the threads using one lock can do. A waiting thread does nothing but wake up.\<close>

datatype lock_event =
    EvAcquire thread bool bool outcome
  | EvWake waiter bool outcome
  | EvRelease thread
  | EvReleaseAll thread nat
  | EvRestore thread nat

inductive lock_step :: "fifo_lock \<Rightarrow> lock_event \<Rightarrow> fifo_lock \<Rightarrow> bool" where
  step_acquire: "t \<notin> set (waiting_threads l) \<Longrightarrow> acquire t blocking expired l = (r, l') \<Longrightarrow>
    lock_step l (EvAcquire t blocking expired r) l'"
| step_wake: "w \<in> set (lk_waiters l) \<Longrightarrow> wake_up w expired l = (r, l') \<Longrightarrow>
    lock_step l (EvWake w expired r) l'"
| step_release: "release t l = Inr l' \<Longrightarrow> lock_step l (EvRelease t) l'"
| step_release_all: "release_all t l = Inr (d, l') \<Longrightarrow> lock_step l (EvReleaseAll t d) l'"
| step_restore: "owned t l \<Longrightarrow> 0 < d \<Longrightarrow> lock_step l (EvRestore t d) (restore_depth d l)"

inductive_cases lock_step_cases: "lock_step l ev l'"

inductive lock_run :: "fifo_lock \<Rightarrow> lock_event list \<Rightarrow> fifo_lock \<Rightarrow> bool" where
  run_nil: "lock_run l [] l"
| run_snoc: "lock_run l evs l1 \<Longrightarrow> lock_step l1 ev l2 \<Longrightarrow> lock_run l (evs @ [ev]) l2"

text \<open>
  The invariant: owner and depth agree, no thread waits twice or for itself, tickets are in queue
  order, and a free lock with waiters has notified the first one.
\<close>

definition fifo_ok :: "fifo_lock \<Rightarrow> bool" where
  "fifo_ok l \<longleftrightarrow>
     (lk_owner l = None \<longleftrightarrow> lk_count l = 0) \<and> distinct (waiting_threads l) \<and>
     (\<forall>t. lk_owner l = Some t \<longrightarrow> t \<notin> set (waiting_threads l)) \<and>
     sorted_wrt (<) (map w_ticket (lk_waiters l)) \<and>
     (\<forall>k \<in> set (map w_ticket (lk_waiters l)). k < lk_next l) \<and>
     (lk_owner l = None \<and> lk_waiters l \<noteq> [] \<longrightarrow> w_signalled (hd (lk_waiters l)))"

lemma fifo_ok_new [simp]: "fifo_ok new_lock"
  by (simp add: fifo_ok_def new_lock_def)

lemma fifo_okD:
  assumes "fifo_ok l"
  shows "lk_owner l = None \<longleftrightarrow> lk_count l = 0" and "distinct (waiting_threads l)"
    and "lk_owner l = Some t \<Longrightarrow> t \<notin> set (waiting_threads l)"
    and "sorted_wrt (<) (map w_ticket (lk_waiters l))"
    and "w \<in> set (lk_waiters l) \<Longrightarrow> w_ticket w < lk_next l"
    and "lk_owner l = None \<Longrightarrow> lk_waiters l \<noteq> [] \<Longrightarrow> w_signalled (hd (lk_waiters l))"
  using assms by (auto simp: fifo_ok_def)

lemma ticket_inj:
  assumes "sorted_wrt (<) (map w_ticket ws)" and "w \<in> set ws" "w' \<in> set ws"
    and "w_ticket w = w_ticket w'"
  shows "w = w'"
  using assms strict_sorted_iff [of "map w_ticket ws"] by (auto simp: distinct_map dest: inj_onD)

text \<open>Removing a waiter, or clearing its signal, keeps the order of the others.\<close>

lemma sorted_map_filter:
  "sorted_wrt (<) (map f xs) \<Longrightarrow> sorted_wrt (<) (map f (filter P xs))" for f :: "'a \<Rightarrow> nat"
  by (induction xs) auto

lemma clear_signal_simps [simp]:
  "w_ticket (clear_signal k w) = w_ticket w" "w_thread (clear_signal k w) = w_thread w"
  "w_ticket \<circ> clear_signal k = w_ticket" "w_thread \<circ> clear_signal k = w_thread"
  by (auto simp: clear_signal_def)

lemma notify_first_maps [simp]:
  "map w_ticket (lk_waiters (notify_first l)) = map w_ticket (lk_waiters l)"
  "waiting_threads (notify_first l) = waiting_threads l"
  "lk_owner (notify_first l) = lk_owner l" "lk_count (notify_first l) = lk_count l"
  "lk_next (notify_first l) = lk_next l"
  "lk_waiters (notify_first l) = [] \<longleftrightarrow> lk_waiters l = []"
  "lk_waiters l \<noteq> [] \<Longrightarrow> w_signalled (hd (lk_waiters (notify_first l)))"
  by (auto simp: notify_first_def split: list.splits)

section \<open>The invariant is kept\<close>

lemma waiting_pass_ok:
  assumes ok: "fifo_ok l" and w: "w \<in> set (lk_waiters l)"
    and p: "waiting_pass (w_ticket w) (w_thread w) expired l = (r, l')"
  shows "fifo_ok l'"
proof -
  note I = fifo_okD [OF ok]
  obtain h ws where q: "lk_waiters l = h # ws" using w by (cases "lk_waiters l") auto
  consider (get) "w_ticket h = w_ticket w" "lk_owner l = None"
    | (expire) "w_ticket h \<noteq> w_ticket w \<or> lk_owner l \<noteq> None" "expired"
    | (wait) "w_ticket h \<noteq> w_ticket w \<or> lk_owner l \<noteq> None" "\<not> expired" by blast
  then show ?thesis
  proof cases
    case get
    have "h = w" by (rule ticket_inj [OF I(4) _ w get(1)]) (simp add: q)
    then show ?thesis using p get I(2,4,5) q by (auto simp: waiting_pass_def fifo_ok_def)
  next
    case expire
    then have l': "l' = l\<lparr>lk_waiters := filter (\<lambda>x. w_ticket x \<noteq> w_ticket w) (lk_waiters l)\<rparr>"
      using p q by (auto simp: waiting_pass_def)
    have "lk_owner l = None \<Longrightarrow> filter (\<lambda>x. w_ticket x \<noteq> w_ticket w) (lk_waiters l) \<noteq> [] \<Longrightarrow>
        w_signalled (hd (filter (\<lambda>x. w_ticket x \<noteq> w_ticket w) (lk_waiters l)))"
      using expire(1) I(6) q by simp
    then show ?thesis
      unfolding l' fifo_ok_def using I sorted_map_filter [OF I(4)]
      by (auto simp: distinct_map_filter)
  next
    case wait
    have l': "l' = l\<lparr>lk_waiters := map (clear_signal (w_ticket w)) (lk_waiters l)\<rparr>"
      using p q wait by (auto simp: waiting_pass_def)
    have "lk_owner l = None \<Longrightarrow> w_signalled (hd (map (clear_signal (w_ticket w)) (lk_waiters l)))"
      using wait(1) I(6) q by (auto simp: clear_signal_def)
    then show ?thesis using ok unfolding l' fifo_ok_def by auto
  qed
qed

lemma acquire_ok:
  assumes ok: "fifo_ok l" and t: "t \<notin> set (waiting_threads l)"
    and a: "acquire t blocking expired l = (r, l')"
  shows "fifo_ok l'"
proof (cases "lk_owner l = Some t \<or> lk_owner l = None \<and> lk_waiters l = [] \<or> \<not> blocking")
  case True
  then show ?thesis using ok a t by (auto simp: acquire_def fifo_ok_def split: if_splits)
next
  case False
  let ?me = "\<lparr>w_ticket = lk_next l, w_thread = t, w_signalled = False\<rparr>"
  let ?l = "l\<lparr>lk_waiters := lk_waiters l @ [?me], lk_next := Suc (lk_next l)\<rparr>"
  have "fifo_ok ?l"
    using ok t False by (auto simp: fifo_ok_def sorted_wrt_append hd_append less_Suc_eq)
  moreover have "waiting_pass (w_ticket ?me) (w_thread ?me) expired ?l = (r, l')"
    using a False by (auto simp: acquire_def Let_def)
  moreover have "?me \<in> set (lk_waiters ?l)" by simp
  ultimately show ?thesis using waiting_pass_ok by blast
qed

lemma notify_ok:
  assumes "fifo_ok l" shows "fifo_ok (notify_first (l\<lparr>lk_count := 0, lk_owner := None\<rparr>))"
  using assms by (cases "lk_waiters l") (auto simp: fifo_ok_def notify_first_def)

lemma release_cases:
  assumes "release t l = Inr l'"
  shows "lk_owner l = Some t \<and>
    (l' = notify_first (l\<lparr>lk_count := 0, lk_owner := None\<rparr>) \<and> lk_count l = 1 \<or>
     l' = l\<lparr>lk_count := lk_count l - 1\<rparr> \<and> 1 < lk_count l)"
  using assms by (cases "lk_count l = 1") (auto simp: release_def Let_def split: if_splits)

lemma release_ok: "fifo_ok l \<Longrightarrow> release t l = Inr l' \<Longrightarrow> fifo_ok l'"
  using notify_ok [of l] by (auto dest!: release_cases) (auto simp: fifo_ok_def)

lemma lock_step_ok: "lock_step l ev l' \<Longrightarrow> fifo_ok l \<Longrightarrow> fifo_ok l'"
proof (induction rule: lock_step.induct)
  case (step_wake w l expired r l')
  then show ?case by (auto simp: wake_up_def intro: waiting_pass_ok)
next
  case (step_release_all t l d l')
  then show ?case by (auto simp: release_all_def notify_ok split: if_splits)
next
  case (step_restore t l d)
  then show ?case by (auto simp: restore_depth_def owned_def fifo_ok_def)
next
  case (step_acquire t l blocking expired r l')
  then show ?case using acquire_ok by blast
qed (auto intro: release_ok)

lemma lock_run_ok: "lock_run l evs l' \<Longrightarrow> fifo_ok l \<Longrightarrow> fifo_ok l'"
  by (induction rule: lock_run.induct) (auto intro: lock_step_ok)

section \<open>Order of service\<close>

text \<open>The tickets granted by an event, and those it issues.\<close>

fun granted :: "lock_event \<Rightarrow> nat list" where
  "granted (EvWake w _ Acquired) = [w_ticket w]"
| "granted _ = []"

definition service_order :: "lock_event list \<Rightarrow> fifo_lock \<Rightarrow> nat list" where
  "service_order evs l = concat (map granted evs) @ map w_ticket (lk_waiters l)"

lemma waiting_pass_tickets:
  assumes "fifo_ok l" and "w \<in> set (lk_waiters l)"
    and "waiting_pass (w_ticket w) (w_thread w) expired l = (r, l')"
  shows "(r = Acquired \<and> map w_ticket (lk_waiters l) = w_ticket w # map w_ticket (lk_waiters l')) \<or>
    (r \<noteq> Acquired \<and> subseq (map w_ticket (lk_waiters l')) (map w_ticket (lk_waiters l)))"
    and "lk_next l' = lk_next l"
proof -
  obtain h ws where q: "lk_waiters l = h # ws" using assms(2) by (cases "lk_waiters l") auto
  have "subseq (map w_ticket (filter P (h # ws))) (w_ticket h # map w_ticket ws)" for P
    using subseq_map [OF subseq_filter_left [of P "h # ws"], of w_ticket] by simp
  with q show "(r = Acquired \<and> map w_ticket (lk_waiters l) = w_ticket w # map w_ticket (lk_waiters l')) \<or>
    (r \<noteq> Acquired \<and> subseq (map w_ticket (lk_waiters l')) (map w_ticket (lk_waiters l)))"
    using assms(3) by (auto simp: waiting_pass_def simp del: filter.simps split: if_splits)
  show "lk_next l' = lk_next l" using assms(3) by (auto simp: waiting_pass_def split: if_splits)
qed

lemma sorted_subseq: "subseq xs ys \<Longrightarrow> sorted_wrt (<) ys \<Longrightarrow> sorted_wrt (<) xs" for xs :: "nat list"
  by (induction rule: list_emb.induct) (auto dest: list_emb_set)

lemma service_step:
  assumes "lock_step l ev l'" and "fifo_ok l" and "sorted_wrt (<) (served @ map w_ticket (lk_waiters l))"
    and "\<forall>k \<in> set served. k < lk_next l"
  shows "sorted_wrt (<) ((served @ granted ev) @ map w_ticket (lk_waiters l')) \<and>
    (\<forall>k \<in> set (served @ granted ev). k < lk_next l')"
  using assms
proof (induction rule: lock_step.induct)
  case (step_acquire t l blocking expired r l')
  note I = fifo_okD [OF step_acquire.prems(1)]
  show ?case
  proof (cases "lk_owner l = Some t \<or> lk_owner l = None \<and> lk_waiters l = [] \<or> \<not> blocking")
    case True
    then show ?thesis using step_acquire by (auto simp: acquire_def split: if_splits)
  next
    case False
    let ?me = "\<lparr>w_ticket = lk_next l, w_thread = t, w_signalled = False\<rparr>"
    let ?l = "l\<lparr>lk_waiters := lk_waiters l @ [?me], lk_next := Suc (lk_next l)\<rparr>"
    have l': "l' = (if expired then l\<lparr>lk_next := Suc (lk_next l)\<rparr> else
        l\<lparr>lk_waiters := map (clear_signal (lk_next l)) (lk_waiters l) @ [?me], lk_next := Suc (lk_next l)\<rparr>)"
    proof -
      have other: "w_ticket w \<noteq> lk_next l" if "w \<in> set (lk_waiters l)" for w using I(5) that by fastforce
      then have "filter (\<lambda>w. w_ticket w \<noteq> lk_next l) (lk_waiters l) = lk_waiters l" by simp
      moreover have "\<not> (w_ticket (hd (lk_waiters ?l)) = lk_next l \<and> lk_owner l = None)"
        using False other by (cases "lk_waiters l") auto
      ultimately show ?thesis using step_acquire.hyps(2) False
        by (auto simp: acquire_def Let_def waiting_pass_def clear_signal_def)
    qed
    have "\<forall>k \<in> set (served @ map w_ticket (lk_waiters l)). k < lk_next l"
      using I(5) step_acquire.prems(3) by auto
    then show ?thesis using step_acquire.prems(2,3)
      by (auto simp: l' sorted_wrt_append less_Suc_eq)
  qed
next
  case (step_wake w l expired r l')
  from step_wake have p: "waiting_pass (w_ticket w) (w_thread w) expired l = (r, l')"
    by (simp add: wake_up_def)
  note W = waiting_pass_tickets [OF step_wake.prems(1) step_wake.hyps(1) p]
  show ?case
  proof (cases "r = Acquired")
    case True
    with W step_wake.prems(2,3) fifo_okD(5) [OF step_wake.prems(1) step_wake.hyps(1)]
    show ?thesis by (auto simp: sorted_wrt_append)
  next
    case False
    then have "granted (EvWake w expired r) = []" by (cases r) auto
    moreover have "subseq (served @ map w_ticket (lk_waiters l')) (served @ map w_ticket (lk_waiters l))"
      using W(1) False by (auto intro: list_emb_append_mono)
    ultimately show ?thesis using step_wake.prems(2,3) W(2) sorted_subseq by fastforce
  qed
next
  case (step_release t l l')
  then show ?case by (auto dest!: release_cases)
next
  case (step_release_all t l d l')
  then show ?case by (auto simp: release_all_def split: if_splits)
qed (auto simp: restore_depth_def)

lemma lock_run_order:
  "lock_run l evs l' \<Longrightarrow> l = new_lock \<Longrightarrow>
     sorted_wrt (<) (service_order evs l') \<and> (\<forall>k \<in> set (concat (map granted evs)). k < lk_next l')"
proof (induction rule: lock_run.induct)
  case (run_snoc l evs l1 ev l2)
  then have "fifo_ok l1" using lock_run_ok by auto
  from service_step [OF run_snoc.hyps(2) this, of "concat (map granted evs)"] run_snoc
  show ?case by (simp add: service_order_def)
qed (simp add: service_order_def new_lock_def)

section \<open>Properties\<close>

text \<open>
  C7. Mutual exclusion and no lost wake-up: in every execution the owner and the reentrancy depth
  agree, the owner never waits, no thread waits twice, and when the lock is free while threads wait,
  the first of them has been notified and takes the lock when it runs, even if its time is over.
\<close>

theorem fifo_no_lost_wakeup:
  assumes "lock_run new_lock evs l"
  shows "(lk_owner l = None \<longleftrightarrow> lk_count l = 0) \<and> distinct (waiting_threads l) \<and>
    (\<forall>t. owned t l \<longrightarrow> t \<notin> set (waiting_threads l)) \<and>
    (\<not> locked l \<and> lk_waiters l \<noteq> [] \<longrightarrow> w_signalled (hd (lk_waiters l)) \<and>
      (\<forall>expired. fst (wake_up (hd (lk_waiters l)) expired l) = Acquired))"
  using lock_run_ok [OF assms fifo_ok_new]
  by (simp add: fifo_ok_def locked_def owned_def wake_up_def waiting_pass_def)

text \<open>Thread 1 holds the lock, thread 2 queues, and gets it when thread 1 releases.\<close>

definition sample_waiter :: "bool \<Rightarrow> waiter" where
  "sample_waiter b = \<lparr>w_ticket = 0, w_thread = 2, w_signalled = b\<rparr>"

definition sample_free_lock :: fifo_lock where
  "sample_free_lock = \<lparr>lk_owner = None, lk_count = 0, lk_waiters = [sample_waiter True], lk_next = 1\<rparr>"

lemma sample_run:
  "lock_run new_lock [EvAcquire 1 True False Acquired, EvAcquire 2 True False Waiting, EvRelease 1]
     sample_free_lock"
proof -
  let ?l1 = "\<lparr>lk_owner = Some 1, lk_count = 1, lk_waiters = [], lk_next = 0\<rparr>"
  let ?l2 = "\<lparr>lk_owner = Some 1, lk_count = 1, lk_waiters = [sample_waiter False], lk_next = 1\<rparr>"
  have "lock_run new_lock ([] @ [EvAcquire 1 True False Acquired]) ?l1"
    by (rule run_snoc [OF run_nil], intro step_acquire) (simp_all add: acquire_def new_lock_def)
  then have "lock_run new_lock (([] @ [EvAcquire 1 True False Acquired]) @ [EvAcquire 2 True False Waiting]) ?l2"
    by (rule run_snoc, intro step_acquire)
      (simp_all add: acquire_def waiting_pass_def clear_signal_def sample_waiter_def)
  then have "lock_run new_lock ((([] @ [EvAcquire 1 True False Acquired]) @ [EvAcquire 2 True False Waiting])
      @ [EvRelease 1]) sample_free_lock"
    by (rule run_snoc, intro step_release)
      (simp add: release_def notify_first_def sample_waiter_def sample_free_lock_def)
  then show ?thesis by simp
qed

theorem fifo_no_lost_wakeup_witness:
  "lk_waiters sample_free_lock \<noteq> [] \<and> \<not> locked sample_free_lock \<and>
   fst (wake_up (hd (lk_waiters sample_free_lock)) True sample_free_lock) = Acquired"
  using fifo_no_lost_wakeup [OF sample_run] by (simp add: sample_free_lock_def locked_def)

text \<open>
  C32. First in, first out: in every execution, waiters get the lock in the order in which they queued,
  before everyone still waiting; and a thread that does not wait gets it only when it already owns
  it or nobody waits.
\<close>

theorem fifo_service_order:
  assumes "lock_run new_lock evs l"
  shows "sorted_wrt (<) (concat (map granted evs) @ map w_ticket (lk_waiters l)) \<and>
    (\<forall>t blocking expired. t \<notin> set (waiting_threads l) \<and> fst (acquire t blocking expired l) = Acquired \<longrightarrow>
       owned t l \<or> lk_waiters l = [])"
proof (intro conjI allI impI)
  show "sorted_wrt (<) (concat (map granted evs) @ map w_ticket (lk_waiters l))"
    using lock_run_order [OF assms] by (simp add: service_order_def)
  have ok: "fifo_ok l" using lock_run_ok [OF assms fifo_ok_new] .
  fix t blocking expired
  assume a: "t \<notin> set (waiting_threads l) \<and> fst (acquire t blocking expired l) = Acquired"
  show "owned t l \<or> lk_waiters l = []"
  proof (rule ccontr)
    assume c: "\<not> (owned t l \<or> lk_waiters l = [])"
    then have "w_ticket (hd (lk_waiters l)) < lk_next l" using fifo_okD(5) [OF ok] hd_in_set by blast
    with a c show False
      by (auto simp: acquire_def owned_def waiting_pass_def Let_def split: if_splits)
  qed
qed

theorem fifo_service_order_witness:
  "sorted_wrt (<) (map w_ticket (lk_waiters sample_free_lock)) \<and>
   fst (acquire 3 True False sample_free_lock) \<noteq> Acquired"
proof -
  have "3 \<notin> set (waiting_threads sample_free_lock)" "\<not> owned 3 sample_free_lock"
    "lk_waiters sample_free_lock \<noteq> []"
    by (simp_all add: sample_free_lock_def sample_waiter_def owned_def)
  with fifo_service_order [OF sample_run] show ?thesis by (simp add: sorted_wrt_append) blast
qed

end
