(* ===== verification/Resource_Locks.thy ===== *)
theory Resource_Locks
  imports Fifo_Lock "HOL-Library.List_Lexorder" "HOL-Library.Char_ord"
begin

text \<open>
  The resource lock manager of \<^verbatim>\<open>agentrt/sdk/conversation/resource_lock_manager.py\<close>, built on the
  fair lock. Lock objects live in a heap, the manager's dictionaries hold their addresses and
  reference counts, and \<open>lock(*keys)\<close> is a state machine per thread whose steps are the sections
  that run under one mutex. Strings are ordered by code point, as in Python.
\<close>

type_synonym addr = nat

record manager =
  rl_locks :: "string \<Rightarrow> addr option"
  rl_refcounts :: "string \<Rightarrow> int option"
  rl_heap :: "addr \<Rightarrow> fifo_lock"
  rl_next :: addr

definition new_manager :: manager where
  "new_manager = \<lparr>rl_locks = Map.empty, rl_refcounts = Map.empty, rl_heap = \<lambda>_. new_lock, rl_next = 0\<rparr>"

definition get_lock :: "string \<Rightarrow> manager \<Rightarrow> addr \<times> manager" where
  "get_lock key m =
     (let (a, m1) = (case rl_locks m key of
            Some a \<Rightarrow> (a, m)
          | None \<Rightarrow> (rl_next m, m\<lparr>rl_locks := (rl_locks m)(key \<mapsto> rl_next m),
                rl_heap := (rl_heap m)(rl_next m := new_lock), rl_next := Suc (rl_next m)\<rparr>));
          n = (case rl_refcounts m1 key of None \<Rightarrow> 0 | Some n \<Rightarrow> n) + 1
      in (a, m1\<lparr>rl_refcounts := (rl_refcounts m1)(key \<mapsto> n)\<rparr>))"

text \<open>
  Undo one reference; the entry goes away with the last one, unless the lock is held. A missing
  entry raises.
\<close>

definition drop_ref :: "string \<Rightarrow> manager \<Rightarrow> manager result" where
  "drop_ref key m =
     (case rl_refcounts m key of
        None \<Rightarrow> Inl KeyError
      | Some n \<Rightarrow>
          let m1 = m\<lparr>rl_refcounts := (rl_refcounts m)(key \<mapsto> n - 1)\<rparr> in
          if n - 1 = 0 then
            (case rl_locks m key of
               None \<Rightarrow> Inl KeyError
             | Some a \<Rightarrow>
                 if \<not> locked (rl_heap m a)
                 then Inr (m1\<lparr>rl_locks := (rl_locks m)(key := None),
                             rl_refcounts := (rl_refcounts m)(key := None)\<rparr>)
                 else Inr m1)
          else Inr m1)"

definition release_lock :: "thread \<Rightarrow> string \<Rightarrow> manager \<Rightarrow> manager result" where
  "release_lock ident key m =
     (case rl_locks m key of
        None \<Rightarrow> Inr m
      | Some a \<Rightarrow>
          and_then (release ident (rl_heap m a)) (\<lambda>l.
            drop_ref key (m\<lparr>rl_heap := (rl_heap m)(a := l)\<rparr>)))"

text \<open>The timeout of a key goes by its prefix up to the first colon.\<close>

definition DEFAULT_TIMEOUTS :: "string \<Rightarrow> nat option" where
  "DEFAULT_TIMEOUTS = [''file'' \<mapsto> 30, ''terminal'' \<mapsto> 300, ''browser'' \<mapsto> 300, ''mcp'' \<mapsto> 300, ''tool'' \<mapsto> 60]"

definition get_timeout :: "(string \<Rightarrow> nat option) \<Rightarrow> string \<Rightarrow> nat" where
  "get_timeout timeouts key =
     (case timeouts (takeWhile (\<lambda>c. c \<noteq> CHR '':'') key) of None \<Rightarrow> 30 | Some n \<Rightarrow> n)"

section \<open>Threads in \<open>lock\<close>\<close>

text \<open>
  Where a thread is: outside; about to fetch a lock; about to acquire the fetched lock; blocked in
  it; undoing after a timeout; in the body; releasing what is left of the acquired keys.
\<close>

datatype status =
    Idle
  | Getting "string list" string "string list"
  | Entering "string list" string addr "string list"
  | Blocked "string list" string addr "string list"
  | Undoing "string list" string
  | Holding "string list"
  | Releasing "string list"

definition next_status :: "string list \<Rightarrow> string list \<Rightarrow> status" where
  "next_status acquired rest =
     (case rest of [] \<Rightarrow> Holding acquired | key # keys \<Rightarrow> Getting acquired key keys)"

text \<open>After \<open>acquire\<close> answered.\<close>

definition answered :: "outcome \<Rightarrow> string list \<Rightarrow> string \<Rightarrow> addr \<Rightarrow> string list \<Rightarrow> status" where
  "answered r acquired key a rest =
     (case r of
        Acquired \<Rightarrow> next_status (acquired @ [key]) rest
      | Waiting \<Rightarrow> Blocked acquired key a rest
      | _ \<Rightarrow> Undoing acquired key)"

record system =
  sys_mgr :: manager
  sys_st :: "thread \<Rightarrow> status"

definition initial :: system where
  "initial = \<lparr>sys_mgr = new_manager, sys_st = \<lambda>_. Idle\<rparr>"

text \<open>
  One step of thread \<open>t\<close>; \<open>expired\<close> tells whether its timeout is over. A timeout is never negative,
  so \<open>acquire\<close> always blocks with one.
\<close>

definition goto :: "thread \<Rightarrow> status \<Rightarrow> manager \<Rightarrow> system \<Rightarrow> system" where
  "goto t x m s = s\<lparr>sys_mgr := m, sys_st := (sys_st s)(t := x)\<rparr>"

definition set_lock :: "addr \<Rightarrow> fifo_lock \<Rightarrow> manager \<Rightarrow> manager" where
  "set_lock a l m = m\<lparr>rl_heap := (rl_heap m)(a := l)\<rparr>"

inductive lock_call :: "system \<Rightarrow> thread \<Rightarrow> bool \<Rightarrow> system \<Rightarrow> bool" where
  call_start: "sys_st s t = Idle \<Longrightarrow>
    lock_call s t expired (goto t (next_status [] (sort (remdups keys))) (sys_mgr s) s)"
| call_get: "sys_st s t = Getting acq k ks \<Longrightarrow> get_lock k (sys_mgr s) = (a, m) \<Longrightarrow>
    lock_call s t expired (goto t (Entering acq k a ks) m s)"
| call_enter: "sys_st s t = Entering acq k a ks \<Longrightarrow>
    acquire t True expired (rl_heap (sys_mgr s) a) = (r, l) \<Longrightarrow>
    lock_call s t expired (goto t (answered r acq k a ks) (set_lock a l (sys_mgr s)) s)"
| call_wake: "sys_st s t = Blocked acq k a ks \<Longrightarrow> w \<in> set (lk_waiters (rl_heap (sys_mgr s) a)) \<Longrightarrow>
    w_thread w = t \<Longrightarrow> wake_up w expired (rl_heap (sys_mgr s) a) = (r, l) \<Longrightarrow>
    lock_call s t expired (goto t (answered r acq k a ks) (set_lock a l (sys_mgr s)) s)"
| call_undo: "sys_st s t = Undoing acq k \<Longrightarrow> drop_ref k (sys_mgr s) = Inr m \<Longrightarrow>
    lock_call s t expired (goto t (Releasing (rev acq)) m s)"
| call_done: "sys_st s t = Holding acq \<Longrightarrow>
    lock_call s t expired (goto t (Releasing (rev acq)) (sys_mgr s) s)"
| call_release: "sys_st s t = Releasing (k # ks) \<Longrightarrow> release_lock t k (sys_mgr s) = Inr m \<Longrightarrow>
    lock_call s t expired (goto t (Releasing ks) m s)"
| call_return: "sys_st s t = Releasing [] \<Longrightarrow>
    lock_call s t expired (goto t Idle (sys_mgr s) s)"

inductive reachable :: "system \<Rightarrow> bool" where
  reach_initial: "reachable initial"
| reach_step: "reachable s \<Longrightarrow> lock_call s t expired s' \<Longrightarrow> reachable s'"

section \<open>The invariant\<close>

fun held :: "status \<Rightarrow> string set" where
  "held Idle = {}"
| "held (Getting acq k ks) = set acq"
| "held (Entering acq k a ks) = set acq"
| "held (Blocked acq k a ks) = set acq"
| "held (Undoing acq k) = set acq"
| "held (Holding acq) = set acq"
| "held (Releasing ks) = set ks"

text \<open>The keys a thread keeps a reference for.\<close>

fun refs :: "status \<Rightarrow> string set" where
  "refs (Entering acq k a ks) = insert k (set acq)"
| "refs (Blocked acq k a ks) = insert k (set acq)"
| "refs (Undoing acq k) = insert k (set acq)"
| "refs x = held x"

fun aims :: "status \<Rightarrow> (string \<times> addr) option" where
  "aims (Entering acq k a ks) = Some (k, a)"
| "aims (Blocked acq k a ks) = Some (k, a)"
| "aims _ = None"

text \<open>Keys are taken in strictly ascending order and given back in descending order.\<close>

fun ordered :: "status \<Rightarrow> bool" where
  "ordered Idle = True"
| "ordered (Getting acq k ks) = sorted_wrt (<) (acq @ k # ks)"
| "ordered (Entering acq k a ks) = sorted_wrt (<) (acq @ k # ks)"
| "ordered (Blocked acq k a ks) = sorted_wrt (<) (acq @ k # ks)"
| "ordered (Undoing acq k) = sorted_wrt (<) (acq @ [k])"
| "ordered (Holding acq) = sorted_wrt (<) acq"
| "ordered (Releasing ks) = sorted_wrt (>) ks"

fun blocked_at :: "status \<Rightarrow> addr option" where
  "blocked_at (Blocked acq k a ks) = Some a"
| "blocked_at _ = None"

definition users :: "(thread \<Rightarrow> status) \<Rightarrow> string \<Rightarrow> thread set" where
  "users st k = {t. k \<in> refs (st t)}"

definition counted :: "nat \<Rightarrow> int option" where
  "counted n = (if n = 0 then None else Some (int n))"

text \<open>
  The reference count of a key is the number of threads that use it, and its entry exists exactly
  while there are some; the lock of a key is owned by the thread that holds the key and queues the
  threads blocked on it.
\<close>

definition sys_ok :: "system \<Rightarrow> bool" where
  "sys_ok s \<longleftrightarrow>
     (let m = sys_mgr s; st = sys_st s in
      finite {t. st t \<noteq> Idle} \<and> (\<forall>t. ordered (st t)) \<and>
      (\<forall>k. rl_refcounts m k = counted (card (users st k))) \<and>
      (\<forall>k. rl_locks m k = None \<longleftrightarrow> rl_refcounts m k = None) \<and>
      (\<forall>k a. rl_locks m k = Some a \<longrightarrow> a < rl_next m \<and> fifo_ok (rl_heap m a) \<and>
         lk_count (rl_heap m a) \<le> 1 \<and>
         (\<forall>k'. rl_locks m k' = Some a \<longrightarrow> k' = k) \<and>
         (\<forall>t. lk_owner (rl_heap m a) = Some t \<longleftrightarrow> k \<in> held (st t)) \<and>
         (\<forall>t. t \<in> set (waiting_threads (rl_heap m a)) \<longleftrightarrow> blocked_at (st t) = Some a)) \<and>
      (\<forall>t k a. aims (st t) = Some (k, a) \<longrightarrow> rl_locks m k = Some a))"

lemma sys_ok_initial: "sys_ok initial"
  by (simp add: sys_ok_def initial_def new_manager_def users_def counted_def)

lemma sys_okD:
  assumes "sys_ok s"
  shows "finite {t. sys_st s t \<noteq> Idle}" and "ordered (sys_st s t)"
    and "rl_refcounts (sys_mgr s) k = counted (card (users (sys_st s) k))"
    and "rl_locks (sys_mgr s) k = None \<longleftrightarrow> rl_refcounts (sys_mgr s) k = None"
    and "rl_locks (sys_mgr s) k = Some a \<Longrightarrow> a < rl_next (sys_mgr s)"
    and "rl_locks (sys_mgr s) k = Some a \<Longrightarrow> fifo_ok (rl_heap (sys_mgr s) a)"
    and "rl_locks (sys_mgr s) k = Some a \<Longrightarrow> lk_count (rl_heap (sys_mgr s) a) \<le> 1"
    and "rl_locks (sys_mgr s) k = Some a \<Longrightarrow> rl_locks (sys_mgr s) k' = Some a \<Longrightarrow> k' = k"
    and "rl_locks (sys_mgr s) k = Some a \<Longrightarrow>
      lk_owner (rl_heap (sys_mgr s) a) = Some t \<longleftrightarrow> k \<in> held (sys_st s t)"
    and "rl_locks (sys_mgr s) k = Some a \<Longrightarrow>
      t \<in> set (waiting_threads (rl_heap (sys_mgr s) a)) \<longleftrightarrow> blocked_at (sys_st s t) = Some a"
    and "aims (sys_st s t) = Some (k, a) \<Longrightarrow> rl_locks (sys_mgr s) k = Some a"
  using assms unfolding sys_ok_def Let_def by blast+

lemma sys_okI:
  assumes "finite {t. sys_st s t \<noteq> Idle}" and "\<And>t. ordered (sys_st s t)"
    and "\<And>k. rl_refcounts (sys_mgr s) k = counted (card (users (sys_st s) k))"
    and "\<And>k. rl_locks (sys_mgr s) k = None \<longleftrightarrow> rl_refcounts (sys_mgr s) k = None"
    and "\<And>k a. rl_locks (sys_mgr s) k = Some a \<Longrightarrow> a < rl_next (sys_mgr s) \<and>
      fifo_ok (rl_heap (sys_mgr s) a) \<and> lk_count (rl_heap (sys_mgr s) a) \<le> 1"
    and "\<And>k k' a. rl_locks (sys_mgr s) k = Some a \<Longrightarrow> rl_locks (sys_mgr s) k' = Some a \<Longrightarrow> k' = k"
    and "\<And>k a t. rl_locks (sys_mgr s) k = Some a \<Longrightarrow>
      lk_owner (rl_heap (sys_mgr s) a) = Some t \<longleftrightarrow> k \<in> held (sys_st s t)"
    and "\<And>k a t. rl_locks (sys_mgr s) k = Some a \<Longrightarrow>
      t \<in> set (waiting_threads (rl_heap (sys_mgr s) a)) \<longleftrightarrow> blocked_at (sys_st s t) = Some a"
    and "\<And>t k a. aims (sys_st s t) = Some (k, a) \<Longrightarrow> rl_locks (sys_mgr s) k = Some a"
  shows "sys_ok s"
  unfolding sys_ok_def Let_def using assms by blast

lemma held_refs: "held x \<subseteq> refs x"
  by (cases x) auto

lemma blocked_aims: "blocked_at x = Some a \<Longrightarrow> \<exists>k. aims x = Some (k, a)"
  by (cases x) auto

lemma aims_refs: "aims x = Some (k, a) \<Longrightarrow> k \<in> refs x"
  by (cases x) auto

lemma users_update:
  "users (st(t := x)) k = (if k \<in> refs x then insert t (users st k) else users st k - {t})"
  by (auto simp: users_def)

lemma users_same: "refs x = refs (st t) \<Longrightarrow> users (st(t := x)) = users st"
  by (auto simp: users_def fun_eq_iff)

lemma finite_users: "finite {t. st t \<noteq> Idle} \<Longrightarrow> finite (users st k)"
  by (rule rev_finite_subset) (auto simp: users_def)

lemma finite_running: "finite {t. st t \<noteq> Idle} \<Longrightarrow> finite {u. (st(t := x)) u \<noteq> Idle}"
  by (rule rev_finite_subset [of "insert t {t. st t \<noteq> Idle}"]) auto

lemma counted_None [simp]: "counted n = None \<longleftrightarrow> n = 0"
  by (simp add: counted_def)

lemma goto_simps [simp]:
  "sys_mgr (goto t x m s) = m" "sys_st (goto t x m s) = (sys_st s)(t := x)"
  by (simp_all add: goto_def)

lemma goto_goto [simp]: "goto t x m (goto t y m' s) = goto t x m s"
  by (simp add: goto_def)

lemma set_lock_simps [simp]:
  "rl_locks (set_lock a l m) = rl_locks m" "rl_refcounts (set_lock a l m) = rl_refcounts m"
  "rl_next (set_lock a l m) = rl_next m" "rl_heap (set_lock a l m) = (rl_heap m)(a := l)"
  by (simp_all add: set_lock_def)

text \<open>A thread changes its place and one lock it refers to.\<close>

lemma lock_update:
  assumes ok: "sys_ok s" and lk: "rl_locks (sys_mgr s) k = Some a"
    and l: "fifo_ok l" "lk_count l \<le> 1"
    and own: "\<And>u. lk_owner l = Some u \<longleftrightarrow> k \<in> held (((sys_st s)(t := x)) u)"
    and que: "\<And>u. u \<in> set (waiting_threads l) \<longleftrightarrow> blocked_at (((sys_st s)(t := x)) u) = Some a"
    and frame: "\<And>k'. k' \<noteq> k \<Longrightarrow> k' \<in> held x \<longleftrightarrow> k' \<in> held (sys_st s t)"
      "\<And>a'. a' \<noteq> a \<Longrightarrow> blocked_at x = Some a' \<longleftrightarrow> blocked_at (sys_st s t) = Some a'"
    and x: "refs x = refs (sys_st s t)" "aims x = None \<or> aims x = Some (k, a)" "ordered x"
  shows "sys_ok (goto t x (set_lock a l (sys_mgr s)) s)"
proof (rule sys_okI)
  note D = sys_okD [OF ok]
  let ?s = "goto t x (set_lock a l (sys_mgr s)) s"
  show "finite {u. sys_st ?s u \<noteq> Idle}" using finite_running [OF D(1)] by simp
  show "ordered (sys_st ?s u)" for u using D(2) x(3) by simp
  show "rl_refcounts (sys_mgr ?s) k' = counted (card (users (sys_st ?s) k'))" for k'
    using D(3) users_same [of x "sys_st s" t] x(1) by simp
  show "rl_locks (sys_mgr ?s) k' = None \<longleftrightarrow> rl_refcounts (sys_mgr ?s) k' = None" for k'
    using D(4) by simp
  show "a' < rl_next (sys_mgr ?s) \<and> fifo_ok (rl_heap (sys_mgr ?s) a') \<and> lk_count (rl_heap (sys_mgr ?s) a') \<le> 1"
    if "rl_locks (sys_mgr ?s) k' = Some a'" for k' a'
    using D(5-7) that l by auto
  show "k'' = k'" if "rl_locks (sys_mgr ?s) k' = Some a'" "rl_locks (sys_mgr ?s) k'' = Some a'" for k' k'' a'
    using D(8) that by simp
  show "lk_owner (rl_heap (sys_mgr ?s) a') = Some u \<longleftrightarrow> k' \<in> held (sys_st ?s u)"
    if "rl_locks (sys_mgr ?s) k' = Some a'" for k' a' u
  proof (cases "a' = a")
    case True
    then have "k' = k" using D(8) [OF lk] that by simp
    then show ?thesis using own True by simp
  next
    case False
    then have "k' \<noteq> k" using that lk by auto
    then show ?thesis using D(9) that False frame(1) by auto
  qed
  show "u \<in> set (waiting_threads (rl_heap (sys_mgr ?s) a')) \<longleftrightarrow> blocked_at (sys_st ?s u) = Some a'"
    if "rl_locks (sys_mgr ?s) k' = Some a'" for k' a' u
    using D(10) that que frame(2) by (cases "a' = a") auto
  show "rl_locks (sys_mgr ?s) k' = Some a'" if "aims (sys_st ?s u) = Some (k', a')" for u k' a'
    using D(11) that x(2) lk by (auto split: if_splits)
qed

section \<open>What the fair lock answers\<close>

lemma waiting_pass_cases:
  assumes ok: "fifo_ok l" and w: "w \<in> set (lk_waiters l)"
    and p: "waiting_pass (w_ticket w) (w_thread w) expired l = (r, l')"
  shows "r = Acquired \<and> lk_owner l = None \<and> lk_owner l' = Some (w_thread w) \<and> lk_count l' = 1 \<and>
      set (waiting_threads l') = set (waiting_threads l) - {w_thread w} \<or>
    r = Waiting \<and> lk_owner l' = lk_owner l \<and> lk_count l' = lk_count l \<and>
      set (waiting_threads l') = set (waiting_threads l) \<or>
    r = TimedOut \<and> lk_owner l' = lk_owner l \<and> lk_count l' = lk_count l \<and>
      set (waiting_threads l') = set (waiting_threads l) - {w_thread w}"
proof -
  note I = fifo_okD [OF ok]
  obtain h ws where q: "lk_waiters l = h # ws" using w by (cases "lk_waiters l") auto
  have inj: "x = w" if "x \<in> set (lk_waiters l)" "w_ticket x = w_ticket w \<or> w_thread x = w_thread w" for x
    using that ticket_inj [OF I(4) that(1) w] I(2) w by (auto simp: distinct_map dest: inj_onD)
  have rest: "set (map w_thread (filter (\<lambda>x. w_ticket x \<noteq> w_ticket w) (lk_waiters l))) =
      set (waiting_threads l) - {w_thread w}"
    using inj by fastforce
  consider (get) "w_ticket h = w_ticket w" "lk_owner l = None"
    | (expire) "w_ticket h \<noteq> w_ticket w \<or> lk_owner l \<noteq> None" "expired"
    | (wait) "w_ticket h \<noteq> w_ticket w \<or> lk_owner l \<noteq> None" "\<not> expired" by blast
  then show ?thesis
  proof cases
    case get
    have "h = w" using inj [of h] get(1) q by simp
    moreover have "w_thread h \<notin> set (map w_thread ws)" using I(2) q by auto
    ultimately show ?thesis using p q get by (auto simp: waiting_pass_def)
  next
    case expire
    then have "l' = l\<lparr>lk_waiters := filter (\<lambda>x. w_ticket x \<noteq> w_ticket w) (lk_waiters l)\<rparr>" "r = TimedOut"
      using p q by (auto simp: waiting_pass_def)
    then show ?thesis using rest by simp
  next
    case wait
    then have "l' = l\<lparr>lk_waiters := map (clear_signal (w_ticket w)) (lk_waiters l)\<rparr>" "r = Waiting"
      using p q by (auto simp: waiting_pass_def)
    then show ?thesis by (auto simp: image_iff)
  qed
qed

lemma acquire_cases:
  assumes ok: "fifo_ok l" and t: "t \<notin> set (waiting_threads l)" "lk_owner l \<noteq> Some t"
    and a: "acquire t True expired l = (r, l')"
  shows "r = Acquired \<and> lk_owner l = None \<and> lk_owner l' = Some t \<and> lk_count l' = 1 \<and>
      set (waiting_threads l') = set (waiting_threads l) \<or>
    r = Waiting \<and> lk_owner l' = lk_owner l \<and> lk_count l' = lk_count l \<and>
      set (waiting_threads l') = insert t (set (waiting_threads l)) \<or>
    r = TimedOut \<and> lk_owner l' = lk_owner l \<and> lk_count l' = lk_count l \<and>
      set (waiting_threads l') = set (waiting_threads l)"
proof (cases "lk_owner l = None \<and> lk_waiters l = []")
  case True
  then show ?thesis using a by (auto simp: acquire_def)
next
  case False
  let ?me = "\<lparr>w_ticket = lk_next l, w_thread = t, w_signalled = False\<rparr>"
  let ?l = "l\<lparr>lk_waiters := lk_waiters l @ [?me], lk_next := Suc (lk_next l)\<rparr>"
  have "fifo_ok ?l"
    using ok t False by (auto simp: fifo_ok_def sorted_wrt_append hd_append less_Suc_eq)
  moreover have "waiting_pass (w_ticket ?me) (w_thread ?me) expired ?l = (r, l')"
    using a t False by (auto simp: acquire_def Let_def)
  moreover have "?me \<in> set (lk_waiters ?l)" by simp
  ultimately have "r = Acquired \<and> lk_owner ?l = None \<and> lk_owner l' = Some t \<and> lk_count l' = 1 \<and>
      set (waiting_threads l') = set (waiting_threads ?l) - {t} \<or>
    r = Waiting \<and> lk_owner l' = lk_owner ?l \<and> lk_count l' = lk_count ?l \<and>
      set (waiting_threads l') = set (waiting_threads ?l) \<or>
    r = TimedOut \<and> lk_owner l' = lk_owner ?l \<and> lk_count l' = lk_count ?l \<and>
      set (waiting_threads l') = set (waiting_threads ?l) - {t}"
    using waiting_pass_cases [of ?l ?me expired r l'] by simp
  then show ?thesis using t(1) by auto
qed

section \<open>Every step keeps the invariant\<close>

lemma next_status_simps:
  "held (next_status acq ks) = set acq" "refs (next_status acq ks) = set acq"
  "aims (next_status acq ks) = None" "blocked_at (next_status acq ks) = None"
  "ordered (next_status acq ks) \<longleftrightarrow> sorted_wrt (<) (acq @ ks)"
  by (cases ks; simp add: next_status_def)+

lemma answered_step:
  assumes ok: "sys_ok s" and st: "sys_st s t = Entering acq k a ks \<or> sys_st s t = Blocked acq k a ks"
    and l: "fifo_ok l" and count: "lk_count l \<le> 1"
    and r: "r = Acquired \<and> lk_owner l = Some t \<and> lk_owner (rl_heap (sys_mgr s) a) = None \<and>
        set (waiting_threads l) = set (waiting_threads (rl_heap (sys_mgr s) a)) - {t} \<or>
      r = Waiting \<and> lk_owner l = lk_owner (rl_heap (sys_mgr s) a) \<and>
        set (waiting_threads l) = insert t (set (waiting_threads (rl_heap (sys_mgr s) a))) \<or>
      r = TimedOut \<and> lk_owner l = lk_owner (rl_heap (sys_mgr s) a) \<and>
        set (waiting_threads l) = set (waiting_threads (rl_heap (sys_mgr s) a)) - {t}"
  shows "sys_ok (goto t (answered r acq k a ks) (set_lock a l (sys_mgr s)) s)"
proof -
  note D = sys_okD [OF ok]
  have lk: "rl_locks (sys_mgr s) k = Some a" using st D(11) [of t] by auto
  have srt: "sorted_wrt (<) (acq @ k # ks)" using D(2) [of t] st by auto
  have kacq: "k \<notin> set acq" using srt by (auto simp: sorted_wrt_append)
  have own: "lk_owner (rl_heap (sys_mgr s) a) = Some u \<longleftrightarrow> k \<in> held (sys_st s u)" for u by (rule D(9) [OF lk])
  have que: "u \<in> set (waiting_threads (rl_heap (sys_mgr s) a)) \<longleftrightarrow> blocked_at (sys_st s u) = Some a" for u
    by (rule D(10) [OF lk])
  have no_self: "k \<notin> held (sys_st s t)" using st kacq by auto
  show ?thesis
  proof (rule lock_update [OF ok lk l count])
    fix u
    show "lk_owner l = Some u \<longleftrightarrow> k \<in> held (((sys_st s)(t := answered r acq k a ks)) u)"
      using r own [of u] own [of t] no_self kacq by (auto simp: answered_def next_status_simps)
    show "u \<in> set (waiting_threads l) \<longleftrightarrow>
        blocked_at (((sys_st s)(t := answered r acq k a ks)) u) = Some a"
      using r que [of u] by (auto simp: answered_def next_status_simps)
  next
    fix k' assume "k' \<noteq> k"
    then show "k' \<in> held (answered r acq k a ks) \<longleftrightarrow> k' \<in> held (sys_st s t)"
      using r st by (auto simp: answered_def next_status_simps)
  next
    fix a' assume "a' \<noteq> a"
    then show "blocked_at (answered r acq k a ks) = Some a' \<longleftrightarrow> blocked_at (sys_st s t) = Some a'"
      using r st by (auto simp: answered_def next_status_simps)
  next
    show "refs (answered r acq k a ks) = refs (sys_st s t)"
      using r st by (auto simp: answered_def next_status_simps)
    show "aims (answered r acq k a ks) = None \<or> aims (answered r acq k a ks) = Some (k, a)"
      using r by (auto simp: answered_def next_status_simps)
    show "ordered (answered r acq k a ks)"
      using r srt by (auto simp: answered_def next_status_simps sorted_wrt_append)
  qed
qed

lemma place_update:
  assumes ok: "sys_ok s" and x: "refs x = refs (sys_st s t)" "held x = held (sys_st s t)"
    "blocked_at x = blocked_at (sys_st s t)" "aims x = None" "ordered x"
  shows "sys_ok (goto t x (sys_mgr s) s)"
proof (rule sys_okI)
  note D = sys_okD [OF ok]
  let ?s = "goto t x (sys_mgr s) s"
  show "finite {u. sys_st ?s u \<noteq> Idle}" using finite_running [OF D(1)] by simp
  show "rl_refcounts (sys_mgr ?s) k' = counted (card (users (sys_st ?s) k'))" for k'
    using D(3) users_same [of x "sys_st s" t] x(1) by simp
  show "k'' = k'" if "rl_locks (sys_mgr ?s) k' = Some a'" "rl_locks (sys_mgr ?s) k'' = Some a'" for k' k'' a'
    using D(8) that by simp
  show "rl_locks (sys_mgr ?s) k' = Some a'" if "aims (sys_st ?s u) = Some (k', a')" for u k' a'
    using D(11) that x(4) by (auto split: if_splits)
qed (use sys_okD [OF ok] x in auto)

lemma get_step:
  assumes ok: "sys_ok s" and st: "sys_st s t = Getting acq k ks"
    and g: "get_lock k (sys_mgr s) = (a, m)"
  shows "sys_ok (goto t (Entering acq k a ks) m s)"
proof -
  note D = sys_okD [OF ok]
  let ?st = "(sys_st s)(t := Entering acq k a ks)"
  have srt: "sorted_wrt (<) (acq @ k # ks)" using D(2) [of t] st by simp
  have tk: "t \<notin> users (sys_st s) k" using srt st by (auto simp: users_def sorted_wrt_append)
  have us: "users ?st k' = (if k' = k then insert t (users (sys_st s) k) else users (sys_st s) k')" for k'
    using st by (auto simp: users_def)
  have refs': "rl_refcounts m k' = counted (card (users ?st k'))" for k'
  proof (cases "k' = k")
    case True
    have "rl_refcounts m k = Some ((case rl_refcounts (sys_mgr s) k of None \<Rightarrow> 0 | Some n \<Rightarrow> n) + 1)"
      using g by (auto simp: get_lock_def Let_def split: option.splits prod.splits)
    moreover have "card (insert t (users (sys_st s) k)) = Suc (card (users (sys_st s) k))"
      using tk finite_users [OF D(1)] by simp
    ultimately show ?thesis using True us [of k] D(3) [of k] by (simp add: counted_def)
  next
    case False
    then have "rl_refcounts m k' = rl_refcounts (sys_mgr s) k'"
      using g by (auto simp: get_lock_def Let_def split: option.splits prod.splits)
    then show ?thesis using us [of k'] False D(3) [of k'] by simp
  qed
  have held': "held (?st u) = held (sys_st s u)" "blocked_at (?st u) = blocked_at (sys_st s u)" for u
    using st by auto
  have fresh: "lk_owner new_lock = None" "lk_waiters new_lock = []" "lk_count new_lock = 0"
    by (simp_all add: new_lock_def)
  show ?thesis
  proof (cases "rl_locks (sys_mgr s) k")
    case (Some b)
    then have m: "a = b" "rl_locks m = rl_locks (sys_mgr s)" "rl_heap m = rl_heap (sys_mgr s)"
      "rl_next m = rl_next (sys_mgr s)"
      using g by (auto simp: get_lock_def Let_def)
    have none: "rl_locks m k' = None \<longleftrightarrow> rl_refcounts m k' = None" for k'
      using refs' [of k'] us [of k'] D(3,4) [of k'] Some m(2) finite_users [OF D(1)]
      by (cases "k' = k") (auto simp: card_gt_0_iff)
    have aim: "rl_locks m k' = Some a'" if "aims (?st u) = Some (k', a')" for u k' a'
      using that D(11) [of u] m(1,2) Some by (auto split: if_splits)
    show ?thesis
    proof (rule sys_okI, unfold goto_simps held' m(2-4))
      show "finite {u. ?st u \<noteq> Idle}" by (rule finite_running [OF D(1)])
      show "ordered (?st u)" for u using D(2) [of u] srt by simp
      show "rl_refcounts m k' = counted (card (users ?st k'))" for k' by (rule refs')
      show "rl_locks (sys_mgr s) k' = None \<longleftrightarrow> rl_refcounts m k' = None" for k'
        using none m(2) by simp
      show "rl_locks (sys_mgr s) k' = Some a'" if "aims (?st u) = Some (k', a')" for u k' a'
        using aim [OF that] m(2) by simp
    qed (use D(5-10) in blast)+
  next
    case None
    then have m: "a = rl_next (sys_mgr s)" "rl_locks m = (rl_locks (sys_mgr s))(k \<mapsto> a)"
      "rl_heap m = (rl_heap (sys_mgr s))(a := new_lock)" "rl_next m = Suc a"
      using g by (auto simp: get_lock_def Let_def)
    have old: "a' < a" if "rl_locks (sys_mgr s) k' = Some a'" for k' a' using D(5) that m(1) by simp
    have nobody: "k \<notin> refs (sys_st s u)" for u
      using None D(3,4) [of k] finite_users [OF D(1), of k] by (auto simp: users_def)
    have unheld: "k \<notin> held (sys_st s u)" for u using nobody [of u] held_refs [of "sys_st s u"] by blast
    have unblocked: "blocked_at (sys_st s u) \<noteq> Some a" for u
    proof
      assume "blocked_at (sys_st s u) = Some a"
      then obtain k' where "aims (sys_st s u) = Some (k', a)" using blocked_aims by blast
      then show False using D(11) [of u] old by blast
    qed
    have none: "rl_locks m k' = None \<longleftrightarrow> rl_refcounts m k' = None" for k'
      using refs' [of k'] us [of k'] D(3,4) [of k'] m(2) finite_users [OF D(1)]
      by (cases "k' = k") (auto simp: card_gt_0_iff)
    show ?thesis
    proof (rule sys_okI, unfold goto_simps held')
      show "finite {u. ?st u \<noteq> Idle}" by (rule finite_running [OF D(1)])
      show "ordered (?st u)" for u using D(2) [of u] srt by simp
      show "rl_refcounts m k' = counted (card (users ?st k'))" for k' by (rule refs')
      show "rl_locks m k' = None \<longleftrightarrow> rl_refcounts m k' = None" for k' by (rule none)
      show "rl_locks m k' = Some a'" if "aims (?st u) = Some (k', a')" for u k' a'
        using that D(11) [of u] m(2) None by (auto split: if_splits)
      fix k' a' assume lk: "rl_locks m k' = Some a'"
      have one: "k' = k \<and> a' = a \<or> k' \<noteq> k \<and> a' \<noteq> a \<and> rl_locks (sys_mgr s) k' = Some a'"
        using lk m(2) old [of k' a'] by (auto split: if_splits)
      show "a' < rl_next m \<and> fifo_ok (rl_heap m a') \<and> lk_count (rl_heap m a') \<le> 1"
        using one m(3,4) fresh D(6,7) [of k' a'] old [of k' a'] by auto
      show "lk_owner (rl_heap m a') = Some u \<longleftrightarrow> k' \<in> held (sys_st s u)" for u
        using one m(3) fresh D(9) [of k' a' u] unheld by auto
      show "u \<in> set (waiting_threads (rl_heap m a')) \<longleftrightarrow> blocked_at (sys_st s u) = Some a'" for u
        using one m(3) fresh D(10) [of k' a' u] unblocked by auto
      show "k'' = k'" if "rl_locks m k'' = Some a'" for k''
        using that one m(2) old [of k'' a'] D(8) [of k' a' k''] by (auto split: if_splits)
    qed
  qed
qed

lemma drop_step:
  assumes ok: "sys_ok s" and st: "sys_st s t = Undoing acq k"
  shows "\<exists>m. drop_ref k (sys_mgr s) = Inr m \<and> sys_ok (goto t (Releasing (rev acq)) m s)"
proof -
  note D = sys_okD [OF ok]
  let ?st = "(sys_st s)(t := Releasing (rev acq))" and ?n = "card (users (sys_st s) k)"
  have srt: "sorted_wrt (<) (acq @ [k])" using D(2) [of t] st by simp
  have kacq: "k \<notin> set acq" using srt by (auto simp: sorted_wrt_append)
  have tk: "t \<in> users (sys_st s) k" using st by (simp add: users_def)
  have us: "users ?st k' = (if k' = k then users (sys_st s) k - {t} else users (sys_st s) k')" for k'
    using st kacq by (auto simp: users_def)
  have pos: "0 < ?n" using tk finite_users [OF D(1)] card_gt_0_iff by blast
  then have n: "rl_refcounts (sys_mgr s) k = Some (int ?n)" using D(3) by (simp add: counted_def)
  have less: "card (users ?st k) = ?n - 1" using us [of k] tk by (simp add: card_Diff_singleton)
  have held': "held (?st u) = held (sys_st s u)" "blocked_at (?st u) = blocked_at (sys_st s u)" for u
    using st by auto
  have srt': "sorted_wrt (>) (rev acq)" using srt by (simp add: sorted_wrt_append sorted_wrt_rev)
  show ?thesis
  proof (cases "?n = 1")
    case True
    then have only: "users (sys_st s) k = {t}" using tk by (auto simp: card_Suc_eq One_nat_def)
    obtain a where a: "rl_locks (sys_mgr s) k = Some a" using D(4) [of k] n by auto
    have "k \<notin> held (sys_st s u)" for u
      using only st kacq held_refs [of "sys_st s u"] by (cases "u = t") (auto simp: users_def)
    then have "\<not> locked (rl_heap (sys_mgr s) a)" using D(9) [OF a] by (auto simp: locked_def)
    then have dr: "drop_ref k (sys_mgr s) = Inr ((sys_mgr s)\<lparr>rl_locks := (rl_locks (sys_mgr s))(k := None),
        rl_refcounts := (rl_refcounts (sys_mgr s))(k := None)\<rparr>)" (is "_ = Inr ?m")
      using n a True by (simp add: drop_ref_def)
    have aim: "rl_locks ?m k' = Some a'" if "aims (?st u) = Some (k', a')" for u k' a'
    proof -
      have "u \<noteq> t" "aims (sys_st s u) = Some (k', a')" using that by (auto split: if_splits)
      moreover then have "k' \<noteq> k" using aims_refs only by (fastforce simp: users_def)
      ultimately show ?thesis using D(11) by simp
    qed
    have none: "card (users ?st k) = 0" using less True by simp
    have others: "users ?st k' = users (sys_st s) k'" if "k' \<noteq> k" for k' using us [of k'] that by simp
    have "sys_ok (goto t (Releasing (rev acq)) ?m s)"
      using D held' none others srt' finite_running [OF D(1)] aim
      by (intro sys_okI) (auto simp: counted_def split: if_splits)
    with dr show ?thesis by blast
  next
    case False
    let ?m = "(sys_mgr s)\<lparr>rl_refcounts := (rl_refcounts (sys_mgr s))(k \<mapsto> int ?n - 1)\<rparr>"
    have dr: "drop_ref k (sys_mgr s) = Inr ?m" using n False pos by (simp add: drop_ref_def)
    have cnt: "rl_refcounts ?m k' = counted (card (users ?st k'))" for k'
      using less us [of k'] D(3) [of k'] False pos by (auto simp: counted_def of_nat_diff)
    have none: "rl_locks ?m k' = None \<longleftrightarrow> rl_refcounts ?m k' = None" for k'
      using D(4) [of k'] n by auto
    have aim: "rl_locks ?m k' = Some a'" if "aims (?st u) = Some (k', a')" for u k' a'
      using that D(11) [of u] by (auto split: if_splits)
    have "sys_ok (goto t (Releasing (rev acq)) ?m s)"
      using D held' cnt none srt' finite_running [OF D(1)] aim by (intro sys_okI) auto
    with dr show ?thesis by blast
  qed
qed

lemma release_step:
  assumes ok: "sys_ok s" and st: "sys_st s t = Releasing (k # ks)"
  shows "\<exists>m. release_lock t k (sys_mgr s) = Inr m \<and> sys_ok (goto t (Releasing ks) m s)"
proof -
  note D = sys_okD [OF ok]
  have srt: "sorted_wrt (>) (k # ks)" using D(2) [of t] st by simp
  then have kks: "k \<notin> set ks" by auto
  have "t \<in> users (sys_st s) k" using st by (simp add: users_def)
  then have "rl_refcounts (sys_mgr s) k \<noteq> None"
    using D(3) [of k] finite_users [OF D(1), of k] by (auto simp: counted_def)
  then obtain a where lk: "rl_locks (sys_mgr s) k = Some a" using D(4) [of k] by auto
  let ?l = "rl_heap (sys_mgr s) a"
  have own: "lk_owner ?l = Some t" using D(9) [OF lk] st by simp
  have one: "lk_count ?l = 1" using fifo_okD(1) [OF D(6) [OF lk]] D(7) [OF lk] own by simp
  let ?l' = "notify_first (?l\<lparr>lk_count := 0, lk_owner := None\<rparr>)"
  have rel: "release t ?l = Inr ?l'" using own one by (simp add: release_def)
  let ?s = "goto t (Undoing (rev ks) k) (set_lock a ?l' (sys_mgr s)) s"
  have only: "k \<in> held (sys_st s u) \<longleftrightarrow> u = t" for u using D(9) [OF lk, of u] own by auto
  have "sys_ok ?s"
  proof (rule lock_update [OF ok lk notify_ok [OF D(6) [OF lk]]])
    show "lk_owner ?l' = Some u \<longleftrightarrow> k \<in> held (((sys_st s)(t := Undoing (rev ks) k)) u)" for u
      using only [of u] kks by auto
    show "u \<in> set (waiting_threads ?l') \<longleftrightarrow>
        blocked_at (((sys_st s)(t := Undoing (rev ks) k)) u) = Some a" for u
      using D(10) [OF lk, of u] st by (auto simp del: set_map)
    show "ordered (Undoing (rev ks) k)" using srt by (simp add: sorted_wrt_append sorted_wrt_rev)
  qed (use st in auto)
  from drop_step [OF this, of t "rev ks" k] obtain m where
    "drop_ref k (set_lock a ?l' (sys_mgr s)) = Inr m" "sys_ok (goto t (Releasing ks) m ?s)" by auto
  then show ?thesis using lk rel by (auto simp: release_lock_def set_lock_def)
qed

lemma sorted_keys: "sorted_wrt (<) (sort (remdups keys))" for keys :: "string list"
  by (metis distinct_remdups distinct_sort sorted_sort strict_sorted_iff)

lemma lock_call_ok: "lock_call s t expired s' \<Longrightarrow> sys_ok s \<Longrightarrow> sys_ok s'"
proof (induction rule: lock_call.induct)
  case (call_start s t expired keys)
  then show ?case
    by (intro place_update) (auto simp: next_status_simps sorted_keys)
next
  case (call_enter s t acq k a ks expired r l)
  note D = sys_okD [OF call_enter.prems]
  have lk: "rl_locks (sys_mgr s) k = Some a" using D(11) [of t] call_enter.hyps(1) by simp
  have kacq: "k \<notin> set acq" using D(2) [of t] call_enter.hyps(1) by (auto simp: sorted_wrt_append)
  have t: "t \<notin> set (waiting_threads (rl_heap (sys_mgr s) a))" "lk_owner (rl_heap (sys_mgr s) a) \<noteq> Some t"
    using D(9,10) [OF lk, of t] call_enter.hyps(1) kacq by auto
  note A = acquire_cases [OF D(6) [OF lk] t call_enter.hyps(2)]
  show ?case
    by (rule answered_step [OF call_enter.prems _ acquire_ok [OF D(6) [OF lk] t(1) call_enter.hyps(2)]])
      (use call_enter.hyps(1) A D(7) [OF lk] t(1) in auto)
next
  case (call_wake s t acq k a ks w expired r l)
  note D = sys_okD [OF call_wake.prems]
  have lk: "rl_locks (sys_mgr s) k = Some a" using D(11) [of t] call_wake.hyps(1) by simp
  have p: "waiting_pass (w_ticket w) (w_thread w) expired (rl_heap (sys_mgr s) a) = (r, l)"
    using call_wake.hyps(4) by (simp add: wake_up_def)
  note W = waiting_pass_cases [OF D(6) [OF lk] call_wake.hyps(2) p]
  show ?case
    by (rule answered_step [OF call_wake.prems _ waiting_pass_ok [OF D(6) [OF lk] call_wake.hyps(2) p]])
      (use call_wake.hyps W D(7) [OF lk] in auto)
next
  case (call_undo s t acq k m expired)
  then show ?case using drop_step by fastforce
next
  case (call_release s t k ks m expired)
  then show ?case using release_step by fastforce
next
  case (call_done s t acq expired)
  then show ?case using sys_okD(2) [of s t]
    by (intro place_update) (auto simp: sorted_wrt_rev)
qed (auto intro: get_step place_update)

lemma reachable_ok: "reachable s \<Longrightarrow> sys_ok s"
  by (induction rule: reachable.induct) (auto intro: sys_ok_initial lock_call_ok)

section \<open>Progress\<close>

lemma next_status_neq:
  "next_status acq ks \<noteq> Blocked acq' k a ks'" "next_status acq ks \<noteq> Entering acq' k a ks'"
  by (cases ks; simp add: next_status_def)+

lemma running_moves:
  assumes ok: "sys_ok s" and st: "sys_st s t \<noteq> Idle" "blocked_at (sys_st s t) = None"
  shows "\<exists>s'. lock_call s t False s' \<and> sys_st s' t \<noteq> sys_st s t"
proof (cases "sys_st s t")
  case (Getting acq k ks)
  then show ?thesis by (cases "get_lock k (sys_mgr s)") (auto dest: call_get [of s t acq k ks])
next
  case (Entering acq k a ks)
  obtain r l where "acquire t True False (rl_heap (sys_mgr s) a) = (r, l)" by fastforce
  with call_enter [OF Entering this] show ?thesis
    using Entering next_status_neq by (intro exI conjI) (auto simp: answered_def split: outcome.splits)
next
  case (Undoing acq k)
  then show ?thesis using drop_step [OF ok Undoing] by (auto dest: call_undo [OF Undoing])
next
  case (Holding acq)
  then show ?thesis using call_done [OF Holding] by fastforce
next
  case (Releasing ks)
  then show ?thesis
  proof (cases ks)
    case Nil
    with Releasing show ?thesis using call_return [of s t] by fastforce
  next
    case (Cons k ks')
    with Releasing have r: "sys_st s t = Releasing (k # ks')" by simp
    with release_step [OF ok r] show ?thesis by (auto dest: call_release [OF r])
  qed
qed (use st in auto)

fun wanted :: "status \<Rightarrow> string" where
  "wanted (Blocked acq k a ks) = k"
| "wanted _ = []"

lemma some_thread_moves:
  assumes ok: "sys_ok s" and t: "sys_st s t \<noteq> Idle"
  shows "\<exists>t' s'. sys_st s t' \<noteq> Idle \<and> lock_call s t' False s' \<and> sys_st s' t' \<noteq> sys_st s t'"
proof (cases "\<exists>t'. sys_st s t' \<noteq> Idle \<and> blocked_at (sys_st s t') = None")
  case True
  then show ?thesis using running_moves [OF ok] by blast
next
  case False
  note D = sys_okD [OF ok]
  let ?B = "{t. sys_st s t \<noteq> Idle}" and ?w = "\<lambda>t. wanted (sys_st s t)"
  have fin: "finite (?w ` ?B)" and ne: "?w ` ?B \<noteq> {}" using D(1) t by auto
  obtain u where u0: "Max (?w ` ?B) = ?w u" "u \<in> ?B" using Max_in [OF fin ne] by (rule imageE)
  have "?w v \<le> ?w u" if "v \<in> ?B" for v
    using Max_ge [OF fin imageI [OF that]] u0(1) by simp
  note u = u0(2) this
  have stuck: "\<exists>acq k a ks. sys_st s v = Blocked acq k a ks" if "v \<in> ?B" for v
  proof -
    have "blocked_at (sys_st s v) \<noteq> None" using False that by auto
    then show ?thesis by (cases "sys_st s v") auto
  qed
  obtain acq k a ks where su: "sys_st s u = Blocked acq k a ks" using stuck [OF u(1)] by blast
  have lk: "rl_locks (sys_mgr s) k = Some a" using D(11) [of u] su by simp
  let ?l = "rl_heap (sys_mgr s) a"
  have "lk_owner ?l = None"
  proof (rule ccontr)
    assume "lk_owner ?l \<noteq> None"
    then obtain v where v: "k \<in> held (sys_st s v)" using D(9) [OF lk] by auto
    then have "v \<in> ?B" by auto
    then obtain acq' k' a' ks' where sv: "sys_st s v = Blocked acq' k' a' ks'" using stuck by blast
    then have "k < k'" using v D(2) [of v] by (auto simp: sorted_wrt_append)
    then show False using u(2) [OF \<open>v \<in> ?B\<close>] su sv by simp
  qed
  moreover have "u \<in> set (waiting_threads ?l)" using D(10) [OF lk] su by simp
  then obtain w ws where q: "lk_waiters ?l = w # ws" by (cases "lk_waiters ?l") auto
  ultimately obtain l where wake: "wake_up w False ?l = (Acquired, l)"
    by (simp add: wake_up_def waiting_pass_def)
  have "w_thread w \<in> set (waiting_threads ?l)" using q by simp
  then have "blocked_at (sys_st s (w_thread w)) = Some a" using D(10) [OF lk] by blast
  then obtain acq' k' ks' where sw: "sys_st s (w_thread w) = Blocked acq' k' a ks'"
    by (cases "sys_st s (w_thread w)") auto
  from call_wake [OF sw _ refl wake] q have "lock_call s (w_thread w) False
      (goto (w_thread w) (answered Acquired acq' k' a ks') (set_lock a l (sys_mgr s)) s)" by simp
  then show ?thesis using sw next_status_neq by (intro exI conjI) (auto simp: answered_def)
qed

section \<open>Properties\<close>

text \<open>
  C27. Mutual exclusion: whatever threads lock and in whatever interleaving, timeouts included, no two of
  them hold the same resource, although lock objects are created and dropped on the way.
\<close>

theorem resource_mutual_exclusion:
  assumes "reachable s" and "k \<in> held (sys_st s t)" and "k \<in> held (sys_st s t')"
  shows "t = t'"
proof -
  note D = sys_okD [OF reachable_ok [OF assms(1)]]
  have "t \<in> users (sys_st s) k" using assms(2) held_refs by (auto simp: users_def)
  then have "rl_refcounts (sys_mgr s) k \<noteq> None"
    using D(3) [of k] finite_users [OF D(1), of k] by (auto simp: counted_def)
  then obtain a where "rl_locks (sys_mgr s) k = Some a" using D(4) [of k] by auto
  with D(9) assms(2,3) show ?thesis by (metis option.inject)
qed

text \<open>One thread that has acquired one file.\<close>

lemma sample_holder:
  "\<exists>s. reachable s \<and> sys_st s 7 = Holding [''file:a'']"
proof -
  have one: "next_status [] (sort (remdups [''file:a''])) = Getting [] ''file:a'' []"
    by (simp add: next_status_def)
  let ?s1 = "goto 7 (Getting [] ''file:a'' []) (sys_mgr initial) initial"
  have "lock_call initial 7 False ?s1"
    using call_start [of initial 7 False "[''file:a'']"] one by (simp add: initial_def)
  then have r1: "reachable ?s1" using reach_step [OF reach_initial] by blast
  obtain a m where g: "get_lock ''file:a'' (sys_mgr ?s1) = (a, m)" by fastforce
  have a: "rl_heap m a = new_lock"
    using g by (simp add: get_lock_def initial_def new_manager_def) auto
  let ?s2 = "goto 7 (Entering [] ''file:a'' a []) m ?s1"
  have r2: "reachable ?s2"
    by (rule reach_step [OF r1 call_get [OF _ g, of 7 "[]" "[]" False]]) simp
  obtain l where l: "acquire 7 True False new_lock = (Acquired, l)"
    by (simp add: acquire_def new_lock_def)
  have "lock_call ?s2 7 False (goto 7 (answered Acquired [] ''file:a'' a []) (set_lock a l m) ?s2)"
    using call_enter [of ?s2 7 "[]" "''file:a''" a "[]" False Acquired l] a l by simp
  from reach_step [OF r2 this] show ?thesis
    by (intro exI conjI) (auto simp: answered_def next_status_def)
qed

theorem resource_mutual_exclusion_witness:
  "\<exists>s. reachable s \<and> (\<forall>t. ''file:a'' \<in> held (sys_st s t) \<longrightarrow> t = 7)"
proof -
  obtain s where s: "reachable s" "sys_st s 7 = Holding [''file:a'']" using sample_holder by blast
  then have "t = 7" if "''file:a'' \<in> held (sys_st s t)" for t
    using resource_mutual_exclusion [OF s(1) that, of 7] by simp
  with s(1) show ?thesis by blast
qed

text \<open>
  C29. No deadlock: as long as some thread is inside \<open>lock\<close>, some thread inside it can take a step that
  brings it further without any timeout running out.
\<close>

theorem resource_no_deadlock:
  assumes "reachable s" and "sys_st s t \<noteq> Idle"
  shows "\<exists>t' s'. sys_st s t' \<noteq> Idle \<and> lock_call s t' False s' \<and> sys_st s' t' \<noteq> sys_st s t'"
  by (rule some_thread_moves [OF reachable_ok [OF assms(1)] assms(2)])

theorem resource_no_deadlock_witness:
  "\<exists>s t' s'. reachable s \<and> sys_st s t' \<noteq> Idle \<and> lock_call s t' False s' \<and> sys_st s' t' \<noteq> sys_st s t'"
proof -
  obtain s where s: "reachable s" "sys_st s 7 = Holding [''file:a'']" using sample_holder by blast
  then have "sys_st s 7 \<noteq> Idle" by simp
  from resource_no_deadlock [OF s(1) this] s(1) show ?thesis by blast
qed

text \<open>
  No leak: the manager keeps a lock and a reference count for a resource exactly as long as some
  thread holds it or tries to get it, so when all threads are out nothing is left.
\<close>

theorem resource_locks_cleaned_up:
  assumes "reachable s"
  shows "(rl_locks (sys_mgr s) k = None \<longleftrightarrow> (\<forall>t. k \<notin> refs (sys_st s t))) \<and>
    rl_refcounts (sys_mgr s) k = counted (card {t. k \<in> refs (sys_st s t)})"
proof -
  note D = sys_okD [OF reachable_ok [OF assms]]
  show ?thesis using D(3,4) [of k] finite_users [OF D(1), of k] by (auto simp: users_def)
qed

theorem resource_locks_cleaned_up_witness:
  "rl_locks (sys_mgr initial) ''file:a'' = None"
  using resource_locks_cleaned_up [OF reach_initial, of "''file:a''"] by (simp add: initial_def)

end
