(* ===== verification/Local_Event_Log.thy ===== *)
theory Local_Event_Log
  imports File_Store_Laws Samples
begin

text \<open>
  The event log on the local file store: what the two components promise together. The hypotheses
  on the store are those of \<open>local_directory\<close>, and the JSON codec is assumed to read back the
  events in question.
\<close>

definition reads_back :: "event_codec \<Rightarrow> event set \<Rightarrow> bool" where
  "reads_back codec E \<longleftrightarrow>
     (\<forall>e \<in> E. dump_json codec e \<noteq> [] \<and> validate_json codec (dump_json codec e) = Inr e)"

lemma reads_backD:
  "reads_back codec E \<Longrightarrow> e \<in> E \<Longrightarrow>
     dump_json codec e \<noteq> [] \<and> validate_json codec (dump_json codec e) = Inr e"
  by (simp add: reads_back_def)

definition permutes_names :: "local_config \<Rightarrow> bool" where
  "permutes_names cfg \<longleftrightarrow> (\<forall>ns. mset (listdir cfg ns) = mset ns)"

context local_directory
begin

lemma is_event_directory:
  "event_directory (local_fs cfg) EVENTS_DIR (event_files cfg) (events_ok cfg)"
  by unfold_locales

end

lemma local_event_directory:
  assumes "evicts_lru (cache_config cfg)" and "permutes_names cfg"
  shows "event_directory (local_fs cfg) EVENTS_DIR (event_files cfg) (events_ok cfg)"
  using assms by (intro local_directory.is_event_directory local_directory.intro)
    (auto simp: permutes_names_def)

text \<open>The log a process holds and the directory, against the list of events they stand for.\<close>

definition log_sim ::
    "local_config \<Rightarrow> event_codec \<Rightarrow> local_store \<Rightarrow> event_log \<Rightarrow> event list \<Rightarrow> bool" where
  "log_sim cfg codec s log es \<longleftrightarrow>
     events_ok cfg s \<and> holds_events codec (event_files cfg s) es \<and> knows_prefix log es"

text \<open>The specification of \<open>append\<close>: a list with unique ids and known parents.\<close>

definition spec_append :: "event \<Rightarrow> event list \<Rightarrow> nat result \<times> event list" where
  "spec_append e es =
     (if ev_id e \<in> ev_id ` set es \<or>
         (case ev_parent_id e of
            None \<Rightarrow> False
          | Some p \<Rightarrow> p \<noteq> ROOT_PARENT_ID \<and> p \<notin> ev_id ` set es)
      then (Inl ValueError, es) else (Inr (length es), es @ [e]))"

section \<open>Properties\<close>

text \<open>
  The file name of an event determines its index and its id: the scanner's pattern reads back
  what the log wrote, for every index, also beyond the five padded digits.
\<close>

theorem event_file_name_roundtrip:
  assumes "valid_event_id i"
  shows "match_event_name (posix_path_name (path_in dir (event_file_name n i))) = Some (n, i)"
  using posix_path_name_in [OF plain_event_file_name [OF assms]] match_event_file_name [OF assms]
  by simp

theorem event_file_name_roundtrip_witness:
  "match_event_name (posix_path_name (path_in EVENTS_DIR (event_file_name 123456 ''0a1b2c3d'')))
     = Some (123456, ''0a1b2c3d'')"
  by (rule event_file_name_roundtrip) (simp add: valid_event_id_def is_id_char_def is_digit_def)

text \<open>
  A cache under least-recently-used eviction never raises on assignment, accounts exactly for the
  text it holds, respects both its limits, and holds the new text unless that alone is too large.
\<close>

theorem cache_bounded:
  assumes "cache_ok cfg c" and "evicts_lru cfg"
  shows "\<exists>c'. cache_setitem cfg k v c = Inr c' \<and> cache_ok cfg c' \<and>
    cached c' k = (if int (length v) \<le> max_memory cfg then Some v else cached c k)"
  using assms cache_setitem_lru [OF assms, of v k] by (cases "int (length v) \<le> max_memory cfg")
    (auto simp: cache_setitem_def Let_def)

definition tiny_cache :: "string cache_config" where
  "tiny_cache = \<lparr>max_memory = 5, max_entries = 2, evict = \<lambda>xs. fst (hd xs)\<rparr>"

theorem cache_bounded_witness:
  "\<exists>c'. cache_setitem tiny_cache ''b'' ''1234''
      \<lparr>entries = [(''a'', ''123'')], current_memory = 3\<rparr> = Inr c' \<and>
    cache_ok tiny_cache c' \<and> cached c' ''b'' = Some ''1234''"
  using cache_bounded [of tiny_cache "\<lparr>entries = [(''a'', ''123'')], current_memory = 3\<rparr>"
    "''b''" "''1234''"]
  by (simp add: tiny_cache_def cache_ok_def evicts_lru_def)

text \<open>
  The local store reads back what it wrote, from the cache or from the disk, and keeps its cache
  coherent with the disk, unless the write replaces a cached text by one too large to cache.
\<close>

theorem local_write_read:
  assumes "store_ok cfg s" and "evicts_lru (cache_config cfg)"
    and "lfs_write cfg path contents s = Inr s'" and "\<not> stale_write cfg path contents s"
  shows "fst (lfs_read cfg path s') = Inr contents \<and> store_ok cfg s'"
proof -
  have ok: "store_ok cfg s'" by (rule lfs_write_keeps [OF assms])
  obtain full where "get_full_path (root cfg) path = Inr full" "map_of (disk s') full = Some contents"
    by (rule lfs_write_cases [OF assms(3)]) (auto simp: update_conv')
  from lfs_read_keeps [OF ok assms(2) this] ok show ?thesis by auto
qed

definition tiny_config :: local_config where
  "tiny_config = \<lparr>root = [''r''], listdir = id,
     cache_config = \<lparr>max_memory = 5, max_entries = 2, evict = \<lambda>xs. fst (hd xs)\<rparr>\<rparr>"

lemma tiny_config_ok:
  "evicts_lru (cache_config tiny_config)" "permutes_names tiny_config"
  "events_ok tiny_config (lfs_init tiny_config)" "store_ok tiny_config (lfs_init tiny_config)"
  using lfs_init_ok(1) [of tiny_config]
  by (simp_all add: tiny_config_def evicts_lru_def permutes_names_def events_ok_def)

text \<open>A store with the text \<open>old\<close> in the file \<open>f\<close>, cached.\<close>

definition cached_store :: local_store where
  "cached_store = \<lparr>disk = [([''r'', ''f''], ''old'')], dirs = [[], [''r'']],
     file_cache = \<lparr>entries = [([''r'', ''f''], ''old'')], current_memory = 3\<rparr>\<rparr>"

lemma cached_store_path: "get_full_path (root tiny_config) ''f'' = Inr [''r'', ''f'']"
  by (simp add: tiny_config_def get_full_path_def to_posix_path_def slash_def)

theorem local_write_read_witness:
  "fst (lfs_read tiny_config ''f'' (projr (lfs_write tiny_config ''f'' ''new'' cached_store))) =
     Inr ''new''"
proof -
  have "store_ok tiny_config cached_store"
    by (simp add: store_ok_def cached_store_def tiny_config_def cache_ok_def coherent_def
        cached_def is_file_def map_le_def)
  moreover have "is_ok (lfs_write tiny_config ''f'' ''new'' cached_store)"
    "\<not> stale_write tiny_config ''f'' ''new'' cached_store"
    using cache_setitem_ok [of "cache_config tiny_config" "file_cache cached_store" "[''r'', ''f'']" "''new''"]
      \<open>store_ok tiny_config cached_store\<close> tiny_config_ok(1) cached_store_path
    by (auto simp: lfs_write_def makedirs_def ancestors_def is_file_def is_dir_def cached_store_def
        stale_write_def tiny_config_def store_ok_def upt_rec)
  ultimately show ?thesis
    using local_write_read [of tiny_config cached_store "''f''" "''new''"] tiny_config_ok(1)
    by (auto simp: is_ok_iff)
qed

text \<open>
  The cache goes stale: a text too large for the cache that replaces a cached one is written to the
  disk, but every later read of that path returns the old text.
\<close>

theorem oversize_write_reads_stale:
  assumes "get_full_path (root cfg) path = Inr full" and "cached (file_cache s) full = Some old"
    and "max_memory (cache_config cfg) < int (length contents)"
    and "lfs_write cfg path contents s = Inr s'"
  shows "map_of (disk s') full = Some contents \<and> fst (lfs_read cfg path s') = Inr old"
proof -
  obtain c where "disk s' = AList.update full contents (disk s)"
    "cache_setitem (cache_config cfg) full contents (file_cache s) = Inr c" "file_cache s' = c"
    by (rule lfs_write_cases [OF assms(4)]) (use assms(1) in auto)
  with assms show ?thesis by (simp add: cache_setitem_def update_conv' lfs_read_def)
qed

theorem oversize_write_reads_stale_witness:
  "fst (lfs_read tiny_config ''f'' (projr (lfs_write tiny_config ''f'' ''longer'' cached_store))) =
     Inr ''old''"
proof -
  have "is_ok (lfs_write tiny_config ''f'' ''longer'' cached_store)"
    using cached_store_path
    by (simp add: lfs_write_def makedirs_def ancestors_def is_file_def is_dir_def cached_store_def
        cache_setitem_def tiny_config_def upt_rec)
  then obtain s' where w: "lfs_write tiny_config ''f'' ''longer'' cached_store = Inr s'"
    by (auto simp: is_ok_iff)
  have "fst (lfs_read tiny_config ''f'' s') = Inr ''old''"
    using oversize_write_reads_stale [OF cached_store_path _ _ w, of "''old''"]
    by (simp add: cached_store_def tiny_config_def cached_def)
  with w show ?thesis by simp
qed

text \<open>
  The lexical sandbox: whatever path is given, with parent references, absolute or with backslashes, on a
  disk without symbolic links a write or delete leaves every file outside the root as it was.
\<close>

theorem local_store_sandboxed:
  assumes "\<not> below (root cfg) p"
  shows "(\<forall>s'. lfs_write cfg path contents s = Inr s' \<longrightarrow> map_of (disk s') p = map_of (disk s) p) \<and>
    (\<forall>s'. lfs_delete cfg path s = Inr s' \<longrightarrow> map_of (disk s') p = map_of (disk s) p)"
proof (intro conjI allI impI)
  fix s' assume "lfs_write cfg path contents s = Inr s'"
  then obtain full where "get_full_path (root cfg) path = Inr full"
    "disk s' = AList.update full contents (disk s)" by (rule lfs_write_cases) blast
  with get_full_path_below assms show "map_of (disk s') p = map_of (disk s) p"
    by (metis fun_upd_other update_conv')
next
  have out: "\<not> below full p" if "below (root cfg) full" for full
    using that assms by (auto simp: below_def) (metis append_take_drop_id append_eq_conv_conj
      append_assoc)
  have filt: "map_of (filter (\<lambda>(q, v). \<not> below full q) xs) p = map_of xs p"
    if "\<not> below full p" for full and xs :: "(full_path \<times> string) list"
    using that by (induction xs) auto
  fix s' assume d: "lfs_delete cfg path s = Inr s'"
  show "map_of (disk s') p = map_of (disk s) p"
  proof (cases "get_full_path (root cfg) path")
    case (Inl e)
    with d show ?thesis by (auto simp: lfs_delete_def)
  next
    case (Inr full)
    note b = get_full_path_below [OF Inr]
    then have "p \<noteq> full" using assms by auto
    with d Inr out [OF b] filt show ?thesis
      by (auto simp: lfs_delete_def delete_conv' split: if_splits)
  qed
qed

theorem local_store_sandboxed_witness:
  "\<not> below (root tiny_config) [''etc'', ''passwd''] \<and>
   map_of (disk (projr (lfs_delete tiny_config ''/etc/passwd''
     (cached_store\<lparr>disk := [([''etc'', ''passwd''], ''x'')]\<rparr>)))) [''etc'', ''passwd''] = Some ''x''"
proof -
  have out: "\<not> below (root tiny_config) [''etc'', ''passwd'']" by (simp add: tiny_config_def below_def)
  let ?s = "cached_store\<lparr>disk := [([''etc'', ''passwd''], ''x'')]\<rparr>"
  have "lfs_delete tiny_config ''/etc/passwd'' ?s = Inr (projr (lfs_delete tiny_config ''/etc/passwd'' ?s))"
    by (simp add: lfs_delete_def)
  with local_store_sandboxed [OF out] have
    "map_of (disk (projr (lfs_delete tiny_config ''/etc/passwd'' ?s))) [''etc'', ''passwd''] =
     map_of (disk ?s) [''etc'', ''passwd'']" by blast
  with out show ?thesis by simp
qed

text \<open>
  C2. Refinement: appending through any log, however stale, does what the specification does on the
  list of events, errors included, and keeps the log and the directory related to that list.
\<close>

theorem append_refines:
  assumes "evicts_lru (cache_config cfg)" and "permutes_names cfg"
    and "log_sim cfg codec s log es" and "valid_event_id (ev_id e)"
    and "append (local_fs cfg) codec EVENTS_DIR True None e log s = (r, log', s')"
  shows "r = fst (spec_append e es) \<and> log_sim cfg codec s' log' (snd (spec_append e es))"
proof -
  have sim: "events_ok cfg s" "holds_events codec (event_files cfg s) es" "knows_prefix log es"
    using assms(3) by (simp_all add: log_sim_def)
  note A = event_directory.append_current [OF local_event_directory [OF assms(1,2)] sim assms(4,5)]
  show ?thesis using A by (auto simp: spec_append_def log_sim_def split: option.splits if_splits)
qed

text \<open>A codec that reads back two given events.\<close>

definition pair_codec :: "event \<Rightarrow> event \<Rightarrow> event_codec" where
  "pair_codec a b =
     \<lparr>dump_json = ev_id,
      validate_json = \<lambda>txt. if txt = ev_id a then Inr a else if txt = ev_id b then Inr b else Inl ValueError\<rparr>"

definition first_event :: event where
  "first_event = sample_message ''aaaaaaaa'' SourceUser ''hi''"

definition second_event :: event where
  "second_event = sample_message ''bbbbbbbb'' SourceUser ''there''"

definition sample_codec :: event_codec where
  "sample_codec = pair_codec first_event second_event"

lemma sample_event_ids [simp]:
  "ev_id first_event = ''aaaaaaaa''" "ev_id second_event = ''bbbbbbbb''"
  "ev_parent_id first_event = None" "ev_parent_id second_event = None"
  "valid_event_id ''aaaaaaaa''" "valid_event_id ''bbbbbbbb''"
  by (simp_all add: first_event_def second_event_def sample_message_def sample_meta_def
      valid_event_id_def is_id_char_def is_digit_def)

lemma sample_reads_back: "reads_back sample_codec {first_event, second_event}"
  by (simp add: reads_back_def sample_codec_def pair_codec_def)

lemma empty_sim: "log_sim tiny_config codec (lfs_init tiny_config) empty_log []"
  using tiny_config_ok lfs_init_ok(2) [of tiny_config]
  by (simp add: log_sim_def knows_prefix_empty holds_events_def event_names_def tiny_config_def)

theorem append_refines_witness:
  "fst (append (local_fs tiny_config) sample_codec EVENTS_DIR True None first_event empty_log
     (lfs_init tiny_config)) = Inr 0"
proof -
  obtain r log' s' where a: "append (local_fs tiny_config) sample_codec EVENTS_DIR True None
      first_event empty_log (lfs_init tiny_config) = (r, log', s')"
    by (metis prod_cases3)
  from append_refines [OF tiny_config_ok(1,2) empty_sim _ a] a show ?thesis
    by (simp add: spec_append_def)
qed

text \<open>
  Every process has its own cache of file texts over the shared disk. Two views of a disk differ in the
  cache only; an append sees no difference, because it never reads a file: the marker is tested for
  existence and the events are counted by listing the directory.
\<close>

definition same_disk :: "local_config \<Rightarrow> local_store \<Rightarrow> local_store \<Rightarrow> bool" where
  "same_disk cfg s1 s2 \<longleftrightarrow> disk s1 = disk s2 \<and> dirs s1 = dirs s2 \<and>
     cache_ok (cache_config cfg) (file_cache s1) \<and> cache_ok (cache_config cfg) (file_cache s2)"

lemma same_diskD:
  assumes "same_disk cfg s1 s2"
  shows "is_file s1 = is_file s2" and "is_dir s1 = is_dir s2" and "disk s1 = disk s2" and "dirs s1 = dirs s2"
    and "lfs_exists cfg path s1 = lfs_exists cfg path s2" and "lfs_list cfg path s1 = lfs_list cfg path s2"
proof -
  show d: "disk s1 = disk s2" "dirs s1 = dirs s2" using assms by (simp_all add: same_disk_def)
  then show f: "is_file s1 = is_file s2" "is_dir s1 = is_dir s2" by (auto simp: is_file_def is_dir_def fun_eq_iff)
  show "lfs_exists cfg path s1 = lfs_exists cfg path s2" "lfs_list cfg path s1 = lfs_list cfg path s2"
    unfolding lfs_exists_def lfs_list_def d f by (rule refl)+
qed

lemma lfs_write_same:
  assumes "evicts_lru (cache_config cfg)" and "same_disk cfg s1 s2"
  shows "rel_sum (=) (same_disk cfg) (lfs_write cfg path c s1) (lfs_write cfg path c s2)"
proof (cases "get_full_path (root cfg) path")
  case (Inr full)
  note D = same_diskD [OF assms(2)]
  have ok: "cache_ok (cache_config cfg) (file_cache s1)" "cache_ok (cache_config cfg) (file_cache s2)"
    using assms(2) by (simp_all add: same_disk_def)
  obtain c1 c2 where "cache_setitem (cache_config cfg) full c (file_cache s1) = Inr c1" "cache_ok (cache_config cfg) c1"
    "cache_setitem (cache_config cfg) full c (file_cache s2) = Inr c2" "cache_ok (cache_config cfg) c2"
    using cache_setitem_ok [OF ok(1) assms(1)] cache_setitem_ok [OF ok(2) assms(1)] by metis
  then show ?thesis using Inr D by (simp add: lfs_write_def makedirs_def same_disk_def is_dir_def)
qed (simp add: lfs_write_def)

lemma lfs_delete_same:
  assumes "same_disk cfg s1 s2"
  shows "rel_sum (=) (same_disk cfg) (lfs_delete cfg path s1) (lfs_delete cfg path s2)"
proof -
  have "0 \<le> max_memory (cache_config cfg)"
    using assms sizes_nonneg [of "entries (file_cache s1)"] by (simp add: same_disk_def cache_ok_def)
  then have "cache_ok (cache_config cfg) empty_cache" by (simp add: cache_ok_def empty_cache_def)
  then show ?thesis using assms same_diskD [OF assms] cache_ok_delete
    by (auto simp: lfs_delete_def same_disk_def split: sum.splits)
qed

lemma rel_sum_cases:
  assumes "rel_sum (=) R x y"
  obtains e where "x = Inl e" "y = Inl e" | a b where "x = Inr a" "y = Inr b" "R a b"
  using assms by (cases x; cases y) auto

lemma advance_same:
  assumes "evicts_lru (cache_config cfg)" and "same_disk cfg s1 s2"
  shows "same_disk cfg (advance_length_marker (local_fs cfg) dir n log s1) (advance_length_marker (local_fs cfg) dir n log s2)"
proof (cases rule: rel_sum_cases [OF lfs_delete_same [OF assms(2), of "marker_path dir n"]])
  case (2 a b)
  then show ?thesis
    by (cases rule: rel_sum_cases [OF lfs_write_same [OF assms(1) 2(3), of "marker_path dir (log_length log)" "[]"]])
      (simp_all add: advance_length_marker_def local_fs_def)
qed (simp add: advance_length_marker_def local_fs_def assms(2))

lemma append_same:
  assumes "evicts_lru (cache_config cfg)" and "same_disk cfg s1 s2"
    and "append (local_fs cfg) codec dir locked guard e log s1 = (r, log', s1')"
  shows "\<exists>s2'. append (local_fs cfg) codec dir locked guard e log s2 = (r, log', s2') \<and> same_disk cfg s1' s2'"
proof -
  note D = same_diskD [OF assms(2)]
  have sync: "sync_log (local_fs cfg) dir s1 log = sync_log (local_fs cfg) dir s2 log"
    unfolding sync_log_def sync_from_disk_def scan_and_build_index_def marker_matches_length_def
      count_events_on_disk_def local_fs_def file_store.select_convs D(5,6) by (rule refl)
  let ?path = "path_in dir (event_file_name (log_length (sync_log (local_fs cfg) dir s2 log)) (ev_id e))"
  show ?thesis
    by (cases rule: rel_sum_cases [OF lfs_write_same [OF assms(1,2), of ?path "dump_json codec e"]])
      (use assms(2,3) advance_same [OF assms(1)] in
        \<open>auto simp: append_def sync local_fs_def [THEN arg_cong [of _ _ fs_write]] Let_def split: if_splits option.splits\<close>)
qed

text \<open>
  Appends by several processes, each with its own log and its own cache, in the order in which they get
  the lock. The pair \<open>(w, e)\<close> is process \<open>w\<close> appending \<open>e\<close>; the cache in the store is not used.
\<close>

fun run_processes ::
    "local_config \<Rightarrow> event_codec \<Rightarrow> (nat \<times> event) list \<Rightarrow> (nat \<Rightarrow> event_log) \<Rightarrow> (nat \<Rightarrow> full_path cache) \<Rightarrow> local_store \<Rightarrow>
     nat result list \<times> local_store"
where
  "run_processes cfg codec [] logs caches s = ([], s)"
| "run_processes cfg codec ((w, e) # ops) logs caches s =
     (let (r, log, s1) = append (local_fs cfg) codec EVENTS_DIR True None e (logs w) (s\<lparr>file_cache := caches w\<rparr>);
          (rs, s') = run_processes cfg codec ops (logs(w := log)) (caches(w := file_cache s1)) s1
      in (r # rs, s'))"

lemma run_processes_same:
  assumes "evicts_lru (cache_config cfg)"
  shows "same_disk cfg s0 s \<Longrightarrow> \<forall>w. cache_ok (cache_config cfg) (caches w) \<Longrightarrow>
    run_processes cfg codec ops logs caches s = (rs, s') \<Longrightarrow>
    \<exists>logs' s0'. run_writers (local_fs cfg) codec EVENTS_DIR ops logs s0 = (rs, logs', s0') \<and> same_disk cfg s0' s'"
proof (induction ops arbitrary: logs caches s0 s rs)
  case (Cons op ops)
  obtain w e where op: "op = (w, e)" by force
  have sd: "same_disk cfg (s\<lparr>file_cache := caches w\<rparr>) s0" using Cons.prems(1,2) by (simp add: same_disk_def)
  obtain r log s1 where ap: "append (local_fs cfg) codec EVENTS_DIR True None e (logs w) (s\<lparr>file_cache := caches w\<rparr>) = (r, log, s1)"
    by (metis prod_cases3)
  from append_same [OF assms sd ap] obtain s2 where
    s2: "append (local_fs cfg) codec EVENTS_DIR True None e (logs w) s0 = (r, log, s2)" "same_disk cfg s1 s2" by blast
  obtain rs' where rs: "run_processes cfg codec ops (logs(w := log)) (caches(w := file_cache s1)) s1 = (rs', s')" "rs = r # rs'"
    using Cons.prems(3) op ap by (auto split: prod.splits)
  have "same_disk cfg s2 s1" "\<forall>v. cache_ok (cache_config cfg) ((caches(w := file_cache s1)) v)"
    using s2(2) Cons.prems(2) by (simp_all add: same_disk_def)
  from Cons.IH [OF this rs(1)] obtain logs' s0' where
    "run_writers (local_fs cfg) codec EVENTS_DIR ops (logs(w := log)) s2 = (rs', logs', s0')" "same_disk cfg s0' s'" by blast
  then show ?case using op s2(1) rs(2) by simp
qed simp

lemma same_disk_events:
  assumes "events_ok cfg s0" and "same_disk cfg s0 s"
  shows "events_ok cfg (s\<lparr>file_cache := empty_cache\<rparr>)" and "event_files cfg (s\<lparr>file_cache := empty_cache\<rparr>) = event_files cfg s0"
proof -
  have c: "disk s = disk s0" "dirs s = dirs s0" using assms(2) by (simp_all add: same_disk_def)
  have "0 \<le> max_memory (cache_config cfg)"
    using assms(2) sizes_nonneg [of "entries (file_cache s0)"] by (simp add: same_disk_def cache_ok_def)
  then show "events_ok cfg (s\<lparr>file_cache := empty_cache\<rparr>)"
    using assms(1) c by (simp add: events_ok_def store_ok_def is_dir_def is_file_def coherent_def cache_ok_def empty_cache_def cached_def [abs_def])
  show "event_files cfg (s\<lparr>file_cache := empty_cache\<rparr>) = event_files cfg s0" using c by (simp add: event_files_def fun_eq_iff)
qed

text \<open>
  C25. Concurrent writers linearize: appends by any number of processes, each with its own cache of file texts
  and its own possibly stale log, in the order in which they get the lock, return consecutive indices;
  nothing is lost or overwritten, and a process that opens the directory afterwards, with an empty cache,
  reads exactly the earlier events followed by the appended ones.
\<close>

theorem writers_linearize:
  assumes "evicts_lru (cache_config cfg)" and "permutes_names cfg"
    and "\<forall>w. log_sim cfg codec s (logs w) es" and "\<forall>w. cache_ok (cache_config cfg) (caches w)" and "parents_precede es"
    and "\<forall>(w, e) \<in> set ops. valid_event_id (ev_id e)"
    and "reads_back codec (set es \<union> snd ` set ops)"
    and "run_processes cfg codec ops logs caches s = (rs, s')"
  shows "indices_of rs = [length es..<length es + length (appended ops rs)] \<and>
    (let reader = s'\<lparr>file_cache := empty_cache\<rparr>
     in fst (iter_events (local_fs cfg) codec EVENTS_DIR (open_log (local_fs cfg) EVENTS_DIR reader) reader) =
          Inr (es @ appended ops rs))"
proof -
  note dir = local_event_directory [OF assms(1,2)]
  have sim: "events_ok cfg s" "holds_events codec (event_files cfg s) es"
    "\<And>w. knows_prefix (logs w) es" using assms(3) by (simp_all add: log_sim_def)
  have valid: "\<And>w e. (w, e) \<in> set ops \<Longrightarrow> valid_event_id (ev_id e)" using assms(6) by auto
  have "same_disk cfg s s" using sim(1) by (simp add: same_disk_def events_ok_def store_ok_def)
  from run_processes_same [OF assms(1) this assms(4,8)] obtain logs' s0 where
    run: "run_writers (local_fs cfg) codec EVENTS_DIR ops logs s = (rs, logs', s0)" "same_disk cfg s0 s'" by blast
  have R: "events_ok cfg s0 \<and> holds_events codec (event_files cfg s0) (es @ appended ops rs) \<and>
      indices_of rs = [length es..<length es + length (appended ops rs)]"
    using event_directory.run_writers_linear [OF dir sim(1,2) assms(5) sim(3) _ run(1)] valid by simp
  then have ok: "events_ok cfg s0" by blast
  have "set (appended ops rs) \<subseteq> snd ` set ops"
    by (auto simp: appended_def dest!: set_zip_leftD)
  then have "reads_back codec (set (es @ appended ops rs))"
    using assms(7) by (auto simp: reads_back_def)
  then have "e \<in> set (es @ appended ops rs) \<Longrightarrow> dump_json codec e \<noteq> [] \<and> validate_json codec (dump_json codec e) = Inr e" for e
    by (rule reads_backD)
  moreover have "holds_events codec (event_files cfg s0) (es @ appended ops rs)" using R by blast
  moreover have "indices_of rs = [length es..<length es + length (appended ops rs)]" using R by blast
  ultimately show ?thesis
    using same_disk_events [OF ok run(2)] event_directory.reopen_reads [OF dir, of "s'\<lparr>file_cache := empty_cache\<rparr>" codec "es @ appended ops rs"]
    by (simp add: Let_def)
qed

theorem writers_linearize_witness:
  "\<exists>rs s'. indices_of rs = [0..<length (appended [(0, first_event), (1, second_event)] rs)] \<and>
    run_processes tiny_config sample_codec [(0, first_event), (1, second_event)] (\<lambda>_. empty_log) (\<lambda>_. empty_cache) (lfs_init tiny_config) = (rs, s')"
proof -
  let ?ops = "[(0, first_event), (1, second_event)]"
  obtain rs s' where run: "run_processes tiny_config sample_codec ?ops (\<lambda>_. empty_log) (\<lambda>_. empty_cache) (lfs_init tiny_config) = (rs, s')"
    by force
  have "reads_back sample_codec (set [] \<union> snd ` set ?ops)" using sample_reads_back by simp
  moreover have "cache_ok (cache_config tiny_config) empty_cache" by (simp add: cache_ok_def empty_cache_def tiny_config_def)
  ultimately have "indices_of rs = [length []..<length [] + length (appended ?ops rs)]"
    using writers_linearize [of tiny_config sample_codec "lfs_init tiny_config" "\<lambda>_. empty_log" "[]" "\<lambda>_. empty_cache" ?ops rs s']
      tiny_config_ok(1,2) empty_sim run by (auto simp: parents_precede_def)
  then show ?thesis using run by auto
qed

text \<open>
  The walk from an event to the root ends, and returns the events of its branch in order, root
  first, cut to the newest ones when a limit is given.
\<close>

theorem path_to_root_returns_branch:
  assumes "evicts_lru (cache_config cfg)" and "permutes_names cfg"
    and "log_sim cfg codec s log es" and "log_length log = length es" and "parents_precede es"
    and "reads_back codec (set es)" and "i < length es"
  shows "\<exists>log' s'. path_to_root (local_fs cfg) codec EVENTS_DIR (Some (ev_id (es ! i))) limit log s =
    Some (Inr (last_n limit (branch es i)), log', s')"
proof -
  have sim: "events_ok cfg s" "holds_events codec (event_files cfg s) es" "knows_prefix log es"
    using assms(3) by (simp_all add: log_sim_def)
  show ?thesis
    by (rule event_directory.path_to_root_current
        [OF local_event_directory [OF assms(1,2)] sim assms(4,5) reads_backD [OF assms(6)] assms(7)])
qed

text \<open>A directory and a log that hold the two sample events.\<close>

definition pair_store :: local_store where
  "pair_store =
     \<lparr>disk = [([''r'', EVENTS_DIR, event_file_name 0 ''aaaaaaaa''], ''aaaaaaaa''),
              ([''r'', EVENTS_DIR, event_file_name 1 ''bbbbbbbb''], ''bbbbbbbb''),
              ([''r'', EVENTS_DIR, marker_name 2], [])],
      dirs = [[], [''r''], [''r'', EVENTS_DIR]], file_cache = empty_cache\<rparr>"

definition pair_log :: event_log where
  "pair_log =
     \<lparr>id_to_idx = [(''aaaaaaaa'', 0), (''bbbbbbbb'', 1)], idx_to_id = [(0, ''aaaaaaaa''), (1, ''bbbbbbbb'')],
      event_cache = [], log_length = 2\<rparr>"

lemma pair_names:
  "plain_name (event_file_name 0 ''aaaaaaaa'')" "plain_name (event_file_name 1 ''bbbbbbbb'')"
  "event_file_name 0 ''aaaaaaaa'' \<noteq> event_file_name 1 ''bbbbbbbb''"
  "event_file_name i x \<noteq> marker_name 2"
  using plain_event_file_name event_file_name_inject [of "''aaaaaaaa''" "''bbbbbbbb''" 0 1] by simp_all

lemma pair_store_ok: "events_ok tiny_config pair_store"
proof -
  have "store_ok tiny_config pair_store"
    using pair_names(3)
    by (simp add: store_ok_def pair_store_def cache_ok_def empty_cache_def coherent_def cached_def
        map_le_def is_file_def tiny_config_def dom_def)
  then show ?thesis using pair_names(1,2) plain_marker_name [of 2]
    by (auto simp: events_ok_def pair_store_def is_dir_def is_file_def events_path_def
        tiny_config_def ancestors_def upt_rec split: if_splits)
qed

lemma pair_store_holds:
  "holds_events sample_codec (event_files tiny_config pair_store) [first_event, second_event]"
proof -
  have files: "event_files tiny_config pair_store = [event_file_name 0 ''aaaaaaaa'' \<mapsto> ''aaaaaaaa'',
      event_file_name 1 ''bbbbbbbb'' \<mapsto> ''bbbbbbbb'', marker_name 2 \<mapsto> []]"
    using pair_names(3)
    by (auto simp: event_files_def pair_store_def events_path_def tiny_config_def fun_eq_iff)
  have "event_names [first_event, second_event] =
      {event_file_name 0 ''aaaaaaaa'', event_file_name 1 ''bbbbbbbb''}"
    using event_names_snoc [of "[first_event]" second_event] event_names_snoc [of "[]" first_event]
    by (auto simp: event_names_def)
  then show ?thesis
    using pair_names(3) unfolding files
    by (auto simp: holds_events_def less_Suc_eq sample_codec_def pair_codec_def split: if_splits)
qed

lemma pair_sim: "log_sim tiny_config sample_codec pair_store pair_log [first_event, second_event]"
proof -
  have "(map_of (idx_to_id pair_log) i =
      (if i < log_length pair_log then Some (ev_id ([first_event, second_event] ! i)) else None)) \<and>
    (map_of (id_to_idx pair_log) x = Some i \<longleftrightarrow>
      i < log_length pair_log \<and> ev_id ([first_event, second_event] ! i) = x)" for i x
  proof -
    consider "i = 0" | "i = 1" | "2 \<le> i" by linarith
    then show ?thesis by cases (auto simp: pair_log_def)
  qed
  then have "knows_prefix pair_log [first_event, second_event]"
    unfolding knows_prefix_def by (simp add: pair_log_def)
  with pair_store_ok pair_store_holds show ?thesis by (simp add: log_sim_def)
qed

theorem path_to_root_returns_branch_witness:
  "\<exists>log' s'. path_to_root (local_fs tiny_config) sample_codec EVENTS_DIR (Some ''bbbbbbbb'') None
     pair_log pair_store = Some (Inr [first_event, second_event], log', s')"
proof -
  have "branch [first_event, second_event] 1 = [first_event, second_event]"
    by (simp add: branch_def ancestry.simps parent_index_def)
  moreover have "parents_precede [first_event, second_event]"
    by (auto simp: parents_precede_def less_Suc_eq)
  ultimately show ?thesis
    using path_to_root_returns_branch [OF tiny_config_ok(1,2) pair_sim _ _ _, of 1 None]
      sample_reads_back
    by (simp add: pair_log_def last_n_def)
qed

text \<open>
  A writer that dies after writing its event file and before moving the length marker leaves a
  marker for the old length: another writer that knows the old length trusts it, appends at an index
  already taken, and the directory then holds two event files with the same index.
\<close>

theorem crash_leaves_stale_marker:
  assumes "evicts_lru (cache_config cfg)" and "permutes_names cfg"
    and "log_sim cfg codec s log es" and "log_length log = length es"
    and "event_files cfg s (marker_name (length es)) \<noteq> None"
    and "valid_event_id (ev_id e1)" and "valid_event_id (ev_id e2)" and "ev_id e1 \<noteq> ev_id e2"
    and "ev_id e2 \<notin> ev_id ` set es" and "ev_parent_id e2 = None"
    and "fs_write (local_fs cfg) (path_in EVENTS_DIR (event_file_name (length es) (ev_id e1)))
      (dump_json codec e1) s = Inr s1"
  shows "\<exists>log' s2. append (local_fs cfg) codec EVENTS_DIR True None e2 log s1 =
      (Inr (length es), log', s2) \<and>
    event_files cfg s2 (event_file_name (length es) (ev_id e1)) \<noteq> None \<and>
    event_files cfg s2 (event_file_name (length es) (ev_id e2)) \<noteq> None"
proof -
  have sim: "events_ok cfg s" "holds_events codec (event_files cfg s) es" "knows_prefix log es"
    using assms(3) by (simp_all add: log_sim_def)
  show ?thesis
    by (rule event_directory.stale_marker_collision
        [OF local_event_directory [OF assms(1,2)] sim assms(4-11)])
qed

theorem crash_leaves_stale_marker_witness:
  "\<exists>s1 log' s2. append (local_fs tiny_config) sample_codec EVENTS_DIR True None
      (sample_message ''dddddddd'' SourceUser ''x'') pair_log s1 = (Inr 2, log', s2) \<and>
    event_files tiny_config s2 (event_file_name 2 ''cccccccc'') \<noteq> None \<and>
    event_files tiny_config s2 (event_file_name 2 ''dddddddd'') \<noteq> None"
proof -
  let ?e1 = "sample_message ''cccccccc'' SourceUser ''x''"
  let ?e2 = "sample_message ''dddddddd'' SourceUser ''x''"
  have valid: "valid_event_id (ev_id ?e1)" "valid_event_id (ev_id ?e2)"
    by (simp_all add: sample_message_def sample_meta_def valid_event_id_def is_id_char_def)
  have len: "log_length pair_log = length [first_event, second_event]" by (simp add: pair_log_def)
  have marker: "event_files tiny_config pair_store (marker_name (length [first_event, second_event])) \<noteq> None"
    by (simp add: event_files_def pair_store_def events_path_def tiny_config_def numeral_2_eq_2)
  have ids: "ev_id ?e1 = ''cccccccc''" "ev_id ?e2 = ''dddddddd''" "ev_parent_id ?e2 = None"
    by (simp_all add: sample_message_def sample_meta_def)
  have "event_files tiny_config pair_store (event_file_name (length [first_event, second_event]) (ev_id ?e1)) = None"
    using holds_new_name [OF pair_store_holds valid(1)] .
  then obtain s1 where s1: "fs_write (local_fs tiny_config) (path_in EVENTS_DIR
      (event_file_name (length [first_event, second_event]) (ev_id ?e1))) (dump_json sample_codec ?e1)
      pair_store = Inr s1"
    using event_directory.write_law [OF local_event_directory [OF tiny_config_ok(1,2)] pair_store_ok
        plain_event_file_name [OF valid(1)]] by blast
  show ?thesis
    using crash_leaves_stale_marker [OF tiny_config_ok(1,2) pair_sim len marker valid _ _ _ s1] ids
    by (auto simp: numeral_2_eq_2)
qed

end
