(* ===== verification/Conversation_State.thy ===== *)
theory Conversation_State
  imports Local_Event_Log View_Soundness
begin

text \<open>
  The tree of a conversation, \<^verbatim>\<open>agentrt/sdk/conversation/state.py\<close>: the movable head, the stamping of
  parents, appending, navigation, and the cached view of the active branch with its incremental
  update. The base snapshot is its file name and a parameter that serializes the state.
\<close>

definition BASE_STATE :: string where
  "BASE_STATE = ''base_state.json''"

record 's conversation =
  conv_store :: 's
  conv_log :: event_log
  leaf_event_id :: "event_id option"
  head_is_empty :: bool
  conv_view :: view
  view_branch_leaf :: "event_id option"
  conv_autosave :: bool
  conv_save_depth :: nat
  conv_dirty :: bool

text \<open>Events of the log that are not nodes of the tree.\<close>

fun is_artifact :: "event \<Rightarrow> bool" where
  "is_artifact (OtherEvent _ n _) \<longleftrightarrow>
     n = ''ConversationStateUpdateEvent'' \<or> n = ''ConversationErrorEvent''"
| "is_artifact _ \<longleftrightarrow> False"

fun is_state_update :: "event \<Rightarrow> bool" where
  "is_state_update (OtherEvent _ n _) \<longleftrightarrow> n = ''ConversationStateUpdateEvent''"
| "is_state_update _ \<longleftrightarrow> False"

section \<open>The head\<close>

text \<open>The loop over the indices from the end.\<close>

fun last_real_event ::
    "'s file_store \<Rightarrow> event_codec \<Rightarrow> string \<Rightarrow> nat list \<Rightarrow> event_log \<Rightarrow> 's \<Rightarrow>
     event_id option result \<times> event_log \<times> 's"
where
  "last_real_event fs codec dir [] log s = (Inr None, log, s)"
| "last_real_event fs codec dir (i # is) log s =
     (case get_single_item fs codec dir (int i) log s of
        (Inl e, log', s') \<Rightarrow> (Inl e, log', s')
      | (Inr evt, log', s') \<Rightarrow>
          if is_artifact evt then last_real_event fs codec dir is log' s'
          else (map_sum id Some (get_id log' (int i)), log', s'))"

definition resolve_active_leaf ::
    "'s file_store \<Rightarrow> event_codec \<Rightarrow> string \<Rightarrow> 's conversation \<Rightarrow>
     event_id option result \<times> 's conversation"
where
  "resolve_active_leaf fs codec dir c =
     (if leaf_event_id c \<noteq> None then (Inr (leaf_event_id c), c)
      else if head_is_empty c then (Inr None, c)
      else if log_length (conv_log c) = 0 then (Inr None, c)
      else
        let (r, log, s) = last_real_event fs codec dir (rev [0..<log_length (conv_log c)])
              (conv_log c) (conv_store c)
        in (r, c\<lparr>conv_log := log, conv_store := s\<rparr>))"

definition active_branch ::
    "'s file_store \<Rightarrow> event_codec \<Rightarrow> string \<Rightarrow> nat option \<Rightarrow> 's conversation \<Rightarrow>
     (event list result \<times> 's conversation) option"
where
  "active_branch fs codec dir limit c =
     (case resolve_active_leaf fs codec dir c of
        (Inl e, c1) \<Rightarrow> Some (Inl e, c1)
      | (Inr leaf, c1) \<Rightarrow>
          map_option (\<lambda>(r, log, s). (r, c1\<lparr>conv_log := log, conv_store := s\<rparr>))
            (path_to_root fs codec dir leaf limit (conv_log c1) (conv_store c1)))"

text \<open>\<open>model_copy(update={"parent_id": parent})\<close>.\<close>

definition with_parent :: "event_id option \<Rightarrow> event \<Rightarrow> event" where
  "with_parent p e = with_meta ((meta e)\<lparr>meta_parent_id := p\<rparr>) e"

definition stamp_parent_id ::
    "'s file_store \<Rightarrow> event_codec \<Rightarrow> string \<Rightarrow> event \<Rightarrow> 's conversation \<Rightarrow>
     event result \<times> 's conversation"
where
  "stamp_parent_id fs codec dir e c =
     (if ev_parent_id e \<noteq> None then (Inr e, c)
      else case resolve_active_leaf fs codec dir c of
          (Inl er, c1) \<Rightarrow> (Inl er, c1)
        | (Inr leaf, c1) \<Rightarrow>
            (Inr (with_parent (if leaf = None \<and> 0 < log_length (conv_log c1)
                  then Some ROOT_PARENT_ID else leaf) e), c1))"

section \<open>Saving\<close>

text \<open>
  A changed public field is saved at once, or at the end of the surrounding \<open>with\<close> block. \<open>guard\<close> is
  the error the write guard raises, if any; the field keeps its new value when saving fails.
\<close>

definition save_base_state ::
    "'s file_store \<Rightarrow> ('s conversation \<Rightarrow> string) \<Rightarrow> py_error option \<Rightarrow> 's conversation \<Rightarrow>
     unit result \<times> 's conversation"
where
  "save_base_state fs dump guard c =
     (case guard of
        Some e \<Rightarrow> (Inl e, c)
      | None \<Rightarrow>
          (case fs_write fs BASE_STATE (dump c) (conv_store c) of
             Inl e \<Rightarrow> (Inl e, c)
           | Inr s \<Rightarrow> (Inr (), c\<lparr>conv_store := s\<rparr>)))"

definition autosave ::
    "'s file_store \<Rightarrow> ('s conversation \<Rightarrow> string) \<Rightarrow> py_error option \<Rightarrow> 's conversation \<Rightarrow>
     unit result \<times> 's conversation"
where
  "autosave fs dump guard c =
     (if \<not> conv_autosave c then (Inr (), c)
      else if 0 < conv_save_depth c then (Inr (), c\<lparr>conv_dirty := True\<rparr>)
      else save_base_state fs dump guard c)"

definition set_leaf ::
    "'s file_store \<Rightarrow> ('s conversation \<Rightarrow> string) \<Rightarrow> py_error option \<Rightarrow> event_id option \<Rightarrow>
     's conversation \<Rightarrow> unit result \<times> 's conversation"
where
  "set_leaf fs dump guard x c =
     (if leaf_event_id c = x then (Inr (), c)
      else autosave fs dump guard (c\<lparr>leaf_event_id := x\<rparr>))"

definition set_head_empty ::
    "'s file_store \<Rightarrow> ('s conversation \<Rightarrow> string) \<Rightarrow> py_error option \<Rightarrow> bool \<Rightarrow>
     's conversation \<Rightarrow> unit result \<times> 's conversation"
where
  "set_head_empty fs dump guard b c =
     (if head_is_empty c = b then (Inr (), c)
      else autosave fs dump guard (c\<lparr>head_is_empty := b\<rparr>))"

text \<open>The \<open>with\<close> block, apart from the lock.\<close>

definition enter_block :: "'s conversation \<Rightarrow> 's conversation" where
  "enter_block c = c\<lparr>conv_save_depth := Suc (conv_save_depth c)\<rparr>"

definition exit_block ::
    "'s file_store \<Rightarrow> ('s conversation \<Rightarrow> string) \<Rightarrow> py_error option \<Rightarrow> 's conversation \<Rightarrow>
     unit result \<times> 's conversation"
where
  "exit_block fs dump guard c =
     (let c1 = c\<lparr>conv_save_depth := conv_save_depth c - 1\<rparr>
      in if conv_save_depth c1 = 0 \<and> conv_dirty c1 then
           (if conv_autosave c1 then
              (case save_base_state fs dump guard c1 of
                 (Inl e, c2) \<Rightarrow> (Inl e, c2)
               | (Inr _, c2) \<Rightarrow> (Inr (), c2\<lparr>conv_dirty := False\<rparr>))
            else (Inr (), c1\<lparr>conv_dirty := False\<rparr>))
         else (Inr (), c1))"

section \<open>Appending and navigating\<close>

definition conv_append_event ::
    "'s file_store \<Rightarrow> event_codec \<Rightarrow> string \<Rightarrow> ('s conversation \<Rightarrow> string) \<Rightarrow> bool \<Rightarrow> py_error option \<Rightarrow>
     event \<Rightarrow> 's conversation \<Rightarrow> nat result \<times> 's conversation"
where
  "conv_append_event fs codec dir dump locked guard e c =
     (case stamp_parent_id fs codec dir e c of
        (Inl er, c1) \<Rightarrow> (Inl er, c1)
      | (Inr e', c1) \<Rightarrow>
          (case append fs codec dir locked guard e' (conv_log c1) (conv_store c1) of
             (Inl er, log, s) \<Rightarrow> (Inl er, c1\<lparr>conv_log := log, conv_store := s\<rparr>)
           | (Inr seq, log, s) \<Rightarrow>
               let c2 = c1\<lparr>conv_log := log, conv_store := s\<rparr>
               in if is_state_update e' then (Inr seq, c2)
                  else case set_leaf fs dump guard (Some (ev_id e')) c2 of
                      (Inl er, c3) \<Rightarrow> (Inl er, c3)
                    | (Inr _, c3) \<Rightarrow>
                        (case set_head_empty fs dump guard False c3 of
                           (Inl er, c4) \<Rightarrow> (Inl er, c4)
                         | (Inr _, c4) \<Rightarrow> (Inr seq, c4))))"

text \<open>\<open>rebuild_view\<close>: the cached view is replaced only when the branch could be read.\<close>

definition rebuild_view ::
    "'s file_store \<Rightarrow> event_codec \<Rightarrow> string \<Rightarrow> 's conversation \<Rightarrow>
     (unit result \<times> 's conversation) option"
where
  "rebuild_view fs codec dir c =
     (case resolve_active_leaf fs codec dir c of
        (Inl e, c1) \<Rightarrow> Some (Inl e, c1)
      | (Inr leaf, c1) \<Rightarrow>
          map_option (\<lambda>(r, log, s).
            let c2 = c1\<lparr>conv_log := log, conv_store := s\<rparr>
            in case r of
                 Inl e \<Rightarrow> (Inl e, c2)
               | Inr events \<Rightarrow>
                   (Inr (), c2\<lparr>conv_view := from_events events, view_branch_leaf := leaf\<rparr>))
            (path_to_root fs codec dir leaf None (conv_log c1) (conv_store c1)))"

text \<open>
  The walk of the fast path from the new leaf to the cached one, the events newest last. Unlike
  \<open>path_to_root\<close> it does not look for cycles.
\<close>

partial_function (option) walk_tail ::
    "'s file_store \<Rightarrow> event_codec \<Rightarrow> string \<Rightarrow> event_id option \<Rightarrow> event_id option \<Rightarrow> event list \<Rightarrow>
     event_log \<Rightarrow> 's \<Rightarrow> ((event_id option \<times> event list) result \<times> event_log \<times> 's) option"
where
  "walk_tail fs codec dir stop cur tail_events log s =
     (if cur = None \<or> cur = stop then Some (Inr (cur, tail_events), log, s)
      else case get_index log (the cur) of
          Inl e \<Rightarrow> Some (Inl e, log, s)
        | Inr idx \<Rightarrow>
            (case get_single_item fs codec dir (int idx) log s of
               (Inl e, log', s') \<Rightarrow> Some (Inl e, log', s')
             | (Inr evt, log', s') \<Rightarrow>
                 (case effective_parent_id log' idx evt of
                    Inl e \<Rightarrow> Some (Inl e, log', s')
                  | Inr parent \<Rightarrow>
                      walk_tail fs codec dir stop parent (evt # tail_events) log' s')))"

text \<open>The slow path: rebuild from the whole branch.\<close>

definition rebuilt ::
    "'s file_store \<Rightarrow> event_codec \<Rightarrow> string \<Rightarrow> event_id option \<Rightarrow> 's conversation \<Rightarrow>
     (view result \<times> 's conversation) option"
where
  "rebuilt fs codec dir leaf c =
     map_option (\<lambda>(r, log, s).
       let c2 = c\<lparr>conv_log := log, conv_store := s\<rparr>
       in case r of
            Inl e \<Rightarrow> (Inl e, c2)
          | Inr events \<Rightarrow>
              let v = from_events events
              in (Inr v, c2\<lparr>conv_view := v, view_branch_leaf := leaf\<rparr>))
       (path_to_root fs codec dir leaf None (conv_log c) (conv_store c))"

text \<open>The property \<open>view\<close>.\<close>

definition current_view ::
    "'s file_store \<Rightarrow> event_codec \<Rightarrow> string \<Rightarrow> 's conversation \<Rightarrow>
     (view result \<times> 's conversation) option"
where
  "current_view fs codec dir c =
     (case resolve_active_leaf fs codec dir c of
        (Inl e, c1) \<Rightarrow> Some (Inl e, c1)
      | (Inr leaf, c1) \<Rightarrow>
          if leaf = view_branch_leaf c1 then Some (Inr (conv_view c1), c1)
          else
            Option.bind
              (walk_tail fs codec dir (view_branch_leaf c1) leaf [] (conv_log c1) (conv_store c1))
              (\<lambda>(r, log, s).
                let c2 = c1\<lparr>conv_log := log, conv_store := s\<rparr>
                in case r of
                     Inr (cur, tail_events) \<Rightarrow>
                       if cur = view_branch_leaf c2 then
                         let v = append_events (conv_view c2) tail_events
                         in Some (Inr v, c2\<lparr>conv_view := v, view_branch_leaf := leaf\<rparr>)
                       else rebuilt fs codec dir leaf c2
                   | Inl e \<Rightarrow> rebuilt fs codec dir leaf c2))"

text \<open>\<open>navigate_to\<close> of the local conversation, which runs it inside a \<open>with\<close> block.\<close>

definition navigate_to ::
    "'s file_store \<Rightarrow> event_codec \<Rightarrow> string \<Rightarrow> ('s conversation \<Rightarrow> string) \<Rightarrow> py_error option \<Rightarrow>
     event_id option \<Rightarrow> 's conversation \<Rightarrow> (unit result \<times> 's conversation) option"
where
  "navigate_to fs codec dir dump guard event_id c =
     (let c0 = enter_block c;
          leave = (\<lambda>(r, c1).
            (case exit_block fs dump guard c1 of
               (Inl e, c2) \<Rightarrow> (Inl e, c2)
             | (Inr _, c2) \<Rightarrow> (r, c2)))
      in if event_id \<noteq> None \<and> \<not> log_contains (conv_log c0) (the event_id)
         then Some (leave (Inl ValueError, c0))
         else case set_leaf fs dump guard event_id c0 of
             (Inl e, c1) \<Rightarrow> Some (leave (Inl e, c1))
           | (Inr _, c1) \<Rightarrow>
               (case set_head_empty fs dump guard (event_id = None) c1 of
                  (Inl e, c2) \<Rightarrow> Some (leave (Inl e, c2))
                | (Inr _, c2) \<Rightarrow> map_option leave (rebuild_view fs codec dir c2)))"

section \<open>Unmatched actions\<close>

text \<open>The loop of \<open>get_unmatched_actions\<close>, over the reversed events.\<close>

fun unmatched_from ::
    "event list \<Rightarrow> event_id set \<Rightarrow> tool_call_id set \<Rightarrow> event list \<Rightarrow> event list" where
  "unmatched_from [] observed_actions observed_calls unmatched = unmatched"
| "unmatched_from (e # es) observed_actions observed_calls unmatched =
     (case e of
        ObservationEvent _ x \<Rightarrow>
          unmatched_from es (insert (oe_action_id x) observed_actions) observed_calls unmatched
      | UserRejectObservation _ x \<Rightarrow>
          unmatched_from es (insert (re_action_id x) observed_actions) observed_calls unmatched
      | AgentErrorEvent _ x \<Rightarrow>
          unmatched_from es observed_actions (insert (ee_tool_call_id x) observed_calls) unmatched
      | ActionEvent m a \<Rightarrow>
          unmatched_from es observed_actions observed_calls
            (if ae_action a \<noteq> None \<and> meta_id m \<notin> observed_actions \<and>
                ae_tool_call_id a \<notin> observed_calls
             then e # unmatched else unmatched)
      | _ \<Rightarrow> unmatched_from es observed_actions observed_calls unmatched)"

definition get_unmatched_actions :: "event list \<Rightarrow> event list" where
  "get_unmatched_actions events = unmatched_from (rev events) {} {} []"

end
