(* ===== verification/Conversation_Laws.thy ===== *)
theory Conversation_Laws
  imports Conversation_State
begin

text \<open>
  The conversation tree on the event log of the local store: the active branch grows by appending,
  moves by navigation, and the cached view, however it was brought up to date, is always a view of
  the active branch.
\<close>

section \<open>What the operations do on the list of events\<close>

text \<open>The head and the active branch, on the list of events.\<close>

definition head_of :: "'s conversation \<Rightarrow> event list \<Rightarrow> event_id option" where
  "head_of c es =
     (if leaf_event_id c \<noteq> None then leaf_event_id c
      else if head_is_empty c then None
      else map_option ev_id (List.find (\<lambda>e. \<not> is_artifact e) (rev es)))"

definition branch_of :: "event list \<Rightarrow> event_id option \<Rightarrow> event list" where
  "branch_of es head = (case head of None \<Rightarrow> [] | Some x \<Rightarrow> branch es (index_of es x))"

lemma find_rev_index:
  "List.find P (rev es) = map_option ((!) es) (List.find (\<lambda>i. P (es ! i)) (rev [0..<length es]))"
proof -
  have "rev es = map ((!) es) (rev [0..<length es])" by (metis map_nth rev_map)
  then have "List.find P (rev es) = List.find P (map ((!) es) (rev [0..<length es]))" by simp
  also have "\<dots> = map_option ((!) es) (List.find (\<lambda>i. P (es ! i)) (rev [0..<length es]))"
  proof -
    have "List.find P (map f xs) = map_option f (List.find (\<lambda>x. P (f x)) xs)" for f :: "nat \<Rightarrow> 'a" and xs
      by (induction xs) auto
    then show ?thesis .
  qed
  finally show ?thesis .
qed

lemma find_in_set: "List.find P xs = Some x \<Longrightarrow> x \<in> set xs \<and> P x"
  by (induction xs) (auto split: if_splits)

lemma head_of_known:
  assumes "\<And>x. leaf_event_id c = Some x \<Longrightarrow> x \<in> ev_id ` set es" and "head_of c es = Some x"
  shows "x \<in> ev_id ` set es"
proof (cases "leaf_event_id c")
  case None
  with assms(2) obtain e where "List.find (\<lambda>e. \<not> is_artifact e) (rev es) = Some e" "x = ev_id e"
    by (auto simp: head_of_def split: if_splits)
  then have "e \<in> set es" "x = ev_id e" using find_in_set by fastforce+
  then show ?thesis by blast
qed (use assms in \<open>simp add: head_of_def\<close>)


lemma index_of_less: "x \<in> ev_id ` set es \<Longrightarrow> index_of es x < length es"
  unfolding index_of_def by (induction es) auto

lemma ev_id_index_of: "x \<in> ev_id ` set es \<Longrightarrow> ev_id (es ! index_of es x) = x"
proof -
  assume x: "x \<in> ev_id ` set es"
  have "\<not> ev_id (es ! index_of es x) \<noteq> x"
    unfolding index_of_def
    by (rule nth_length_takeWhile) (use index_of_less [OF x] in \<open>simp add: index_of_def\<close>)
  then show ?thesis by simp
qed







context event_directory
begin

lemma last_real_event_current:
  assumes "ok s" and "holds_events codec (files s) es" and "knows_prefix log es"
    and codec: "\<And>e. e \<in> set es \<Longrightarrow>
      dump_json codec e \<noteq> [] \<and> validate_json codec (dump_json codec e) = Inr e"
    and "set is \<subseteq> {..<log_length log}"
  shows "\<exists>log' s'. last_real_event fs codec dir is log s =
      (Inr (map_option (\<lambda>i. ev_id (es ! i)) (List.find (\<lambda>i. \<not> is_artifact (es ! i)) is)), log', s') \<and>
    ok s' \<and> files s' = files s \<and> knows_prefix log' es \<and> log_length log' = log_length log"
  using assms(1-3,5)
proof (induction "is" arbitrary: log s)
  case (Cons i "is")
  have i: "i < log_length log" "i < length es" using Cons.prems(3,4) by (auto simp: knows_prefix_def)
  from get_single_item_current [OF Cons.prems(1-3) codec i(1)] obtain log1 s1 where
    g: "get_single_item fs codec dir (int i) log s = (Inr (es ! i), log1, s1)" "ok s1"
      "files s1 = files s" "knows_prefix log1 es" "log_length log1 = log_length log" by blast
  show ?case
  proof (cases "is_artifact (es ! i)")
    case True
    have "set is \<subseteq> {..<log_length log1}" "holds_events codec (files s1) es"
      using Cons.prems(2,4) g(3,5) by auto
    from Cons.IH [OF g(2) this(2) g(4) this(1)] True g show ?thesis by auto
  next
    case False
    have "get_id log1 (int i) = Inr (ev_id (es ! i))"
      using g(4,5) i by (simp add: get_id_def knows_prefix_def)
    with False g show ?thesis by auto
  qed
qed auto

end

text \<open>
  A conversation in good order over the events \<open>es\<close>: the log is up to date, the head is an event of
  it, and no event has the id that marks roots.
\<close>

definition conv_ok ::
    "local_config \<Rightarrow> event_codec \<Rightarrow> local_store conversation \<Rightarrow> event list \<Rightarrow> bool" where
  "conv_ok cfg codec c es \<longleftrightarrow>
     log_sim cfg codec (conv_store c) (conv_log c) es \<and> log_length (conv_log c) = length es \<and>
     parents_precede es \<and> reads_back codec (set es) \<and> ROOT_PARENT_ID \<notin> ev_id ` set es \<and>
     (\<forall>x. leaf_event_id c = Some x \<longrightarrow> x \<in> ev_id ` set es)"

text \<open>Reading changes at most the caches of log and store.\<close>

definition same_fields :: "'s conversation \<Rightarrow> 's conversation \<Rightarrow> bool" where
  "same_fields c c' \<longleftrightarrow>
     leaf_event_id c' = leaf_event_id c \<and> head_is_empty c' = head_is_empty c \<and>
     conv_view c' = conv_view c \<and> view_branch_leaf c' = view_branch_leaf c \<and>
     conv_autosave c' = conv_autosave c \<and> conv_save_depth c' = conv_save_depth c \<and>
     conv_dirty c' = conv_dirty c"

lemma same_fields_simps [simp]:
  "same_fields c c" "same_fields c (c'\<lparr>conv_log := log, conv_store := s\<rparr>) = same_fields c c'"
  by (simp_all add: same_fields_def)

definition store_laws :: "local_config \<Rightarrow> bool" where
  "store_laws cfg \<longleftrightarrow> evicts_lru (cache_config cfg) \<and> permutes_names cfg"

lemma conv_okD:
  assumes "conv_ok cfg codec c es"
  shows "events_ok cfg (conv_store c)" and "holds_events codec (event_files cfg (conv_store c)) es"
    and "knows_prefix (conv_log c) es" and "log_length (conv_log c) = length es"
    and "parents_precede es" and "reads_back codec (set es)" and "ROOT_PARENT_ID \<notin> ev_id ` set es"
    and "leaf_event_id c = Some x \<Longrightarrow> x \<in> ev_id ` set es"
  using assms by (auto simp: conv_ok_def log_sim_def)

lemma conv_ok_reread:
  assumes "conv_ok cfg codec c es" and "events_ok cfg s"
    and "event_files cfg s = event_files cfg (conv_store c)" and "knows_prefix log es"
    and "log_length log = length es"
  shows "conv_ok cfg codec (c\<lparr>conv_log := log, conv_store := s\<rparr>) es"
  using assms by (simp add: conv_ok_def log_sim_def)

lemma resolve_ok:
  assumes laws: "store_laws cfg" and ok: "conv_ok cfg codec c es"
  shows "\<exists>c'. resolve_active_leaf (local_fs cfg) codec EVENTS_DIR c = (Inr (head_of c es), c') \<and>
    same_fields c c' \<and> conv_ok cfg codec c' es"
proof (cases "leaf_event_id c \<noteq> None \<or> head_is_empty c \<or> log_length (conv_log c) = 0")
  case True
  then have "resolve_active_leaf (local_fs cfg) codec EVENTS_DIR c = (Inr (head_of c es), c)"
    using conv_okD(4) [OF ok] by (auto simp: resolve_active_leaf_def head_of_def)
  then show ?thesis using ok same_fields_simps(1) by blast
next
  case False
  note D = conv_okD [OF ok]
  have dir: "event_directory (local_fs cfg) EVENTS_DIR (event_files cfg) (events_ok cfg)"
    using laws by (auto simp: store_laws_def intro: local_event_directory)
  have "set (rev [0..<length es]) \<subseteq> {..<log_length (conv_log c)}" using D(4) by auto
  note R = event_directory.last_real_event_current [OF dir D(1-3) _ this]
  obtain log s where r: "last_real_event (local_fs cfg) codec EVENTS_DIR (rev [0..<length es])
      (conv_log c) (conv_store c) = (Inr (map_option (\<lambda>i. ev_id (es ! i))
        (List.find (\<lambda>i. \<not> is_artifact (es ! i)) (rev [0..<length es]))), log, s)"
    "events_ok cfg s" "event_files cfg s = event_files cfg (conv_store c)" "knows_prefix log es"
    "log_length log = length es"
    by (rule exE [OF R], rule reads_backD [OF D(6)], assumption, elim exE conjE)
      (rule that, assumption+, simp add: D(4))
  let ?c = "c\<lparr>conv_log := log, conv_store := s\<rparr>"
  have "head_of c es = map_option (\<lambda>i. ev_id (es ! i))
      (List.find (\<lambda>i. \<not> is_artifact (es ! i)) (rev [0..<length es]))"
    using False by (simp add: head_of_def find_rev_index [of _ es] option.map_comp comp_def)
  then have "resolve_active_leaf (local_fs cfg) codec EVENTS_DIR c = (Inr (head_of c es), ?c)"
    using False r(1) D(4) by (simp add: resolve_active_leaf_def)
  moreover have "conv_ok cfg codec ?c es" by (rule conv_ok_reread [OF ok r(2-5)])
  moreover have "same_fields c ?c" by simp
  ultimately show ?thesis by blast
qed

lemma store_laws_directory:
  "store_laws cfg \<Longrightarrow> event_directory (local_fs cfg) EVENTS_DIR (event_files cfg) (events_ok cfg)"
  by (auto simp: store_laws_def intro: local_event_directory)

text \<open>Reading the path of a known head.\<close>

lemma path_ok:
  assumes laws: "store_laws cfg" and ok: "conv_ok cfg codec c es"
    and head: "\<And>x. head = Some x \<Longrightarrow> x \<in> ev_id ` set es"
  shows "\<exists>log s. path_to_root (local_fs cfg) codec EVENTS_DIR head limit (conv_log c) (conv_store c) =
      Some (Inr (last_n limit (branch_of es head)), log, s) \<and>
    conv_ok cfg codec (c\<lparr>conv_log := log, conv_store := s\<rparr>) es"
proof (cases head)
  case None
  have "c\<lparr>conv_log := conv_log c, conv_store := conv_store c\<rparr> = c" by simp
  with None ok show ?thesis
    by (intro exI [of _ "conv_log c"] exI [of _ "conv_store c"])
      (simp add: path_to_root_def walk_to_root.simps branch_of_def last_n_def split: option.splits)
next
  case (Some x)
  note D = conv_okD [OF ok]
  have x: "x \<in> ev_id ` set es" using head Some by simp
  from event_directory.walk_to_root_branch [OF store_laws_directory [OF laws] D(1-5)
      reads_backD [OF D(6)] index_of_less [OF x], of "[]" limit "[]"]
  obtain log s where
    w: "walk_to_root (local_fs cfg) codec EVENTS_DIR limit (Some (ev_id (es ! index_of es x))) [] []
        (conv_log c) (conv_store c) = Some (Inr (last_n limit (branch es (index_of es x) @ [])), log, s)"
      "events_ok cfg s" "event_files cfg s = event_files cfg (conv_store c)" "knows_prefix log es"
      "log_length log = length es" by auto
  show ?thesis
    using w(1) ev_id_index_of [OF x] Some conv_ok_reread [OF ok w(2-5)]
    by (intro exI [of _ log] exI [of _ s]) (simp add: path_to_root_def branch_of_def)
qed

lemma head_of_same: "same_fields c c' \<Longrightarrow> head_of c' es = head_of c es"
  by (simp add: head_of_def same_fields_def)


text \<open>Field changes inside a \<open>with\<close> block touch nothing else.\<close>

lemma set_in_block:
  assumes "0 < conv_save_depth c"
  shows "set_leaf fs dump guard x c =
      (Inr (), c\<lparr>leaf_event_id := x, conv_dirty := (conv_dirty c \<or> (conv_autosave c \<and> leaf_event_id c \<noteq> x))\<rparr>)"
    and "set_head_empty fs dump guard b c =
      (Inr (), c\<lparr>head_is_empty := b, conv_dirty := (conv_dirty c \<or> (conv_autosave c \<and> head_is_empty c \<noteq> b))\<rparr>)"
  using assms by (cases c; simp add: set_leaf_def set_head_empty_def autosave_def)+

section \<open>Appending\<close>

lemma with_parent_simps [simp]:
  "ev_id (with_parent p e) = ev_id e" "ev_parent_id (with_parent p e) = p"
  by (simp_all add: with_parent_def)

lemma is_state_update_with_parent [simp]: "is_state_update (with_parent p e) = is_state_update e"
  by (cases e) (auto simp: with_parent_def)




section \<open>The view\<close>

text \<open>The walk from an event stops at the cached leaf when it lies on the branch, else at the root.\<close>

lemma walk_tail_ok:
  assumes laws: "store_laws cfg" and "conv_ok cfg codec c es"
    and "\<And>x. head = Some x \<Longrightarrow> x \<in> ev_id ` set es"
  shows "\<exists>cur rest log s. walk_tail (local_fs cfg) codec EVENTS_DIR stop head acc (conv_log c) (conv_store c) =
      Some (Inr (cur, rest @ acc), log, s) \<and> branch_of es head = branch_of es cur @ rest \<and>
    (cur = None \<or> cur = stop) \<and> conv_ok cfg codec (c\<lparr>conv_log := log, conv_store := s\<rparr>) es"
  using assms(2,3)
proof (induction "case head of None \<Rightarrow> 0 | Some x \<Rightarrow> Suc (index_of es x)" arbitrary: head acc c rule: less_induct)
  case less
  have keep: "c\<lparr>conv_log := conv_log c, conv_store := conv_store c\<rparr> = c" by simp
  show ?case
  proof (cases "head = None \<or> head = stop")
    case True
    then show ?thesis using less.prems(1) keep
      by (intro exI [of _ head] exI [of _ "[]"] exI [of _ "conv_log c"] exI [of _ "conv_store c"])
        (auto simp: walk_tail.simps)
  next
    case False
    then obtain x where x: "head = Some x" "x \<in> ev_id ` set es" using less.prems(2) by auto
    let ?i = "index_of es x"
    note D = conv_okD [OF less.prems(1)]
    have i: "?i < length es" "ev_id (es ! ?i) = x" using index_of_less ev_id_index_of x(2) by auto
    have d: "distinct (map ev_id es)" using D(2) by (simp add: holds_events_def)
    have "map_of (id_to_idx (conv_log c)) x = Some ?i"
      using D(3,4) i unfolding knows_prefix_def by simp
    then have gi: "get_index (conv_log c) x = Inr ?i" by (simp add: get_index_def)
    note G = event_directory.get_single_item_current [OF store_laws_directory [OF laws] D(1-3)]
    obtain log1 s1 where g: "get_single_item (local_fs cfg) codec EVENTS_DIR (int ?i) (conv_log c)
        (conv_store c) = (Inr (es ! ?i), log1, s1)" "events_ok cfg s1"
      "event_files cfg s1 = event_files cfg (conv_store c)" "knows_prefix log1 es" "log_length log1 = length es"
      using G [of ?i] reads_backD [OF D(6)] i(1) D(4) by auto
    let ?c1 = "c\<lparr>conv_log := log1, conv_store := s1\<rparr>"
    have ok1: "conv_ok cfg codec ?c1 es" by (rule conv_ok_reread [OF less.prems(1) g(2-5)])
    let ?p = "map_option (\<lambda>j. ev_id (es ! j)) (parent_index es ?i)"
    have ep: "effective_parent_id log1 ?i (es ! ?i) = Inr ?p"
      by (rule event_directory.effective_parent_current
          [OF store_laws_directory [OF laws] g(4,5) D(5) d i(1)])
    have step: "walk_tail (local_fs cfg) codec EVENTS_DIR stop head acc (conv_log c) (conv_store c) =
        walk_tail (local_fs cfg) codec EVENTS_DIR stop ?p (es ! ?i # acc) log1 s1"
      using False x(1) gi g(1) ep by (subst walk_tail.simps) simp
    have less_parent: "j < ?i" if "parent_index es ?i = Some j" for j
      by (rule parent_index_less [OF D(5) d i(1) that])
    have known: "y \<in> ev_id ` set es" if "?p = Some y" for y
      using that less_parent i(1) by (auto intro!: imageI nth_mem)
    have down: "(case ?p of None \<Rightarrow> 0 | Some y \<Rightarrow> Suc (index_of es y)) < Suc ?i"
    proof (cases "parent_index es ?i")
      case (Some j)
      then show ?thesis using less_parent [OF Some] index_of_nth [OF d, of j] i(1) by simp
    qed simp
    have br: "branch_of es head = branch_of es ?p @ [es ! ?i]"
    proof (cases "parent_index es ?i")
      case None
      then show ?thesis using x(1) by (simp add: branch_of_def branch_def ancestry.simps)
    next
      case (Some j)
      then show ?thesis using x(1) less_parent [OF Some] index_of_nth [OF d, of j] i(1)
        by (simp add: branch_of_def branch_def ancestry.simps [of es ?i])
    qed
    have "\<exists>cur rest log s. walk_tail (local_fs cfg) codec EVENTS_DIR stop ?p (es ! ?i # acc)
          (conv_log ?c1) (conv_store ?c1) = Some (Inr (cur, rest @ es ! ?i # acc), log, s) \<and>
        branch_of es ?p = branch_of es cur @ rest \<and> (cur = None \<or> cur = stop) \<and>
        conv_ok cfg codec (?c1\<lparr>conv_log := log, conv_store := s\<rparr>) es"
      by (rule less.hyps [OF _ ok1 known]) (use down x(1) in simp)
    then obtain cur rest log s where
      w: "walk_tail (local_fs cfg) codec EVENTS_DIR stop ?p (es ! ?i # acc) log1 s1 =
          Some (Inr (cur, rest @ es ! ?i # acc), log, s)"
        "branch_of es ?p = branch_of es cur @ rest" "cur = None \<or> cur = stop"
        "conv_ok cfg codec (c\<lparr>conv_log := log, conv_store := s\<rparr>) es" by auto
    then show ?thesis using step br
      by (intro exI [of _ cur] exI [of _ "rest @ [es ! ?i]"] exI [of _ log] exI [of _ s]) simp
  qed
qed

text \<open>The cached view: rebuilt from a part of the branch of its leaf, then extended by the rest.\<close>

definition view_of :: "event list \<Rightarrow> view \<Rightarrow> bool" where
  "view_of B v \<longleftrightarrow> (\<exists>k \<le> length B. v = append_events (from_events (take k B)) (drop k B))"

definition cache_current :: "event list \<Rightarrow> 's conversation \<Rightarrow> bool" where
  "cache_current es c \<longleftrightarrow>
     view_of (branch_of es (view_branch_leaf c)) (conv_view c) \<and>
     (\<forall>x. view_branch_leaf c = Some x \<longrightarrow> x \<in> ev_id ` set es)"

lemma view_of_rebuilt: "view_of B (from_events B)"
  unfolding view_of_def by (intro exI [of _ "length B"]) (simp add: append_events_def)

lemma view_of_extended:
  assumes "view_of B v" shows "view_of (B @ rest) (append_events v rest)"
proof -
  from assms obtain k where "k \<le> length B" "v = append_events (from_events (take k B)) (drop k B)"
    by (auto simp: view_of_def)
  then show ?thesis unfolding view_of_def
    by (intro exI [of _ k]) (simp add: append_events_def)
qed

lemma rebuilt_ok:
  assumes "store_laws cfg" and "conv_ok cfg codec c es"
    and "\<And>x. head = Some x \<Longrightarrow> x \<in> ev_id ` set es"
  shows "\<exists>c'. rebuilt (local_fs cfg) codec EVENTS_DIR head c =
      Some (Inr (from_events (branch_of es head)), c') \<and> conv_ok cfg codec c' es \<and>
    view_branch_leaf c' = head \<and> conv_view c' = from_events (branch_of es head) \<and> cache_current es c'"
proof -
  from path_ok [OF assms(1-3), of head None] obtain log s where
    p: "path_to_root (local_fs cfg) codec EVENTS_DIR head None (conv_log c) (conv_store c) =
        Some (Inr (branch_of es head), log, s)"
      "conv_ok cfg codec (c\<lparr>conv_log := log, conv_store := s\<rparr>) es"
    by (auto simp: last_n_def)
  let ?c = "c\<lparr>conv_log := log, conv_store := s,
    conv_view := from_events (branch_of es head), view_branch_leaf := head\<rparr>"
  have "conv_ok cfg codec ?c es" using p(2) by (simp add: conv_ok_def)
  moreover have "cache_current es ?c" using view_of_rebuilt assms(3) by (simp add: cache_current_def)
  ultimately show ?thesis using p(1) by (intro exI [of _ ?c]) (simp add: rebuilt_def Let_def)
qed

lemma current_view_ok:
  assumes laws: "store_laws cfg" and ok: "conv_ok cfg codec c es" and cache: "cache_current es c"
  shows "\<exists>v c'. current_view (local_fs cfg) codec EVENTS_DIR c = Some (Inr v, c') \<and>
    conv_ok cfg codec c' es \<and> cache_current es c' \<and> view_branch_leaf c' = head_of c es \<and>
    conv_view c' = v"
proof -
  let ?h = "head_of c es"
  from resolve_ok [OF laws ok] obtain c1 where
    r: "resolve_active_leaf (local_fs cfg) codec EVENTS_DIR c = (Inr ?h, c1)"
      "same_fields c c1" "conv_ok cfg codec c1 es" by blast
  have cache1: "cache_current es c1" using cache r(2) by (simp add: cache_current_def same_fields_def)
  have known: "x \<in> ev_id ` set es" if "?h = Some x" for x
    using head_of_known [OF conv_okD(8) [OF ok] that] .
  show ?thesis
  proof (cases "?h = view_branch_leaf c1")
    case True
    then have "current_view (local_fs cfg) codec EVENTS_DIR c = Some (Inr (conv_view c1), c1)"
      using r(1) by (simp add: current_view_def)
    with True r(3) cache1 show ?thesis
      by (intro exI [of _ "conv_view c1"] exI [of _ c1]) simp
  next
    case False
    from walk_tail_ok [where head = ?h and stop = "view_branch_leaf c1" and acc = "[]", OF laws r(3) known] obtain cur rest log s where
      w: "walk_tail (local_fs cfg) codec EVENTS_DIR (view_branch_leaf c1) ?h [] (conv_log c1) (conv_store c1)
          = Some (Inr (cur, rest), log, s)" "branch_of es ?h = branch_of es cur @ rest"
        "conv_ok cfg codec (c1\<lparr>conv_log := log, conv_store := s\<rparr>) es" by auto
    let ?c2 = "c1\<lparr>conv_log := log, conv_store := s\<rparr>"
    show ?thesis
    proof (cases "cur = view_branch_leaf c1")
      case True
      let ?v = "append_events (conv_view c1) rest"
      let ?c3 = "?c2\<lparr>conv_view := ?v, view_branch_leaf := ?h\<rparr>"
      have "current_view (local_fs cfg) codec EVENTS_DIR c = Some (Inr ?v, ?c3)"
        using r(1) False w(1) True by (simp add: current_view_def Let_def)
      moreover have "conv_ok cfg codec ?c3 es" using w(3) by (simp add: conv_ok_def)
      moreover have "cache_current es ?c3"
        using view_of_extended [of "branch_of es cur" "conv_view c1" rest] cache1 True w(2) known
        by (simp add: cache_current_def)
      ultimately show ?thesis by (intro exI [of _ ?v] exI [of _ ?c3]) simp
    next
      case not_anc: False
      have "current_view (local_fs cfg) codec EVENTS_DIR c = rebuilt (local_fs cfg) codec EVENTS_DIR ?h ?c2"
        using r(1) False w(1) not_anc by (simp add: current_view_def Let_def)
      with rebuilt_ok [OF laws w(3) known] show ?thesis by fastforce
    qed
  qed
qed

lemma append_events_contents_view:
  assumes "view_of B v" and "e \<in> set (view_events v)"
  shows "e \<in> set B \<and> is_llm_convertible e \<or> (\<exists>m c. Condensation m c \<in> set B \<and> summary_event m c = Inr e)"
proof -
  from assms(1) obtain k where v: "v = append_events (from_events (take k B)) (drop k B)"
    by (auto simp: view_of_def)
  have fresh: "x \<in> set es \<and> is_llm_convertible x \<or>
      (\<exists>m c. Condensation m c \<in> set es \<and> summary_event m c = Inr x)"
    if "x \<in> set (view_events (from_events es))" for x es
  proof -
    have "x \<in> set (view_events (append_events empty_view es))"
      using that subseq_subset [OF enforce_properties_subseq] unfolding from_events_def by blast
    with append_events_contents [of empty_view es] show ?thesis by (auto simp: empty_view_def)
  qed
  have sub: "set (take k B) \<subseteq> set B" "set (drop k B) \<subseteq> set B"
    by (simp_all add: set_take_subset set_drop_subset)
  show ?thesis
    using append_events_contents [of "from_events (take k B)" "drop k B"] assms(2) v
      fresh [of e "take k B"] sub by blast
qed

section \<open>Navigation\<close>

lemma rebuild_view_ok:
  assumes laws: "store_laws cfg" and ok: "conv_ok cfg codec c es"
  shows "\<exists>c'. rebuild_view (local_fs cfg) codec EVENTS_DIR c = Some (Inr (), c') \<and>
    conv_ok cfg codec c' es \<and> cache_current es c' \<and> head_of c' es = head_of c es \<and>
    view_branch_leaf c' = head_of c es \<and> conv_view c' = from_events (branch_of es (head_of c es)) \<and>
    conv_save_depth c' = conv_save_depth c"
proof -
  let ?h = "head_of c es"
  from resolve_ok [OF laws ok] obtain c1 where
    r: "resolve_active_leaf (local_fs cfg) codec EVENTS_DIR c = (Inr ?h, c1)"
      "same_fields c c1" "conv_ok cfg codec c1 es" by blast
  have known: "x \<in> ev_id ` set es" if "?h = Some x" for x
    using head_of_known [OF conv_okD(8) [OF ok] that] .
  from path_ok [where head = ?h and limit = None, OF laws r(3) known] obtain log s where
    p: "path_to_root (local_fs cfg) codec EVENTS_DIR ?h None (conv_log c1) (conv_store c1) =
        Some (Inr (branch_of es ?h), log, s)"
      "conv_ok cfg codec (c1\<lparr>conv_log := log, conv_store := s\<rparr>) es"
    by (auto simp: last_n_def)
  let ?c = "c1\<lparr>conv_log := log, conv_store := s, conv_view := from_events (branch_of es ?h),
    view_branch_leaf := ?h\<rparr>"
  have "rebuild_view (local_fs cfg) codec EVENTS_DIR c = Some (Inr (), ?c)"
    using r(1) p(1) by (simp add: rebuild_view_def)
  moreover have "conv_ok cfg codec ?c es" using p(2) by (simp add: conv_ok_def)
  moreover have "cache_current es ?c" using view_of_rebuilt known by (simp add: cache_current_def)
  moreover have "head_of ?c es = ?h" using r(2) by (simp add: head_of_def same_fields_def)
  moreover have "conv_save_depth ?c = conv_save_depth c" using r(2) by (simp add: same_fields_def)
  ultimately show ?thesis by (intro exI [of _ ?c]) simp
qed

lemma exit_nested:
  "1 < conv_save_depth c \<Longrightarrow>
     exit_block fs dump guard c = (Inr (), c\<lparr>conv_save_depth := conv_save_depth c - 1\<rparr>)"
  by (simp add: exit_block_def Let_def)

lemma navigate_run:
  assumes "event_id = None \<or> log_contains (conv_log (enter_block c)) (the event_id)"
    and "set_leaf fs dump guard event_id (enter_block c) = (Inr (), c1)"
    and "set_head_empty fs dump guard (event_id = None) c1 = (Inr (), c2)"
    and "rebuild_view fs codec dir c2 = Some (Inr (), c3)"
    and "exit_block fs dump guard c3 = (Inr (), c4)"
  shows "navigate_to fs codec dir dump guard event_id c = Some (Inr (), c4)"
  using assms by (auto simp: navigate_to_def Let_def)

lemma navigate_ok:
  assumes laws: "store_laws cfg" and ok: "conv_ok cfg codec c es" and block: "0 < conv_save_depth c"
    and known: "\<And>x. target = Some x \<Longrightarrow> x \<in> ev_id ` set es"
  shows "\<exists>c'. navigate_to (local_fs cfg) codec EVENTS_DIR dump guard target c = Some (Inr (), c') \<and>
    conv_ok cfg codec c' es \<and> cache_current es c' \<and> head_of c' es = target \<and>
    conv_view c' = from_events (branch_of es target)"
proof -
  let ?c0 = "enter_block c"
  have depth: "conv_save_depth ?c0 = Suc (conv_save_depth c)" by (simp add: enter_block_def)
  let ?c1 = "?c0\<lparr>leaf_event_id := target,
    conv_dirty := (conv_dirty ?c0 \<or> (conv_autosave ?c0 \<and> leaf_event_id ?c0 \<noteq> target))\<rparr>"
  let ?c2 = "?c1\<lparr>head_is_empty := (target = None),
    conv_dirty := (conv_dirty ?c1 \<or> (conv_autosave ?c1 \<and> head_is_empty ?c1 \<noteq> (target = None)))\<rparr>"
  have sets: "set_leaf (local_fs cfg) dump guard target ?c0 = (Inr (), ?c1)"
    "set_head_empty (local_fs cfg) dump guard (target = None) ?c1 = (Inr (), ?c2)"
    using depth by (simp_all add: set_in_block)
  have ok2: "conv_ok cfg codec ?c2 es" using ok known by (simp add: conv_ok_def enter_block_def)
  have head: "head_of ?c2 es = target" by (simp add: head_of_def)
  from rebuild_view_ok [OF laws ok2] head obtain c3 where
    r: "rebuild_view (local_fs cfg) codec EVENTS_DIR ?c2 = Some (Inr (), c3)" "conv_ok cfg codec c3 es"
      "cache_current es c3" "head_of c3 es = target"
      "conv_view c3 = from_events (branch_of es target)" "conv_save_depth c3 = Suc (conv_save_depth c)"
    using depth by auto
  let ?c4 = "c3\<lparr>conv_save_depth := conv_save_depth c3 - 1\<rparr>"
  have contains: "target = None \<or> log_contains (conv_log ?c0) (the target)"
    using known knows_prefix_contains [OF conv_okD(3,4) [OF ok]]
    by (cases target) (simp_all add: enter_block_def)
  have ex: "exit_block (local_fs cfg) dump guard c3 = (Inr (), ?c4)"
    using exit_nested [of c3] block r(6) by simp
  have "navigate_to (local_fs cfg) codec EVENTS_DIR dump guard target c = Some (Inr (), ?c4)"
    using navigate_run [OF contains sets r(1) ex] .
  moreover have "conv_ok cfg codec ?c4 es" using r(2) by (simp add: conv_ok_def)
  moreover have "cache_current es ?c4" using r(3) by (simp add: cache_current_def)
  moreover have "head_of ?c4 es = head_of c3 es" by (simp add: head_of_def)
  ultimately show ?thesis using r(4,5) by (intro exI [of _ ?c4]) simp
qed

lemma navigate_unknown:
  assumes "conv_ok cfg codec c es" and "0 < conv_save_depth c" and "x \<notin> ev_id ` set es"
  shows "navigate_to fs codec dir dump guard (Some x) c = Some (Inl ValueError, c)"
proof -
  have "\<not> log_contains (conv_log (enter_block c)) x"
    using assms(3) knows_prefix_contains [OF conv_okD(3,4) [OF assms(1)]] by (simp add: enter_block_def)
  moreover have "exit_block fs dump guard (enter_block c) = (Inr (), c)"
    using exit_nested [of "enter_block c"] assms(2) by (simp add: enter_block_def)
  ultimately show ?thesis by (simp add: navigate_to_def Let_def)
qed

section \<open>Properties\<close>




text \<open>A fresh conversation, and one with two events whose head is the second.\<close>

definition sample_conversation ::
    "local_store \<Rightarrow> event_log \<Rightarrow> event_id option \<Rightarrow> local_store conversation" where
  "sample_conversation s log leaf =
     \<lparr>conv_store = s, conv_log = log, leaf_event_id = leaf, head_is_empty = False,
      conv_view = from_events [], view_branch_leaf = None, conv_autosave = True, conv_save_depth = 1,
      conv_dirty = False\<rparr>"

lemma tiny_laws: "store_laws tiny_config"
  using tiny_config_ok by (simp add: store_laws_def)


lemma pair_conversation_ok:
  "conv_ok tiny_config sample_codec (sample_conversation pair_store pair_log (Some ''bbbbbbbb''))
     [first_event, second_event]"
proof -
  have "parents_precede [first_event, second_event]"
    by (auto simp: parents_precede_def less_Suc_eq)
  then show ?thesis using pair_sim sample_reads_back
    by (simp add: conv_ok_def sample_conversation_def pair_log_def ROOT_PARENT_ID_def)
qed

lemma pair_conversation_cache:
  "cache_current es (sample_conversation pair_store pair_log (Some ''bbbbbbbb''))"
  using view_of_rebuilt [of "[]"] by (simp add: cache_current_def sample_conversation_def branch_of_def)


text \<open>
  C26. The view follows the active branch: however the cached view is brought up to date, by replaying the
  new tail or by a rebuild, it is a view built from the active branch only, and no event of an
  abandoned branch is in it; the cache stays valid.
\<close>

theorem view_follows_active_branch:
  assumes "store_laws cfg" and "conv_ok cfg codec c es" and "cache_current es c"
  shows "\<exists>v c'. current_view (local_fs cfg) codec EVENTS_DIR c = Some (Inr v, c') \<and>
    conv_ok cfg codec c' es \<and> cache_current es c' \<and> view_of (branch_of es (head_of c es)) v \<and>
    (\<forall>e \<in> set (view_events v). e \<in> set (branch_of es (head_of c es)) \<or>
      (\<exists>m k. Condensation m k \<in> set (branch_of es (head_of c es)) \<and> summary_event m k = Inr e))"
proof -
  from current_view_ok [OF assms] obtain v c' where
    v: "current_view (local_fs cfg) codec EVENTS_DIR c = Some (Inr v, c')" "conv_ok cfg codec c' es"
      "cache_current es c'" "view_branch_leaf c' = head_of c es" "conv_view c' = v" by blast
  then have "view_of (branch_of es (head_of c es)) v" by (auto simp: cache_current_def)
  with v append_events_contents_view [OF this] show ?thesis by blast
qed

theorem view_follows_active_branch_witness:
  "\<exists>v c'. current_view (local_fs tiny_config) sample_codec EVENTS_DIR
      (sample_conversation pair_store pair_log (Some ''bbbbbbbb'')) = Some (Inr v, c')"
  using view_follows_active_branch [OF tiny_laws pair_conversation_ok pair_conversation_cache] by blast

text \<open>
  Navigation: moving the head to a known event, or to none, makes its path the active branch and
  rebuilds the view from it; an unknown event is refused and nothing changes.
\<close>

theorem navigation_moves_head:
  assumes "store_laws cfg" and "conv_ok cfg codec c es" and "0 < conv_save_depth c"
  shows "if \<exists>x. target = Some x \<and> x \<notin> ev_id ` set es
    then navigate_to (local_fs cfg) codec EVENTS_DIR dump guard target c = Some (Inl ValueError, c)
    else \<exists>c'. navigate_to (local_fs cfg) codec EVENTS_DIR dump guard target c = Some (Inr (), c') \<and>
      conv_ok cfg codec c' es \<and> cache_current es c' \<and> head_of c' es = target \<and>
      conv_view c' = from_events (branch_of es target)"
  using navigate_ok [OF assms, of target] navigate_unknown [OF assms(2,3)] by auto

theorem navigation_moves_head_witness:
  "\<exists>c'. navigate_to (local_fs tiny_config) sample_codec EVENTS_DIR (\<lambda>_. []) None (Some ''aaaaaaaa'')
      (sample_conversation pair_store pair_log (Some ''bbbbbbbb'')) = Some (Inr (), c') \<and>
    head_of c' [first_event, second_event] = Some ''aaaaaaaa''"
  using navigation_moves_head [OF tiny_laws pair_conversation_ok, of "Some ''aaaaaaaa''" "\<lambda>_. []" None]
  by (auto simp: sample_conversation_def)

end
