(* ===== verification/Hooks.thy ===== *)
theory Hooks
  imports Text_Utils Samples
begin

text \<open>
  Hooks (\<^verbatim>\<open>hooks/types.py\<close>, \<^verbatim>\<open>config.py\<close>, \<^verbatim>\<open>executor.py\<close>, \<^verbatim>\<open>manager.py\<close>): matching hooks to events,
  reading a verdict from a hook's process or answer, running the hooks of an event and deciding
  whether the operation goes on. What a process or a model answers, JSON decoding and regular
  expressions are arguments, collected in \<open>hook_env\<close>. The dash in the source's messages, which is
  not a Latin-1 character, is written as two hyphens.
\<close>

section \<open>Data\<close>

datatype hook_event_type =
  PreToolUse | PostToolUse | UserPromptSubmit | SessionStart | SessionEnd | StopEvent

record hook_event =
  hev_type :: hook_event_type
  hev_tool_name :: "string option"
  hev_tool_input :: "string option"
  hev_tool_response :: "string option"
  hev_message :: "string option"
  hev_reason :: "string option"
  hev_stop_hook_active :: bool

definition create_event :: "hook_event_type \<Rightarrow> hook_event" where
  "create_event t = \<lparr>hev_type = t, hev_tool_name = None, hev_tool_input = None,
     hev_tool_response = None, hev_message = None, hev_reason = None, hev_stop_hook_active = False\<rparr>"

datatype hook_decision = ALLOW | DENY

record hook_result =
  hr_success :: bool
  hr_blocked :: bool
  hr_exit_code :: int
  hr_stdout :: string
  hr_stderr :: string
  hr_decision :: "hook_decision option"
  hr_reason :: "string option"
  hr_additional_context :: "string option"
  hr_error :: "string option"
  hr_async_started :: bool

definition default_result :: hook_result where
  "default_result = \<lparr>hr_success = True, hr_blocked = False, hr_exit_code = 0, hr_stdout = [],
     hr_stderr = [], hr_decision = None, hr_reason = None, hr_additional_context = None,
     hr_error = None, hr_async_started = False\<rparr>"

definition should_continue :: "hook_result \<Rightarrow> bool" where
  "should_continue r =
     (if hr_blocked r then False else if hr_decision r = Some DENY then False else True)"

datatype hook_type = HookCommand | HookPrompt | HookAgent

record hook_definition =
  hook_type :: hook_type
  hook_name :: "string option"
  hook_command :: string
  hook_prompt :: "string option"
  hook_system_prompt :: "string option"
  hook_timeout :: nat
  hook_async :: bool

text \<open>\<open>_validate_type_fields\<close>: an empty string counts as missing.\<close>

definition given :: "string option \<Rightarrow> bool" where
  "given s \<longleftrightarrow> s \<noteq> None \<and> s \<noteq> Some []"

definition validate_type_fields :: "hook_definition \<Rightarrow> hook_definition result" where
  "validate_type_fields h =
     (if hook_type h = HookCommand \<and> hook_command h = [] then Inl ValueError
      else if hook_type h = HookPrompt \<and> \<not> given (hook_prompt h) then Inl ValueError
      else if hook_type h = HookPrompt \<and> hook_command h \<noteq> [] then Inl ValueError
      else if hook_type h = HookPrompt \<and> hook_async h then Inl ValueError
      else if hook_type h = HookAgent \<and> hook_command h \<noteq> [] then Inl ValueError
      else if hook_type h = HookAgent \<and> hook_async h then Inl ValueError
      else Inr h)"

fun hook_type_value :: "hook_type \<Rightarrow> string" where
  "hook_type_value HookCommand = ''command''"
| "hook_type_value HookPrompt = ''prompt''"
| "hook_type_value HookAgent = ''agent''"

definition display_command :: "hook_definition \<Rightarrow> string" where
  "display_command h =
     (let label = hook_type_value (hook_type h) @ ''-hook:'' in
      if hook_command h \<noteq> [] then hook_command h
      else case hook_name h of
          Some n \<Rightarrow> label @ n
        | None \<Rightarrow>
            if hook_type h = HookPrompt \<and> given (hook_prompt h)
            then label @ take 20 (the (hook_prompt h))
            else if hook_type h = HookAgent \<and> given (hook_system_prompt h)
            then label @ take 20 (the (hook_system_prompt h))
            else label @ hook_type_value (hook_type h))"

record hook_matcher =
  hm_matcher :: string
  hm_hooks :: "hook_definition list"

record hook_config =
  pre_tool_use :: "hook_matcher list"
  post_tool_use :: "hook_matcher list"
  user_prompt_submit :: "hook_matcher list"
  session_start :: "hook_matcher list"
  session_end :: "hook_matcher list"
  stop_hooks :: "hook_matcher list"

text \<open>
  A decoded JSON value, as far as the code looks at it: a string, or a value of another type with
  the name of its type, its \<open>str\<close> and its truth value.
\<close>

datatype json_value = JString string | JOther string string bool

type_synonym json_object = "(string \<times> json_value) list"

text \<open>What comes back from a process, and from an evaluation by a model.\<close>

datatype process_outcome =
    Exited int string string
  | ProcTimedOut
  | ProcNotFound string
  | ProcFailed string

datatype hook_answer = NoLLM | Answered string | AnswerFailed string

text \<open>
  The outside of the hooks: processes, models, the start of a background process (an error, if it
  fails), \<open>json.loads\<close> (\<open>Some None\<close> for a document that is no object), the first JSON object in a
  text, and \<open>re.fullmatch\<close> (\<open>None\<close> for a pattern that is no regular expression).
\<close>

record hook_env =
  he_process :: "hook_definition \<Rightarrow> hook_event \<Rightarrow> process_outcome"
  he_answer :: "hook_definition \<Rightarrow> hook_event \<Rightarrow> hook_answer"
  he_start :: "hook_definition \<Rightarrow> hook_event \<Rightarrow> string option"
  he_loads :: "string \<Rightarrow> json_object option option"
  he_first_object :: "string \<Rightarrow> json_object option"
  he_fullmatch :: "string \<Rightarrow> string \<Rightarrow> bool option"

section \<open>Matching\<close>

definition REGEX_METACHARACTERS :: string where
  "REGEX_METACHARACTERS = ''|.*+?[]()^$'' @ [CHR 0x5C]"

definition matches :: "hook_env \<Rightarrow> hook_matcher \<Rightarrow> string option \<Rightarrow> bool" where
  "matches env m tool_name =
     (let p = hm_matcher m in
      if p = ''*'' \<or> p = [] then True
      else case tool_name of
          None \<Rightarrow> False
        | Some t \<Rightarrow>
            if hd p = CHR ''/'' \<and> last p = CHR ''/'' \<and> 2 < length p
            then he_fullmatch env (butlast (tl p)) t = Some True
            else if list_ex (\<lambda>c. c \<in> set REGEX_METACHARACTERS) p
            then (case he_fullmatch env p t of Some b \<Rightarrow> b | None \<Rightarrow> p = t)
            else p = t)"

fun matchers_for_event :: "hook_config \<Rightarrow> hook_event_type \<Rightarrow> hook_matcher list" where
  "matchers_for_event c PreToolUse = pre_tool_use c"
| "matchers_for_event c PostToolUse = post_tool_use c"
| "matchers_for_event c UserPromptSubmit = user_prompt_submit c"
| "matchers_for_event c SessionStart = session_start c"
| "matchers_for_event c SessionEnd = session_end c"
| "matchers_for_event c StopEvent = stop_hooks c"

definition get_hooks_for_event ::
    "hook_env \<Rightarrow> hook_config \<Rightarrow> hook_event_type \<Rightarrow> string option \<Rightarrow> hook_definition list" where
  "get_hooks_for_event env c t tool_name =
     concat (map hm_hooks (filter (\<lambda>m. matches env m tool_name) (matchers_for_event c t)))"

definition has_hooks_for_event :: "hook_config \<Rightarrow> hook_event_type \<Rightarrow> bool" where
  "has_hooks_for_event c t \<longleftrightarrow> 0 < length (matchers_for_event c t)"

definition config_is_empty :: "hook_config \<Rightarrow> bool" where
  "config_is_empty c \<longleftrightarrow>
     \<not> (pre_tool_use c \<noteq> [] \<or> post_tool_use c \<noteq> [] \<or> user_prompt_submit c \<noteq> [] \<or>
        session_start c \<noteq> [] \<or> session_end c \<noteq> [] \<or> stop_hooks c \<noteq> [])"

definition merge_configs :: "hook_config list \<Rightarrow> hook_config option" where
  "merge_configs cs =
     (if cs = [] then None
      else let merged =
            \<lparr>pre_tool_use = concat (map pre_tool_use cs), post_tool_use = concat (map post_tool_use cs),
             user_prompt_submit = concat (map user_prompt_submit cs),
             session_start = concat (map session_start cs),
             session_end = concat (map session_end cs), stop_hooks = concat (map stop_hooks cs)\<rparr>
        in if config_is_empty merged then None else Some merged)"

section \<open>Reading a verdict\<close>

fun json_str :: "json_value \<Rightarrow> string" where
  "json_str (JString s) = s"
| "json_str (JOther _ s _) = s"

fun json_truthy :: "json_value \<Rightarrow> bool" where
  "json_truthy (JString s) = (s \<noteq> [])"
| "json_truthy (JOther _ _ b) = b"

text \<open>\<open>str.lower\<close> on Latin-1 text, and \<open>str\<close> of an integer.\<close>

definition lower_char :: "char \<Rightarrow> char" where
  "lower_char c =
     (let n = of_char c :: nat
      in if (65 \<le> n \<and> n \<le> 90) \<or> (192 \<le> n \<and> n \<le> 222 \<and> n \<noteq> 215) then char_of (n + 32) else c)"

definition lower :: "string \<Rightarrow> string" where
  "lower = map lower_char"

definition show_int :: "int \<Rightarrow> string" where
  "show_int i = (if i < 0 then ''-'' @ dec (nat (- i)) else dec (nat i))"

definition quoted :: "string \<Rightarrow> string" where
  "quoted s = [CHR 0x27] @ s @ [CHR 0x27]"

text \<open>
  The fields of the JSON object on standard output. A decision that is no string has no
  \<open>lower\<close>: the result is the error text of the exception.
\<close>

definition apply_decision :: "json_object \<Rightarrow> hook_result \<Rightarrow> string + hook_result" where
  "apply_decision d r =
     (case map_of d ''decision'' of
        None \<Rightarrow> Inr r
      | Some (JOther ty _ _) \<Rightarrow> Inl (quoted ty @ '' object has no attribute '' @ quoted ''lower'')
      | Some (JString s) \<Rightarrow>
          Inr (if lower s = ''allow'' then r\<lparr>hr_decision := Some ALLOW\<rparr>
               else if lower s = ''deny'' then r\<lparr>hr_decision := Some DENY, hr_blocked := True\<rparr>
               else r))"

definition apply_output :: "json_object \<Rightarrow> hook_result \<Rightarrow> string + hook_result" where
  "apply_output d r =
     (case apply_decision d r of
        Inl e \<Rightarrow> Inl e
      | Inr r1 \<Rightarrow>
          let r2 = (case map_of d ''reason'' of None \<Rightarrow> r1 | Some v \<Rightarrow> r1\<lparr>hr_reason := Some (json_str v)\<rparr>);
              r3 = (case map_of d ''additionalContext'' of
                      None \<Rightarrow> r2 | Some v \<Rightarrow> r2\<lparr>hr_additional_context := Some (json_str v)\<rparr>)
          in Inr (case map_of d ''continue'' of
                    None \<Rightarrow> r3
                  | Some v \<Rightarrow> if json_truthy v then r3 else r3\<lparr>hr_blocked := True\<rparr>))"

definition failed_result :: "string \<Rightarrow> hook_result" where
  "failed_result e =
     default_result\<lparr>hr_success := False, hr_exit_code := - 1, hr_error := Some e\<rparr>"

definition exit_result :: "int \<Rightarrow> string \<Rightarrow> string \<Rightarrow> hook_result" where
  "exit_result code out err =
     default_result\<lparr>hr_success := (code = 0), hr_blocked := (code = 2), hr_exit_code := code,
       hr_stdout := out, hr_stderr := err,
       hr_error := (if code = 0 \<or> code = 2 then None
                    else Some (''Hook exited with code '' @ show_int code))\<rparr>"

definition command_result :: "hook_env \<Rightarrow> hook_definition \<Rightarrow> process_outcome \<Rightarrow> hook_result" where
  "command_result env h outcome =
     (case outcome of
        ProcTimedOut \<Rightarrow>
          failed_result (''Hook timed out after '' @ show_int (int (hook_timeout h)) @ '' seconds'')
      | ProcNotFound e \<Rightarrow> failed_result (''Hook command not found: '' @ e)
      | ProcFailed e \<Rightarrow> failed_result (''Hook execution failed: '' @ e)
      | Exited code out err \<Rightarrow>
          let r = exit_result code out err
          in if strip out = [] then r
             else case he_loads env out of
                 Some (Some d) \<Rightarrow>
                   (case apply_output d r of
                      Inl e \<Rightarrow> failed_result (''Hook execution failed: '' @ e)
                    | Inr r' \<Rightarrow> r')
               | _ \<Rightarrow> r)"

definition fall_open :: "string \<Rightarrow> string option \<Rightarrow> hook_result" where
  "fall_open reason error =
     default_result\<lparr>hr_success := False, hr_decision := Some ALLOW, hr_reason := Some reason,
       hr_error := Some (case error of Some e \<Rightarrow> if e = [] then reason else e | None \<Rightarrow> reason)\<rparr>"

definition hook_label :: "hook_type \<Rightarrow> string" where
  "hook_label t = (if t = HookAgent then ''Agent hook'' else ''Prompt hook'')"

definition parse_decision :: "hook_env \<Rightarrow> string \<Rightarrow> hook_type \<Rightarrow> hook_result" where
  "parse_decision env raw t =
     (if raw = [] then
        fall_open (hook_label t @ '' produced no final response -- defaulting to allow'') None
      else case he_first_object env raw of
          None \<Rightarrow> fall_open (hook_label t @ '' returned no parseable JSON -- defaulting to allow'') None
        | Some d \<Rightarrow>
            let decision_str = lower (case map_of d ''decision'' of None \<Rightarrow> [] | Some v \<Rightarrow> json_str v);
                reason = (case map_of d ''reason'' of None \<Rightarrow> [] | Some v \<Rightarrow> json_str v)
            in if decision_str = ''deny'' then
                 default_result\<lparr>hr_blocked := True, hr_decision := Some DENY, hr_reason := Some reason\<rparr>
               else if decision_str = ''allow'' then
                 default_result\<lparr>hr_decision := Some ALLOW, hr_reason := Some reason\<rparr>
               else fall_open (hook_label t @ '' returned an invalid decision -- defaulting to allow'') None)"

section \<open>Running hooks\<close>

definition execute :: "hook_env \<Rightarrow> hook_definition \<Rightarrow> hook_event \<Rightarrow> hook_result" where
  "execute env h ev =
     (if hook_type h = HookAgent \<or> hook_type h = HookPrompt then
        (case he_answer env h ev of
           NoLLM \<Rightarrow> fall_open (''No LLM configured for '' @ hook_type_value (hook_type h) @ '' hook'') None
         | AnswerFailed e \<Rightarrow>
             fall_open (hook_label (hook_type h) @ '' execution failed -- defaulting to allow'') (Some e)
         | Answered raw \<Rightarrow> parse_decision env raw (hook_type h))
      else if hook_command h = [] then
        default_result\<lparr>hr_success := False, hr_exit_code := - 1,
          hr_error := Some (quoted ''command'' @ '' is required when type is '' @ quoted ''command'')\<rparr>
      else if hook_async h then
        (case he_start env h ev of
           None \<Rightarrow> default_result\<lparr>hr_async_started := True\<rparr>
         | Some e \<Rightarrow> failed_result (''Failed to start async hook: '' @ e))
      else command_result env h (he_process env h ev))"

fun execute_all :: "hook_env \<Rightarrow> hook_definition list \<Rightarrow> hook_event \<Rightarrow> bool \<Rightarrow> hook_result list" where
  "execute_all env [] ev stop_on_block = []"
| "execute_all env (h # hs) ev stop_on_block =
     (let r = execute env h ev
      in r # (if stop_on_block \<and> hr_blocked r then [] else execute_all env hs ev stop_on_block))"

definition run_pre_tool_use ::
    "hook_env \<Rightarrow> hook_config \<Rightarrow> string \<Rightarrow> string \<Rightarrow> bool \<times> hook_result list" where
  "run_pre_tool_use env c tool_name tool_input =
     (let hooks = get_hooks_for_event env c PreToolUse (Some tool_name) in
      if hooks = [] then (True, [])
      else
        let results = execute_all env hooks ((create_event PreToolUse)
              \<lparr>hev_tool_name := Some tool_name, hev_tool_input := Some tool_input\<rparr>) True
        in (list_all should_continue results, results))"

definition run_post_tool_use ::
    "hook_env \<Rightarrow> hook_config \<Rightarrow> string \<Rightarrow> string \<Rightarrow> string \<Rightarrow> hook_result list" where
  "run_post_tool_use env c tool_name tool_input tool_response =
     execute_all env (get_hooks_for_event env c PostToolUse (Some tool_name))
       ((create_event PostToolUse)\<lparr>hev_tool_name := Some tool_name, hev_tool_input := Some tool_input,
          hev_tool_response := Some tool_response\<rparr>) False"

definition contexts :: "hook_result list \<Rightarrow> string list" where
  "contexts results =
     map (\<lambda>r. the (hr_additional_context r)) (filter (\<lambda>r. given (hr_additional_context r)) results)"

definition run_user_prompt_submit ::
    "hook_env \<Rightarrow> hook_config \<Rightarrow> string \<Rightarrow> bool \<times> string option \<times> hook_result list" where
  "run_user_prompt_submit env c message =
     (let hooks = get_hooks_for_event env c UserPromptSubmit None in
      if hooks = [] then (True, None, [])
      else
        let results = execute_all env hooks
              ((create_event UserPromptSubmit)\<lparr>hev_message := Some message\<rparr>) True;
            parts = contexts results
        in (list_all should_continue results, if parts = [] then None else Some (join [CHR 0x0A] parts),
            results))"

definition run_stop ::
    "hook_env \<Rightarrow> hook_config \<Rightarrow> string option \<Rightarrow> bool \<Rightarrow> bool \<times> hook_result list" where
  "run_stop env c reason stop_hook_active =
     (let hooks = get_hooks_for_event env c StopEvent None in
      if hooks = [] then (True, [])
      else
        let results = execute_all env hooks
              ((create_event StopEvent)\<lparr>hev_reason := (if given reason then reason else None),
                 hev_stop_hook_active := stop_hook_active\<rparr>) True
        in (list_all (\<lambda>r. should_continue r \<and> \<not> (\<not> hr_success r \<and> given (hr_error r))) results,
            results))"

definition run_session_hooks :: "hook_env \<Rightarrow> hook_config \<Rightarrow> hook_event_type \<Rightarrow> hook_result list" where
  "run_session_hooks env c t =
     execute_all env (get_hooks_for_event env c t None) (create_event t) False"

fun get_blocking_reason :: "hook_result list \<Rightarrow> string option" where
  "get_blocking_reason [] = None"
| "get_blocking_reason (r # rs) =
     (if hr_blocked r then
        (if given (hr_reason r) then hr_reason r
         else if hr_stderr r \<noteq> [] then Some (strip (hr_stderr r))
         else Some ''Blocked by hook'')
      else if \<not> hr_success r \<and> given (hr_error r) then hr_error r
      else get_blocking_reason rs)"

section \<open>Who decides\<close>

lemma apply_decision_deny:
  "apply_decision d r = Inr r' \<Longrightarrow> hr_decision r \<noteq> Some DENY \<Longrightarrow> hr_decision r' = Some DENY \<Longrightarrow>
     hr_blocked r'"
  by (auto simp: apply_decision_def split: option.splits json_value.splits if_splits)

lemma apply_output_deny:
  assumes "apply_output d r = Inr r'" and "hr_decision r \<noteq> Some DENY" and "hr_decision r' = Some DENY"
  shows "hr_blocked r'"
proof -
  from assms(1) obtain r1 where r1: "apply_decision d r = Inr r1"
    by (auto simp: apply_output_def split: sum.splits)
  with assms have "hr_decision r1 = Some DENY"
    by (auto simp: apply_output_def Let_def split: option.splits if_splits)
  from apply_decision_deny [OF r1 assms(2) this] r1 assms(1) show ?thesis
    by (auto simp: apply_output_def Let_def split: option.splits if_splits)
qed

lemma fall_open_fields [simp]:
  "hr_decision (fall_open reason e) = Some ALLOW" "\<not> hr_blocked (fall_open reason e)"
  by (simp_all add: fall_open_def default_result_def)

lemma failed_result_fields [simp]:
  "hr_decision (failed_result e) = None" "\<not> hr_blocked (failed_result e)"
  by (simp_all add: failed_result_def default_result_def)

lemma exit_result_fields [simp]:
  "hr_decision (exit_result code out err) = None" "hr_blocked (exit_result code out err) = (code = 2)"
  by (simp_all add: exit_result_def default_result_def)

lemma command_result_deny:
  "hr_decision (command_result env h outcome) = Some DENY \<Longrightarrow> hr_blocked (command_result env h outcome)"
  using apply_output_deny
  by (fastforce simp: command_result_def Let_def split: process_outcome.splits if_splits option.splits sum.splits)

text \<open>A denial is always also a block.\<close>

lemma execute_continues: "should_continue (execute env h ev) \<longleftrightarrow> \<not> hr_blocked (execute env h ev)"
  using command_result_deny [of env h "he_process env h ev"]
  by (auto simp: execute_def should_continue_def parse_decision_def default_result_def Let_def
      split: hook_answer.splits option.splits)

lemma execute_all_continues:
  assumes "\<And>h. h \<in> set hs \<Longrightarrow> P (execute env h ev) \<Longrightarrow> \<not> hr_blocked (execute env h ev)"
  shows "list_all P (execute_all env hs ev True) \<longleftrightarrow> (\<forall>h \<in> set hs. P (execute env h ev))"
  using assms by (induction hs) (auto simp: Let_def)

lemma execute_all_should_continue [simp]:
  "list_all should_continue (execute_all env hs ev True) \<longleftrightarrow>
     (\<forall>h \<in> set hs. \<not> hr_blocked (execute env h ev))"
  using execute_all_continues [where P = should_continue] by (simp add: execute_continues)

lemma execute_all_stops:
  "list_all (\<lambda>r. should_continue r \<and> \<not> (\<not> hr_success r \<and> given (hr_error r))) (execute_all env hs ev True) \<longleftrightarrow>
     (\<forall>h \<in> set hs. \<not> hr_blocked (execute env h ev) \<and>
        (hr_success (execute env h ev) \<or> \<not> given (hr_error (execute env h ev))))"
  using execute_all_continues [where P = "\<lambda>r. should_continue r \<and> \<not> (\<not> hr_success r \<and> given (hr_error r))"]
  by (simp add: execute_continues)

lemma blocked_has_reason:
  "\<not> list_all should_continue (execute_all env hs ev True) \<Longrightarrow>
     get_blocking_reason (execute_all env hs ev True) \<noteq> None"
  by (induction hs) (auto simp: Let_def execute_continues given_def)

text \<open>
  An operation goes on exactly when no hook that matches it blocks: hooks after the first block are
  not run, but none of them could have let it through. A hook that fails lets a tool call pass, and
  keeps the agent from stopping.
\<close>

theorem hooks_decide:
  "(fst (run_pre_tool_use env c tool_name tool_input) \<longleftrightarrow>
      (\<forall>h \<in> set (get_hooks_for_event env c PreToolUse (Some tool_name)).
        \<not> hr_blocked (execute env h ((create_event PreToolUse)
          \<lparr>hev_tool_name := Some tool_name, hev_tool_input := Some tool_input\<rparr>)))) \<and>
   (fst (run_stop env c None active) \<longleftrightarrow>
      (\<forall>h \<in> set (get_hooks_for_event env c StopEvent None).
        let r = execute env h ((create_event StopEvent)\<lparr>hev_stop_hook_active := active\<rparr>)
        in \<not> hr_blocked r \<and> (hr_success r \<or> \<not> given (hr_error r))))"
proof
  show "fst (run_pre_tool_use env c tool_name tool_input) \<longleftrightarrow>
      (\<forall>h \<in> set (get_hooks_for_event env c PreToolUse (Some tool_name)).
        \<not> hr_blocked (execute env h ((create_event PreToolUse)
          \<lparr>hev_tool_name := Some tool_name, hev_tool_input := Some tool_input\<rparr>)))"
    by (auto simp: run_pre_tool_use_def Let_def)
next
  have ev: "(create_event StopEvent)\<lparr>hev_reason := None, hev_stop_hook_active := active\<rparr> =
      (create_event StopEvent)\<lparr>hev_stop_hook_active := active\<rparr>"
    by (simp add: create_event_def)
  show "fst (run_stop env c None active) \<longleftrightarrow>
      (\<forall>h \<in> set (get_hooks_for_event env c StopEvent None).
        let r = execute env h ((create_event StopEvent)\<lparr>hev_stop_hook_active := active\<rparr>)
        in \<not> hr_blocked r \<and> (hr_success r \<or> \<not> given (hr_error r)))"
    using execute_all_stops by (auto simp: run_stop_def Let_def ev given_def [of None])
qed

text \<open>A hook environment whose processes all exit with one code and no output.\<close>

definition quiet_env :: "int \<Rightarrow> hook_env" where
  "quiet_env code =
     \<lparr>he_process = \<lambda>_ _. Exited code [] [], he_answer = \<lambda>_ _. NoLLM, he_start = \<lambda>_ _. None,
      he_loads = \<lambda>_. None, he_first_object = \<lambda>_. None, he_fullmatch = \<lambda>_ _. None\<rparr>"

definition sample_hook :: hook_definition where
  "sample_hook = \<lparr>hook_type = HookCommand, hook_name = None, hook_command = ''check.sh'',
     hook_prompt = None, hook_system_prompt = None, hook_timeout = 60, hook_async = False\<rparr>"

definition sample_hooks :: hook_config where
  "sample_hooks = (let ms = [\<lparr>hm_matcher = ''*'', hm_hooks = [sample_hook]\<rparr>]
     in \<lparr>pre_tool_use = ms, post_tool_use = [], user_prompt_submit = ms, session_start = [],
         session_end = [], stop_hooks = ms\<rparr>)"

lemma quiet_execute [simp]: "execute (quiet_env code) sample_hook ev = exit_result code [] []"
  by (simp add: execute_def sample_hook_def quiet_env_def command_result_def strip_def)

lemma sample_hooks_for [simp]:
  "get_hooks_for_event env sample_hooks PreToolUse n = [sample_hook]"
  "get_hooks_for_event env sample_hooks UserPromptSubmit n = [sample_hook]"
  "get_hooks_for_event env sample_hooks StopEvent n = [sample_hook]"
  by (simp_all add: get_hooks_for_event_def sample_hooks_def matches_def Let_def)

theorem hooks_decide_witness:
  "fst (run_pre_tool_use (quiet_env 1) sample_hooks ''terminal'' ''{}'') \<and>
   \<not> fst (run_pre_tool_use (quiet_env 2) sample_hooks ''terminal'' ''{}'') \<and>
   \<not> fst (run_stop (quiet_env 1) sample_hooks None False)"
  using hooks_decide [of "quiet_env 1" sample_hooks "''terminal''" "''{}''" False]
    hooks_decide [of "quiet_env 2" sample_hooks "''terminal''" "''{}''" False]
  by (simp add: Let_def given_def exit_result_def default_result_def)

end
