(* ===== verification/Stuck_Detector.thy ===== *)
theory Stuck_Detector
  imports Event_Log_Laws Samples
begin

text \<open>
  The stuck detector of \<^verbatim>\<open>agentrt/sdk/conversation/stuck_detector.py\<close>. The active branch of the
  conversation is an argument, root first; \<open>active_branch(limit=n)\<close> is its last \<open>n\<close> events.
\<close>

definition MAX_EVENTS_TO_SCAN :: nat where
  "MAX_EVENTS_TO_SCAN = 20"

record stuck_thresholds =
  th_action_observation :: nat
  th_action_error :: nat
  th_monologue :: nat
  th_alternating_pattern :: nat

definition default_thresholds :: stuck_thresholds where
  "default_thresholds = \<lparr>th_action_observation = 4, th_action_error = 3, th_monologue = 3,
     th_alternating_pattern = 6\<rparr>"

text \<open>The validation of the fields: \<open>ge=1\<close>.\<close>

definition valid_thresholds :: "stuck_thresholds \<Rightarrow> bool" where
  "valid_thresholds th \<longleftrightarrow>
     1 \<le> th_action_observation th \<and> 1 \<le> th_action_error th \<and> 1 \<le> th_monologue th \<and>
     1 \<le> th_alternating_pattern th"

record detector =
  last_nudged_error_event_id :: "event_id option"
  resume_marker_event_id :: "event_id option"

definition new_detector :: detector where
  "new_detector = \<lparr>last_nudged_error_event_id = None, resume_marker_event_id = None\<rparr>"

definition mark_resumed :: "event list \<Rightarrow> detector \<Rightarrow> detector" where
  "mark_resumed path det =
     (let events = last_n (Some 1) path
      in det\<lparr>resume_marker_event_id := (if events \<noteq> [] then Some (ev_id (last events)) else None)\<rparr>)"

text \<open>The slice after the last element with a property; the whole list when there is none.\<close>

definition after_last :: "('a \<Rightarrow> bool) \<Rightarrow> 'a list \<Rightarrow> 'a list" where
  "after_last P xs = rev (takeWhile (\<lambda>x. \<not> P x) (rev xs))"

fun is_user_message :: "event \<Rightarrow> bool" where
  "is_user_message (MessageEvent m _) = (meta_source m = SourceUser)"
| "is_user_message _ = False"

definition events_since_last_user_message :: "detector \<Rightarrow> event list \<Rightarrow> event list" where
  "events_since_last_user_message det path =
     (let events = after_last is_user_message (last_n (Some MAX_EVENTS_TO_SCAN) path)
      in case resume_marker_event_id det of
           None \<Rightarrow> events
         | Some marker \<Rightarrow> after_last (\<lambda>e. ev_id e = marker) events)"

text \<open>
  The loop over the reversed events that collects the last \<open>n\<close> actions and the last \<open>n\<close> events
  that count as observations.
\<close>

definition collect_step ::
    "(event \<Rightarrow> bool) \<Rightarrow> nat \<Rightarrow> event \<Rightarrow> event list \<times> event list \<Rightarrow> event list \<times> event list" where
  "collect_step is_obs n e found =
     (if is_action e \<and> length (fst found) < n then (fst found @ [e], snd found)
      else if is_obs e \<and> length (snd found) < n then (fst found, snd found @ [e])
      else found)"

fun collect_from ::
    "(event \<Rightarrow> bool) \<Rightarrow> nat \<Rightarrow> event list \<Rightarrow> event list \<times> event list \<Rightarrow> event list \<times> event list" where
  "collect_from is_obs n [] found = found"
| "collect_from is_obs n (e # es) found =
     (let found' = collect_step is_obs n e found
      in if n \<le> length (fst found') \<and> n \<le> length (snd found') then found'
         else collect_from is_obs n es found')"

definition collect_actions_and_observations ::
    "event list \<Rightarrow> nat \<Rightarrow> event list \<times> event list" where
  "collect_actions_and_observations events max_needed =
     collect_from is_observation_base max_needed (rev events) ([], [])"

definition event_eq :: "event \<Rightarrow> event \<Rightarrow> bool" where
  "event_eq event1 event2 =
     (case event1 of
        ActionEvent m1 a1 \<Rightarrow>
          (case event2 of
             ActionEvent m2 a2 \<Rightarrow>
               meta_source m1 = meta_source m2 \<and> ae_thought a1 = ae_thought a2 \<and>
               ae_action a1 = ae_action a2 \<and> ae_tool_name a1 = ae_tool_name a2
           | _ \<Rightarrow> False)
      | ObservationEvent m1 o1 \<Rightarrow>
          (case event2 of
             ObservationEvent m2 o2 \<Rightarrow>
               meta_source m1 = meta_source m2 \<and> oe_observation o1 = oe_observation o2 \<and>
               oe_tool_name o1 = oe_tool_name o2
           | _ \<Rightarrow> False)
      | AgentErrorEvent m1 e1 \<Rightarrow>
          (case event2 of
             AgentErrorEvent m2 e2 \<Rightarrow> meta_source m1 = meta_source m2 \<and> ee_error e1 = ee_error e2
           | _ \<Rightarrow> False)
      | MessageEvent m1 e1 \<Rightarrow>
          (case event2 of
             MessageEvent m2 e2 \<Rightarrow>
               meta_source m1 = meta_source m2 \<and> me_llm_message e1 = me_llm_message e2
           | _ \<Rightarrow> False)
      | _ \<Rightarrow> event1 = event2)"

definition stuck_repeating_action_observation ::
    "stuck_thresholds \<Rightarrow> event list \<Rightarrow> event list \<Rightarrow> bool" where
  "stuck_repeating_action_observation th acts obs =
     (let threshold = th_action_observation th
      in threshold \<le> length acts \<and> threshold \<le> length obs \<and>
         list_all (event_eq (hd acts)) (take threshold acts) \<and>
         list_all (event_eq (hd obs)) (take threshold obs))"

fun is_error_observation :: "event \<Rightarrow> bool" where
  "is_error_observation (ObservationEvent _ x) = obs_is_error (oe_observation x)"
| "is_error_observation _ = False"

fun is_agent_error :: "event \<Rightarrow> bool" where
  "is_agent_error (AgentErrorEvent _ _) = True"
| "is_agent_error _ = False"

fun is_observation_event :: "event \<Rightarrow> bool" where
  "is_observation_event (ObservationEvent _ _) = True"
| "is_observation_event _ = False"

text \<open>Does the pair continue the streak?\<close>

definition continues_streak :: "event \<Rightarrow> event \<Rightarrow> event \<times> event \<Rightarrow> bool" where
  "continues_streak reference reference_observation p =
     (case p of (act, ob) \<Rightarrow>
        event_eq reference act \<and>
        (if is_observation_event reference_observation then event_eq reference_observation ob
         else is_agent_error ob))"

definition action_error_streak :: "event list \<Rightarrow> event list \<Rightarrow> nat" where
  "action_error_streak acts obs =
     (if acts = [] \<or> obs = [] then 0
      else if \<not> is_agent_error (hd obs) \<and> \<not> is_error_observation (hd obs) then 0
      else length (takeWhile (continues_streak (hd acts) (hd obs)) (zip acts obs)))"

definition stuck_repeating_action_error ::
    "stuck_thresholds \<Rightarrow> event list \<Rightarrow> event list \<Rightarrow> bool" where
  "stuck_repeating_action_error th acts obs \<longleftrightarrow>
     th_action_error th < action_error_streak acts obs"

text \<open>The count of trailing agent messages; summaries and messages of the environment do not break it.\<close>

fun agent_messages :: "event list \<Rightarrow> nat" where
  "agent_messages [] = 0"
| "agent_messages (e # es) =
     (case e of
        MessageEvent m _ \<Rightarrow>
          (if meta_source m = SourceAgent then Suc (agent_messages es)
           else if meta_source m = SourceUser then 0 else agent_messages es)
      | CondensationSummaryEvent _ _ \<Rightarrow> agent_messages es
      | _ \<Rightarrow> 0)"

definition stuck_monologue :: "stuck_thresholds \<Rightarrow> event list \<Rightarrow> bool" where
  "stuck_monologue th events \<longleftrightarrow>
     th_monologue th \<le> length events \<and> th_monologue th \<le> agent_messages (rev events)"

fun is_observation_or_error :: "event \<Rightarrow> bool" where
  "is_observation_or_error (ObservationEvent _ _) = True"
| "is_observation_or_error (AgentErrorEvent _ _) = True"
| "is_observation_or_error _ = False"

definition alternates :: "nat \<Rightarrow> event list \<Rightarrow> bool" where
  "alternates threshold xs \<longleftrightarrow> list_all (\<lambda>i. event_eq (xs ! i) (xs ! (i + 2))) [0..<threshold - 2]"

definition stuck_alternating :: "stuck_thresholds \<Rightarrow> event list \<Rightarrow> bool" where
  "stuck_alternating th events =
     (let threshold = th_alternating_pattern th;
          (acts, obs) = collect_from is_observation_or_error threshold (rev events) ([], [])
      in length acts = threshold \<and> length obs = threshold \<and>
         alternates threshold acts \<and> alternates threshold obs)"

definition is_stuck :: "stuck_thresholds \<Rightarrow> detector \<Rightarrow> event list \<Rightarrow> bool" where
  "is_stuck th det path =
     (let events = events_since_last_user_message det path;
          min_threshold = min (th_action_observation th) (min (th_action_error th) (th_monologue th))
      in if length events < min_threshold then False
         else
           let max_needed = max (th_action_observation th) (th_action_error th + 1);
               (acts, obs) = collect_actions_and_observations events max_needed
           in stuck_repeating_action_observation th acts obs \<or>
              stuck_repeating_action_error th acts obs \<or> stuck_monologue th events \<or>
              (th_alternating_pattern th \<le> length events \<and> stuck_alternating th events))"

text \<open>The text of an error: of the error event, or the texts of the observation joined by blanks.\<close>

fun error_text :: "event \<Rightarrow> string" where
  "error_text (AgentErrorEvent _ x) = ee_error x"
| "error_text (ObservationEvent _ x) =
     join '' '' (List.map_filter (\<lambda>c. case c of TextContent s \<Rightarrow> Some s | _ \<Rightarrow> None)
       (to_llm_content (oe_observation x)))"
| "error_text _ = []"

fun action_tool_name :: "event \<Rightarrow> string" where
  "action_tool_name (ActionEvent _ a) = ae_tool_name a"
| "action_tool_name _ = []"

text \<open>The nudge; the dash of the source is written with two hyphens.\<close>

definition nudge_text :: "nat \<Rightarrow> event \<Rightarrow> event \<Rightarrow> string" where
  "nudge_text threshold act err =
     ''You've called `'' @ action_tool_name act @ ''` with the same arguments '' @ dec threshold @
     '' times in a row and gotten the same error each time: '' @ error_text err @
     ''. Repeating the exact same call again will not work -- review the error message and either correct the arguments or try a different approach.''"

definition get_action_error_nudge ::
    "stuck_thresholds \<Rightarrow> event list \<Rightarrow> detector \<Rightarrow> string option \<times> detector" where
  "get_action_error_nudge th path det =
     (let events = events_since_last_user_message det path;
          threshold = th_action_error th;
          (acts, obs) = collect_actions_and_observations events (threshold + 1)
      in if action_error_streak acts obs \<noteq> threshold then (None, det)
         else
           let act = hd acts; err = hd obs
           in if last_nudged_error_event_id det = Some (ev_id err) then (None, det)
              else (Some (nudge_text threshold act err),
                    det\<lparr>last_nudged_error_event_id := Some (ev_id err)\<rparr>))"

section \<open>The collecting loop\<close>

lemma collect_from_eq:
  assumes "\<And>e. is_obs e \<Longrightarrow> \<not> is_action e" and "length acts \<le> n" and "length obs \<le> n"
    and "length acts < n \<or> length obs < n"
  shows "collect_from is_obs n es (acts, obs) =
    (acts @ take (n - length acts) (filter is_action es), obs @ take (n - length obs) (filter is_obs es))"
  using assms(2-4)
proof (induction es arbitrary: acts obs)
  case (Cons e es)
  obtain acts' obs' where s: "collect_step is_obs n e (acts, obs) = (acts', obs')" by fastforce
  have le: "length acts' \<le> n" "length obs' \<le> n"
    using s Cons.prems by (auto simp: collect_step_def split: if_splits)
  have t: "acts' @ take (n - length acts') (filter is_action es) =
      acts @ take (n - length acts) (filter is_action (e # es))"
    "obs' @ take (n - length obs') (filter is_obs es) =
      obs @ take (n - length obs) (filter is_obs (e # es))"
    using s assms(1) [of e] by (auto simp: collect_step_def take_Cons' split: if_splits)
  show ?case
  proof (cases "n \<le> length acts' \<and> n \<le> length obs'")
    case True
    with le have "length acts' = n" "length obs' = n" by auto
    with True t s show ?thesis by (simp del: filter.simps)
  next
    case False
    then have "length acts' < n \<or> length obs' < n" by auto
    from Cons.IH [OF le this] False t s show ?thesis by (auto simp: Let_def simp del: filter.simps)
  qed
qed simp

lemma collect_eq:
  assumes "0 < n"
  shows "collect_actions_and_observations es n =
    (take n (filter is_action (rev es)), take n (filter is_observation_base (rev es)))"
  using assms by (simp add: collect_actions_and_observations_def collect_from_eq)

section \<open>Helper facts\<close>

lemma event_eq_refl [simp]: "event_eq e e"
  by (cases e) (auto simp: event_eq_def)

lemma after_last_length: "length (after_last P xs) \<le> length xs"
  unfolding after_last_def by (metis length_rev length_takeWhile_le)

lemma after_last_append: "after_last P (xs @ ys) = (if list_ex P ys then after_last P ys else after_last P xs @ ys)"
proof (cases "list_ex P ys")
  case True
  then obtain y where "y \<in> set (rev ys)" "P y" by (auto simp: list_ex_iff)
  then have "takeWhile (\<lambda>x. \<not> P x) (rev ys @ rev xs) = takeWhile (\<lambda>x. \<not> P x) (rev ys)"
    by (intro takeWhile_append1 [of y]) auto
  then show ?thesis using True by (simp add: after_last_def)
next
  case False
  then have "takeWhile (\<lambda>x. \<not> P x) (rev ys @ rev xs) = rev ys @ takeWhile (\<lambda>x. \<not> P x) (rev xs)"
    by (intro takeWhile_append2) (auto simp: list_ex_iff)
  then show ?thesis using False by (simp add: after_last_def)
qed

lemma after_last_hit: "P x \<Longrightarrow> after_last P (xs @ [x]) = []"
  by (simp add: after_last_def)

lemma after_last_bound: "P x \<Longrightarrow> length (after_last P (zs @ x # ys)) \<le> length ys"
  using after_last_append [of P "zs @ [x]" ys] after_last_hit [of P x zs] after_last_length [of P ys]
  by (auto split: if_splits)

lemma last_n_length: "length (last_n (Some n) xs) \<le> n"
  by (simp add: last_n_def)

lemma last_n_append: "length ys \<le> n \<Longrightarrow> \<exists>zs. last_n (Some n) (xs @ ys) = zs @ ys"
  by (simp add: last_n_def)

lemma since_length: "length (events_since_last_user_message det path) \<le> MAX_EVENTS_TO_SCAN"
proof -
  let ?w = "last_n (Some MAX_EVENTS_TO_SCAN) path"
  have "length (after_last is_user_message ?w) \<le> MAX_EVENTS_TO_SCAN"
    using after_last_length [of is_user_message ?w] last_n_length [of MAX_EVENTS_TO_SCAN path] by simp
  moreover have "length (after_last P (after_last is_user_message ?w)) \<le>
      length (after_last is_user_message ?w)" for P by (rule after_last_length)
  ultimately show ?thesis
    by (auto simp: events_since_last_user_message_def Let_def split: option.splits intro: le_trans)
qed

text \<open>A short tail without user message or marker is judged as a whole.\<close>

lemma since_tail:
  assumes "length ys \<le> MAX_EVENTS_TO_SCAN" and "list_all (\<lambda>e. \<not> is_user_message e) ys"
    and "\<And>m. resume_marker_event_id det = Some m \<Longrightarrow> m \<notin> ev_id ` set ys"
  shows "\<exists>zs. events_since_last_user_message det (xs @ ys) = zs @ ys"
proof -
  obtain zs where z: "last_n (Some MAX_EVENTS_TO_SCAN) (xs @ ys) = zs @ ys"
    using last_n_append [OF assms(1)] by blast
  have "\<not> list_ex is_user_message ys" using assms(2) by (auto simp: list_ex_iff list_all_iff)
  moreover have "\<not> list_ex (\<lambda>e. ev_id e = m) ys" if "resume_marker_event_id det = Some m" for m
    using assms(3) [OF that] by (auto simp: list_ex_iff)
  ultimately show ?thesis
    by (auto simp: events_since_last_user_message_def z after_last_append Let_def split: option.splits)
qed

text \<open>After a user message, exactly the tail is judged.\<close>

lemma since_user_message:
  assumes "length ys < MAX_EVENTS_TO_SCAN" and "list_all (\<lambda>e. \<not> is_user_message e) ys"
    and "is_user_message u" and "resume_marker_event_id det = None"
  shows "events_since_last_user_message det (xs @ u # ys) = ys"
proof -
  obtain zs where z: "last_n (Some MAX_EVENTS_TO_SCAN) (xs @ [u] @ ys) = zs @ [u] @ ys"
    using last_n_append [of "[u] @ ys" MAX_EVENTS_TO_SCAN xs] assms(1) by auto
  have "\<not> list_ex is_user_message ys" using assms(2) by (auto simp: list_ex_iff list_all_iff)
  then have "after_last is_user_message ((zs @ [u]) @ ys) = ys"
    using assms(3) after_last_hit [of is_user_message u zs] by (simp only: after_last_append) simp
  then show ?thesis using z assms(4) by (simp add: events_since_last_user_message_def)
qed

text \<open>Actions each followed by its result.\<close>

definition turns :: "(event \<times> event) list \<Rightarrow> event list" where
  "turns ps = concat (map (\<lambda>(a, b). [a, b]) ps)"

lemma turns_simps [simp]: "turns [] = []" "turns ((a, b) # ps) = a # b # turns ps"
  "turns (ps @ qs) = turns ps @ turns qs"
  by (simp_all add: turns_def)

lemma length_turns [simp]: "length (turns ps) = 2 * length ps"
  by (induction ps) auto

definition proper_turns :: "(event \<times> event) list \<Rightarrow> bool" where
  "proper_turns ps \<longleftrightarrow> list_all (\<lambda>(a, b). is_action a \<and> is_observation_base b) ps"

lemma turns_filter:
  assumes "proper_turns ps"
  shows "filter is_action (rev (turns ps)) = rev (map fst ps)"
    and "filter is_observation_base (rev (turns ps)) = rev (map snd ps)"
  using assms by (induction ps) (auto simp: proper_turns_def)

lemma turns_no_user:
  assumes "proper_turns ps" shows "list_all (\<lambda>e. \<not> is_user_message e) (turns ps)"
proof -
  have "\<not> is_user_message e" if "is_action e \<or> is_observation_base e" for e using that by (cases e) auto
  then show ?thesis using assms by (induction ps) (auto simp: proper_turns_def)
qed

section \<open>Loops in the tail of a branch\<close>

lemma collect_turns:
  assumes "proper_turns ps" and "length ps = n" and "0 < n"
  shows "collect_actions_and_observations (zs @ turns ps) n = (rev (map fst ps), rev (map snd ps))"
  using assms by (simp add: collect_eq turns_filter)

lemma collect_last_turns:
  assumes "proper_turns ps" and "length ps \<le> n" and "0 < n"
  shows "\<exists>as os. collect_actions_and_observations (zs @ turns ps) n =
    (rev (map fst ps) @ as, rev (map snd ps) @ os)"
  using assms by (simp add: collect_eq turns_filter)

text \<open>
  Equal turns: all actions and all results are alike. Two events repeat each other when they agree in
  everything but ids, call ids, response ids, times and what the model thought on the side.
\<close>

definition alike :: "event list \<Rightarrow> bool" where
  "alike es \<longleftrightarrow> list_all (event_eq (last es)) es"

inductive repeats :: "event \<Rightarrow> event \<Rightarrow> bool" where
  "meta_source m = meta_source n \<Longrightarrow> ae_thought a = ae_thought b \<Longrightarrow> ae_action a = ae_action b \<Longrightarrow>
     ae_tool_name a = ae_tool_name b \<Longrightarrow> repeats (ActionEvent m a) (ActionEvent n b)"
| "meta_source m = meta_source n \<Longrightarrow> oe_observation x = oe_observation y \<Longrightarrow>
     oe_tool_name x = oe_tool_name y \<Longrightarrow> repeats (ObservationEvent m x) (ObservationEvent n y)"
| "meta_source m = meta_source n \<Longrightarrow> ee_error v = ee_error w \<Longrightarrow>
     repeats (AgentErrorEvent m v) (AgentErrorEvent n w)"

definition repetition :: "event list \<Rightarrow> bool" where
  "repetition es \<longleftrightarrow> (\<forall>e \<in> set es. repeats (last es) e)"

lemma repetition_alike: "repetition es \<Longrightarrow> alike es"
  unfolding repetition_def alike_def list_all_iff by (auto elim!: repeats.cases simp: event_eq_def)

lemma repeated_turns_stuck:
  assumes th: "valid_thresholds th" and n: "length ps = th_action_observation th"
    and fits: "2 * th_action_observation th \<le> MAX_EVENTS_TO_SCAN"
    and ps: "proper_turns ps" "alike (map fst ps)" "alike (map snd ps)"
    and marker: "\<And>m. resume_marker_event_id det = Some m \<Longrightarrow> m \<notin> ev_id ` set (turns ps)"
  shows "is_stuck th det (path @ turns ps)"
proof -
  obtain zs where z: "events_since_last_user_message det (path @ turns ps) = zs @ turns ps"
    using since_tail [where det = det and xs = path, OF _ turns_no_user [OF ps(1)] marker] n fits by auto
  let ?m = "max (th_action_observation th) (th_action_error th + 1)"
  obtain as os where c: "collect_actions_and_observations (zs @ turns ps) ?m =
      (rev (map fst ps) @ as, rev (map snd ps) @ os)"
    using collect_last_turns [OF ps(1), of ?m zs] n by (auto simp: less_max_iff_disj)
  have pos: "0 < th_action_observation th" "ps \<noteq> []" using th n by (auto simp: valid_thresholds_def)
  have "hd (rev (map f ps)) = last (map f ps)" for f :: "event \<times> event \<Rightarrow> event"
    using pos(2) by (simp add: hd_rev)
  then have "stuck_repeating_action_observation th (rev (map fst ps) @ as) (rev (map snd ps) @ os)"
    using ps(2,3) n pos(2)
    by (simp add: stuck_repeating_action_observation_def alike_def list_all_iff hd_append)
  moreover have "\<not> length (zs @ turns ps) <
      min (th_action_observation th) (min (th_action_error th) (th_monologue th))"
    using n by simp
  ultimately show ?thesis using z c by (simp add: is_stuck_def Let_def)
qed

lemma error_streak_turns:
  assumes "proper_turns ps" and "ps \<noteq> []" and "alike (map fst ps)"
    and "list_all (\<lambda>p. is_agent_error (snd p)) ps"
  shows "action_error_streak (rev (map fst ps)) (rev (map snd ps)) = length ps"
proof -
  let ?p = "last ps"
  have hd: "hd (rev (map fst ps)) = fst ?p" "hd (rev (map snd ps)) = snd ?p"
    using assms(2) by (simp_all add: hd_rev last_map)
  have err: "is_agent_error (snd ?p)" using assms(2,4) by (auto simp: list_all_iff)
  then have "\<not> is_observation_event (snd ?p)" by (cases "snd ?p") auto
  then have "continues_streak (fst ?p) (snd ?p) q" if "q \<in> set ps" for q
    using that assms(2,3,4) by (auto simp: continues_streak_def alike_def list_all_iff last_map split: prod.splits)
  moreover have "zip (rev (map fst ps)) (rev (map snd ps)) = rev ps"
    by (simp add: zip_rev zip_map_fst_snd)
  ultimately show ?thesis
    using assms(2) err hd by (simp add: action_error_streak_def takeWhile_eq_all_conv [THEN iffD2])
qed

section \<open>Branches without repetition\<close>

lemma event_eq_sym: "event_eq a b = event_eq b a"
  by (cases a; cases b) (auto simp: event_eq_def)

lemma after_last_suffix: "\<exists>zs. xs = zs @ after_last P xs"
  unfolding after_last_def
  by (metis rev_append rev_rev_ident takeWhile_dropWhile_id)

lemma since_suffix: "\<exists>zs. path = zs @ events_since_last_user_message det path"
proof -
  let ?w = "last_n (Some MAX_EVENTS_TO_SCAN) path"
  have "path = take (length path - MAX_EVENTS_TO_SCAN) path @ ?w"
    unfolding last_n_def by simp
  moreover obtain ys where "?w = ys @ after_last is_user_message ?w" using after_last_suffix by blast
  moreover obtain xs where "after_last is_user_message ?w =
      xs @ events_since_last_user_message det path"
    using after_last_suffix
    by (cases "resume_marker_event_id det") (auto simp: events_since_last_user_message_def Let_def)
  ultimately have "path = (take (length path - MAX_EVENTS_TO_SCAN) path @ ys @ xs) @
      events_since_last_user_message det path" by simp
  then show ?thesis by blast
qed

lemma agent_messages_append: "agent_messages xs \<le> agent_messages (xs @ ys)"
  by (induction xs) (auto split: event.splits)

text \<open>No two of the events are alike.\<close>

definition varied :: "event list \<Rightarrow> bool" where
  "varied es \<longleftrightarrow> sorted_wrt (\<lambda>a b. \<not> event_eq a b) es"

lemma varied_nth: "varied es \<Longrightarrow> i < j \<Longrightarrow> j < length es \<Longrightarrow> \<not> event_eq (es ! i) (es ! j)"
  unfolding varied_def by (rule sorted_wrt_nth_less)

lemma varied_recent: "varied (filter is_action es) \<Longrightarrow> varied (take n (filter is_action (rev es)))"
  unfolding varied_def rev_filter [symmetric]
  by (simp add: sorted_wrt_take sorted_wrt_rev event_eq_sym)

lemma varied_not_repeating:
  assumes "varied acts" and "2 \<le> th_action_observation th"
  shows "\<not> stuck_repeating_action_observation th acts obs"
proof
  assume s: "stuck_repeating_action_observation th acts obs"
  then have n: "2 \<le> length acts" and
    all: "list_all (event_eq (hd acts)) (take (th_action_observation th) acts)"
    using assms(2) by (auto simp: stuck_repeating_action_observation_def Let_def)
  then have "acts ! 1 \<in> set (take (th_action_observation th) acts)"
    using assms(2) by (auto simp: in_set_conv_nth intro!: exI [of _ 1])
  with all n have "event_eq (acts ! 0) (acts ! 1)" by (cases acts) (auto simp: list_all_iff)
  with varied_nth [OF assms(1), of 0 1] n show False by simp
qed

lemma varied_error_streak:
  assumes "varied acts"
  shows "action_error_streak acts obs \<le> 1"
proof (rule ccontr)
  let ?P = "continues_streak (hd acts) (hd obs)" and ?z = "zip acts obs"
  assume "\<not> action_error_streak acts obs \<le> 1"
  then have n: "1 < length (takeWhile ?P ?z)" by (auto simp: action_error_streak_def split: if_splits)
  then have len: "1 < length ?z" using length_takeWhile_le [of ?P ?z] by linarith
  have "?P (takeWhile ?P ?z ! 1)" using n nth_mem set_takeWhileD by metis
  then have "event_eq (hd acts) (acts ! 1)"
    using n len by (simp add: takeWhile_nth continues_streak_def)
  with varied_nth [OF assms, of 0 1] len show False by (cases acts) auto
qed

lemma varied_not_alternating:
  assumes "varied (filter is_action es)" and "3 \<le> th_alternating_pattern th"
  shows "\<not> stuck_alternating th es"
proof
  let ?n = "th_alternating_pattern th"
  let ?acts = "take ?n (filter is_action (rev es))"
  assume s: "stuck_alternating th es"
  have no: "is_observation_or_error e \<Longrightarrow> \<not> is_action e" for e by (cases e) auto
  have "collect_from is_observation_or_error ?n (rev es) ([], []) =
      (?acts, take ?n (filter is_observation_or_error (rev es)))"
    using collect_from_eq [where acts = "[]" and obs = "[]" and n = ?n and es = "rev es", OF no] assms(2)
    by simp
  with s have len: "length ?acts = ?n" and alt: "alternates ?n ?acts"
    by (auto simp: stuck_alternating_def Let_def)
  have "event_eq (?acts ! 0) (?acts ! 2)"
    using alt assms(2) by (force simp: alternates_def list_all_iff numeral_2_eq_2)
  with varied_nth [OF varied_recent [OF assms(1)], of 0 2 ?n] len assms(2) show False by simp
qed

section \<open>Properties\<close>

text \<open>
  C31. A loop is detected: when the branch ends in as many turns as the threshold says, all with the same
  action and the same result, the agent is stuck, whatever happened before. The turns have to fit the scan
  window and lie after the resume marker.
\<close>

theorem stuck_detects_loop:
  assumes "valid_thresholds th" and "length ps = th_action_observation th"
    and "2 * th_action_observation th \<le> MAX_EVENTS_TO_SCAN"
    and "proper_turns ps" and "repetition (map fst ps)" and "repetition (map snd ps)"
    and "\<forall>m. resume_marker_event_id det = Some m \<longrightarrow> m \<notin> ev_id ` set (turns ps)"
  shows "is_stuck th det (path @ turns ps)"
  using assms by (intro repeated_turns_stuck) (auto intro: repetition_alike)

text \<open>The same call with the same output, and the same failing call, over and over under new ids.\<close>

definition same_turns :: "nat \<Rightarrow> (event \<times> event) list" where
  "same_turns n =
     map (\<lambda>i. (sample_action (CHR ''a'' # dec i) (CHR ''t'' # dec i) (CHR ''r'' # dec i),
        sample_observation (CHR ''o'' # dec i) (CHR ''t'' # dec i) (CHR ''a'' # dec i))) [0..<n]"

definition failing_turns :: "nat \<Rightarrow> (event \<times> event) list" where
  "failing_turns n =
     map (\<lambda>i. (sample_action (CHR ''a'' # dec i) (CHR ''t'' # dec i) (CHR ''r'' # dec i),
        sample_error (CHR ''e'' # dec i) (CHR ''t'' # dec i))) [0..<n]"

lemmas sample_turn_defs = sample_action_def sample_action_of_def sample_observation_def
  sample_observation_of_def sample_error_def sample_message_def sample_meta_def

lemma sample_turns:
  "proper_turns (same_turns n)" "proper_turns (failing_turns n)"
  "repetition (map fst (same_turns n))" "repetition (map snd (same_turns n))"
  "repetition (map fst (failing_turns n))"
  "list_all (\<lambda>p. is_agent_error (snd p)) (failing_turns n)"
  by (cases n; auto simp: same_turns_def failing_turns_def proper_turns_def repetition_def list_all_iff
      sample_turn_defs last_map intro!: repeats.intros)+

theorem stuck_detects_loop_witness:
  "is_stuck default_thresholds new_detector (turns (same_turns 4))"
  using stuck_detects_loop [of default_thresholds "same_turns 4" new_detector "[]"] sample_turns
  by (simp add: default_thresholds_def valid_thresholds_def MAX_EVENTS_TO_SCAN_def new_detector_def
      same_turns_def)

text \<open>
  A failing call is first nudged, then stopped: after a user message, the same action that ends in
  agent errors as many times as the threshold says gives a nudge, exactly one for that error, and one
  more repetition is stuck. The texts of the errors need not be equal.
\<close>

theorem error_loop_nudged_then_stopped:
  assumes "valid_thresholds th" and "2 * (th_action_error th + 1) < MAX_EVENTS_TO_SCAN"
    and "is_user_message u" and "resume_marker_event_id det = None"
    and "proper_turns ps" and "repetition (map fst ps)" and "list_all (\<lambda>p. is_agent_error (snd p)) ps"
  shows "(length ps = th_action_error th \<and> last_nudged_error_event_id det \<noteq> Some (ev_id (snd (last ps))) \<longrightarrow>
      (\<exists>txt det'. get_action_error_nudge th (path @ u # turns ps) det = (Some txt, det') \<and>
        get_action_error_nudge th (path @ u # turns ps) det' = (None, det'))) \<and>
    (length ps = th_action_error th + 1 \<longrightarrow> is_stuck th det (path @ u # turns ps))"
proof (intro conjI impI)
  note streak = error_streak_turns [OF assms(5) _ repetition_alike [OF assms(6)] assms(7)]
  have since: "events_since_last_user_message d (path @ u # turns ps) = turns ps"
    if "resume_marker_event_id d = None" "length ps \<le> th_action_error th + 1" for d
    using since_user_message [OF _ turns_no_user [OF assms(5)] assms(3) that(1), of path] that(2) assms(2)
    by simp
  {
    assume n: "length ps = th_action_error th \<and>
      last_nudged_error_event_id det \<noteq> Some (ev_id (snd (last ps)))"
    then have ne: "ps \<noteq> []" using assms(1) by (auto simp: valid_thresholds_def)
    have c: "collect_actions_and_observations (turns ps) (th_action_error th + 1) =
        (rev (map fst ps), rev (map snd ps))"
      using n turns_filter [OF assms(5)] by (simp add: collect_eq)
    note st = streak [OF ne]
    have hd: "hd (rev (map snd ps)) = snd (last ps)" using ne by (simp add: hd_rev last_map)
    let ?det = "det\<lparr>last_nudged_error_event_id := Some (ev_id (snd (last ps)))\<rparr>"
    have first: "\<exists>txt. get_action_error_nudge th (path @ u # turns ps) det = (Some txt, ?det)"
      using since [OF assms(4)] n c st hd by (simp add: get_action_error_nudge_def Let_def)
    have "get_action_error_nudge th (path @ u # turns ps) ?det = (None, ?det)"
      using since [of ?det] assms(4) n c st hd by (simp add: get_action_error_nudge_def)
    with first show "\<exists>txt det'. get_action_error_nudge th (path @ u # turns ps) det = (Some txt, det') \<and>
        get_action_error_nudge th (path @ u # turns ps) det' = (None, det')" by blast
  next
    assume n: "length ps = th_action_error th + 1"
    then have ne: "ps \<noteq> []" by auto
    let ?m = "max (th_action_observation th) (th_action_error th + 1)"
    have c: "collect_actions_and_observations (turns ps) ?m = (rev (map fst ps), rev (map snd ps))"
      using n turns_filter [OF assms(5)] by (simp add: collect_eq)
    have "stuck_repeating_action_error th (rev (map fst ps)) (rev (map snd ps))"
      using streak [OF ne] n
      by (simp add: stuck_repeating_action_error_def)
    moreover have "\<not> length (turns ps) <
        min (th_action_observation th) (min (th_action_error th) (th_monologue th))"
      using n by simp
    ultimately show "is_stuck th det (path @ u # turns ps)"
      using since [OF assms(4)] n c by (simp add: is_stuck_def)
  }
qed

theorem error_loop_nudged_then_stopped_witness:
  "is_stuck default_thresholds new_detector
     (sample_message ''m'' SourceUser ''hi'' # turns (failing_turns 4))"
  using error_loop_nudged_then_stopped [of default_thresholds "sample_message ''m'' SourceUser ''hi''"
      new_detector "failing_turns 4" "[]"] sample_turns
  by (simp add: default_thresholds_def valid_thresholds_def MAX_EVENTS_TO_SCAN_def new_detector_def
      failing_turns_def sample_turn_defs)

text \<open>
  No false alarm: on a branch without two like actions that does not end in a monologue the agent is
  never reported as stuck, for thresholds that ask for a repetition.
\<close>

theorem not_stuck_without_repetition:
  assumes "2 \<le> th_action_observation th" and "1 \<le> th_action_error th"
    and "3 \<le> th_alternating_pattern th"
    and "varied (filter is_action path)" and "agent_messages (rev path) < th_monologue th"
  shows "\<not> is_stuck th det path"
proof -
  let ?es = "events_since_last_user_message det path"
  obtain zs where z: "path = zs @ ?es" using since_suffix by blast
  have v: "varied (filter is_action ?es)"
    using assms(4) unfolding varied_def by (subst (asm) z) (simp add: sorted_wrt_append)
  have "agent_messages (rev ?es) \<le> agent_messages (rev path)"
    using agent_messages_append [of "rev ?es" "rev zs"] z by (metis rev_append)
  then have "\<not> stuck_monologue th ?es" using assms(5) by (simp add: stuck_monologue_def)
  moreover have "\<not> stuck_alternating th ?es" by (rule varied_not_alternating [OF v assms(3)])
  moreover have "\<not> stuck_repeating_action_error th (take n (filter is_action (rev ?es))) obs" for n obs
    using varied_error_streak [OF varied_recent [OF v], of n obs] assms(2)
    by (simp add: stuck_repeating_action_error_def)
  ultimately show ?thesis
    using varied_not_repeating [OF varied_recent [OF v] assms(1)]
    by (auto simp: is_stuck_def Let_def collect_eq less_max_iff_disj)
qed

theorem not_stuck_without_repetition_witness:
  "\<not> is_stuck default_thresholds new_detector
     [sample_message ''m'' SourceUser ''hi'', sample_action ''a'' ''t'' ''r'', sample_observation ''o'' ''t'' ''a'']"
  by (rule not_stuck_without_repetition)
    (simp_all add: default_thresholds_def varied_def sample_turn_defs)

text \<open>
  A resume gives the agent room: after \<open>mark_resumed\<close>, nothing is reported as stuck before at least
  as many new events as the smallest threshold have been added to the branch.
\<close>

theorem resume_gives_fresh_start:
  assumes "valid_thresholds th"
    and "length new < min (th_action_observation th) (min (th_action_error th) (th_monologue th))"
  shows "\<not> is_stuck th (mark_resumed path det) (path @ new)"
proof -
  let ?det = "mark_resumed path det"
  have "length (events_since_last_user_message ?det (path @ new)) \<le> length new"
  proof (cases "path = [] \<or> MAX_EVENTS_TO_SCAN \<le> length new")
    case True
    then show ?thesis
      using since_length [of ?det "path @ new"] since_suffix [of "path @ new" ?det]
      by (auto dest!: arg_cong [of _ _ length])
  next
    case False
    then obtain ys x where p: "path = ys @ [x]" by (cases path rule: rev_cases) auto
    have m: "resume_marker_event_id ?det = Some (ev_id x)"
      by (simp add: mark_resumed_def p last_n_def)
    obtain zs where z: "last_n (Some MAX_EVENTS_TO_SCAN) (ys @ x # new) = zs @ x # new"
      using last_n_append [of "x # new" MAX_EVENTS_TO_SCAN ys] False by auto
    let ?e = "after_last is_user_message (zs @ x # new)" and ?M = "\<lambda>e. ev_id e = ev_id x"
    have "length (after_last ?M ?e) \<le> length new"
    proof (cases "is_user_message x \<or> list_ex is_user_message new")
      case True
      then have "length ?e \<le> length new"
        using after_last_bound [of is_user_message x zs new]
          after_last_append [of is_user_message "zs @ [x]" new] after_last_length [of is_user_message new]
        by auto
      then show ?thesis using after_last_length [of ?M ?e] by simp
    next
      case False
      then have "?e = after_last is_user_message zs @ x # new"
        using after_last_append [of is_user_message "zs @ [x]" new]
          after_last_append [of is_user_message zs "[x]"] by simp
      then show ?thesis using after_last_bound [of ?M x "after_last is_user_message zs" new] by simp
    qed
    then show ?thesis using z p m by (simp add: events_since_last_user_message_def)
  qed
  with assms(2) show ?thesis by (simp add: is_stuck_def)
qed

theorem resume_gives_fresh_start_witness:
  "\<not> is_stuck default_thresholds (mark_resumed (turns (same_turns 4)) new_detector)
     (turns (same_turns 4) @ turns (same_turns 1))"
  using resume_gives_fresh_start [of default_thresholds "turns (same_turns 1)" "turns (same_turns 4)"
    new_detector]
  by (simp add: default_thresholds_def valid_thresholds_def same_turns_def)

end
