(* ===== verification/Session.thy ===== *)
theory Session
  imports Hooks Stuck_Detector Conversation_State Condenser
begin

text \<open>
  The running state of a local conversation as its operations see it
  (\<^verbatim>\<open>conversation/impl/local_conversation.py\<close>, \<^verbatim>\<open>conversation/state.py\<close>,
  \<^verbatim>\<open>hooks/conversation_hooks.py\<close>): the active branch, the cached view that follows it, the
  execution status, the hook blocks and the counters, and the callback chain through which every
  event reaches them. Storing an event is the subject of \<open>Conversation_State\<close>; here an event that is
  emitted extends the branch and the view. Identifiers and times of new events come from a supply,
  and what lies outside the conversation is an argument, the record \<open>world\<close>. \<open>ses_calls\<close> is the sequence
  of tool invocations made so far, the effect of the conversation on the outside.
\<close>

section \<open>State\<close>

datatype execution_status =
  IDLE | RUNNING | PAUSED | WAITING_FOR_CONFIRMATION | FINISHED | ERROR | STUCK | DELETING

definition is_terminal :: "execution_status \<Rightarrow> bool" where
  "is_terminal st \<longleftrightarrow> st \<in> {FINISHED, ERROR, STUCK}"

record session =
  ses_events :: "event list"
  ses_view :: view
  ses_status :: execution_status
  ses_blocked_actions :: "(event_id \<times> string) list"
  ses_blocked_messages :: "(event_id \<times> string) list"
  ses_last_user_message_id :: "event_id option"
  ses_consumed_user_message_id :: "event_id option"
  ses_iterations_used :: nat
  ses_condensation_steps :: nat
  ses_refinements :: nat
  ses_knowledge_skills :: "string list"
  ses_path_rules :: "string list"
  ses_counted :: counted
  ses_detector :: detector
  ses_fresh :: nat
  ses_calls :: "event list"

text \<open>
  What lies outside: the supply of identifiers and times, the hook processor if there is one, the
  serialized arguments of actions and results and the log line of a hook run, the skills triggered by
  a message and the rules triggered by a touched file (each given those already used).
\<close>

record world =
  wd_uuid :: "nat \<Rightarrow> event_id"
  wd_now :: "nat \<Rightarrow> string"
  wd_hooks :: "(hook_env \<times> hook_config) option"
  wd_action_dump :: "action \<Rightarrow> string"
  wd_observation_dump :: "observation \<Rightarrow> string"
  wd_hook_log :: "hook_event_type \<Rightarrow> hook_definition \<Rightarrow> hook_result \<Rightarrow> string"
  wd_message_suffix :: "message \<Rightarrow> string list \<Rightarrow> (content \<times> string list) option"
  wd_rules :: "event \<Rightarrow> string list \<Rightarrow> (content \<times> string list) option"

definition new_meta :: "world \<Rightarrow> source_type \<Rightarrow> session \<Rightarrow> event_meta" where
  "new_meta w src s = \<lparr>meta_id = wd_uuid w (ses_fresh s), meta_timestamp = wd_now w (ses_fresh s),
     meta_source = src, meta_parent_id = None\<rparr>"

abbreviation next_id :: "session \<Rightarrow> session" where
  "next_id s \<equiv> s\<lparr>ses_fresh := Suc (ses_fresh s)\<rparr>"

section \<open>Hook blocks\<close>

definition block_action :: "event_id \<Rightarrow> string \<Rightarrow> session \<Rightarrow> session" where
  "block_action i reason s = s\<lparr>ses_blocked_actions := AList.update i reason (ses_blocked_actions s)\<rparr>"

definition pop_blocked_action :: "event_id \<Rightarrow> session \<Rightarrow> string option \<times> session" where
  "pop_blocked_action i s =
     (case map_of (ses_blocked_actions s) i of
        None \<Rightarrow> (None, s)
      | Some reason \<Rightarrow>
          (Some reason, s\<lparr>ses_blocked_actions := AList.delete i (ses_blocked_actions s)\<rparr>))"

definition block_message :: "event_id \<Rightarrow> string \<Rightarrow> session \<Rightarrow> session" where
  "block_message i reason s = s\<lparr>ses_blocked_messages := AList.update i reason (ses_blocked_messages s)\<rparr>"

definition pop_blocked_message :: "event_id \<Rightarrow> session \<Rightarrow> string option \<times> session" where
  "pop_blocked_message i s =
     (case map_of (ses_blocked_messages s) i of
        None \<Rightarrow> (None, s)
      | Some reason \<Rightarrow>
          (Some reason, s\<lparr>ses_blocked_messages := AList.delete i (ses_blocked_messages s)\<rparr>))"

section \<open>The callback chain\<close>

text \<open>\<open>_default_callback\<close>: the event joins the branch, and a user message is remembered.\<close>

definition default_callback :: "event \<Rightarrow> session \<Rightarrow> session" where
  "default_callback e s =
     (let s1 = s\<lparr>ses_events := ses_events s @ [e], ses_view := append_event (ses_view s) e\<rparr>
      in if is_user_message e then s1\<lparr>ses_last_user_message_id := Some (ev_id e)\<rparr> else s1)"

definition emit_hook_execution_event ::
    "world \<Rightarrow> hook_event_type \<Rightarrow> hook_definition \<times> hook_result \<Rightarrow> session \<Rightarrow> session" where
  "emit_hook_execution_event w t hr s =
     default_callback
       (OtherEvent (new_meta w SourceHook s) ''HookExecutionEvent'' (wd_hook_log w t (fst hr) (snd hr)))
       (next_id s)"

definition emit_hook_results ::
    "world \<Rightarrow> hook_event_type \<Rightarrow> hook_definition list \<Rightarrow> hook_result list \<Rightarrow> session \<Rightarrow> session" where
  "emit_hook_results w t hooks results s =
     fold (emit_hook_execution_event w t) (zip hooks results) s"

definition block_reason :: "hook_result list \<Rightarrow> string" where
  "block_reason results =
     (case get_blocking_reason results of
        None \<Rightarrow> ''Blocked by hook''
      | Some r \<Rightarrow> if r = [] then ''Blocked by hook'' else r)"

text \<open>\<open>_handle_pre_tool_use\<close>, for an action event with a parsed action.\<close>

definition handle_pre_tool_use ::
    "world \<Rightarrow> hook_env \<Rightarrow> hook_config \<Rightarrow> event_id \<Rightarrow> string \<Rightarrow> action \<Rightarrow> session \<Rightarrow> session" where
  "handle_pre_tool_use w env cfg i tool_name act s =
     (if \<not> has_hooks_for_event cfg PreToolUse then s
      else
        let hooks = get_hooks_for_event env cfg PreToolUse (Some tool_name);
            (continue, results) = run_pre_tool_use env cfg tool_name (wd_action_dump w act);
            s1 = emit_hook_results w PreToolUse hooks results s
        in if continue then s1 else block_action i (block_reason results) s1)"

text \<open>
  \<open>_handle_post_tool_use\<close>: nothing happens when the action of the observation is not found. The program
  looks it up in the whole log, of which a session knows its branch; without navigation they are the same.
\<close>

fun action_of :: "event \<Rightarrow> action option" where
  "action_of (ActionEvent _ a) = ae_action a"
| "action_of _ = None"

definition handle_post_tool_use ::
    "world \<Rightarrow> hook_env \<Rightarrow> hook_config \<Rightarrow> observation_fields \<Rightarrow> session \<Rightarrow> session" where
  "handle_post_tool_use w env cfg x s =
     (if \<not> has_hooks_for_event cfg PostToolUse then s
      else case find (\<lambda>e. ev_id e = oe_action_id x) (ses_events s) of
          None \<Rightarrow> s
        | Some e \<Rightarrow>
            if \<not> is_action e then s
            else
              let tool_input = (case action_of e of None \<Rightarrow> ''{}'' | Some act \<Rightarrow> wd_action_dump w act);
                  hooks = get_hooks_for_event env cfg PostToolUse (Some (oe_tool_name x));
                  results = run_post_tool_use env cfg (oe_tool_name x) tool_input
                    (wd_observation_dump w (oe_observation x))
              in emit_hook_results w PostToolUse hooks results s)"

definition text_of :: "message \<Rightarrow> string" where
  "text_of m = concat (map (\<lambda>c. case c of TextContent t \<Rightarrow> t | ImageContent _ \<Rightarrow> []) (msg_content m))"

text \<open>
  \<open>_handle_user_prompt_submit\<close>: the block is recorded under the id of the event it was given; with
  additional context a new event, with an id of its own, takes its place.
\<close>

definition handle_user_prompt_submit ::
    "world \<Rightarrow> hook_env \<Rightarrow> hook_config \<Rightarrow> event_meta \<Rightarrow> message_fields \<Rightarrow> session \<Rightarrow> event \<times> session" where
  "handle_user_prompt_submit w env cfg m x s =
     (if \<not> has_hooks_for_event cfg UserPromptSubmit then (MessageEvent m x, s)
      else
        let hooks = get_hooks_for_event env cfg UserPromptSubmit None;
            (continue, additional_context, results) =
              run_user_prompt_submit env cfg (text_of (me_llm_message x));
            s1 = emit_hook_results w UserPromptSubmit hooks results s;
            s2 = (if continue then s1 else block_message (meta_id m) (block_reason results) s1)
        in if given additional_context then
             (MessageEvent (new_meta w (meta_source m) s2)
                (x\<lparr>me_extended_content := me_extended_content x @ [TextContent (the additional_context)],
                   me_critic_result := None\<rparr>), next_id s2)
           else (MessageEvent m x, s2))"

text \<open>\<open>HookEventProcessor.on_event\<close> over the callback it wraps.\<close>

definition hook_on_event :: "world \<Rightarrow> hook_env \<Rightarrow> hook_config \<Rightarrow> event \<Rightarrow> session \<Rightarrow> session" where
  "hook_on_event w env cfg e s =
     (case e of
        ActionEvent m a \<Rightarrow>
          default_callback e
            (case ae_action a of
               None \<Rightarrow> s
             | Some act \<Rightarrow> handle_pre_tool_use w env cfg (meta_id m) (ae_tool_name a) act s)
      | ObservationEvent m x \<Rightarrow> default_callback e (handle_post_tool_use w env cfg x s)
      | MessageEvent m x \<Rightarrow>
          if meta_source m = SourceUser then
            let (e', s') = handle_user_prompt_submit w env cfg m x s in default_callback e' s'
          else default_callback e s
      | _ \<Rightarrow> default_callback e s)"

text \<open>\<open>_maybe_inject_path_rules\<close>.\<close>

definition maybe_inject_path_rules :: "world \<Rightarrow> event \<Rightarrow> session \<Rightarrow> event \<times> session" where
  "maybe_inject_path_rules w e s =
     (case e of
        ObservationEvent m x \<Rightarrow>
          (case wd_rules w e (ses_path_rules s) of
             None \<Rightarrow> (e, s)
           | Some (c, names) \<Rightarrow>
               (ObservationEvent m (x\<lparr>oe_extended_content := oe_extended_content x @ [c]\<rparr>),
                s\<lparr>ses_path_rules := ses_path_rules s @ names\<rparr>))
      | _ \<Rightarrow> (e, s))"

definition on_event :: "world \<Rightarrow> event \<Rightarrow> session \<Rightarrow> session" where
  "on_event w e s =
     (let (e', s') = maybe_inject_path_rules w e s
      in case wd_hooks w of
           None \<Rightarrow> default_callback e' s'
         | Some (env, cfg) \<Rightarrow> hook_on_event w env cfg e' s')"

text \<open>Create an event with a new identity and emit it.\<close>

definition emit :: "world \<Rightarrow> source_type \<Rightarrow> (event_meta \<Rightarrow> event) \<Rightarrow> session \<Rightarrow> session" where
  "emit w src mk s = on_event w (mk (new_meta w src s)) (next_id s)"

definition plain_fields :: "message \<Rightarrow> message_fields" where
  "plain_fields m = \<lparr>me_llm_message = m, me_llm_response_id = None, me_activated_skills = [],
     me_extended_content = [], me_sender = None, me_critic_result = None\<rparr>"

definition user_text :: "string \<Rightarrow> event_meta \<Rightarrow> event" where
  "user_text txt m = MessageEvent m (plain_fields (plain_message RoleUser [TextContent txt]))"

definition conversation_error :: "string \<Rightarrow> string \<Rightarrow> event_meta \<Rightarrow> event" where
  "conversation_error code detail m =
     OtherEvent m ''ConversationErrorEvent'' (code @ [CHR 0x0A] @ detail)"

section \<open>Operations between runs\<close>

definition set_status :: "execution_status \<Rightarrow> session \<Rightarrow> session" where
  "set_status st s = s\<lparr>ses_status := st\<rparr>"

definition send_message :: "world \<Rightarrow> message \<Rightarrow> string option \<Rightarrow> session \<Rightarrow> unit result \<times> session" where
  "send_message w msg sender s =
     (if msg_role msg \<noteq> RoleUser then (Inl AssertionError, s)
      else
        let s1 = (if ses_status s \<in> {FINISHED, STUCK} then set_status IDLE s else s);
            (ext, names) = (case wd_message_suffix w msg (ses_knowledge_skills s1) of
                              None \<Rightarrow> ([], []) | Some (c, names) \<Rightarrow> ([c], names));
            s2 = s1\<lparr>ses_knowledge_skills := ses_knowledge_skills s1 @ names\<rparr>
        in (Inr (), emit w SourceUser (\<lambda>m. MessageEvent m (plain_fields msg
              \<lparr>me_activated_skills := names, me_extended_content := ext, me_sender := sender\<rparr>)) s2))"

definition pause :: "world \<Rightarrow> session \<Rightarrow> session" where
  "pause w s =
     (if ses_status s = PAUSED then s
      else if ses_status s = IDLE \<or> ses_status s = RUNNING
      then emit w SourceUser (\<lambda>m. OtherEvent m ''PauseEvent'' []) (set_status PAUSED s)
      else s)"

fun rejection :: "string \<Rightarrow> rejection_source \<Rightarrow> event \<Rightarrow> event_meta \<Rightarrow> event" where
  "rejection reason src (ActionEvent m a) m' =
     UserRejectObservation m'
       \<lparr>re_tool_name = ae_tool_name a, re_tool_call_id = ae_tool_call_id a,
        re_rejection_reason = reason, re_rejection_source = src, re_action_id = meta_id m\<rparr>"
| "rejection reason src e m' = e"

definition reject_pending_actions :: "world \<Rightarrow> string \<Rightarrow> session \<Rightarrow> session" where
  "reject_pending_actions w reason s =
     (let pending_actions = get_unmatched_actions (ses_events s);
          s1 = (if ses_status s = WAITING_FOR_CONFIRMATION then set_status IDLE s else s)
      in fold (\<lambda>e. emit w SourceEnvironment (rejection reason RejectedByUser e)) pending_actions s1)"

text \<open>The two classifications errors of tool calls carry (\<^verbatim>\<open>event/error_classification.py\<close>).\<close>

definition AGENT_OUTCOME :: string where
  "AGENT_OUTCOME = ''agent_action''"

definition INTERNAL :: string where
  "INTERNAL = ''internal''"

fun agent_error :: "string \<Rightarrow> string \<Rightarrow> event \<Rightarrow> event_meta \<Rightarrow> event" where
  "agent_error err classification (ActionEvent m a) m' =
     AgentErrorEvent m'
       \<lparr>ee_tool_name = ae_tool_name a, ee_tool_call_id = ae_tool_call_id a, ee_error = err,
        ee_classification = classification\<rparr>"
| "agent_error err classification e m' = e"

definition emit_orphaned_action_errors :: "world \<Rightarrow> session \<Rightarrow> bool \<times> session" where
  "emit_orphaned_action_errors w s =
     (let orphans = get_unmatched_actions (ses_events s)
      in (orphans \<noteq> [],
          fold (\<lambda>e. emit w SourceAgent (agent_error
             ''Tool call interrupted before completion. The conversation was paused.'' AGENT_OUTCOME e))
           orphans s))"

definition emit_run_notice :: "world \<Rightarrow> string \<Rightarrow> session \<Rightarrow> session" where
  "emit_run_notice w txt s = emit w SourceEnvironment (user_text txt) s"

definition blank_line :: string where
  "blank_line = [CHR 0x0A, CHR 0x0A]"

definition emit_interrupt_notice :: "world \<Rightarrow> session \<Rightarrow> session" where
  "emit_interrupt_notice w s =
     emit_run_notice w (blank_line @
       ''[Interrupted] The previous run was interrupted before it finished, so nothing after this '' @
       ''point ran. No tool call was left without a result. Check the current state of the '' @
       ''workspace before relying on it.'' @ blank_line) s"

definition note_external_stop :: "world \<Rightarrow> string \<Rightarrow> session \<Rightarrow> session" where
  "note_external_stop w reason s =
     emit_run_notice w (blank_line @ ''[Stopped] '' @ reason @ blank_line) s"

text \<open>
  \<open>_handle_run_cancelled\<close>, for an agent that keeps no in-flight prompt in its state: the branch that leaves
  out the notice when the prompt of an ACP agent was superseded is not modelled.
\<close>

definition handle_run_cancelled :: "world \<Rightarrow> session \<Rightarrow> session" where
  "handle_run_cancelled w s =
     (let completed = (ses_status s = FINISHED);
          (backfilled, s1) = emit_orphaned_action_errors w s;
          s2 = (if \<not> backfilled \<and> \<not> completed then emit_interrupt_notice w s1 else s1)
      in emit w SourceUser (\<lambda>m. OtherEvent m ''InterruptEvent'' []) (set_status PAUSED s2))"

text \<open>\<open>rebuild_view\<close> of the state, on the active branch.\<close>

definition session_rebuild_view :: "session \<Rightarrow> session" where
  "session_rebuild_view s = s\<lparr>ses_view := from_events (ses_events s)\<rparr>"

end
