(* ===== verification/Security.thy ===== *)
theory Security
  imports Samples
begin

text \<open>
  Risk levels, confirmation policies and the fusion of security analyzers
  (\<^verbatim>\<open>security/risk.py\<close>, \<^verbatim>\<open>confirmation_policy.py\<close>, \<^verbatim>\<open>analyzer.py\<close>, \<^verbatim>\<open>ensemble.py\<close>). An analyzer is
  what its \<open>security_risk\<close> does on an action event: a level, or an exception.
\<close>

section \<open>Risk levels\<close>

fun RISK_ORDER :: "security_risk \<Rightarrow> nat result" where
  "RISK_ORDER RiskLow = Inr 1"
| "RISK_ORDER RiskMedium = Inr 2"
| "RISK_ORDER RiskHigh = Inr 3"
| "RISK_ORDER RiskUnknown = Inl KeyError"

text \<open>\<open>_check_comparable\<close> of two levels: the key of the other one.\<close>

definition check_comparable :: "security_risk \<Rightarrow> security_risk \<Rightarrow> nat result" where
  "check_comparable r other =
     (if r = RiskUnknown \<or> other = RiskUnknown then Inl ValueError else RISK_ORDER other)"

definition compare_risk ::
    "(nat \<Rightarrow> nat \<Rightarrow> bool) \<Rightarrow> security_risk \<Rightarrow> security_risk \<Rightarrow> bool result" where
  "compare_risk rel r other =
     and_then (check_comparable r other) (\<lambda>other_ord.
     and_then (RISK_ORDER r) (\<lambda>ord. Inr (rel ord other_ord)))"

definition risk_lt :: "security_risk \<Rightarrow> security_risk \<Rightarrow> bool result" where
  "risk_lt = compare_risk (<)"

definition risk_gt :: "security_risk \<Rightarrow> security_risk \<Rightarrow> bool result" where
  "risk_gt = compare_risk (>)"

definition risk_le :: "security_risk \<Rightarrow> security_risk \<Rightarrow> bool result" where
  "risk_le = compare_risk (\<le>)"

definition risk_ge :: "security_risk \<Rightarrow> security_risk \<Rightarrow> bool result" where
  "risk_ge = compare_risk (\<ge>)"

definition is_riskier :: "security_risk \<Rightarrow> security_risk \<Rightarrow> bool \<Rightarrow> bool result" where
  "is_riskier r other reflexive =
     (if r = RiskUnknown \<or> other = RiskUnknown then Inl ValueError
      else and_then (RISK_ORDER r) (\<lambda>m. and_then (RISK_ORDER other) (\<lambda>n.
        Inr (n < m \<or> (reflexive \<and> r = other)))))"

section \<open>Confirmation policies\<close>

datatype confirmation_policy =
    AlwaysConfirm
  | NeverConfirm
  | ConfirmRisky security_risk bool

text \<open>\<open>validate_threshold\<close> of \<open>ConfirmRisky\<close>.\<close>

definition confirm_risky :: "security_risk \<Rightarrow> bool \<Rightarrow> confirmation_policy result" where
  "confirm_risky threshold confirm_unknown =
     (if threshold = RiskUnknown then Inl ValueError
      else Inr (ConfirmRisky threshold confirm_unknown))"

fun should_confirm :: "confirmation_policy \<Rightarrow> security_risk \<Rightarrow> bool result" where
  "should_confirm AlwaysConfirm risk = Inr True"
| "should_confirm NeverConfirm risk = Inr False"
| "should_confirm (ConfirmRisky threshold confirm_unknown) risk =
     (if risk = RiskUnknown then Inr confirm_unknown else is_riskier risk threshold True)"

fun valid_policy :: "confirmation_policy \<Rightarrow> bool" where
  "valid_policy (ConfirmRisky threshold _) = (threshold \<noteq> RiskUnknown)"
| "valid_policy _ = True"

section \<open>Analyzers\<close>

type_synonym analyzer = "event \<Rightarrow> security_risk result"

definition analyze_event :: "analyzer \<Rightarrow> event \<Rightarrow> security_risk option result" where
  "analyze_event a e =
     (if is_action e then and_then (a e) (\<lambda>r. Inr (Some r)) else Inr None)"

definition should_require_confirmation :: "security_risk \<Rightarrow> bool \<Rightarrow> bool" where
  "should_require_confirmation risk confirmation_mode =
     (if risk = RiskHigh then True
      else if risk = RiskUnknown \<and> \<not> confirmation_mode then True
      else if confirmation_mode then True
      else False)"

text \<open>An analyzer that raises counts as high risk.\<close>

definition fail_closed :: "security_risk result \<Rightarrow> security_risk" where
  "fail_closed r = (case r of Inl _ \<Rightarrow> RiskHigh | Inr risk \<Rightarrow> risk)"

definition analyze_pending_actions :: "analyzer \<Rightarrow> event list \<Rightarrow> (event \<times> security_risk) list" where
  "analyze_pending_actions a pending_actions = map (\<lambda>e. (e, fail_closed (a e))) pending_actions"

text \<open>Python's \<open>max\<close> on a non-empty list: it keeps the first item no later item is greater than.\<close>

fun max_risk :: "security_risk \<Rightarrow> security_risk list \<Rightarrow> security_risk result" where
  "max_risk best [] = Inr best"
| "max_risk best (r # rs) =
     and_then (risk_gt r best) (\<lambda>greater. max_risk (if greater then r else best) rs)"

definition ensemble :: "bool \<Rightarrow> analyzer list \<Rightarrow> analyzer" where
  "ensemble propagate_unknown analyzers action =
     (let results = map (\<lambda>a. fail_closed (a action)) analyzers;
          has_unknown = (RiskUnknown \<in> set results)
      in if propagate_unknown \<and> has_unknown then Inr RiskUnknown
         else case filter (\<lambda>r. r \<noteq> RiskUnknown) results of
             [] \<Rightarrow> Inr RiskUnknown
           | r # rs \<Rightarrow> max_risk r rs)"

section \<open>Severity as a number\<close>

text \<open>Severity of a concrete level.\<close>

fun severity :: "security_risk \<Rightarrow> nat" where
  "severity RiskUnknown = 0"
| "severity RiskLow = 1"
| "severity RiskMedium = 2"
| "severity RiskHigh = 3"

lemma severity_inj: "severity r = severity q \<Longrightarrow> r = q"
  by (cases r; cases q) auto

lemma RISK_ORDER_concrete [simp]: "r \<noteq> RiskUnknown \<Longrightarrow> RISK_ORDER r = Inr (severity r)"
  by (cases r) auto

lemma compare_risk_concrete [simp]:
  "r \<noteq> RiskUnknown \<Longrightarrow> q \<noteq> RiskUnknown \<Longrightarrow> compare_risk rel r q = Inr (rel (severity r) (severity q))"
  by (simp add: compare_risk_def check_comparable_def)

lemma compare_risk_unknown [simp]:
  "compare_risk rel RiskUnknown q = Inl ValueError" "compare_risk rel r RiskUnknown = Inl ValueError"
  by (simp_all add: compare_risk_def check_comparable_def)

lemma is_riskier_concrete [simp]:
  "r \<noteq> RiskUnknown \<Longrightarrow> q \<noteq> RiskUnknown \<Longrightarrow> is_riskier r q True = Inr (severity q \<le> severity r)"
  using severity_inj [of q r] by (auto simp: is_riskier_def order_le_less)

lemma should_confirm_defined: "valid_policy p \<Longrightarrow> \<exists>b. should_confirm p r = Inr b"
  by (cases p; cases "r = RiskUnknown") auto

lemma max_risk_correct:
  assumes "best \<noteq> RiskUnknown" and "RiskUnknown \<notin> set rs"
  shows "\<exists>m. max_risk best rs = Inr m \<and> m \<in> insert best (set rs) \<and>
    (\<forall>r \<in> insert best (set rs). severity r \<le> severity m)"
  using assms
proof (induction rs arbitrary: best)
  case (Cons r rs)
  let ?b = "if severity best < severity r then r else best"
  from Cons.prems have "?b \<noteq> RiskUnknown" "RiskUnknown \<notin> set rs" by auto
  from Cons.IH [OF this] obtain m where
    "max_risk ?b rs = Inr m" "m \<in> insert ?b (set rs)"
    "\<forall>q \<in> insert ?b (set rs). severity q \<le> severity m" by blast
  with Cons.prems show ?case by (auto simp: risk_gt_def split: if_splits)
qed simp

text \<open>
  The fusion takes the worst case: it never raises, a level it reports was reported by an analyzer
  (a broken one counting as high), and unless unknowns propagate no analyzer's concrete level is
  worse; it is unknown only when every analyzer is, or when unknowns propagate.
\<close>

theorem ensemble_worst_case:
  "\<exists>r. ensemble propagate analyzers action = Inr r \<and>
    (if r = RiskUnknown
     then (\<forall>a \<in> set analyzers. a action = Inr RiskUnknown) \<or>
       (propagate \<and> (\<exists>a \<in> set analyzers. a action = Inr RiskUnknown))
     else (\<exists>a \<in> set analyzers. fail_closed (a action) = r) \<and>
       (\<forall>a \<in> set analyzers. severity (fail_closed (a action)) \<le> severity r))"
proof -
  let ?results = "map (\<lambda>a. fail_closed (a action)) analyzers"
  let ?concrete = "filter (\<lambda>r. r \<noteq> RiskUnknown) ?results"
  have closed: "fail_closed (a action) = RiskUnknown \<longleftrightarrow> a action = Inr RiskUnknown" for a :: analyzer
    by (auto simp: fail_closed_def split: sum.splits)
  consider (strict) "propagate" "RiskUnknown \<in> set ?results"
    | (none) "\<not> (propagate \<and> RiskUnknown \<in> set ?results)" "?concrete = []"
    | (some) r rs where "\<not> (propagate \<and> RiskUnknown \<in> set ?results)" "?concrete = r # rs"
    by (cases ?concrete) auto
  then show ?thesis
  proof cases
    case strict
    then have "\<exists>a \<in> set analyzers. a action = Inr RiskUnknown" using closed by (metis (no_types, lifting) imageE list.set_map)
    with strict show ?thesis by (simp add: ensemble_def Let_def)
  next
    case none
    then have "\<forall>a \<in> set analyzers. a action = Inr RiskUnknown" using closed by (auto simp: filter_empty_conv)
    with none show ?thesis by (simp add: ensemble_def Let_def)
  next
    case some
    have elems: "set (r # rs) = {q \<in> set ?results. q \<noteq> RiskUnknown}" by (metis some(2) set_filter)
    then have "r \<noteq> RiskUnknown" "RiskUnknown \<notin> set rs" by auto
    from max_risk_correct [OF this] obtain m where
      m: "max_risk r rs = Inr m" "m \<in> set (r # rs)" "\<forall>q \<in> set (r # rs). severity q \<le> severity m" by auto
    have "severity (fail_closed (a action)) \<le> severity m" if "a \<in> set analyzers" for a
      using m(3) elems that by (cases "fail_closed (a action) = RiskUnknown") auto
    moreover have "m \<in> {q \<in> set ?results. q \<noteq> RiskUnknown}" using m(2) unfolding elems .
    then have "m \<noteq> RiskUnknown" "\<exists>a \<in> set analyzers. fail_closed (a action) = m" by auto
    moreover have "ensemble propagate analyzers action = Inr m"
      using some m(1) by (auto simp: ensemble_def Let_def simp del: filter_map)
    ultimately show ?thesis by auto
  qed
qed

theorem ensemble_worst_case_witness:
  "ensemble False [\<lambda>_. Inr RiskLow, \<lambda>_. Inl RuntimeError, \<lambda>_. Inr RiskUnknown] (sample_action ''a'' ''t'' ''r'')
     = Inr RiskHigh"
  using ensemble_worst_case [of False "[\<lambda>_. Inr RiskLow, \<lambda>_. Inl RuntimeError, \<lambda>_. Inr RiskUnknown]"
    "sample_action ''a'' ''t'' ''r''"]
  by (auto simp: fail_closed_def split: if_splits)

end
