(* ===== verification/Agent_Step.thy ===== *)
theory Agent_Step
  imports Session Security Event_Strings
begin

text \<open>
  One step of the agent (\<^verbatim>\<open>agent/agent.py\<close>, \<^verbatim>\<open>agent/response_dispatch.py\<close>,
  \<^verbatim>\<open>agent/parallel_executor.py\<close>, \<^verbatim>\<open>agent/critic_mixin.py\<close>, \<^verbatim>\<open>agent/utils.py\<close>): preparing the
  messages, the answer of the model and its classification, turning tool calls into action events,
  the confirmation gate, and running a batch of actions. The model, the tools, the reading of a tool
  call's arguments and the critic are arguments, fields of the record \<open>agent\<close>; what they answer may
  depend on the point in time, which is the number of identifiers handed out so far.
\<close>

section \<open>The agent and what it uses\<close>

datatype tool_outcome =
    ToolReturned observation
  | ToolReturnedOther
  | ToolValueError string
  | ToolException string

text \<open>
  The exceptions of a model call the step handles, and any other exception with its class and text.
\<close>

datatype llm_outcome =
    LLMReply llm_response
  | FunctionCallValidationError string
  | ContentPolicyViolation
  | MalformedHistory string
  | ContextWindowExceeded string
  | LLMException string string

text \<open>A tool call whose arguments were read and validated; the risk level is still a string.\<close>

record parsed_call =
  pc_tool_name :: string
  pc_read_only :: bool
  pc_raw_risk :: "string option"
  pc_summary :: string
  pc_action :: action
  pc_call :: message_tool_call

datatype call_reading =
    UnknownTool string
  | InvalidCall string string
  | ReadCall parsed_call

record critic =
  cr_all_actions :: bool
  cr_evaluate :: "event list \<Rightarrow> string option"
  cr_max_refinements :: "nat option"
  cr_should_refine :: "string \<Rightarrow> bool"
  cr_followup :: "string \<Rightarrow> nat \<Rightarrow> string"

record agent =
  ag_tools :: "string list"
  ag_read_call :: "message_tool_call \<Rightarrow> call_reading"
  ag_json_ok :: "string \<Rightarrow> bool"
  ag_error_json :: "string \<Rightarrow> string"
  ag_risk_error :: "string \<Rightarrow> message_tool_call \<Rightarrow> string"
  ag_run :: "nat \<Rightarrow> event \<Rightarrow> tool_outcome"
  ag_resources :: "event \<Rightarrow> (bool \<times> string list) option"
  ag_lock_timeout :: "nat \<Rightarrow> string list \<Rightarrow> string option"
  ag_cancelled :: "nat \<Rightarrow> event \<Rightarrow> bool"
  ag_llm :: "nat \<Rightarrow> message list \<Rightarrow> llm_outcome"
  ag_condenser :: "(view \<Rightarrow> counted \<Rightarrow> condense_result result \<times> counted) option"
  ag_handles_requests :: bool
  ag_router :: bool
  ag_vision :: bool
  ag_model :: string
  ag_mask :: "string \<Rightarrow> string"
  ag_tokens :: bool
  ag_critic :: "critic option"
  ag_analyzer :: "analyzer option"
  ag_policy :: confirmation_policy

text \<open>An exception that leaves the step.\<close>

datatype raised = PyRaised py_error | LLMRaised string string

section \<open>Running one tool call\<close>

text \<open>\<open>_resolve_lock_keys\<close>: a tool that declares nothing is locked as a whole.\<close>

definition resolve_lock_keys :: "(bool \<times> string list) option \<Rightarrow> string \<Rightarrow> string list" where
  "resolve_lock_keys resources tool_name =
     (case resources of
        Some (True, keys) \<Rightarrow> keys
      | _ \<Rightarrow> [''tool:'' @ tool_name])"

fun tool_of :: "event \<Rightarrow> string" where
  "tool_of (ActionEvent _ a) = ae_tool_name a"
| "tool_of _ = []"

definition executing_error :: "string \<Rightarrow> string \<Rightarrow> string" where
  "executing_error tool_name e = ''Error executing tool '' @ quoted tool_name @ '': '' @ e"

text \<open>The observation or error event a tool's outcome gives (\<open>_execute_action_event\<close>).\<close>

fun observation_of :: "observation \<Rightarrow> event \<Rightarrow> event_meta \<Rightarrow> event" where
  "observation_of ob (ActionEvent m a) m' =
     ObservationEvent m'
       \<lparr>oe_tool_name = ae_tool_name a, oe_tool_call_id = tc_id (ae_tool_call a), oe_observation = ob,
        oe_action_id = meta_id m, oe_extended_content = []\<rparr>"
| "observation_of ob e m' = e"

fun tool_value_error :: "string \<Rightarrow> event \<Rightarrow> event_meta \<Rightarrow> event" where
  "tool_value_error e (ActionEvent m a) m' =
     AgentErrorEvent m'
       \<lparr>ee_tool_name = ae_tool_name a, ee_tool_call_id = tc_id (ae_tool_call a),
        ee_error = executing_error (ae_tool_name a) e, ee_classification = AGENT_OUTCOME\<rparr>"
| "tool_value_error e ev m' = ev"

definition internal_error :: "string \<Rightarrow> event \<Rightarrow> event_meta \<Rightarrow> event" where
  "internal_error e ae = agent_error (executing_error (tool_of ae) e) INTERNAL ae"

text \<open>
  \<open>_run_safe\<close> with \<open>_execute_action_event\<close>: the events of one call, every exception turned into an
  error event. The tool is invoked unless the call was cancelled, the tool is gone, or a lock it
  needs is not free in time.
\<close>

definition run_safe :: "world \<Rightarrow> agent \<Rightarrow> event \<Rightarrow> session \<Rightarrow> event list \<times> session" where
  "run_safe w ag ae s =
     (let t = ses_fresh s;
          env_meta = new_meta w SourceEnvironment s;
          ag_meta = new_meta w SourceAgent s;
          keys = resolve_lock_keys (if action_of ae = None then None else ag_resources ag ae) (tool_of ae)
      in if ag_cancelled ag t ae then
           ([agent_error ''Tool call cancelled by interrupt.'' AGENT_OUTCOME ae ag_meta], next_id s)
         else if tool_of ae \<notin> set (ag_tools ag) then
           ([internal_error (''Tool '' @ quoted (tool_of ae) @
              '' not found. This should not happen as it was checked earlier.'') ae ag_meta], next_id s)
         else case (if keys = [] then None else ag_lock_timeout ag t keys) of
             Some e \<Rightarrow> ([internal_error e ae ag_meta], next_id s)
           | None \<Rightarrow>
               let s1 = next_id s\<lparr>ses_calls := ses_calls s @ [ae]\<rparr>
               in case ag_run ag t ae of
                    ToolReturned ob \<Rightarrow> ([observation_of ob ae env_meta], s1)
                  | ToolReturnedOther \<Rightarrow>
                      ([internal_error (''Tool '' @ quoted (tool_of ae) @
                          '' executor must return an Observation'') ae ag_meta], s1)
                  | ToolValueError e \<Rightarrow> ([tool_value_error e ae ag_meta], s1)
                  | ToolException e \<Rightarrow> ([internal_error e ae ag_meta], s1))"

text \<open>\<open>execute_batch\<close>: the results in the order of the actions, whether run one by one or in a pool.\<close>

fun execute_batch :: "world \<Rightarrow> agent \<Rightarrow> event list \<Rightarrow> session \<Rightarrow> event list list \<times> session" where
  "execute_batch w ag [] s = ([], s)"
| "execute_batch w ag (ae # aes) s =
     (let (r, s1) = run_safe w ag ae s; (rs, s2) = execute_batch w ag aes s1 in (r # rs, s2))"

section \<open>A batch of actions\<close>

definition FINISH_TOOL :: string where
  "FINISH_TOOL = ''finish''"

definition truncate_at_finish :: "event list \<Rightarrow> event list \<times> bool" where
  "truncate_at_finish action_events =
     (let before = takeWhile (\<lambda>ae. tool_of ae \<noteq> FINISH_TOOL) action_events
      in if length before = length action_events then (action_events, False)
         else (take (Suc (length before)) action_events, True))"

fun partition_blocked ::
    "event list \<Rightarrow> session \<Rightarrow> (event_id \<times> string) list \<times> event list \<times> session" where
  "partition_blocked [] s = ([], [], s)"
| "partition_blocked (ae # aes) s =
     (let (reason, s1) = pop_blocked_action (ev_id ae) s;
          (blocked, executable, s2) = partition_blocked aes s1
      in case reason of
           Some r \<Rightarrow> ((ev_id ae, r) # blocked, executable, s2)
         | None \<Rightarrow> (blocked, ae # executable, s2))"

record action_batch =
  ab_events :: "event list"
  ab_has_finish :: bool
  ab_blocked :: "(event_id \<times> string) list"
  ab_results :: "(event_id \<times> event list) list"

text \<open>A Python dict built from pairs: the last pair of a key wins.\<close>

definition dict_get :: "('k \<times> 'v) list \<Rightarrow> 'k \<Rightarrow> 'v option" where
  "dict_get d k = map_of (rev d) k"

definition prepare :: "world \<Rightarrow> agent \<Rightarrow> event list \<Rightarrow> session \<Rightarrow> action_batch \<times> session" where
  "prepare w ag action_events s =
     (let (aes, has_finish) = truncate_at_finish action_events;
          (blocked, executable, s1) = partition_blocked aes s;
          (results, s2) = execute_batch w ag executable s1
      in (\<lparr>ab_events = aes, ab_has_finish = has_finish, ab_blocked = blocked,
           ab_results = zip (map ev_id executable) results\<rparr>, s2))"

fun batch_emit_from ::
    "world \<Rightarrow> (event_id \<times> string) list \<Rightarrow> (event_id \<times> event list) list \<Rightarrow> event list \<Rightarrow> session \<Rightarrow>
     unit result \<times> session"
where
  "batch_emit_from w blocked results [] s = (Inr (), s)"
| "batch_emit_from w blocked results (ae # aes) s =
     (case dict_get blocked (ev_id ae) of
        Some reason \<Rightarrow>
          batch_emit_from w blocked results aes
            (emit w SourceEnvironment (rejection reason RejectedByHook ae) s)
      | None \<Rightarrow>
          (case dict_get results (ev_id ae) of
             None \<Rightarrow> (Inl KeyError, s)
           | Some events \<Rightarrow> batch_emit_from w blocked results aes (fold (on_event w) events s)))"

definition batch_emit :: "world \<Rightarrow> action_batch \<Rightarrow> session \<Rightarrow> unit result \<times> session" where
  "batch_emit w b s = batch_emit_from w (ab_blocked b) (ab_results b) (ab_events b) s"

section \<open>Critic\<close>

definition FINISH_ACTION :: string where
  "FINISH_ACTION = ''FinishAction''"

definition THINK_ACTION :: string where
  "THINK_ACTION = ''ThinkAction''"

fun action_class :: "action \<Rightarrow> string" where
  "action_class (InvokeSkillAction _) = ''InvokeSkillAction''"
| "action_class (OtherAction c _) = c"

definition should_evaluate_with_critic :: "agent \<Rightarrow> action option \<Rightarrow> bool" where
  "should_evaluate_with_critic ag act =
     (case ag_critic ag of
        None \<Rightarrow> False
      | Some c \<Rightarrow> cr_all_actions c \<or> map_option action_class act = Some FINISH_ACTION)"

definition evaluate_with_critic :: "agent \<Rightarrow> event \<Rightarrow> session \<Rightarrow> string option" where
  "evaluate_with_critic ag e s =
     (case ag_critic ag of
        None \<Rightarrow> None
      | Some c \<Rightarrow> cr_evaluate c (filter is_llm_convertible (ses_events s @ [e])))"

fun critic_result_of :: "event \<Rightarrow> string option" where
  "critic_result_of (ActionEvent _ a) = ae_critic_result a"
| "critic_result_of _ = None"

text \<open>\<open>_check_iterative_refinement\<close>: the text to go on with, if any; an empty one is none.\<close>

definition check_iterative_refinement ::
    "agent \<Rightarrow> event \<Rightarrow> session \<Rightarrow> (bool \<times> string option) \<times> session" where
  "check_iterative_refinement ag ae s =
     (case ag_critic ag of
        None \<Rightarrow> ((False, None), s)
      | Some c \<Rightarrow>
          (case cr_max_refinements c of
             None \<Rightarrow> ((False, None), s)
           | Some limit \<Rightarrow>
               if limit \<le> ses_refinements s then ((False, None), s)
               else case critic_result_of ae of
                   None \<Rightarrow> ((False, None), s)
                 | Some r \<Rightarrow>
                     if \<not> cr_should_refine c r then ((False, None), s)
                     else
                       let n = Suc (ses_refinements s)
                       in ((True, Some (cr_followup c r n)), s\<lparr>ses_refinements := n\<rparr>)))"

definition finalize :: "world \<Rightarrow> agent \<Rightarrow> action_batch \<Rightarrow> session \<Rightarrow> session" where
  "finalize w ag b s =
     (if \<not> ab_has_finish b \<or> dict_get (ab_blocked b) (ev_id (last (ab_events b))) \<noteq> None then s
      else
        let ((continue, followup), s1) = check_iterative_refinement ag (last (ab_events b)) s
        in if continue \<and> given followup
           then emit w SourceUser (user_text (the followup)) s1
           else set_status FINISHED s1)"

definition execute_actions :: "world \<Rightarrow> agent \<Rightarrow> event list \<Rightarrow> session \<Rightarrow> unit result \<times> session" where
  "execute_actions w ag action_events s =
     (let (b, s1) = prepare w ag action_events s
      in case batch_emit w b s1 of
           (Inl e, s2) \<Rightarrow> (Inl e, s2)
         | (Inr _, s2) \<Rightarrow> (Inr (), finalize w ag b s2))"

section \<open>From a tool call to an action event\<close>

definition parse_risk :: "string \<Rightarrow> security_risk result" where
  "parse_risk raw =
     (if raw = ''UNKNOWN'' then Inr RiskUnknown else if raw = ''LOW'' then Inr RiskLow
      else if raw = ''MEDIUM'' then Inr RiskMedium else if raw = ''HIGH'' then Inr RiskHigh
      else Inl ValueError)"

definition extract_security_risk :: "string option \<Rightarrow> bool \<Rightarrow> bool \<Rightarrow> security_risk result" where
  "extract_security_risk raw read_only_tool has_analyzer =
     (if read_only_tool then Inr RiskUnknown
      else if \<not> has_analyzer then Inr RiskUnknown
      else case raw of None \<Rightarrow> Inr RiskUnknown | Some r \<Rightarrow> parse_risk r)"

text \<open>What the first call of a response carries, and the later ones do not.\<close>

record side_content =
  sc_thought :: "content list"
  sc_reasoning :: "string option"
  sc_thinking :: "thinking_block list"
  sc_item :: "reasoning_item option"

definition no_side_content :: side_content where
  "no_side_content = \<lparr>sc_thought = [], sc_reasoning = None, sc_thinking = [], sc_item = None\<rparr>"

definition action_event ::
    "side_content \<Rightarrow> string \<Rightarrow> string \<Rightarrow> message_tool_call \<Rightarrow> action option \<Rightarrow> security_risk \<Rightarrow>
     string option \<Rightarrow> event_meta \<Rightarrow> event"
where
  "action_event sc llm_response_id tool_name call act risk summary m =
     ActionEvent m
       \<lparr>ae_thought = sc_thought sc, ae_reasoning_content = sc_reasoning sc,
        ae_thinking_blocks = sc_thinking sc, ae_responses_reasoning_item = sc_item sc,
        ae_action = act, ae_tool_name = tool_name, ae_tool_call_id = tc_id call, ae_tool_call = call,
        ae_llm_response_id = llm_response_id, ae_security_risk = risk, ae_critic_result = None,
        ae_summary = summary\<rparr>"

definition emit_tool_error ::
    "world \<Rightarrow> agent \<Rightarrow> string \<Rightarrow> string \<Rightarrow> message_tool_call \<Rightarrow> string \<Rightarrow> side_content \<Rightarrow> session \<Rightarrow> session"
where
  "emit_tool_error w ag err tool_name call llm_response_id sc s =
     (let call' = (if ag_json_ok ag (tc_arguments call) then call
                   else call\<lparr>tc_arguments := ag_error_json ag err\<rparr>);
          s1 = emit w SourceAgent
                 (action_event sc llm_response_id (tc_name call') call' None RiskUnknown None) s
      in emit w SourceAgent (\<lambda>m. AgentErrorEvent m
           \<lparr>ee_tool_name = tool_name, ee_tool_call_id = tc_id call', ee_error = err,
            ee_classification = AGENT_OUTCOME\<rparr>) s1)"

definition show_names :: "string list \<Rightarrow> string" where
  "show_names names = ''['' @ join '', '' (map quoted names) @ '']''"

fun with_critic :: "string option \<Rightarrow> event \<Rightarrow> event" where
  "with_critic (Some r) (ActionEvent m a) = ActionEvent m (a\<lparr>ae_critic_result := Some r\<rparr>)"
| "with_critic (Some r) (MessageEvent m x) = MessageEvent m (x\<lparr>me_critic_result := Some r\<rparr>)"
| "with_critic c e = e"

definition get_action_event ::
    "world \<Rightarrow> agent \<Rightarrow> message_tool_call \<Rightarrow> string \<Rightarrow> side_content \<Rightarrow> session \<Rightarrow> event option \<times> session" where
  "get_action_event w ag call llm_response_id sc s =
     (case ag_read_call ag call of
        UnknownTool tool_name \<Rightarrow>
          (None, emit_tool_error w ag
             (''Tool '' @ quoted tool_name @ '' not found. Available: '' @ show_names (ag_tools ag))
             tool_name call llm_response_id sc s)
      | InvalidCall display_name err \<Rightarrow>
          (None, emit_tool_error w ag err display_name call llm_response_id sc s)
      | ReadCall p \<Rightarrow>
          (case extract_security_risk (pc_raw_risk p) (pc_read_only p) (ag_analyzer ag \<noteq> None) of
             Inl _ \<Rightarrow>
               (None, emit_tool_error w ag (ag_risk_error ag (the (pc_raw_risk p)) call) (tc_name call)
                  call llm_response_id sc s)
           | Inr risk \<Rightarrow>
               let e = action_event sc llm_response_id (pc_tool_name p) (pc_call p) (Some (pc_action p)) risk
                     (Some (pc_summary p)) (new_meta w SourceAgent s);
                   e' = (if should_evaluate_with_critic ag (Some (pc_action p))
                         then with_critic (evaluate_with_critic ag e s) e else e)
               in (Some e', on_event w e' (next_id s))))"

fun get_action_events ::
    "world \<Rightarrow> agent \<Rightarrow> message_tool_call list \<Rightarrow> string \<Rightarrow> side_content \<Rightarrow> session \<Rightarrow> event list \<times> session" where
  "get_action_events w ag [] llm_response_id sc s = ([], s)"
| "get_action_events w ag (call # calls) llm_response_id sc s =
     (let (ae, s1) = get_action_event w ag call llm_response_id sc s;
          (aes, s2) = get_action_events w ag calls llm_response_id no_side_content s1
      in (case ae of None \<Rightarrow> aes | Some e \<Rightarrow> e # aes, s2))"

section \<open>Confirmation\<close>

fun any_confirm :: "confirmation_policy \<Rightarrow> security_risk list \<Rightarrow> bool result" where
  "any_confirm p [] = Inr False"
| "any_confirm p (r # rs) =
     and_then (should_confirm p r) (\<lambda>c. if c then Inr True else any_confirm p rs)"

definition exempt :: "event list \<Rightarrow> bool" where
  "exempt action_events =
     (case action_events of
        [ae] \<Rightarrow>
          (case action_of ae of
             Some act \<Rightarrow> action_class act \<in> {FINISH_ACTION, THINK_ACTION}
           | None \<Rightarrow> False)
      | _ \<Rightarrow> False)"

definition risks_of :: "agent \<Rightarrow> event list \<Rightarrow> security_risk list" where
  "risks_of ag action_events =
     (case ag_analyzer ag of
        Some a \<Rightarrow> map snd (analyze_pending_actions a action_events)
      | None \<Rightarrow> replicate (length action_events) RiskUnknown)"

definition requires_user_confirmation ::
    "agent \<Rightarrow> event list \<Rightarrow> session \<Rightarrow> bool result \<times> session" where
  "requires_user_confirmation ag action_events s =
     (if exempt action_events then (Inr False, s)
      else if action_events = [] then (Inr False, s)
      else case any_confirm (ag_policy ag) (risks_of ag action_events) of
          Inl e \<Rightarrow> (Inl e, s)
        | Inr True \<Rightarrow> (Inr True, set_status WAITING_FOR_CONFIRMATION s)
        | Inr False \<Rightarrow> (Inr False, s))"

section \<open>Dispatching a response\<close>

datatype response_type = TOOL_CALLS | CONTENT | REASONING_ONLY | EMPTY

definition classify_response :: "message \<Rightarrow> response_type" where
  "classify_response m =
     (if msg_tool_calls m \<noteq> None \<and> msg_tool_calls m \<noteq> Some [] then TOOL_CALLS
      else if list_ex (\<lambda>c. case c of TextContent t \<Rightarrow> strip t \<noteq> [] | ImageContent _ \<Rightarrow> False) (msg_content m)
      then CONTENT
      else if msg_responses_reasoning_item m \<noteq> None \<or> msg_reasoning_content m \<noteq> None \<or>
              msg_thinking_blocks m \<noteq> []
      then REASONING_ONLY
      else EMPTY)"

definition maybe_emit_vllm_tokens :: "world \<Rightarrow> agent \<Rightarrow> session \<Rightarrow> session" where
  "maybe_emit_vllm_tokens w ag s =
     (if ag_tokens ag then emit w SourceAgent (\<lambda>m. OtherEvent m ''TokenEvent'' []) s else s)"

definition handle_tool_calls ::
    "world \<Rightarrow> agent \<Rightarrow> message \<Rightarrow> string \<Rightarrow> session \<Rightarrow> unit result \<times> session" where
  "handle_tool_calls w ag msg llm_response_id s =
     (let sc = \<lparr>sc_thought = filter is_text (msg_content msg), sc_reasoning = msg_reasoning_content msg,
                sc_thinking = msg_thinking_blocks msg, sc_item = msg_responses_reasoning_item msg\<rparr>;
          (aes, s1) = get_action_events w ag (the (msg_tool_calls msg)) llm_response_id sc s
      in case requires_user_confirmation ag aes s1 of
           (Inl e, s2) \<Rightarrow> (Inl e, s2)
         | (Inr True, s2) \<Rightarrow> (Inr (), s2)
         | (Inr False, s2) \<Rightarrow>
             (case (if aes \<noteq> [] then execute_actions w ag aes s2 else (Inr (), s2)) of
                (Inl e, s3) \<Rightarrow> (Inl e, s3)
              | (Inr _, s3) \<Rightarrow> (Inr (), maybe_emit_vllm_tokens w ag s3)))"

definition mask_secrets :: "agent \<Rightarrow> message \<Rightarrow> message" where
  "mask_secrets ag m =
     m\<lparr>msg_content := map (\<lambda>c. case c of TextContent t \<Rightarrow> TextContent (ag_mask ag t)
                                | ImageContent u \<Rightarrow> ImageContent u) (msg_content m),
       msg_reasoning_content := (if given (msg_reasoning_content m)
         then map_option (ag_mask ag) (msg_reasoning_content m) else msg_reasoning_content m)\<rparr>"

definition emit_message_event ::
    "world \<Rightarrow> agent \<Rightarrow> message \<Rightarrow> string \<Rightarrow> session \<Rightarrow> session" where
  "emit_message_event w ag msg llm_response_id s =
     (let e = MessageEvent (new_meta w SourceAgent s)
            ((plain_fields (mask_secrets ag msg))\<lparr>me_llm_response_id := Some llm_response_id\<rparr>);
          e' = (case ag_critic ag of
                  Some c \<Rightarrow> if cr_all_actions c then e else with_critic (evaluate_with_critic ag e s) e
                | None \<Rightarrow> e)
      in on_event w e' (next_id s))"

definition handle_content_response ::
    "world \<Rightarrow> agent \<Rightarrow> message \<Rightarrow> string \<Rightarrow> session \<Rightarrow> session" where
  "handle_content_response w ag msg llm_response_id s =
     set_status FINISHED (maybe_emit_vllm_tokens w ag (emit_message_event w ag msg llm_response_id s))"

definition send_corrective_nudge :: "world \<Rightarrow> session \<Rightarrow> session" where
  "send_corrective_nudge w s =
     emit w SourceEnvironment (user_text
       (''Your last response did not include a function call or a message. Please '' @
        ''use a tool to proceed with the task.'')) s"

definition handle_no_content_response ::
    "world \<Rightarrow> agent \<Rightarrow> message \<Rightarrow> string \<Rightarrow> session \<Rightarrow> session" where
  "handle_no_content_response w ag msg llm_response_id s =
     send_corrective_nudge w
       (maybe_emit_vllm_tokens w ag (emit_message_event w ag msg llm_response_id s))"

section \<open>Preparing the messages\<close>

definition prepare_llm_messages ::
    "agent \<Rightarrow> session \<Rightarrow> (condensation_fields + message list) result \<times> session" where
  "prepare_llm_messages ag s =
     (case ag_condenser ag of
        None \<Rightarrow> (and_then (events_to_messages (view_events (ses_view s))) (\<lambda>ms. Inr (Inr ms)), s)
      | Some condenser \<Rightarrow>
          (case condenser (ses_view s) (ses_counted s) of
             (Inl e, st) \<Rightarrow> (Inl e, s\<lparr>ses_counted := st\<rparr>)
           | (Inr (CondensedBy c), st) \<Rightarrow> (Inr (Inl c), s\<lparr>ses_counted := st\<rparr>)
           | (Inr (CondensedView v), st) \<Rightarrow>
               (and_then (events_to_messages (view_events v)) (\<lambda>ms. Inr (Inr ms)),
                s\<lparr>ses_counted := st\<rparr>)))"

definition contains_image :: "message \<Rightarrow> bool" where
  "contains_image m \<longleftrightarrow> list_ex (\<lambda>c. \<not> is_text c) (msg_content m)"

definition latest_user_message_contains_image :: "message list \<Rightarrow> bool" where
  "latest_user_message_contains_image messages =
     (case find (\<lambda>m. msg_role m = RoleUser) (rev messages) of
        None \<Rightarrow> False | Some m \<Rightarrow> contains_image m)"

definition image_reference :: "nat \<Rightarrow> content" where
  "image_reference i =
     TextContent (''[Image '' @ dec i @ '' is attached to the latest user message. Use the '' @
       ''inspect_image_with_vision tool with image_index='' @ dec i @ '' to inspect it.]'')"

fun reference_content :: "nat \<Rightarrow> content list \<Rightarrow> content list" where
  "reference_content i [] = []"
| "reference_content i (TextContent t # cs) = TextContent t # reference_content i cs"
| "reference_content i (ImageContent urls # cs) =
     map image_reference [i..<i + length urls] @ reference_content (i + length urls) cs"

text \<open>The loop runs from the last message backwards, so this one runs over the reversed list.\<close>

fun replace_first_images :: "message list \<Rightarrow> message list" where
  "replace_first_images [] = []"
| "replace_first_images (m # ms) =
     (if msg_role m \<noteq> RoleUser \<or> \<not> contains_image m then m # replace_first_images ms
      else m\<lparr>msg_content := reference_content 0 (msg_content m)\<rparr> # ms)"

definition replace_latest_user_images_with_references :: "message list \<Rightarrow> message list" where
  "replace_latest_user_images_with_references messages = rev (replace_first_images (rev messages))"

definition should_handle_non_multimodal_image_input :: "agent \<Rightarrow> message list \<Rightarrow> bool" where
  "should_handle_non_multimodal_image_input ag messages =
     (if ag_router ag then False
      else latest_user_message_contains_image messages \<and> \<not> ag_vision ag)"

definition VISION_INSPECT_TOOL_NAME :: string where
  "VISION_INSPECT_TOOL_NAME = ''inspect_image_with_vision''"

definition non_multimodal_image_message :: "string \<Rightarrow> message" where
  "non_multimodal_image_message model =
     plain_message RoleAssistant [TextContent (''I received your image, but the currently selected model ('' @
       model @ '') does not support image understanding. Please switch to a multimodal model to '' @
       ''analyze the image.'')]"

section \<open>The step\<close>

definition can_request_condensation :: "agent \<Rightarrow> bool" where
  "can_request_condensation ag \<longleftrightarrow> ag_condenser ag \<noteq> None \<and> ag_handles_requests ag"

definition lift_result :: "unit result \<times> session \<Rightarrow> (raised + unit) \<times> session" where
  "lift_result rs = (case rs of (Inl e, s) \<Rightarrow> (Inl (PyRaised e), s) | (Inr _, s) \<Rightarrow> (Inr (), s))"

definition handle_response ::
    "world \<Rightarrow> agent \<Rightarrow> llm_response \<Rightarrow> session \<Rightarrow> (raised + unit) \<times> session" where
  "handle_response w ag r s =
     (case classify_response (resp_message r) of
        TOOL_CALLS \<Rightarrow> lift_result (handle_tool_calls w ag (resp_message r) (resp_id r) s)
      | CONTENT \<Rightarrow> (Inr (), handle_content_response w ag (resp_message r) (resp_id r) s)
      | _ \<Rightarrow> (Inr (), handle_no_content_response w ag (resp_message r) (resp_id r) s))"

text \<open>From the messages on: the model is called and its answer or exception handled.\<close>

definition complete_step ::
    "world \<Rightarrow> agent \<Rightarrow> message list \<Rightarrow> session \<Rightarrow> (raised + unit) \<times> session" where
  "complete_step w ag messages s =
     (case ag_llm ag (ses_fresh s) messages of
        LLMReply r \<Rightarrow> handle_response w ag r s
      | FunctionCallValidationError e \<Rightarrow> (Inr (), emit w SourceUser (user_text e) s)
      | ContentPolicyViolation \<Rightarrow>
          (Inr (), emit w SourceUser (user_text
             (''Your previous response was blocked by the model'' @ [CHR 0x27] @
              ''s content filter. Please continue, rephrasing to avoid the flagged content.'')) s)
      | MalformedHistory e \<Rightarrow>
          if can_request_condensation ag
          then (Inr (), emit w SourceEnvironment CondensationRequest (session_rebuild_view s))
          else (Inl (LLMRaised ''LLMMalformedConversationHistoryError'' e), s)
      | ContextWindowExceeded e \<Rightarrow>
          if can_request_condensation ag
          then (Inr (), emit w SourceEnvironment CondensationRequest s)
          else (Inl (LLMRaised ''LLMContextWindowExceedError'' e), s)
      | LLMException c e \<Rightarrow> (Inl (LLMRaised c e), s))"

definition sample_step :: "world \<Rightarrow> agent \<Rightarrow> session \<Rightarrow> (raised + unit) \<times> session" where
  "sample_step w ag s =
     (case prepare_llm_messages ag s of
        (Inl e, s1) \<Rightarrow> (Inl (PyRaised e), s1)
      | (Inr (Inl c), s1) \<Rightarrow> (Inr (), emit w SourceEnvironment (\<lambda>m. Condensation m c) s1)
      | (Inr (Inr messages), s1) \<Rightarrow>
          if should_handle_non_multimodal_image_input ag messages then
            if VISION_INSPECT_TOOL_NAME \<in> set (ag_tools ag)
            then complete_step w ag (replace_latest_user_images_with_references messages) s1
            else (Inr (), set_status FINISHED
              (emit w SourceAgent (\<lambda>m. MessageEvent m (plain_fields
                 (non_multimodal_image_message (ag_model ag)))) s1))
          else complete_step w ag messages s1)"

definition agent_step :: "world \<Rightarrow> agent \<Rightarrow> session \<Rightarrow> (raised + unit) \<times> session" where
  "agent_step w ag s =
     (let pending_actions = get_unmatched_actions (ses_events s)
      in if pending_actions \<noteq> [] then lift_result (execute_actions w ag pending_actions s)
         else case ses_last_user_message_id s of
             None \<Rightarrow> sample_step w ag s
           | Some i \<Rightarrow>
               (case pop_blocked_message i s of
                  (Some reason, s1) \<Rightarrow> (Inr (), set_status FINISHED s1)
                | (None, s1) \<Rightarrow> sample_step w ag s1))"

end
