(* ===== verification/Run_Loop.thy ===== *)
theory Run_Loop
  imports Agent_Step
begin

text \<open>
  The run loop of a local conversation (\<^verbatim>\<open>conversation/impl/local_conversation.py\<close>): statuses and stop
  hooks at the top of an iteration, stuck detection and its nudge, the step of the agent, the count
  of iterations and of condensation-only steps, and the limits that end a run. One iteration is
  \<open>run_iteration\<close>; \<open>run_loop\<close> repeats it and has the value \<open>None\<close> when it does not end.
\<close>

section \<open>Configuration\<close>

text \<open>
  The limits of a conversation, its stuck thresholds when detection is on, the message of an exceeded
  cost budget (the cost is kept outside the model) and the class name and text of an exception.
\<close>

record run_config =
  rc_max_iterations :: nat
  rc_stop_hook_cap :: nat
  rc_thresholds :: "stuck_thresholds option"
  rc_budget :: "session \<Rightarrow> string option"
  rc_error :: "raised \<Rightarrow> string \<times> string"

definition MAX_CONSECUTIVE_STOP_HOOK_DENIALS :: nat where
  "MAX_CONSECUTIVE_STOP_HOOK_DENIALS = 8"

definition ACP_STOP_HOOK_FEEDBACK_PREFIX :: string where
  "ACP_STOP_HOOK_FEEDBACK_PREFIX = ''[Stop hook feedback]''"

section \<open>Parts of an iteration\<close>

text \<open>\<open>HookEventProcessor.run_stop\<close>.\<close>

definition hook_run_stop ::
    "world \<Rightarrow> hook_env \<Rightarrow> hook_config \<Rightarrow> string option \<Rightarrow> bool \<Rightarrow> session \<Rightarrow> (bool \<times> string option) \<times> session" where
  "hook_run_stop w env cfg reason stop_hook_active s =
     (if \<not> has_hooks_for_event cfg StopEvent then ((True, None), s)
      else
        let hooks = get_hooks_for_event env cfg StopEvent None;
            (should_stop, results) = run_stop env cfg reason stop_hook_active;
            s1 = emit_hook_results w StopEvent hooks results s;
            feedback_parts = contexts results;
            feedback =
              (if should_stop then None
               else if feedback_parts \<noteq> [] then Some (join [CHR 0x0A] feedback_parts)
               else if given (get_blocking_reason results) then get_blocking_reason results
               else None)
        in ((should_stop, feedback), s1))"

definition emit_run_limit_error :: "world \<Rightarrow> string \<Rightarrow> string \<Rightarrow> session \<Rightarrow> session" where
  "emit_run_limit_error w code detail s =
     emit w SourceEnvironment (conversation_error code detail) (set_status ERROR s)"

definition check_stuck_or_nudge :: "world \<Rightarrow> run_config \<Rightarrow> session \<Rightarrow> bool \<times> session" where
  "check_stuck_or_nudge w c s =
     (case rc_thresholds c of
        None \<Rightarrow> (False, s)
      | Some th \<Rightarrow>
          (case get_action_error_nudge th (ses_events s) (ses_detector s) of
             (Some nudge, det) \<Rightarrow>
               (False, emit w SourceEnvironment (user_text nudge) (s\<lparr>ses_detector := det\<rparr>))
           | (None, det) \<Rightarrow>
               if is_stuck th det (ses_events s) then (True, set_status STUCK (s\<lparr>ses_detector := det\<rparr>))
               else (False, s\<lparr>ses_detector := det\<rparr>)))"

fun is_condensation_event :: "event \<Rightarrow> bool" where
  "is_condensation_event (Condensation _ _) = True"
| "is_condensation_event (CondensationRequest _) = True"
| "is_condensation_event _ = False"

definition record_step :: "nat \<Rightarrow> nat \<Rightarrow> nat \<Rightarrow> session \<Rightarrow> (nat \<times> nat) \<times> session" where
  "record_step start iteration streak s =
     (let events = drop start (ses_events s)
      in if events \<noteq> [] \<and> list_all is_condensation_event events then
           let s1 = s\<lparr>ses_condensation_steps := Suc (ses_condensation_steps s)\<rparr>
           in ((iteration, Suc streak), if 3 \<le> Suc streak then set_status STUCK s1 else s1)
         else ((Suc iteration, 0), s\<lparr>ses_iterations_used := Suc iteration\<rparr>))"

fun is_tool_result :: "event \<Rightarrow> bool" where
  "is_tool_result (ObservationEvent _ _) = True"
| "is_tool_result (AgentErrorEvent _ _) = True"
| "is_tool_result _ = False"

fun is_conversation_error :: "event \<Rightarrow> bool" where
  "is_conversation_error (OtherEvent _ k _) = (k = ''ConversationErrorEvent'')"
| "is_conversation_error _ = False"

definition latest_conversation_error :: "event list \<Rightarrow> nat \<Rightarrow> event option" where
  "latest_conversation_error events since = find is_conversation_error (rev (drop since events))"

definition agent_already_surfaced_error :: "event list \<Rightarrow> nat \<Rightarrow> bool" where
  "agent_already_surfaced_error events since =
     (case latest_conversation_error events since of
        None \<Rightarrow> False | Some e \<Rightarrow> ev_source e = SourceAgent)"

section \<open>The loop\<close>

text \<open>The local variables of the loop, and how an iteration ends.\<close>

record loop_vars =
  lv_iteration :: nat
  lv_denials :: nat
  lv_streak :: nat

datatype iteration_end =
    Again loop_vars session
  | Break session
  | Raise raised session

definition with_feedback :: "string \<Rightarrow> string option \<Rightarrow> string" where
  "with_feedback detail feedback =
     (if given feedback then detail @ '' Last feedback: '' @ the feedback else detail)"

text \<open>The agent finished: the stop hooks decide whether it may.\<close>

definition finished_iteration :: "world \<Rightarrow> run_config \<Rightarrow> loop_vars \<Rightarrow> session \<Rightarrow> iteration_end" where
  "finished_iteration w c v s =
     (case wd_hooks w of
        None \<Rightarrow> Break s
      | Some (env, cfg) \<Rightarrow>
          (case hook_run_stop w env cfg (Some ''agent_finished'') (0 < lv_denials v) s of
             ((True, feedback), s1) \<Rightarrow> Break s1
           | ((False, feedback), s1) \<Rightarrow>
               let denials = Suc (lv_denials v)
               in if rc_stop_hook_cap c \<le> denials then
                    Break (emit_run_limit_error w ''StopHookUnmet'' (with_feedback
                      (''Stop hook denied agent stopping '' @ dec denials @ '' consecutive times.'') feedback) s1)
                  else if rc_max_iterations c \<le> lv_iteration v then
                    Break (emit_run_limit_error w ''MaxIterationsReached'' (with_feedback
                      (''Agent reached maximum iterations limit ('' @ dec (rc_max_iterations c) @
                       '') after stop-hook denial.'') feedback) s1)
                  else
                    let s2 = (if given feedback
                              then emit w SourceEnvironment
                                (user_text (ACP_STOP_HOOK_FEEDBACK_PREFIX @ '' '' @ the feedback)) s1
                              else s1)
                    in Again (v\<lparr>lv_denials := denials\<rparr>) (set_status RUNNING s2)))"

text \<open>The limits checked after a step.\<close>

definition after_step :: "world \<Rightarrow> run_config \<Rightarrow> loop_vars \<Rightarrow> session \<Rightarrow> iteration_end" where
  "after_step w c v s =
     (if ses_status s = STUCK then Break s
      else if ses_status s = WAITING_FOR_CONFIRMATION then Break s
      else if given (rc_budget c s) \<and> ses_status s \<noteq> FINISHED
      then Break (emit_run_limit_error w ''MaxBudgetReached'' (the (rc_budget c s)) s)
      else if rc_max_iterations c \<le> lv_iteration v then
        if ses_status s = FINISHED then Again v s
        else Break (emit_run_limit_error w ''MaxIterationsReached''
          (''Agent reached maximum iterations limit ('' @ dec (rc_max_iterations c) @ '').'') s)
      else Again v s)"

definition consume_message :: "session \<Rightarrow> session" where
  "consume_message s =
     (if ses_last_user_message_id s \<noteq> None
      then s\<lparr>ses_consumed_user_message_id := ses_last_user_message_id s\<rparr> else s)"

definition step_iteration :: "world \<Rightarrow> agent \<Rightarrow> run_config \<Rightarrow> loop_vars \<Rightarrow> session \<Rightarrow> iteration_end" where
  "step_iteration w ag c v s =
     (let s1 = (if ses_status s = WAITING_FOR_CONFIRMATION then set_status RUNNING s else s);
          s2 = consume_message s1;
          start = length (ses_events s2)
      in case agent_step w ag s2 of
           (Inl e, s3) \<Rightarrow> Raise e s3
         | (Inr _, s3) \<Rightarrow>
             let denials = (if list_ex is_tool_result (drop start (ses_events s3)) then 0 else lv_denials v);
                 ((iteration, streak), s4) = record_step start (lv_iteration v) (lv_streak v) s3
             in after_step w c \<lparr>lv_iteration = iteration, lv_denials = denials, lv_streak = streak\<rparr> s4)"

definition run_iteration :: "world \<Rightarrow> agent \<Rightarrow> run_config \<Rightarrow> loop_vars \<Rightarrow> session \<Rightarrow> iteration_end" where
  "run_iteration w ag c v s =
     (if ses_status s = PAUSED \<or> ses_status s = STUCK then Break s
      else if ses_status s = FINISHED then finished_iteration w c v s
      else case check_stuck_or_nudge w c s of
          (True, s1) \<Rightarrow> Again v s1
        | (False, s1) \<Rightarrow> step_iteration w ag c v s1)"

text \<open>
  The loop with its iterations following each other directly. The program releases the lock of the state
  between them, and the interleavings with other operations are those of \<open>Session_Moves\<close>.
\<close>

partial_function (option) run_loop ::
    "world \<Rightarrow> agent \<Rightarrow> run_config \<Rightarrow> loop_vars \<Rightarrow> session \<Rightarrow> (raised option \<times> session) option" where
  "run_loop w ag c v s =
     (case run_iteration w ag c v s of
        Break s' \<Rightarrow> Some (None, s')
      | Raise e s' \<Rightarrow> Some (Some e, s')
      | Again v' s' \<Rightarrow> run_loop w ag c v' s')"

definition first_vars :: loop_vars where
  "first_vars = \<lparr>lv_iteration = 0, lv_denials = 0, lv_streak = 0\<rparr>"

text \<open>What \<open>run\<close> does before the loop.\<close>

definition start_run :: "run_config \<Rightarrow> session \<Rightarrow> session" where
  "start_run c s =
     (let s1 = (if ses_status s = STUCK \<and> rc_thresholds c \<noteq> None
                then s\<lparr>ses_detector := mark_resumed (ses_events s) (ses_detector s)\<rparr> else s);
          s2 = (if ses_status s1 \<in> {IDLE, PAUSED, ERROR, STUCK} then set_status RUNNING s1 else s1)
      in s2\<lparr>ses_iterations_used := 0\<rparr>)"

text \<open>The handler of exceptions: the run ends in an error, which is recorded once.\<close>

definition handle_run_exception :: "world \<Rightarrow> run_config \<Rightarrow> nat \<Rightarrow> raised \<Rightarrow> session \<Rightarrow> session" where
  "handle_run_exception w c start e s =
     (let s1 = set_status ERROR s
      in if agent_already_surfaced_error (ses_events s1) start then s1
         else emit w SourceEnvironment (conversation_error (fst (rc_error c e)) (snd (rc_error c e))) s1)"

definition run :: "world \<Rightarrow> agent \<Rightarrow> run_config \<Rightarrow> session \<Rightarrow> (raised option \<times> session) option" where
  "run w ag c s =
     (let s1 = start_run c s
      in case run_loop w ag c first_vars s1 of
           None \<Rightarrow> None
         | Some (None, s2) \<Rightarrow> Some (None, s2)
         | Some (Some e, s2) \<Rightarrow>
             Some (Some e, handle_run_exception w c (length (ses_events s1)) e s2))"

text \<open>\<open>condense\<close>: a request, and one step of the agent that takes it up.\<close>

definition force_condense :: "world \<Rightarrow> agent \<Rightarrow> session \<Rightarrow> (raised + unit) \<times> session" where
  "force_condense w ag s =
     (if \<not> can_request_condensation ag then (Inl (PyRaised ValueError), s)
      else agent_step w ag (emit w SourceEnvironment CondensationRequest s))"

end
