(* ===== verification/Pending_Actions.thy ===== *)
theory Pending_Actions
  imports Conversation_State
begin

text \<open>
  Actions without a result: what the backward pass of \<open>get_unmatched_actions\<close> returns, and how it
  changes when events are added to a branch.
\<close>

section \<open>The backward pass and its reference\<close>

text \<open>The reference: an executable action that no later event answers.\<close>

definition answers :: "event \<Rightarrow> event \<Rightarrow> bool" where
  "answers a e =
     (case a of
        ActionEvent m x \<Rightarrow>
          (case e of
             ObservationEvent _ y \<Rightarrow> oe_action_id y = meta_id m
           | UserRejectObservation _ y \<Rightarrow> re_action_id y = meta_id m
           | AgentErrorEvent _ y \<Rightarrow> ee_tool_call_id y = ae_tool_call_id x
           | _ \<Rightarrow> False)
      | _ \<Rightarrow> False)"

fun is_executable :: "event \<Rightarrow> bool" where
  "is_executable (ActionEvent _ a) \<longleftrightarrow> ae_action a \<noteq> None"
| "is_executable _ \<longleftrightarrow> False"

fun pending :: "event list \<Rightarrow> event list" where
  "pending [] = []"
| "pending (e # es) =
     (if is_executable e \<and> \<not> list_ex (answers e) es then e # pending es else pending es)"

text \<open>What the sets of the loop stand for.\<close>

definition seen_actions :: "event list \<Rightarrow> event_id set" where
  "seen_actions es = {i. \<exists>m x. ObservationEvent m x \<in> set es \<and> oe_action_id x = i} \<union>
     {i. \<exists>m x. UserRejectObservation m x \<in> set es \<and> re_action_id x = i}"

definition seen_calls :: "event list \<Rightarrow> tool_call_id set" where
  "seen_calls es = {i. \<exists>m x. AgentErrorEvent m x \<in> set es \<and> ee_tool_call_id x = i}"

lemma seen_snoc:
  "seen_actions (e # es) = seen_actions es \<union> seen_actions [e]"
  "seen_calls (e # es) = seen_calls es \<union> seen_calls [e]"
  by (auto simp: seen_actions_def seen_calls_def)

lemma seen_one:
  "seen_actions [ObservationEvent m x] = {oe_action_id x}"
  "seen_actions [UserRejectObservation m y] = {re_action_id y}"
  "seen_calls [AgentErrorEvent m z] = {ee_tool_call_id z}"
  "seen_calls [ObservationEvent m x] = {}" "seen_calls [UserRejectObservation m y] = {}"
  "seen_actions [AgentErrorEvent m z] = {}"
  "\<not> is_observation_base e \<Longrightarrow> seen_actions [e] = {}"
  "\<not> is_observation_base e \<Longrightarrow> seen_calls [e] = {}"
  by (auto simp: seen_actions_def seen_calls_def)

lemma answered_iff:
  "list_ex (answers (ActionEvent m a)) es \<longleftrightarrow>
     meta_id m \<in> seen_actions es \<or> ae_tool_call_id a \<in> seen_calls es"
proof (induction es)
  case (Cons e es)
  then show ?case
    unfolding seen_snoc [of e es] by (cases e) (auto simp: seen_one answers_def)
qed (simp add: seen_actions_def seen_calls_def)

lemma unmatched_from_step:
  "unmatched_from (e # es) (seen_actions rest) (seen_calls rest) (pending rest) =
     unmatched_from es (seen_actions (e # rest)) (seen_calls (e # rest)) (pending (e # rest))"
  unfolding seen_snoc [of e rest] by (cases e) (simp_all add: seen_one answered_iff Un_commute)

lemma unmatched_from_pending:
  "unmatched_from (rev es) (seen_actions rest) (seen_calls rest) (pending rest) = pending (es @ rest)"
  by (induction es arbitrary: rest rule: rev_induct) (simp_all del: unmatched_from.simps(2) pending.simps(2) add: unmatched_from_step)

lemma get_unmatched_pending: "get_unmatched_actions events = pending events"
  using unmatched_from_pending [of events "[]"]
  by (simp add: get_unmatched_actions_def seen_actions_def seen_calls_def)

section \<open>Growing a branch\<close>

lemma pending_append:
  "pending (es @ new) = filter (\<lambda>a. \<not> list_ex (answers a) new) (pending es) @ pending new"
  by (induction es) auto

lemma pending_executable: "a \<in> set (pending es) \<Longrightarrow> is_executable a \<and> a \<in> set es"
  by (induction es) (auto split: if_splits)

lemma pending_inert: "list_all (\<lambda>e. \<not> is_executable e) new \<Longrightarrow> pending new = []"
  by (induction new) auto

lemma answers_action: "answers a e \<Longrightarrow> is_action a \<and> is_observation_base e"
  by (cases a; simp add: answers_def; cases e; simp)

text \<open>
  C37. The single backward pass that finds unmatched actions returns, in order, the executable actions
  that no later observation, rejection or error answers.
\<close>

theorem unmatched_actions_are_pending:
  "get_unmatched_actions events = pending events"
  by (rule get_unmatched_pending)

end
