(* ===== verification/Session_Laws.thy ===== *)
theory Session_Laws
  imports Session Pending_Actions
begin

text \<open>
  What emitting an event does to a session, whatever hooks and rules are configured: it adds log
  entries of hooks and then the event itself, up to injected content; tools are not called and the
  status stays. From this, what rejecting, interrupting and sending a message do.
\<close>

section \<open>Emitting\<close>

fun is_log :: "event \<Rightarrow> bool" where
  "is_log (OtherEvent _ _ _) = True"
| "is_log _ = False"

lemma is_log_inert [simp]:
  "is_log e \<Longrightarrow> \<not> is_executable e" "is_log e \<Longrightarrow> \<not> answers a e" "is_log e \<Longrightarrow> append_event v e = v"
  "is_log e \<Longrightarrow> \<not> is_action e" "is_log e \<Longrightarrow> \<not> is_user_message e"
  by (cases e; simp add: answers_def split: event.splits)+

lemma logs_inert:
  assumes "list_all is_log logs"
  shows "pending logs = []" and "\<not> list_ex (answers a) logs"
  using assms by (induction logs) auto

text \<open>The event itself, up to what rules and hooks add to its content.\<close>

inductive same_event :: "event \<Rightarrow> event \<Rightarrow> bool" where
  same: "same_event e e"
| observed: "same_event (ObservationEvent m x) (ObservationEvent m (x\<lparr>oe_extended_content := c\<rparr>))"
| message: "meta_source m = SourceUser \<Longrightarrow> meta_source m' = SourceUser \<Longrightarrow>
    same_event (MessageEvent m x) (MessageEvent m' y)"

inductive_cases same_event_action [elim!]: "same_event (ActionEvent m a) e"

lemma same_event_answers: "same_event e e' \<Longrightarrow> answers a e' = answers a e"
  by (cases rule: same_event.cases) (auto simp: answers_def split: event.splits)

lemma same_event_executable: "same_event e e' \<Longrightarrow> is_executable e' = is_executable e"
  by (cases rule: same_event.cases) auto

lemma same_event_eq: "same_event e e' \<Longrightarrow> is_action e \<or> is_action e' \<or> is_log e \<or> is_log e' \<Longrightarrow> e' = e"
  by (cases rule: same_event.cases) auto

text \<open>
  What an emission keeps: the tool calls made, the status, the counters, the message that was
  consumed and the detector.
\<close>

definition keeps :: "session \<Rightarrow> session \<Rightarrow> bool" where
  "keeps s s' \<longleftrightarrow> ses_calls s' = ses_calls s \<and> ses_status s' = ses_status s \<and>
     ses_refinements s' = ses_refinements s \<and> ses_iterations_used s' = ses_iterations_used s \<and>
     ses_condensation_steps s' = ses_condensation_steps s \<and> ses_detector s' = ses_detector s \<and>
     ses_counted s' = ses_counted s \<and> ses_consumed_user_message_id s' = ses_consumed_user_message_id s \<and>
     ses_fresh s \<le> ses_fresh s'"

lemma keeps_refl [simp]: "keeps s s"
  by (simp add: keeps_def)

lemma keeps_trans: "keeps s t \<Longrightarrow> keeps t u \<Longrightarrow> keeps s u"
  by (simp add: keeps_def)

lemma keepsD:
  "keeps s s' \<Longrightarrow> ses_calls s' = ses_calls s" "keeps s s' \<Longrightarrow> ses_status s' = ses_status s"
  "keeps s s' \<Longrightarrow> ses_refinements s' = ses_refinements s" "keeps s s' \<Longrightarrow> ses_fresh s \<le> ses_fresh s'"
  by (simp_all add: keeps_def)

lemma default_callback_fields [simp]:
  "ses_events (default_callback e s) = ses_events s @ [e]"
  "ses_view (default_callback e s) = append_event (ses_view s) e"
  "ses_fresh (default_callback e s) = ses_fresh s"
  "ses_blocked_actions (default_callback e s) = ses_blocked_actions s"
  "ses_blocked_messages (default_callback e s) = ses_blocked_messages s"
  "ses_last_user_message_id (default_callback e s) =
     (if is_user_message e then Some (ev_id e) else ses_last_user_message_id s)"
  by (simp_all add: default_callback_def Let_def)

lemma default_callback_keeps [simp]: "keeps s (default_callback e s)"
  by (simp add: default_callback_def Let_def keeps_def)

text \<open>The identities of new events were taken from the supply in between, each once.\<close>

definition issued :: "world \<Rightarrow> session \<Rightarrow> session \<Rightarrow> event list \<Rightarrow> bool" where
  "issued w s s' xs \<longleftrightarrow>
     (\<exists>ks. map ev_id xs = map (wd_uuid w) ks \<and> distinct ks \<and> set ks \<subseteq> {ses_fresh s..<ses_fresh s'})"

lemma issued_Nil [simp]: "issued w s s' []"
  by (simp add: issued_def)

lemma issued_mono:
  "issued w s s' xs \<Longrightarrow> ses_fresh t \<le> ses_fresh s \<Longrightarrow> ses_fresh s' \<le> ses_fresh t' \<Longrightarrow> issued w t t' xs"
  unfolding issued_def by fastforce

lemma issued_append:
  assumes "issued w s t xs" and "issued w t u ys" and "ses_fresh s \<le> ses_fresh t" and "ses_fresh t \<le> ses_fresh u"
  shows "issued w s u (xs @ ys)"
proof -
  from assms(1,2) obtain ks js where k: "map ev_id xs = map (wd_uuid w) ks" "distinct ks"
    "set ks \<subseteq> {ses_fresh s..<ses_fresh t}" "map ev_id ys = map (wd_uuid w) js" "distinct js"
    "set js \<subseteq> {ses_fresh t..<ses_fresh u}" unfolding issued_def by blast
  have "set ks \<inter> set js = {}" using k(3,6) by fastforce
  moreover have "set (ks @ js) \<subseteq> {ses_fresh s..<ses_fresh u}" using k(3,6) assms(3,4) by fastforce
  ultimately show ?thesis
    unfolding issued_def using k(1,2,4,5) by (intro exI [of _ "ks @ js"]) simp
qed

lemma issued_one:
  "ev_id e = wd_uuid w (ses_fresh s) \<Longrightarrow> ses_fresh s < ses_fresh s' \<Longrightarrow> issued w s s' [e]"
  unfolding issued_def by (intro exI [of _ "[ses_fresh s]"]) simp

text \<open>Hook runs are logged, and nothing else happens.\<close>

definition logged :: "world \<Rightarrow> event list \<Rightarrow> session \<Rightarrow> session \<Rightarrow> bool" where
  "logged w logs s s' \<longleftrightarrow> list_all is_log logs \<and> ses_events s' = ses_events s @ logs \<and>
     ses_view s' = ses_view s \<and> keeps s s' \<and> issued w s s' logs \<and>
     ses_last_user_message_id s' = ses_last_user_message_id s"

lemma emit_hook_results_logged:
  "\<exists>logs. logged w logs s (emit_hook_results w t hooks results s) \<and>
     ses_blocked_actions (emit_hook_results w t hooks results s) = ses_blocked_actions s \<and>
     ses_blocked_messages (emit_hook_results w t hooks results s) = ses_blocked_messages s"
  unfolding emit_hook_results_def
proof (induction "zip hooks results" arbitrary: s hooks results)
  case Nil
  have "logged w [] s s" by (simp add: logged_def)
  then show ?case using Nil by auto
next
  case (Cons hr hrs)
  let ?s = "emit_hook_execution_event w t hr s"
  from Cons.hyps(2) obtain h r hs rs where hr: "hooks = h # hs" "results = r # rs" "hr = (h, r)"
    by (cases hooks; cases results) auto
  have hrs: "hrs = zip hs rs" using Cons.hyps(2) hr by simp
  from Cons.hyps(1) [OF hrs, of ?s] obtain logs where
    l: "logged w logs ?s (fold (emit_hook_execution_event w t) (zip hs rs) ?s)"
      "ses_blocked_actions (fold (emit_hook_execution_event w t) (zip hs rs) ?s) = ses_blocked_actions ?s"
      "ses_blocked_messages (fold (emit_hook_execution_event w t) (zip hs rs) ?s) = ses_blocked_messages ?s"
    by blast
  let ?e = "OtherEvent (new_meta w SourceHook s) ''HookExecutionEvent'' (wd_hook_log w t (fst hr) (snd hr))"
  have one: "ses_events ?s = ses_events s @ [?e]" "ses_view ?s = ses_view s"
    "ses_blocked_actions ?s = ses_blocked_actions s" "ses_blocked_messages ?s = ses_blocked_messages s"
    "ses_last_user_message_id ?s = ses_last_user_message_id s"
    by (simp_all add: emit_hook_execution_event_def)
  have "keeps s ?s" by (simp add: emit_hook_execution_event_def default_callback_def Let_def keeps_def)
  moreover have "issued w s ?s [?e]"
    by (rule issued_one) (simp_all add: new_meta_def emit_hook_execution_event_def)
  ultimately have "logged w (?e # logs) s (fold (emit_hook_execution_event w t) (zip hs rs) ?s)"
    using l(1) one issued_append [of w s ?s "[?e]"]
    by (auto simp: logged_def intro: keeps_trans dest: keepsD(4))
  with l(2,3) one hr show ?case by auto
qed

lemma block_fresh [simp]:
  "ses_fresh (block_action i r s) = ses_fresh s" "ses_fresh (block_message i r s) = ses_fresh s"
  by (simp_all add: block_action_def block_message_def)

lemma issued_block [simp]:
  "issued w s (block_action i r t) xs = issued w s t xs"
  "issued w s (block_message i r t) xs = issued w s t xs"
  by (simp_all add: issued_def)

lemma block_action_fields [simp]:
  "ses_events (block_action i r s) = ses_events s" "ses_view (block_action i r s) = ses_view s"
  "keeps s (block_action i r s)"
  "ses_last_user_message_id (block_action i r s) = ses_last_user_message_id s"
  "ses_blocked_messages (block_action i r s) = ses_blocked_messages s"
  by (simp_all add: block_action_def keeps_def)

lemma block_message_fields [simp]:
  "ses_events (block_message i r s) = ses_events s" "ses_view (block_message i r s) = ses_view s"
  "keeps s (block_message i r s)"
  "ses_last_user_message_id (block_message i r s) = ses_last_user_message_id s"
  "ses_blocked_actions (block_message i r s) = ses_blocked_actions s"
  by (simp_all add: block_message_def keeps_def)

text \<open>The blocks an emission adds: only the action emitted, and only when its hooks deny it.\<close>

definition denied :: "world \<Rightarrow> event \<Rightarrow> bool" where
  "denied w e \<longleftrightarrow>
     (\<exists>env cfg m a act. wd_hooks w = Some (env, cfg) \<and> e = ActionEvent m a \<and> ae_action a = Some act \<and>
        \<not> fst (run_pre_tool_use env cfg (ae_tool_name a) (wd_action_dump w act)))"

definition blocks_after :: "world \<Rightarrow> event \<Rightarrow> session \<Rightarrow> session \<Rightarrow> bool" where
  "blocks_after w e s s' \<longleftrightarrow>
     (\<forall>i. \<not> (denied w e \<and> i = ev_id e) \<longrightarrow>
        map_of (ses_blocked_actions s') i = map_of (ses_blocked_actions s) i) \<and>
     (denied w e \<longrightarrow> map_of (ses_blocked_actions s') (ev_id e) \<noteq> None)"

text \<open>
  An emission of \<open>e\<close> as a whole. The event keeps its identity, except that hooks may replace a user
  message by one with a new identity.
\<close>

definition ids_after :: "world \<Rightarrow> event \<Rightarrow> event list \<Rightarrow> event \<Rightarrow> session \<Rightarrow> session \<Rightarrow> bool" where
  "ids_after w e logs e' s s' \<longleftrightarrow>
     ev_id e' = ev_id e \<and> issued w s s' logs \<or> issued w s s' (logs @ [e'])"

definition emitted :: "world \<Rightarrow> event \<Rightarrow> session \<Rightarrow> session \<Rightarrow> bool" where
  "emitted w e s s' \<longleftrightarrow>
     (\<exists>logs e'. list_all is_log logs \<and> same_event e e' \<and> ses_events s' = ses_events s @ logs @ [e'] \<and>
        ses_view s' = append_event (ses_view s) e' \<and> keeps s s' \<and> blocks_after w e s s' \<and>
        ids_after w e logs e' s s')"

lemma blocks_after_kept:
  "\<not> denied w e \<Longrightarrow> ses_blocked_actions s' = ses_blocked_actions s \<Longrightarrow> blocks_after w e s s'"
  by (simp add: blocks_after_def)

lemma emitted_after_logs:
  assumes "logged w logs s s1" and "same_event e e'" and "blocks_after w e s (default_callback e' s1)"
    and "ids_after w e logs e' s s1"
  shows "emitted w e s (default_callback e' s1)"
  unfolding emitted_def
proof (intro exI conjI)
  show "list_all is_log logs" "ses_events (default_callback e' s1) = ses_events s @ logs @ [e']"
    "ses_view (default_callback e' s1) = append_event (ses_view s) e'"
    using assms(1) by (simp_all add: logged_def)
  show "keeps s (default_callback e' s1)"
    using assms(1) keeps_trans [of s s1 "default_callback e' s1"] by (simp add: logged_def)
  show "ids_after w e logs e' s (default_callback e' s1)" using assms(4) by (simp add: ids_after_def issued_def)
qed (use assms in auto)

lemma ids_kept: "logged w logs s s' \<Longrightarrow> ids_after w e logs e s s'"
  by (simp add: ids_after_def logged_def)

lemma logged_refl [simp]: "logged w [] s s"
  by (simp add: logged_def)

lemma not_denied [simp]: "\<not> is_action e \<Longrightarrow> \<not> denied w e"
  by (auto simp: denied_def)

lemma pre_tool_use_blocks:
  assumes "wd_hooks w = Some (env, cfg)" and "ae_action a = Some act"
  shows "\<exists>logs. logged w logs s (handle_pre_tool_use w env cfg (meta_id m) (ae_tool_name a) act s) \<and>
    blocks_after w (ActionEvent m a) s (handle_pre_tool_use w env cfg (meta_id m) (ae_tool_name a) act s)"
proof (cases "has_hooks_for_event cfg PreToolUse")
  case False
  then have "get_hooks_for_event env cfg PreToolUse t = []" for t
    by (simp add: has_hooks_for_event_def get_hooks_for_event_def)
  then have "\<not> denied w (ActionEvent m a)"
    using assms by (simp add: denied_def run_pre_tool_use_def)
  then have "blocks_after w (ActionEvent m a) s s" by (rule blocks_after_kept) simp
  then show ?thesis using False logged_refl [of w s] by (auto simp: handle_pre_tool_use_def simp del: logged_refl)
next
  case True
  let ?hooks = "get_hooks_for_event env cfg PreToolUse (Some (ae_tool_name a))"
  obtain continue results where r:
    "run_pre_tool_use env cfg (ae_tool_name a) (wd_action_dump w act) = (continue, results)" by fastforce
  let ?s = "emit_hook_results w PreToolUse ?hooks results s"
  obtain logs where l: "logged w logs s ?s" "ses_blocked_actions ?s = ses_blocked_actions s"
    using emit_hook_results_logged by blast
  have den: "denied w (ActionEvent m a) \<longleftrightarrow> \<not> continue" using assms r by (simp add: denied_def)
  show ?thesis
  proof (cases continue)
    case go: True
    then have "handle_pre_tool_use w env cfg (meta_id m) (ae_tool_name a) act s = ?s"
      using True r by (simp add: handle_pre_tool_use_def)
    then show ?thesis using l den go blocks_after_kept by auto
  next
    case stop: False
    let ?t = "block_action (meta_id m) (block_reason results) ?s"
    have "handle_pre_tool_use w env cfg (meta_id m) (ae_tool_name a) act s = ?t"
      using True r stop by (simp add: handle_pre_tool_use_def)
    moreover have "logged w logs s ?t"
      using l(1) keeps_trans [of s ?s ?t] by (simp add: logged_def)
    moreover have "blocks_after w (ActionEvent m a) s ?t"
      using den stop l(2) by (simp add: blocks_after_def block_action_def update_conv)
    ultimately show ?thesis by auto
  qed
qed

lemma post_tool_use_logged:
  "\<exists>logs. logged w logs s (handle_post_tool_use w env cfg x s) \<and>
     ses_blocked_actions (handle_post_tool_use w env cfg x s) = ses_blocked_actions s"
proof -
  have "\<exists>logs. logged w logs s s \<and> ses_blocked_actions s = ses_blocked_actions s"
    by (rule exI [of _ "[]"]) simp
  then show ?thesis
    using emit_hook_results_logged [of w s PostToolUse] unfolding handle_post_tool_use_def Let_def
    by (auto split: option.splits)
qed

text \<open>What a user message goes through, and where its block is recorded.\<close>

lemma user_prompt_submit_logged:
  assumes "handle_user_prompt_submit w env cfg m x s = (e, s')" and "meta_source m = SourceUser"
  shows "\<exists>logs. logged w logs s s' \<and> same_event (MessageEvent m x) e \<and>
    ses_blocked_actions s' = ses_blocked_actions s \<and> ids_after w (MessageEvent m x) logs e s s'"
proof (cases "has_hooks_for_event cfg UserPromptSubmit")
  case False
  with assms show ?thesis
    by (auto simp: handle_user_prompt_submit_def intro!: exI [of _ "[]"] same_event.same ids_kept)
next
  case True
  obtain continue ctx results where r:
    "run_user_prompt_submit env cfg (text_of (me_llm_message x)) = (continue, ctx, results)"
    using prod_cases3 by blast
  let ?hooks = "get_hooks_for_event env cfg UserPromptSubmit None"
  let ?s = "emit_hook_results w UserPromptSubmit ?hooks results s"
  let ?t = "if continue then ?s else block_message (meta_id m) (block_reason results) ?s"
  obtain logs where l: "logged w logs s ?s" "ses_blocked_actions ?s = ses_blocked_actions s"
    using emit_hook_results_logged by blast
  have t: "logged w logs s ?t" "ses_blocked_actions ?t = ses_blocked_actions s"
    using l keeps_trans [of s ?s] by (auto simp: logged_def)
  have next_t: "logged w logs s (next_id ?t)"
    using t(1) issued_mono [of w s ?t logs s "next_id ?t"] by (simp add: logged_def keeps_def)
  show ?thesis
  proof (cases "given ctx")
    case False
    then have "e = MessageEvent m x" "s' = ?t"
      using assms(1) True r by (simp_all add: handle_user_prompt_submit_def Let_def)
    then show ?thesis using t by (auto intro!: exI [of _ logs] same_event.same ids_kept)
  next
    case given: True
    then obtain y where e: "e = MessageEvent (new_meta w (meta_source m) ?t) y" "s' = next_id ?t"
      using assms(1) True r by (auto simp: handle_user_prompt_submit_def Let_def)
    have "issued w ?t s' [e]" by (rule issued_one) (simp_all add: e new_meta_def)
    then have "ids_after w (MessageEvent m x) logs e s s'"
      using t(1) issued_append [of w s ?t logs s' "[e]"] e(2) by (simp add: ids_after_def logged_def keeps_def)
    moreover have "same_event (MessageEvent m x) e"
      unfolding e(1) using assms(2) by (intro same_event.message) (simp_all add: new_meta_def)
    ultimately show ?thesis using next_t t(2) e(2) by (intro exI [of _ logs]) auto
  qed
qed

lemma hook_on_event_emitted:
  assumes "wd_hooks w = Some (env, cfg)"
  shows "emitted w e s (hook_on_event w env cfg e s)"
proof (cases e)
  case (ActionEvent m a)
  show ?thesis
  proof (cases "ae_action a")
    case None
    then have "\<not> denied w e" using ActionEvent by (simp add: denied_def)
    then show ?thesis using None ActionEvent
      by (auto simp: hook_on_event_def intro!: emitted_after_logs [of _ "[]"] ids_kept same_event.same blocks_after_kept)
  next
    case (Some act)
    let ?s = "handle_pre_tool_use w env cfg (meta_id m) (ae_tool_name a) act s"
    obtain logs where "logged w logs s ?s" "blocks_after w e s ?s"
      using pre_tool_use_blocks [OF assms Some] ActionEvent by blast
    then show ?thesis using Some ActionEvent
      by (auto simp: hook_on_event_def blocks_after_def [of _ _ _ "default_callback _ _"]
          blocks_after_def [of _ _ _ ?s] intro!: emitted_after_logs ids_kept same_event.same)
  qed
next
  case (ObservationEvent m x)
  obtain logs where "logged w logs s (handle_post_tool_use w env cfg x s)"
    "ses_blocked_actions (handle_post_tool_use w env cfg x s) = ses_blocked_actions s"
    using post_tool_use_logged by blast
  then show ?thesis using ObservationEvent
    by (auto simp: hook_on_event_def intro!: emitted_after_logs ids_kept same_event.same blocks_after_kept)
next
  case (MessageEvent m x)
  show ?thesis
  proof (cases "meta_source m = SourceUser")
    case True
    obtain e' s' where h: "handle_user_prompt_submit w env cfg m x s = (e', s')" by fastforce
    obtain logs where "logged w logs s s'" "same_event e e'" "ses_blocked_actions s' = ses_blocked_actions s"
      "ids_after w e logs e' s s'"
      using user_prompt_submit_logged [OF h True] MessageEvent by blast
    then show ?thesis using MessageEvent True h
      by (auto simp: hook_on_event_def intro!: emitted_after_logs blocks_after_kept)
  qed (auto simp: hook_on_event_def MessageEvent intro!: emitted_after_logs [of _ "[]"] ids_kept same_event.same blocks_after_kept)
qed (auto simp: hook_on_event_def intro!: emitted_after_logs [of _ "[]"] ids_kept same_event.same blocks_after_kept)

lemma inject_rules:
  assumes "maybe_inject_path_rules w e s = (e', s')"
  shows "same_event e e' \<and> logged w [] s s' \<and> ses_blocked_actions s' = ses_blocked_actions s"
  using assms
  by (auto simp: maybe_inject_path_rules_def logged_def keeps_def split: event.splits option.splits prod.splits
      intro: same_event.same same_event.observed)

inductive_cases same_event_observation: "same_event (ObservationEvent m x) e"
inductive_cases same_event_message: "same_event (MessageEvent m x) e"

lemma same_event_trans: "same_event a b \<Longrightarrow> same_event b c \<Longrightarrow> same_event a c"
proof (induction rule: same_event.induct)
  case (observed m x c')
  from observed.prems obtain c'' where
    "c = ObservationEvent m (x\<lparr>oe_extended_content := c''\<rparr>)"
    by (cases rule: same_event_observation) auto
  then show ?case by (simp add: same_event.observed)
next
  case (message m m' x y)
  from message.prems show ?case
    by (cases rule: same_event_message) (use message.hyps in \<open>auto intro: same_event.message\<close>)
qed

lemma inject_rules_kind:
  assumes "maybe_inject_path_rules w e s = (e', s')"
  shows "denied w e' = denied w e" and "ev_id e' = ev_id e"
  using assms
  by (cases e; auto simp: maybe_inject_path_rules_def denied_def split: option.splits)+

lemma emitted_injected:
  assumes "emitted w e' s' t" and "maybe_inject_path_rules w e s = (e', s')"
  shows "emitted w e s t"
proof -
  note i = inject_rules [OF assms(2)] and k = inject_rules_kind [OF assms(2)]
  from assms(1) obtain logs f where f: "list_all is_log logs" "same_event e' f"
    "ses_events t = ses_events s' @ logs @ [f]" "ses_view t = append_event (ses_view s') f"
    "keeps s' t" "blocks_after w e' s' t" "ids_after w e' logs f s' t" unfolding emitted_def by blast
  have "same_event e f" using i f(2) same_event_trans by blast
  moreover have "keeps s t" using i f(5) keeps_trans by (auto simp: logged_def)
  moreover have "blocks_after w e s t" using f(6) i k by (simp add: blocks_after_def)
  moreover have "ids_after w e logs f s t"
    using f(7) i k(2) issued_mono [of w s' t _ s t] by (auto simp: ids_after_def logged_def dest: keepsD(4))
  ultimately show ?thesis unfolding emitted_def using f(1,3,4) i by (auto simp: logged_def)
qed

lemma on_event_emitted: "emitted w e s (on_event w e s)"
proof -
  obtain e' s' where r: "maybe_inject_path_rules w e s = (e', s')" by fastforce
  show ?thesis
  proof (cases "wd_hooks w")
    case None
    then have "\<not> denied w e'" by (simp add: denied_def)
    then have "emitted w e' s' (default_callback e' s')"
      by (auto intro!: emitted_after_logs [of _ "[]"] ids_kept same_event.same blocks_after_kept)
    then show ?thesis using r None emitted_injected by (auto simp: on_event_def)
  next
    case (Some h)
    then obtain env cfg where h: "wd_hooks w = Some (env, cfg)" by (cases h) auto
    show ?thesis using r h emitted_injected [OF hook_on_event_emitted [OF h] r] by (simp add: on_event_def)
  qed
qed

section \<open>Sequences of emissions\<close>

text \<open>\<open>adds s s' new\<close>: the session went from \<open>s\<close> to \<open>s'\<close> by emitting, which added \<open>new\<close>.\<close>

definition adds :: "session \<Rightarrow> session \<Rightarrow> event list \<Rightarrow> bool" where
  "adds s s' new \<longleftrightarrow> ses_events s' = ses_events s @ new \<and> keeps s s'"

lemma adds_refl [simp]: "adds s s []"
  by (simp add: adds_def)

lemma adds_trans: "adds s t xs \<Longrightarrow> adds t u ys \<Longrightarrow> adds s u (xs @ ys)"
  by (auto simp: adds_def intro: keeps_trans)

lemma adds_next_id: "adds (next_id s) t xs \<Longrightarrow> adds s t xs"
  by (simp add: adds_def keeps_def)

lemma emitted_adds:
  assumes "emitted w e s s'"
  shows "\<exists>new. adds s s' new \<and> (\<forall>a. list_ex (answers a) new = answers a e) \<and>
    pending new = (if is_executable e then [e] else []) \<and>
    (\<forall>x \<in> set new. is_log x \<or> same_event e x) \<and> blocks_after w e s s'"
proof -
  from assms obtain logs e' where l: "list_all is_log logs" "same_event e e'"
    "ses_events s' = ses_events s @ logs @ [e']" "keeps s s'" "blocks_after w e s s'"
    unfolding emitted_def by blast
  have "e' = e" if "is_executable e" using same_event_eq [OF l(2)] that by (cases e) auto
  then have "pending (logs @ [e']) = (if is_executable e then [e] else [])"
    using logs_inert [OF l(1)] same_event_executable [OF l(2)] by (simp add: pending_append)
  moreover have "list_ex (answers a) (logs @ [e']) = answers a e" for a
    using logs_inert [OF l(1)] same_event_answers [OF l(2)] by simp
  ultimately show ?thesis
    using l by (intro exI [of _ "logs @ [e']"]) (auto simp: adds_def list_all_iff)
qed

lemma emit_adds:
  "\<exists>new. adds s (emit w src mk s) new \<and>
     (\<forall>a. list_ex (answers a) new = answers a (mk (new_meta w src s))) \<and>
     pending new = (if is_executable (mk (new_meta w src s)) then [mk (new_meta w src s)] else [])"
  using emitted_adds [OF on_event_emitted [of w "mk (new_meta w src s)" "next_id s"]] adds_next_id
  unfolding emit_def by blast

lemma emit_inert:
  assumes "\<not> is_action (mk (new_meta w src s))"
  shows "\<exists>new. adds s (emit w src mk s) new \<and> pending new = []"
proof -
  have "\<not> is_executable (mk (new_meta w src s))" using assms by (cases "mk (new_meta w src s)") auto
  then show ?thesis using emit_adds [of s w src mk] by auto
qed

lemma emit_answers_all:
  assumes "\<And>a m. a \<in> set as \<Longrightarrow> answers a (mk a m) \<and> \<not> is_executable (mk a m)"
  shows "\<exists>new. adds s (fold (\<lambda>a. emit w src (mk a)) as s) new \<and> pending new = [] \<and>
    (\<forall>a \<in> set as. list_ex (answers a) new)"
  using assms
proof (induction as arbitrary: s)
  case Nil
  show ?case by (auto intro: exI [of _ "[]"])
next
  case (Cons a as)
  obtain xs where x: "adds s (emit w src (mk a) s) xs" "pending xs = []" "list_ex (answers a) xs"
    using emit_adds [of s w src "mk a"] Cons.prems [of a] by auto
  from Cons.IH [of "emit w src (mk a) s"] Cons.prems obtain ys where
    y: "adds (emit w src (mk a) s) (fold (\<lambda>a. emit w src (mk a)) as (emit w src (mk a) s)) ys"
      "pending ys = []" "\<forall>a \<in> set as. list_ex (answers a) ys" by auto
  show ?case
    using adds_trans [OF x(1) y(1)] x(2,3) y(2,3)
    by (intro exI [of _ "xs @ ys"]) (auto simp: pending_append)
qed

lemma pending_answered:
  assumes "\<forall>a \<in> set (pending es). list_ex (answers a) new"
  shows "pending (es @ new) = pending new"
  using assms by (simp add: pending_append filter_empty_conv)

lemma pending_is_action: "a \<in> set (pending es) \<Longrightarrow> \<exists>m x. a = ActionEvent m x"
  using pending_executable by (cases a) fastforce+

lemma rejection_answers: "a \<in> set (pending es) \<Longrightarrow>
    answers a (rejection reason src a m) \<and> \<not> is_executable (rejection reason src a m)"
  using pending_is_action by (auto simp: answers_def dest!: pending_is_action)

lemma agent_error_answers: "a \<in> set (pending es) \<Longrightarrow>
    answers a (agent_error e c a m) \<and> \<not> is_executable (agent_error e c a m)"
  by (auto simp: answers_def dest!: pending_is_action)

lemma set_status_fields [simp]:
  "ses_events (set_status st s) = ses_events s" "ses_calls (set_status st s) = ses_calls s"
  "ses_status (set_status st s) = st" "ses_blocked_actions (set_status st s) = ses_blocked_actions s"
  "ses_blocked_messages (set_status st s) = ses_blocked_messages s"
  "ses_fresh (set_status st s) = ses_fresh s"
  "ses_iterations_used (set_status st s) = ses_iterations_used s"
  by (simp_all add: set_status_def)

lemma orphans_answered:
  "\<exists>new. adds s (snd (emit_orphaned_action_errors w s)) new \<and>
     pending (ses_events (snd (emit_orphaned_action_errors w s))) = []"
proof -
  let ?e = "''Tool call interrupted before completion. The conversation was paused.''"
  obtain new where n: "adds s (snd (emit_orphaned_action_errors w s)) new" "pending new = []"
    "\<forall>a \<in> set (pending (ses_events s)). list_ex (answers a) new"
    using emit_answers_all [of "pending (ses_events s)" "\<lambda>a. agent_error ?e AGENT_OUTCOME a" s w SourceAgent]
      agent_error_answers
    by (auto simp: emit_orphaned_action_errors_def get_unmatched_pending Let_def)
  then show ?thesis using pending_answered [OF n(3)] by (auto simp: adds_def)
qed

lemma not_action_messages [simp]:
  "\<not> is_action (user_text txt m)" "\<not> is_action (conversation_error c d m)"
  by (simp_all add: user_text_def conversation_error_def)

text \<open>
  C33. Rejecting the pending actions, or interrupting a run, answers every action that had no result, so
  no tool call is left without one, and calls no tool; a rejection ends the wait for confirmation,
  an interrupt leaves the conversation paused.
\<close>

theorem interrupts_answer_all:
  "pending (ses_events (reject_pending_actions w reason s)) = [] \<and>
   ses_calls (reject_pending_actions w reason s) = ses_calls s \<and>
   ses_status (reject_pending_actions w reason s) \<noteq> WAITING_FOR_CONFIRMATION \<and>
   pending (ses_events (handle_run_cancelled w s)) = [] \<and>
   ses_calls (handle_run_cancelled w s) = ses_calls s \<and> ses_status (handle_run_cancelled w s) = PAUSED"
proof -
  let ?s = "if ses_status s = WAITING_FOR_CONFIRMATION then set_status IDLE s else s"
  let ?r = "reject_pending_actions w reason s"
  obtain new where n: "adds ?s ?r new" "pending new = []"
    "\<forall>a \<in> set (pending (ses_events s)). list_ex (answers a) new"
    using emit_answers_all [of "pending (ses_events s)" "\<lambda>a. rejection reason RejectedByUser a" ?s w SourceEnvironment]
      rejection_answers
    by (auto simp: reject_pending_actions_def get_unmatched_pending Let_def)
  have r: "pending (ses_events ?r) = []" "ses_calls ?r = ses_calls s"
    "ses_status ?r \<noteq> WAITING_FOR_CONFIRMATION"
    using n pending_answered [OF n(3)] by (auto simp: adds_def keeps_def split: if_splits)
  let ?o = "snd (emit_orphaned_action_errors w s)" and ?c = "handle_run_cancelled w s"
  obtain xs where x: "adds s ?o xs" "pending (ses_events ?o) = []" using orphans_answered by blast
  obtain t ys where t: "adds ?o t ys" "pending ys = []"
    "?c = emit w SourceUser (\<lambda>m. OtherEvent m ''InterruptEvent'' []) (set_status PAUSED t)"
  proof (cases "fst (emit_orphaned_action_errors w s) \<or> ses_status s = FINISHED")
    case True
    then show ?thesis using that [of ?o "[]"]
      by (auto simp: handle_run_cancelled_def Let_def case_prod_beta)
  next
    case False
    obtain zs where "adds ?o (emit_interrupt_notice w ?o) zs" "pending zs = []"
      using emit_inert [of "user_text _" w SourceEnvironment ?o]
      unfolding emit_interrupt_notice_def emit_run_notice_def by (metis not_action_messages(1))
    then show ?thesis using that [of "emit_interrupt_notice w ?o" zs] False
      by (auto simp: handle_run_cancelled_def Let_def case_prod_beta)
  qed
  obtain zs where z: "adds (set_status PAUSED t) ?c zs" "pending zs = []"
    using emit_inert [of "\<lambda>m. OtherEvent m ''InterruptEvent'' []" w SourceUser "set_status PAUSED t"] t(3)
    by auto
  have "pending (ses_events ?c) = []"
    using x(2) t(1,2) z by (auto simp: adds_def pending_append)
  moreover have "ses_calls ?c = ses_calls s" "ses_status ?c = PAUSED"
    using x(1) t(1) z(1) by (auto simp: adds_def keeps_def)
  ultimately show ?thesis using r by blast
qed

section \<open>Blocked messages\<close>

lemma emit_hook_results_fresh:
  "ses_blocked_messages (emit_hook_results w t hooks results s) = ses_blocked_messages s"
  "ses_fresh s \<le> ses_fresh (emit_hook_results w t hooks results s)"
  using emit_hook_results_logged [of w s t hooks results] by (auto simp: logged_def keeps_def)

text \<open>Emitting a user message that the prompt hooks deny.\<close>

lemma denied_prompt_emit:
  fixes s :: session
  assumes "wd_hooks w = Some (env, cfg)"
    and "run_user_prompt_submit env cfg (text_of (me_llm_message x)) = (False, context, results)"
  defines "s1 \<equiv> block_message (wd_uuid w (ses_fresh s)) (block_reason results)
      (emit_hook_results w UserPromptSubmit (get_hooks_for_event env cfg UserPromptSubmit None) results
        (next_id s))"
  shows "emit w SourceUser (\<lambda>m. MessageEvent m x) s =
    (if given context
     then default_callback (MessageEvent (new_meta w SourceUser s1)
       (x\<lparr>me_extended_content := me_extended_content x @ [TextContent (the context)], me_critic_result := None\<rparr>))
       (next_id s1)
     else default_callback (MessageEvent (new_meta w SourceUser s) x) s1)"
proof -
  have "has_hooks_for_event cfg UserPromptSubmit"
    using assms(2) by (auto simp: has_hooks_for_event_def run_user_prompt_submit_def get_hooks_for_event_def)
  then show ?thesis
    using assms(1,2)
    by (simp add: emit_def on_event_def maybe_inject_path_rules_def hook_on_event_def
        handle_user_prompt_submit_def Let_def new_meta_def s1_def)
qed

lemma denied_prompt_block:
  assumes "wd_hooks w = Some (env, cfg)"
    and "run_user_prompt_submit env cfg (text_of (me_llm_message x)) = (False, context, results)"
    and "inj (wd_uuid w)" and "fst ` set (ses_blocked_messages s) \<subseteq> wd_uuid w ` {..<ses_fresh s}"
    and "s' = emit w SourceUser (\<lambda>m. MessageEvent m x) s"
  shows "\<exists>i. ses_last_user_message_id s' = Some i \<and> (map_of (ses_blocked_messages s') i = None \<longleftrightarrow> given context)"
proof -
  let ?s1 = "emit_hook_results w UserPromptSubmit (get_hooks_for_event env cfg UserPromptSubmit None) results
    (next_id s)"
  let ?s2 = "block_message (wd_uuid w (ses_fresh s)) (block_reason results) ?s1"
  have blocked: "ses_blocked_messages ?s2 =
      AList.update (wd_uuid w (ses_fresh s)) (block_reason results) (ses_blocked_messages s)"
    using emit_hook_results_fresh(1) by (simp add: block_message_def)
  have later: "ses_fresh s < ses_fresh ?s2"
    using emit_hook_results_fresh(2) [of "next_id s" w] by (simp add: block_message_def Suc_le_eq)
  have "wd_uuid w n \<notin> fst ` set (ses_blocked_messages s)" if "ses_fresh s < n" for n
    using assms(3,4) that by (fastforce simp: inj_eq)
  then have "map_of (ses_blocked_messages ?s2) (wd_uuid w (ses_fresh ?s2)) = None"
    using assms(3) later by (simp add: blocked update_conv inj_eq map_of_eq_None_iff)
  then show ?thesis
    using denied_prompt_emit [OF assms(1,2)] assms(5) blocked by (auto simp: new_meta_def update_conv)
qed

text \<open>
  A prompt hook that denies a message blocks it, so that the next step ends the conversation without
  calling the model, exactly when the hooks give no additional context: with context the message is
  emitted again under a new id, the block stays behind under the old one, and the denied message is
  processed.
\<close>

theorem context_lifts_message_block:
  assumes "wd_hooks w = Some (env, cfg)" and "msg_role msg = RoleUser"
    and "run_user_prompt_submit env cfg (text_of msg) = (False, context, results)"
    and "inj (wd_uuid w)" and "fst ` set (ses_blocked_messages s) \<subseteq> wd_uuid w ` {..<ses_fresh s}"
  shows "\<exists>s' i. send_message w msg sender s = (Inr (), s') \<and> ses_last_user_message_id s' = Some i \<and>
    (map_of (ses_blocked_messages s') i = None \<longleftrightarrow> given context)"
proof -
  let ?s1 = "if ses_status s \<in> {FINISHED, STUCK} then set_status IDLE s else s"
  obtain ext names where e: "(case wd_message_suffix w msg (ses_knowledge_skills ?s1) of
      None \<Rightarrow> ([], []) | Some (c, names) \<Rightarrow> ([c], names)) = (ext, names)" by fastforce
  let ?s2 = "?s1\<lparr>ses_knowledge_skills := ses_knowledge_skills ?s1 @ names\<rparr>"
  let ?x = "plain_fields msg\<lparr>me_activated_skills := names, me_extended_content := ext, me_sender := sender\<rparr>"
  have send: "send_message w msg sender s = (Inr (), emit w SourceUser (\<lambda>m. MessageEvent m ?x) ?s2)"
    using assms(2) e by (simp add: send_message_def Let_def)
  have "me_llm_message ?x = msg" by (simp add: plain_fields_def)
  then have r: "run_user_prompt_submit env cfg (text_of (me_llm_message ?x)) = (False, context, results)"
    using assms(3) by simp
  have "fst ` set (ses_blocked_messages ?s2) \<subseteq> wd_uuid w ` {..<ses_fresh ?s2}" using assms(5) by simp
  from denied_prompt_block [OF assms(1) r assms(4) this refl] show ?thesis unfolding send by auto
qed

text \<open>A world without skills and rules, whose ids are unary numerals.\<close>

definition sample_world :: "(hook_env \<times> hook_config) option \<Rightarrow> world" where
  "sample_world hooks =
     \<lparr>wd_uuid = \<lambda>n. replicate n CHR ''i'', wd_now = \<lambda>_. ''t'', wd_hooks = hooks,
      wd_action_dump = \<lambda>_. ''{}'', wd_observation_dump = \<lambda>_. ''{}'', wd_hook_log = \<lambda>_ _ _. [],
      wd_message_suffix = \<lambda>_ _. None, wd_rules = \<lambda>_ _. None\<rparr>"

definition sample_session :: session where
  "sample_session =
     \<lparr>ses_events = [], ses_view = from_events [], ses_status = IDLE, ses_blocked_actions = [],
      ses_blocked_messages = [], ses_last_user_message_id = None, ses_consumed_user_message_id = None,
      ses_iterations_used = 0, ses_condensation_steps = 0, ses_refinements = 0,
      ses_knowledge_skills = [], ses_path_rules = [], ses_counted = ([], 0),
      ses_detector = new_detector, ses_fresh = 0, ses_calls = []\<rparr>"

lemma sample_world_inj: "inj (wd_uuid (sample_world hooks))"
  by (rule injI) (simp add: sample_world_def replicate_eq_replicate)

text \<open>A prompt hook that exits with code 2 and prints a context.\<close>

definition context_env :: hook_env where
  "context_env = (quiet_env 2)\<lparr>he_process := \<lambda>_ _. Exited 2 ''{}'' [],
     he_loads := \<lambda>_. Some (Some [(''additionalContext'', JString ''why'')])\<rparr>"

lemma context_env_result:
  "run_user_prompt_submit context_env sample_hooks prompt =
     (False, Some ''why'', [(exit_result 2 ''{}'' [])\<lparr>hr_additional_context := Some ''why''\<rparr>])"
proof -
  have "strip ''{}'' \<noteq> []" by (simp add: strip_def is_space_def)
  then have "execute context_env sample_hook ev =
      (exit_result 2 ''{}'' [])\<lparr>hr_additional_context := Some ''why''\<rparr>" for ev
    by (simp add: execute_def sample_hook_def context_env_def quiet_env_def command_result_def
        apply_output_def apply_decision_def Let_def)
  then show ?thesis
    by (simp add: run_user_prompt_submit_def Let_def contexts_def given_def should_continue_def)
qed

theorem context_lifts_message_block_witness:
  "\<exists>s' i. send_message (sample_world (Some (context_env, sample_hooks))) (plain_message RoleUser []) None
      sample_session = (Inr (), s') \<and> ses_last_user_message_id s' = Some i \<and>
    map_of (ses_blocked_messages s') i = None"
proof -
  have "wd_hooks (sample_world (Some (context_env, sample_hooks))) = Some (context_env, sample_hooks)"
    "msg_role (plain_message RoleUser []) = RoleUser"
    "fst ` set (ses_blocked_messages sample_session) \<subseteq>
       wd_uuid (sample_world (Some (context_env, sample_hooks))) ` {..<ses_fresh sample_session}"
    by (simp_all add: sample_world_def plain_message_def sample_session_def)
  from context_lifts_message_block [OF this(1,2) context_env_result sample_world_inj this(3)]
  show ?thesis by (auto simp: given_def)
qed

end
