(* ===== verification/Session_Invariant.thy ===== *)
theory Session_Invariant
  imports Session_Laws
begin

text \<open>
  The invariant of a running conversation: event identities are unique and were issued by the supply,
  recorded actions carry the id of their call, an action that its hooks deny stays blocked while it
  waits, and no denied action ever reached a tool. \<open>extends\<close> is what a sequence of emissions does;
  it composes, and it preserves the invariant.
\<close>

section \<open>Emissions with identities\<close>

text \<open>An action whose recorded call has the id the action carries.\<close>

fun well_called :: "event \<Rightarrow> bool" where
  "well_called (ActionEvent _ a) = (tc_id (ae_tool_call a) = ae_tool_call_id a)"
| "well_called _ = True"

abbreviation blocked_reason :: "session \<Rightarrow> event_id \<Rightarrow> string option" where
  "blocked_reason s i \<equiv> map_of (ses_blocked_actions s) i"

abbreviation issued_ids :: "world \<Rightarrow> session \<Rightarrow> event_id set" where
  "issued_ids w s \<equiv> wd_uuid w ` {..<ses_fresh s}"

abbreviation new_ids :: "world \<Rightarrow> session \<Rightarrow> session \<Rightarrow> event_id set" where
  "new_ids w s s' \<equiv> wd_uuid w ` {ses_fresh s..<ses_fresh s'}"

definition blocks_kept :: "world \<Rightarrow> event list \<Rightarrow> session \<Rightarrow> session \<Rightarrow> bool" where
  "blocks_kept w new s s' \<longleftrightarrow>
     (\<forall>i. i \<notin> ev_id ` set new \<longrightarrow> blocked_reason s' i = blocked_reason s i) \<and>
     (\<forall>a \<in> set new. denied w a \<longrightarrow> blocked_reason s' (ev_id a) \<noteq> None)"

definition extends :: "world \<Rightarrow> event_id set \<Rightarrow> event list \<Rightarrow> session \<Rightarrow> session \<Rightarrow> bool" where
  "extends w I new s s' \<longleftrightarrow> adds s s' new \<and> distinct (map ev_id new) \<and>
     ev_id ` set new \<subseteq> I \<union> new_ids w s s' \<and> list_all well_called new \<and> blocks_kept w new s s'"

lemma extendsD:
  assumes "extends w I new s s'"
  shows "adds s s' new" and "distinct (map ev_id new)" and "ev_id ` set new \<subseteq> I \<union> new_ids w s s'"
    and "list_all well_called new" and "blocks_kept w new s s'" and "ses_fresh s \<le> ses_fresh s'"
    and "ses_calls s' = ses_calls s" and "ses_events s' = ses_events s @ new"
    and "ses_status s' = ses_status s" and "ses_iterations_used s' = ses_iterations_used s"
  using assms by (simp_all add: extends_def adds_def keeps_def)

lemma extends_refl [simp]: "extends w I [] s s"
  by (simp add: extends_def blocks_kept_def)

lemma blocks_kept_append:
  assumes "blocks_kept w xs s t" and "blocks_kept w ys t u" and "ev_id ` set xs \<inter> ev_id ` set ys = {}"
  shows "blocks_kept w (xs @ ys) s u"
  unfolding blocks_kept_def
proof (intro conjI allI ballI impI)
  fix i assume "i \<notin> ev_id ` set (xs @ ys)"
  then have "i \<notin> ev_id ` set xs" "i \<notin> ev_id ` set ys" by auto
  then show "blocked_reason u i = blocked_reason s i" using assms(1,2) by (simp add: blocks_kept_def)
next
  fix a assume a: "a \<in> set (xs @ ys)" "denied w a"
  show "blocked_reason u (ev_id a) \<noteq> None"
  proof (cases "a \<in> set ys")
    case False
    then have "a \<in> set xs" "ev_id a \<notin> ev_id ` set ys" using a(1) assms(3) by auto
    then show ?thesis using assms(1,2) a(2) by (simp add: blocks_kept_def)
  qed (use assms(2) a(2) in \<open>simp add: blocks_kept_def\<close>)
qed

lemma inj_range_disjoint:
  fixes f :: "nat \<Rightarrow> 'a"
  assumes "inj f" and "c \<le> b" shows "f ` {a..<c} \<inter> f ` {b..<d} = {}" and "f ` {..<c} \<inter> f ` {b..<d} = {}"
  using assms by (auto simp: inj_eq)

lemma disjoint_extension:
  "I \<inter> J = {} \<Longrightarrow> I \<subseteq> S \<Longrightarrow> J \<subseteq> S \<Longrightarrow> S \<inter> P = {} \<Longrightarrow> S \<inter> Q = {} \<Longrightarrow> P \<inter> Q = {} \<Longrightarrow>
   (I \<union> P) \<inter> (J \<union> Q) = {}"
  by blast

lemma union_within: "A \<subseteq> I \<union> P \<Longrightarrow> B \<subseteq> J \<union> Q \<Longrightarrow> P \<subseteq> R \<Longrightarrow> Q \<subseteq> R \<Longrightarrow> A \<union> B \<subseteq> I \<union> J \<union> R"
  by blast

lemma disjoint_parts: "A \<subseteq> S \<Longrightarrow> B \<subseteq> I \<union> P \<Longrightarrow> I \<inter> A = {} \<Longrightarrow> S \<inter> P = {} \<Longrightarrow> A \<inter> B = {}"
  by blast

lemma extends_trans:
  assumes "inj (wd_uuid w)" and "extends w I xs s t" and "extends w J ys t u" and "I \<inter> J = {}"
    and "I \<subseteq> issued_ids w s" and "J \<subseteq> issued_ids w s"
  shows "extends w (I \<union> J) (xs @ ys) s u"
proof -
  note x = extendsD [OF assms(2)] and y = extendsD [OF assms(3)]
  have "issued_ids w s \<inter> new_ids w s t = {}" "issued_ids w s \<inter> new_ids w t u = {}"
    "new_ids w s t \<inter> new_ids w t u = {}"
    using inj_range_disjoint [OF assms(1)] x(6) by simp_all
  from disjoint_extension [OF assms(4-6) this]
  have "(I \<union> new_ids w s t) \<inter> (J \<union> new_ids w t u) = {}" .
  then have disj: "ev_id ` set xs \<inter> ev_id ` set ys = {}" using x(3) y(3) by blast
  have "new_ids w s t \<subseteq> new_ids w s u" "new_ids w t u \<subseteq> new_ids w s u" using x(6) y(6) by auto
  then have "ev_id ` set (xs @ ys) \<subseteq> I \<union> J \<union> new_ids w s u"
    unfolding set_append image_Un by (intro union_within [OF x(3) y(3)])
  then show ?thesis
    unfolding extends_def
    using adds_trans [OF x(1) y(1)] x(2,4) y(2,4) disj blocks_kept_append [OF x(5) y(5) disj] by simp
qed

lemma extends_trans0:
  assumes "inj (wd_uuid w)" and "extends w {} xs s t" and "extends w {} ys t u"
  shows "extends w {} (xs @ ys) s u"
  using extends_trans [OF assms] by simp

text \<open>Steps that only take identities or change the blocks of messages, the view or the counters.\<close>

lemma issued_extends_ids:
  assumes "inj (wd_uuid w)" and "issued w s s' xs"
  shows "distinct (map ev_id xs)" and "ev_id ` set xs \<subseteq> new_ids w s s'"
proof -
  obtain ks where k: "map ev_id xs = map (wd_uuid w) ks" "distinct ks" "set ks \<subseteq> {ses_fresh s..<ses_fresh s'}"
    using assms(2) unfolding issued_def by blast
  show "distinct (map ev_id xs)" using k(1,2) assms(1) by (auto simp: distinct_map intro: inj_on_subset)
  have "ev_id ` set xs = set (map ev_id xs)" by simp
  also have "\<dots> = wd_uuid w ` set ks" using k(1) by simp
  finally show "ev_id ` set xs \<subseteq> new_ids w s s'" using k(3) by blast
qed

lemma same_event_well_called: "same_event e e' \<Longrightarrow> well_called e' = well_called e"
  by (cases rule: same_event.cases) auto

lemma logs_well_called: "list_all is_log logs \<Longrightarrow> list_all well_called logs"
  by (induction logs) (auto elim: is_log.elims)

lemma logs_not_denied: "list_all is_log logs \<Longrightarrow> a \<in> set logs \<Longrightarrow> \<not> denied w a"
  by (simp add: list_all_iff)

lemma same_event_denied: "same_event e e' \<Longrightarrow> denied w e' = denied w e"
  by (cases rule: same_event.cases) auto

text \<open>Emitting an event whose identity was issued before.\<close>

lemma on_event_extends:
  assumes "inj (wd_uuid w)" and "ev_id e \<in> issued_ids w s" and "well_called e"
  shows "\<exists>new. extends w {ev_id e} new s (on_event w e s) \<and>
    (\<forall>a. list_ex (answers a) new = answers a e) \<and> pending new = (if is_executable e then [e] else []) \<and>
    (is_action e \<longrightarrow> e \<in> set new)"
proof -
  let ?s = "on_event w e s"
  obtain logs e' where l: "list_all is_log logs" "same_event e e'" "ses_events ?s = ses_events s @ logs @ [e']"
    "keeps s ?s" "blocks_after w e s ?s" "ids_after w e logs e' s ?s"
    using on_event_emitted [of w e s] unfolding emitted_def by blast
  have "e' = e" if "is_executable e" using same_event_eq [OF l(2)] that by (cases e) auto
  then have p: "pending (logs @ [e']) = (if is_executable e then [e] else [])"
    using logs_inert [OF l(1)] same_event_executable [OF l(2)] by (simp add: pending_append)
  have ans: "list_ex (answers a) (logs @ [e']) = answers a e" for a
    using logs_inert [OF l(1)] same_event_answers [OF l(2)] by simp
  have old: "ev_id e \<notin> new_ids w s ?s"
    using assms(2) inj_range_disjoint(2) [OF assms(1), of "ses_fresh s" "ses_fresh s" "ses_fresh ?s"] by blast
  have "distinct (map ev_id (logs @ [e'])) \<and> ev_id ` set (logs @ [e']) \<subseteq> {ev_id e} \<union> new_ids w s ?s"
    using l(6) unfolding ids_after_def
  proof
    assume "ev_id e' = ev_id e \<and> issued w s ?s logs"
    then show ?thesis using issued_extends_ids [OF assms(1), of s ?s logs] old by auto
  next
    assume "issued w s ?s (logs @ [e'])"
    then show ?thesis using issued_extends_ids [OF assms(1), of s ?s "logs @ [e']"] by blast
  qed
  moreover have "blocks_kept w (logs @ [e']) s ?s"
  proof -
    have "ev_id e' = ev_id e" if "denied w e"
      using same_event_eq [OF l(2)] that by (auto simp: denied_def)
    then show ?thesis
      using l(5) logs_not_denied [OF l(1), of _ w] same_event_denied [OF l(2), of w]
      by (auto simp: blocks_kept_def blocks_after_def)
  qed
  moreover have "list_all well_called (logs @ [e'])"
    using logs_well_called [OF l(1)] same_event_well_called [OF l(2)] assms(3) by simp
  moreover have "is_action e \<longrightarrow> e \<in> set (logs @ [e'])" using same_event_eq [OF l(2)] by auto
  ultimately show ?thesis
    using p ans l(3,4) by (intro exI [of _ "logs @ [e']"]) (auto simp: extends_def adds_def)
qed

lemma extends_next_id:
  assumes "extends w {wd_uuid w (ses_fresh s)} new (next_id s) s'"
  shows "extends w {} new s s'"
proof -
  note x = extendsD [OF assms]
  have "{wd_uuid w (ses_fresh s)} \<union> new_ids w (next_id s) s' \<subseteq> new_ids w s s'" using x(6) by auto
  then have "ev_id ` set new \<subseteq> new_ids w s s'" using x(3) by blast
  then show ?thesis
    using x adds_next_id [OF x(1)] by (simp add: extends_def blocks_kept_def)
qed

lemma on_new_event_extends:
  assumes "inj (wd_uuid w)" and "ev_id e = wd_uuid w (ses_fresh s)" and "well_called e"
  shows "\<exists>new. extends w {} new s (on_event w e (next_id s)) \<and>
    (\<forall>a. list_ex (answers a) new = answers a e) \<and> pending new = (if is_executable e then [e] else []) \<and>
    (is_action e \<longrightarrow> e \<in> set new)"
proof -
  have "ev_id e \<in> issued_ids w (next_id s)" using assms(2) by auto
  from on_event_extends [OF assms(1) this assms(3)] extends_next_id show ?thesis
    unfolding assms(2) by blast
qed

lemma emit_extends:
  assumes "inj (wd_uuid w)" and "ev_id (mk (new_meta w src s)) = wd_uuid w (ses_fresh s)"
    and "well_called (mk (new_meta w src s))"
  shows "\<exists>new. extends w {} new s (emit w src mk s) \<and>
    (\<forall>a. list_ex (answers a) new = answers a (mk (new_meta w src s))) \<and>
    pending new = (if is_executable (mk (new_meta w src s)) then [mk (new_meta w src s)] else [])"
  using on_new_event_extends [OF assms] unfolding emit_def by blast

section \<open>The invariant\<close>

definition session_ok :: "world \<Rightarrow> session \<Rightarrow> bool" where
  "session_ok w s \<longleftrightarrow> distinct (map ev_id (ses_events s)) \<and> ev_id ` set (ses_events s) \<subseteq> issued_ids w s \<and>
     list_all well_called (ses_events s) \<and>
     (\<forall>a \<in> set (pending (ses_events s)). denied w a \<longrightarrow> blocked_reason s (ev_id a) \<noteq> None) \<and>
     (\<forall>a \<in> set (ses_calls s). \<not> denied w a)"

text \<open>
  The invariant after a batch: \<open>t\<close> differs from \<open>s\<close> in the identities taken, the tools called and the blocks
  dropped, and what waits afterwards was blocked in \<open>t\<close> if it is denied.
\<close>

lemma extends_batch_ok:
  assumes "inj (wd_uuid w)" and "session_ok w s" and "extends w I new t s'"
    and "ses_events t = ses_events s" and "ses_fresh s \<le> ses_fresh t" and "\<forall>a \<in> set (ses_calls t). \<not> denied w a"
    and "I \<subseteq> issued_ids w t" and "I \<inter> ev_id ` set (ses_events s) = {}"
    and "\<And>a. a \<in> set (pending (ses_events s)) \<Longrightarrow> denied w a \<Longrightarrow>
      list_ex (answers a) new \<or> blocked_reason t (ev_id a) \<noteq> None"
  shows "session_ok w s'"
proof -
  note x = extendsD [OF assms(3)]
  have s: "distinct (map ev_id (ses_events s))" "ev_id ` set (ses_events s) \<subseteq> issued_ids w s"
    "list_all well_called (ses_events s)"
    using assms(2) unfolding session_ok_def by blast+
  have sub: "issued_ids w s \<subseteq> issued_ids w t" "issued_ids w t \<subseteq> issued_ids w s'" "new_ids w t s' \<subseteq> issued_ids w s'"
    using x(6) assms(5) by auto
  have old: "issued_ids w t \<inter> new_ids w t s' = {}" using inj_range_disjoint(2) [OF assms(1)] by blast
  have disj: "ev_id ` set (ses_events s) \<inter> ev_id ` set new = {}"
    by (rule disjoint_parts [OF subset_trans [OF s(2) sub(1)] x(3) assms(8) old])
  have "blocked_reason s' (ev_id a) \<noteq> None" if a: "a \<in> set (pending (ses_events s'))" "denied w a" for a
  proof (cases "a \<in> set new")
    case False
    then have p: "a \<in> set (pending (ses_events s))" "\<not> list_ex (answers a) new"
      using a(1) x(8) assms(4) pending_executable [of a new] by (auto simp: pending_append)
    then have "ev_id a \<notin> ev_id ` set new" using disj pending_executable [OF p(1)] by blast
    then show ?thesis using assms(9) p a(2) x(5) by (fastforce simp: blocks_kept_def)
  qed (use x(5) a(2) in \<open>simp add: blocks_kept_def\<close>)
  moreover have ids: "ev_id ` set (ses_events s @ new) \<subseteq> issued_ids w s'"
    unfolding set_append image_Un
    using subset_trans [OF s(2) subset_trans [OF sub(1,2)]]
      subset_trans [OF x(3) Un_least [OF subset_trans [OF assms(7) sub(2)] sub(3)]]
    by (rule Un_least)
  ultimately show ?thesis
    unfolding session_ok_def x(7,8) assms(4) using s(1,3) assms(6) x(2,4) disj ids by simp
qed

lemma extends_ok0:
  assumes "inj (wd_uuid w)" and "session_ok w s" and "extends w {} new s s'" shows "session_ok w s'"
  using extends_batch_ok [OF assms, of] assms(2) by (auto simp: session_ok_def)


text \<open>The invariant depends on a few fields only.\<close>

lemma session_ok_cong:
  assumes "ses_events s' = ses_events s" and "ses_fresh s' = ses_fresh s"
    and "ses_blocked_actions s' = ses_blocked_actions s" and "ses_calls s' = ses_calls s"
  shows "session_ok w s' = session_ok w s"
  using assms by (simp add: session_ok_def)

lemma set_status_ok [simp]: "session_ok w (set_status st s) = session_ok w s"
  by (rule session_ok_cong) simp_all

lemma emit_ok:
  assumes "inj (wd_uuid w)" and "session_ok w s" and "ev_id (mk (new_meta w src s)) = wd_uuid w (ses_fresh s)"
    and "well_called (mk (new_meta w src s))"
  shows "session_ok w (emit w src mk s)"
  using emit_extends [where mk = mk, OF assms(1,3,4)] extends_ok0 [OF assms(1,2)] by blast

lemma emit_plain_ok [simp]:
  assumes "inj (wd_uuid w)" and "session_ok w s"
  shows "session_ok w (emit w src (user_text txt) s)"
    and "session_ok w (emit w src (conversation_error c d) s)"
    and "session_ok w (emit w src (\<lambda>m. OtherEvent m k p) s)"
    and "session_ok w (emit w src (\<lambda>m. MessageEvent m x) s)"
    and "session_ok w (emit w src CondensationRequest s)"
    and "session_ok w (emit w src (\<lambda>m. Condensation m cf) s)"
  using emit_ok [OF assms] by (simp_all add: user_text_def conversation_error_def new_meta_def)

end
