(* ===== verification/Agent_Laws.thy ===== *)
theory Agent_Laws
  imports Agent_Step Session_Invariant
begin

text \<open>
  What a step of the agent does: every action of a batch gets its result, in the order of the batch;
  no tool runs that the confirmation policy or a hook holds back; and what a finish call cuts off.
\<close>

section \<open>Tool calls\<close>

text \<open>Running tools takes identifiers and calls tools, nothing else.\<close>

definition called :: "session \<Rightarrow> session \<Rightarrow> event list \<Rightarrow> bool" where
  "called s s' cs \<longleftrightarrow>
     (\<exists>n \<ge> ses_fresh s. s' = s\<lparr>ses_fresh := n, ses_calls := ses_calls s @ cs\<rparr>)"

lemma called_refl [simp]: "called s s []"
  unfolding called_def by (rule exI [of _ "ses_fresh s"]) simp

lemma called_trans:
  assumes "called s t xs" and "called t u ys" shows "called s u (xs @ ys)"
proof -
  from assms obtain m n where "ses_fresh s \<le> m" "m \<le> n"
    "u = s\<lparr>ses_fresh := n, ses_calls := ses_calls s @ xs @ ys\<rparr>"
    unfolding called_def by auto
  then show ?thesis unfolding called_def by (intro exI [of _ n]) simp
qed

lemma calledD:
  assumes "called s s' cs"
  shows "ses_events s' = ses_events s" and "ses_calls s' = ses_calls s @ cs"
    and "ses_status s' = ses_status s" and "ses_blocked_actions s' = ses_blocked_actions s"
    and "ses_fresh s \<le> ses_fresh s'" and "ses_iterations_used s' = ses_iterations_used s"
  using assms unfolding called_def by auto

lemma run_safe_called:
  "\<exists>r cs. run_safe w ag ae s = ([r], snd (run_safe w ag ae s)) \<and>
     called s (snd (run_safe w ag ae s)) cs \<and> set cs \<subseteq> {ae} \<and>
     ses_fresh (snd (run_safe w ag ae s)) = Suc (ses_fresh s)"
proof -
  have none: "called s (next_id s) []" unfolding called_def by (intro exI [of _ "Suc (ses_fresh s)"]) simp
  have one: "called s (next_id s\<lparr>ses_calls := ses_calls s @ [ae]\<rparr>) [ae]"
    unfolding called_def by (intro exI [of _ "Suc (ses_fresh s)"]) simp
  show ?thesis
    using none one
    by (auto simp: run_safe_def Let_def split: option.splits tool_outcome.splits intro!: exI)
qed

lemma run_safe_answers:
  assumes "is_action ae" and "well_called ae" and "run_safe w ag ae s = ([r], s')"
  shows "answers ae r \<and> \<not> is_executable r \<and> ev_id r = wd_uuid w (ses_fresh s)"
proof -
  obtain m a where ae: "ae = ActionEvent m a" using assms(1) by (cases ae) auto
  show ?thesis
    using assms(2,3) unfolding ae
    by (auto simp: run_safe_def Let_def internal_error_def answers_def new_meta_def
        split: if_splits option.splits tool_outcome.splits)
qed

text \<open>The results of a batch: one new event per action, which answers it.\<close>

definition results_of :: "world \<Rightarrow> session \<Rightarrow> session \<Rightarrow> event list \<Rightarrow> event list \<Rightarrow> bool" where
  "results_of w s s' aes rs \<longleftrightarrow>
     list_all2 (\<lambda>a r. answers a r \<and> \<not> is_executable r) aes rs \<and> issued w s s' rs"

lemma results_of_length: "results_of w s s' aes rs \<Longrightarrow> length rs = length aes"
  unfolding results_of_def by (drule conjunct1, drule list_all2_lengthD) (rule sym)

lemma execute_batch_called:
  assumes "list_all is_action aes" and "list_all well_called aes"
  shows "\<exists>rs cs s'. execute_batch w ag aes s = (map (\<lambda>r. [r]) rs, s') \<and> called s s' cs \<and>
     set cs \<subseteq> set aes \<and> results_of w s s' aes rs"
  using assms
proof (induction aes arbitrary: s)
  case Nil
  have "results_of w s s [] []" by (simp add: results_of_def)
  then show ?case using called_refl by fastforce
next
  case (Cons ae aes)
  obtain r cs s1 where r: "run_safe w ag ae s = ([r], s1)" "called s s1 cs" "set cs \<subseteq> {ae}"
    "ses_fresh s1 = Suc (ses_fresh s)"
    using run_safe_called [of w ag ae s] by (metis snd_conv)
  obtain rs ds s2 where b: "execute_batch w ag aes s1 = (map (\<lambda>r. [r]) rs, s2)"
    "called s1 s2 ds" "set ds \<subseteq> set aes" "results_of w s1 s2 aes rs"
    using Cons by fastforce
  have a: "answers ae r" "\<not> is_executable r" "ev_id r = wd_uuid w (ses_fresh s)"
    using run_safe_answers [OF _ _ r(1)] Cons.prems by auto
  have "issued w s s1 [r]" using a(3) by (rule issued_one) (simp add: r(4))
  then have "issued w s s2 ([r] @ rs)"
    by (rule issued_append) (use b r(4) in \<open>auto simp: results_of_def called_def\<close>)
  then have "results_of w s s2 (ae # aes) (r # rs)" using b(4) a by (simp add: results_of_def)
  moreover have "execute_batch w ag (ae # aes) s = (map (\<lambda>r. [r]) (r # rs), s2)" using r(1) b(1) by simp
  moreover have "called s s2 (cs @ ds)" using r(2) b(2) by (rule called_trans)
  moreover have "set (cs @ ds) \<subseteq> set (ae # aes)" using r(3) b(3) by auto
  ultimately show ?case by blast
qed

section \<open>Blocked actions\<close>

lemma pop_blocked_action_eq:
  "pop_blocked_action i s =
     (map_of (ses_blocked_actions s) i, s\<lparr>ses_blocked_actions := AList.delete i (ses_blocked_actions s)\<rparr>)"
proof (cases "map_of (ses_blocked_actions s) i")
  case None
  then have "AList.delete i (ses_blocked_actions s) = ses_blocked_actions s"
    by (simp add: delete_id map_of_eq_None_iff)
  then show ?thesis using None by (simp add: pop_blocked_action_def del: delete_id)
qed (simp add: pop_blocked_action_def)

abbreviation unblocked :: "session \<Rightarrow> event \<Rightarrow> bool" where
  "unblocked s a \<equiv> blocked_reason s (ev_id a) = None"

definition drop_blocks :: "event list \<Rightarrow> session \<Rightarrow> session" where
  "drop_blocks aes s =
     s\<lparr>ses_blocked_actions := fold (\<lambda>a. AList.delete (ev_id a)) aes (ses_blocked_actions s)\<rparr>"

lemma drop_blocks_reason:
  "blocked_reason (drop_blocks aes s) i = (if i \<in> ev_id ` set aes then None else blocked_reason s i)"
proof -
  have "map_of (fold (\<lambda>a. AList.delete (ev_id a)) aes bs) i = (if i \<in> ev_id ` set aes then None else map_of bs i)"
    for bs :: "(event_id \<times> string) list"
    by (induction aes arbitrary: bs) (auto simp: delete_conv')
  then show ?thesis by (simp add: drop_blocks_def)
qed

lemma partition_blocked_eq:
  assumes "distinct (map ev_id aes)"
  shows "partition_blocked aes s =
    (map (\<lambda>a. (ev_id a, the (blocked_reason s (ev_id a)))) (filter (\<lambda>a. \<not> unblocked s a) aes),
     filter (unblocked s) aes, drop_blocks aes s)"
  using assms
proof (induction aes arbitrary: s)
  case Nil
  show ?case by (simp add: drop_blocks_def)
next
  case (Cons a aes)
  let ?s = "drop_blocks [a] s"
  have same: "blocked_reason ?s (ev_id b) = blocked_reason s (ev_id b)" if "b \<in> set aes" for b
    using Cons.prems that by (simp add: drop_blocks_reason) (metis image_eqI)
  then have "filter (\<lambda>b. \<not> unblocked ?s b) aes = filter (\<lambda>b. \<not> unblocked s b) aes"
    "filter (unblocked ?s) aes = filter (unblocked s) aes"
    "map (\<lambda>b. (ev_id b, the (blocked_reason ?s (ev_id b)))) (filter (\<lambda>b. \<not> unblocked s b) aes) =
     map (\<lambda>b. (ev_id b, the (blocked_reason s (ev_id b)))) (filter (\<lambda>b. \<not> unblocked s b) aes)"
    by (auto intro: filter_cong)
  then have "partition_blocked aes ?s =
    (map (\<lambda>a. (ev_id a, the (blocked_reason s (ev_id a)))) (filter (\<lambda>a. \<not> unblocked s a) aes),
     filter (unblocked s) aes, drop_blocks (a # aes) s)"
    using Cons.IH [of ?s] Cons.prems by (simp add: drop_blocks_def)
  then show ?case
    by (cases "blocked_reason s (ev_id a)") (simp_all add: pop_blocked_action_eq drop_blocks_def)
qed

lemma dict_get_distinct:
  assumes "distinct (map fst d)" shows "dict_get d k = map_of d k"
  unfolding dict_get_def using assms by (metis distinct_rev map_of_eqI map_of_inject_set rev_map set_map set_rev)

section \<open>Emitting the results of a batch\<close>

lemma batch_emit_from_extends:
  assumes "inj (wd_uuid w)"
    and "\<And>a. a \<in> set aes \<Longrightarrow> is_action a"
    and "\<And>a. a \<in> set aes \<Longrightarrow> dict_get blocked (ev_id a) = None \<Longrightarrow>
      dict_get results (ev_id a) = Some [res a] \<and> answers a (res a) \<and> \<not> is_executable (res a) \<and>
      ev_id (res a) \<in> issued_ids w s"
    and "distinct (map (\<lambda>a. ev_id (res a)) (filter (\<lambda>a. dict_get blocked (ev_id a) = None) aes))"
  shows "\<exists>s' new. batch_emit_from w blocked results aes s = (Inr (), s') \<and>
    extends w ((\<lambda>a. ev_id (res a)) ` set (filter (\<lambda>a. dict_get blocked (ev_id a) = None) aes)) new s s' \<and>
    pending new = [] \<and> (\<forall>a \<in> set aes. list_ex (answers a) new)"
  using assms(2-4)
proof (induction aes arbitrary: s)
  case Nil
  then show ?case by (auto intro!: exI [of _ "[]"])
next
  case (Cons a aes)
  let ?ids = "(\<lambda>a. ev_id (res a)) ` set (filter (\<lambda>a. dict_get blocked (ev_id a) = None) aes)"
  have act: "is_action a" using Cons.prems(1) by simp
  have ids: "?ids \<subseteq> issued_ids w s" using Cons.prems(2) by auto
  obtain s1 xs I where step: "extends w I xs s s1" "pending xs = []" "list_ex (answers a) xs"
    "I \<subseteq> issued_ids w s" "I \<inter> ?ids = {}"
    "I \<union> ?ids = (\<lambda>a. ev_id (res a)) ` set (filter (\<lambda>a. dict_get blocked (ev_id a) = None) (a # aes))"
    "batch_emit_from w blocked results (a # aes) s = batch_emit_from w blocked results aes s1"
  proof (cases "dict_get blocked (ev_id a)")
    case (Some reason)
    let ?e = "rejection reason RejectedByHook a (new_meta w SourceEnvironment s)"
    have e: "answers a ?e" "\<not> is_executable ?e" "well_called ?e" "ev_id ?e = wd_uuid w (ses_fresh s)"
      using act by (cases a; simp add: answers_def new_meta_def)+
    obtain xs where "extends w {} xs s (emit w SourceEnvironment (rejection reason RejectedByHook a) s)"
      "pending xs = []" "list_ex (answers a) xs"
      using emit_extends [where mk = "rejection reason RejectedByHook a", OF assms(1) e(4,3)] e(1,2) by auto
    then show ?thesis using that [of "{}" xs] Some by simp
  next
    case None
    let ?r = "res a"
    have r: "dict_get results (ev_id a) = Some [?r]" "answers a ?r" "\<not> is_executable ?r"
      "ev_id ?r \<in> issued_ids w s" using Cons.prems(2) [of a] None by auto
    have "well_called ?r" using answers_action [OF r(2)] by (cases ?r) auto
    then obtain xs where x: "extends w {ev_id ?r} xs s (on_event w ?r s)" "pending xs = []" "list_ex (answers a) xs"
      using on_event_extends [OF assms(1) r(4)] r(2,3) by auto
    have "{ev_id ?r} \<inter> ?ids = {}" using Cons.prems(3) None by auto
    then show ?thesis using that [of "{ev_id ?r}" xs] x None r by simp
  qed
  have "issued_ids w s \<subseteq> issued_ids w s1" using extendsD(6) [OF step(1)] by auto
  then have "\<exists>s' new. batch_emit_from w blocked results aes s1 = (Inr (), s') \<and> extends w ?ids new s1 s' \<and>
      pending new = [] \<and> (\<forall>a \<in> set aes. list_ex (answers a) new)"
    using Cons.prems by (intro Cons.IH) (auto split: if_splits)
  then obtain s' ys where y: "batch_emit_from w blocked results aes s1 = (Inr (), s')" "extends w ?ids ys s1 s'"
    "pending ys = []" "\<forall>a \<in> set aes. list_ex (answers a) ys" by blast
  from extends_trans [OF assms(1) step(1) y(2) step(5,4) ids] step(2,3,6,7) y(1,3,4) show ?case
    by (intro exI [of _ s'] exI [of _ "xs @ ys"]) (simp add: pending_append)
qed

lemma results_lookup:
  assumes "distinct (map ev_id xs)" and "length rs = length xs"
  defines "results \<equiv> zip (map ev_id xs) (map (\<lambda>r. [r]) rs)"
  defines "res \<equiv> \<lambda>a. hd (the (dict_get results (ev_id a)))"
  shows "map res xs = rs" and "a \<in> set xs \<Longrightarrow> dict_get results (ev_id a) = Some [res a]"
proof -
  have "distinct (map fst results)" using assms(1,2) by (simp add: results_def)
  then have look: "dict_get results (ev_id (xs ! i)) = Some [rs ! i]" if "i < length xs" for i
    using that assms(1,2) map_of_zip_nth [of "map ev_id xs" "map (\<lambda>r. [r]) rs" i]
    by (simp add: dict_get_distinct results_def)
  then show "map res xs = rs" using assms(2) by (intro nth_equalityI) (simp_all add: res_def)
  show "dict_get results (ev_id a) = Some [res a]" if "a \<in> set xs"
    using that look by (auto simp: in_set_conv_nth res_def)
qed

lemma dict_get_blocked:
  assumes "distinct (map ev_id aes)" and "a \<in> set aes"
  shows "dict_get (map (\<lambda>a. (ev_id a, f a)) (filter (\<lambda>a. \<not> P a) aes)) (ev_id a) = None \<longleftrightarrow> P a"
proof -
  let ?d = "map (\<lambda>a. (ev_id a, f a)) (filter (\<lambda>a. \<not> P a) aes)"
  have "map fst ?d = map ev_id (filter (\<lambda>a. \<not> P a) aes)" by (simp add: comp_def)
  then have "distinct (map fst ?d)" using assms(1) by (simp only: distinct_map_filter)
  moreover have "ev_id a \<in> fst ` set ?d \<longleftrightarrow> \<not> P a"
    using assms by (auto simp: distinct_map inj_on_def image_iff)
  ultimately show ?thesis by (simp add: dict_get_distinct map_of_eq_None_iff)
qed

section \<open>A batch as a whole\<close>

definition batch :: "event list \<Rightarrow> event list" where
  "batch aes = fst (truncate_at_finish aes)"

lemma batch_prefix: "\<exists>n. batch aes = take n aes"
  unfolding batch_def truncate_at_finish_def Let_def by (auto intro: exI [of _ "length aes"])

lemma batch_sub: "set (batch aes) \<subseteq> set aes" "distinct (map ev_id aes) \<Longrightarrow> distinct (map ev_id (batch aes))"
  using batch_prefix [of aes] by (auto dest: in_set_takeD simp: take_map [symmetric])

lemma batch_whole: "snd (truncate_at_finish aes) = False \<Longrightarrow> batch aes = aes"
  by (simp add: batch_def truncate_at_finish_def Let_def split: if_splits)

text \<open>The state a batch is emitted in.\<close>

lemma prepare_and_emit:
  assumes "inj (wd_uuid w)" and "distinct (map ev_id aes)" and "list_all is_action aes" and "list_all well_called aes"
  shows "\<exists>b s1 s2 I cs new. prepare w ag aes s = (b, s1) \<and> batch_emit w b s1 = (Inr (), s2) \<and>
    ab_has_finish b = snd (truncate_at_finish aes) \<and>
    called (drop_blocks (batch aes) s) s1 cs \<and> set cs \<subseteq> {a \<in> set (batch aes). unblocked s a} \<and>
    I \<subseteq> new_ids w s s1 \<and> extends w I new s1 s2 \<and> pending new = [] \<and>
    (\<forall>a \<in> set (batch aes). list_ex (answers a) new)"
proof -
  let ?b = "batch aes" and ?t = "drop_blocks (batch aes) s"
  let ?x = "filter (unblocked s) ?b"
  let ?blocked = "map (\<lambda>a. (ev_id a, the (blocked_reason s (ev_id a)))) (filter (\<lambda>a. \<not> unblocked s a) ?b)"
  have d: "distinct (map ev_id ?b)" using assms(2) by (rule batch_sub(2))
  have part: "partition_blocked ?b s = (?blocked, ?x, ?t)" by (rule partition_blocked_eq [OF d])
  have wf: "list_all is_action ?x" "list_all well_called ?x" "\<And>a. a \<in> set ?b \<Longrightarrow> is_action a"
    using assms(3,4) batch_sub(1) [of aes] by (auto simp: list_all_iff)
  obtain rs cs s1 where r: "execute_batch w ag ?x ?t = (map (\<lambda>r. [r]) rs, s1)" "called ?t s1 cs"
    "set cs \<subseteq> set ?x" "results_of w ?t s1 ?x rs" using execute_batch_called [OF wf(1,2)] by blast
  let ?results = "zip (map ev_id ?x) (map (\<lambda>r. [r]) rs)"
  define res where "res = (\<lambda>a. hd (the (dict_get ?results (ev_id a))))"
  have len: "length rs = length ?x" by (rule results_of_length [OF r(4)])
  have dx: "distinct (map ev_id ?x)" using d by (simp add: distinct_map_filter)
  have res: "map res ?x = rs" "\<And>a. a \<in> set ?x \<Longrightarrow> dict_get ?results (ev_id a) = Some [res a]"
    unfolding res_def by (rule results_lookup(1) [OF dx len], rule results_lookup(2) [OF dx len])
  have ans: "answers a (res a) \<and> \<not> is_executable (res a)" if "a \<in> set ?x" for a
    using r(4) that unfolding results_of_def res(1) [symmetric] list_all2_map2 by (simp add: list_all2_same)
  have ids: "distinct (map ev_id rs)" "ev_id ` set rs \<subseteq> new_ids w s s1"
    using issued_extends_ids [OF assms(1), of ?t s1 rs] r(4) by (simp_all add: results_of_def drop_blocks_def)
  have mem: "ev_id (res a) \<in> new_ids w s s1" if "a \<in> set ?x" for a
    using ids(2) that unfolding res(1) [symmetric] by auto
  have unb: "dict_get ?blocked (ev_id a) = None \<longleftrightarrow> unblocked s a" if "a \<in> set ?b" for a
    by (rule dict_get_blocked [OF d that])
  then have fil: "filter (\<lambda>a. dict_get ?blocked (ev_id a) = None) ?b = ?x" by (rule filter_cong [OF refl])
  have "\<exists>s2 new. batch_emit_from w ?blocked ?results ?b s1 = (Inr (), s2) \<and>
      extends w ((\<lambda>a. ev_id (res a)) ` set (filter (\<lambda>a. dict_get ?blocked (ev_id a) = None) ?b)) new s1 s2 \<and>
      pending new = [] \<and> (\<forall>a \<in> set ?b. list_ex (answers a) new)"
  proof (rule batch_emit_from_extends [OF assms(1) wf(3)])
    fix a assume a: "a \<in> set ?b" "dict_get ?blocked (ev_id a) = None"
    then have x: "a \<in> set ?x" using unb by simp
    have "new_ids w s s1 \<subseteq> issued_ids w s1" by auto
    then show "dict_get ?results (ev_id a) = Some [res a] \<and> answers a (res a) \<and> \<not> is_executable (res a) \<and>
        ev_id (res a) \<in> issued_ids w s1" using ans [OF x] mem [OF x] res(2) [OF x] by blast
  next
    show "distinct (map (\<lambda>a. ev_id (res a)) (filter (\<lambda>a. dict_get ?blocked (ev_id a) = None) ?b))"
      using ids(1) unfolding fil res(1) [symmetric] by (simp add: comp_def)
  qed
  then obtain s2 new where e: "batch_emit_from w ?blocked ?results ?b s1 = (Inr (), s2)"
    "extends w ((\<lambda>a. ev_id (res a)) ` set ?x) new s1 s2" "pending new = []"
    "\<forall>a \<in> set ?b. list_ex (answers a) new" unfolding fil by blast
  obtain f where f: "truncate_at_finish aes = (?b, f)" by (metis batch_def prod.collapse)
  from part r(1) have "prepare w ag aes s = (\<lparr>ab_events = ?b, ab_has_finish = snd (truncate_at_finish aes),
      ab_blocked = ?blocked, ab_results = ?results\<rparr>, s1)"
    unfolding prepare_def f by simp
  moreover have "(\<lambda>a. ev_id (res a)) ` set ?x \<subseteq> new_ids w s s1" using mem by blast
  ultimately show ?thesis
    using e r(2,3) by (intro exI conjI) (auto simp: batch_emit_def)
qed

lemma refinement_fields:
  assumes "check_iterative_refinement ag ae s = (r, s')"
  shows "\<exists>n. s' = s\<lparr>ses_refinements := n\<rparr>"
proof -
  have same: "\<exists>n. s = s\<lparr>ses_refinements := n\<rparr>" by (rule exI [of _ "ses_refinements s"]) simp
  show ?thesis
    using assms same unfolding check_iterative_refinement_def Let_def
    by (auto split: option.splits if_splits)
qed

text \<open>Ending a batch, and then whatever happens after it that calls no tool.\<close>

definition settles :: "world \<Rightarrow> event list \<Rightarrow> session \<Rightarrow> session \<Rightarrow> bool" where
  "settles w new s s' \<longleftrightarrow> ses_events s' = ses_events s @ new \<and> ses_calls s' = ses_calls s \<and>
     ses_iterations_used s' = ses_iterations_used s \<and> (session_ok w s \<longrightarrow> session_ok w s')"

lemma settles_refl [simp]: "settles w [] s s"
  by (simp add: settles_def)

lemma settles_trans: "settles w xs s t \<Longrightarrow> settles w ys t u \<Longrightarrow> settles w (xs @ ys) s u"
  by (auto simp: settles_def)

lemma settles_status: "settles w [] s (set_status st s)"
  by (simp add: settles_def)

lemma emit_settles:
  assumes "inj (wd_uuid w)" and "ev_id (mk (new_meta w src s)) = wd_uuid w (ses_fresh s)"
    and "\<not> is_action (mk (new_meta w src s))"
  shows "\<exists>new. settles w new s (emit w src mk s) \<and> pending new = [] \<and>
    ses_status (emit w src mk s) = ses_status s"
proof -
  have m: "well_called (mk (new_meta w src s))" "\<not> is_executable (mk (new_meta w src s))"
    using assms(3) by (cases "mk (new_meta w src s)"; simp)+
  obtain new where "extends w {} new s (emit w src mk s)" "pending new = []"
    using emit_extends [where mk = mk, OF assms(1,2) m(1)] m(2) by auto
  then show ?thesis using extendsD extends_ok0 [OF assms(1)] by (auto simp: settles_def)
qed

lemmas emit_user_settles = emit_settles [where mk = "user_text _", OF _ _ not_action_messages(1)]

lemma user_text_id [simp]: "ev_id (user_text txt (new_meta w src s)) = wd_uuid w (ses_fresh s)"
  by (simp add: user_text_def new_meta_def)

lemma finalize_settles:
  assumes "inj (wd_uuid w)"
  shows "\<exists>new. settles w new s (finalize w ag b s) \<and> pending new = [] \<and>
    (ses_status (finalize w ag b s) = ses_status s \<or> ab_has_finish b \<and> ses_status (finalize w ag b s) = FINISHED)"
proof (cases "\<not> ab_has_finish b \<or> dict_get (ab_blocked b) (ev_id (last (ab_events b))) \<noteq> None")
  case True
  then have "finalize w ag b s = s" unfolding finalize_def by auto
  then show ?thesis using settles_refl [of w s] by (auto simp del: settles_refl)
next
  case False
  obtain continue followup s1 where c:
    "check_iterative_refinement ag (last (ab_events b)) s = ((continue, followup), s1)" using prod_cases3 by (metis prod.exhaust)
  obtain n where s1: "s1 = s\<lparr>ses_refinements := n\<rparr>" using refinement_fields [OF c] by blast
  have go: "settles w [] s s1" using s1 by (simp add: settles_def session_ok_def)
  have fin: "finalize w ag b s = (if continue \<and> given followup
      then emit w SourceUser (user_text (the followup)) s1 else set_status FINISHED s1)"
    using False c by (auto simp: finalize_def)
  show ?thesis
  proof (cases "continue \<and> given followup")
    case True
    obtain new where "settles w new s1 (emit w SourceUser (user_text (the followup)) s1)" "pending new = []"
      "ses_status (emit w SourceUser (user_text (the followup)) s1) = ses_status s1"
      using emit_user_settles [OF assms] user_text_id by blast
    then show ?thesis using settles_trans [OF go] True fin s1 by auto
  next
    case stop: False
    then have "finalize w ag b s = set_status FINISHED s1" using fin by auto
    moreover have "settles w [] s (set_status FINISHED s1)" using settles_trans [OF go settles_status] by simp
    ultimately show ?thesis using False by (intro exI [of _ "[]"]) auto
  qed
qed

lemma disjoint_sub: "S \<inter> N = {} \<Longrightarrow> I \<subseteq> N \<Longrightarrow> A \<subseteq> S \<Longrightarrow> I \<inter> A = {}"
  by blast

text \<open>
  What running a list of recorded actions does: it returns; every action up to the first finish call
  gets a result, new events call for nothing more, only actions without a block reach their tools,
  and the invariant holds again.
\<close>

lemma execute_actions_run:
  assumes "inj (wd_uuid w)" and "session_ok w s" and "set aes \<subseteq> set (ses_events s)"
    and "distinct (map ev_id aes)" and "list_all is_action aes"
    and "\<And>a. a \<in> set aes \<Longrightarrow> denied w a \<Longrightarrow> \<not> unblocked s a"
  shows "\<exists>s' cs new. execute_actions w ag aes s = (Inr (), s') \<and> session_ok w s' \<and>
    ses_iterations_used s' = ses_iterations_used s \<and>
    ses_calls s' = ses_calls s @ cs \<and> set cs \<subseteq> {a \<in> set (batch aes). unblocked s a} \<and>
    ses_events s' = ses_events s @ new \<and> pending new = [] \<and> (\<forall>a \<in> set (batch aes). list_ex (answers a) new) \<and>
    (ses_status s' = ses_status s \<or> snd (truncate_at_finish aes) \<and> ses_status s' = FINISHED)"
proof -
  have wc: "list_all well_called aes" using assms(2,3) by (auto simp: session_ok_def list_all_iff)
  obtain b s1 s2 I cs new where r: "prepare w ag aes s = (b, s1)" "batch_emit w b s1 = (Inr (), s2)"
    "ab_has_finish b = snd (truncate_at_finish aes)" "called (drop_blocks (batch aes) s) s1 cs"
    "set cs \<subseteq> {a \<in> set (batch aes). unblocked s a}" "I \<subseteq> new_ids w s s1" "extends w I new s1 s2"
    "pending new = []" "\<forall>a \<in> set (batch aes). list_ex (answers a) new"
    using prepare_and_emit [OF assms(1,4,5) wc] by blast
  have s1: "ses_events s1 = ses_events s" "ses_calls s1 = ses_calls s @ cs" "ses_status s1 = ses_status s"
    "ses_blocked_actions s1 = ses_blocked_actions (drop_blocks (batch aes) s)" "ses_fresh s \<le> ses_fresh s1"
    "ses_iterations_used s1 = ses_iterations_used s"
    using calledD [OF r(4)] by (simp_all add: drop_blocks_def)
  have "session_ok w s2"
  proof (rule extends_batch_ok [OF assms(1,2) r(7) s1(1,5)])
    have "\<forall>a \<in> set cs. \<not> denied w a" using r(5) assms(6) batch_sub(1) [of aes] by blast
    then show "\<forall>a \<in> set (ses_calls s1). \<not> denied w a" using assms(2) s1(2) by (auto simp: session_ok_def)
    show "I \<subseteq> issued_ids w s1" using r(6) by auto
    have old: "issued_ids w s \<inter> new_ids w s s1 = {}" using inj_range_disjoint(2) [OF assms(1)] by simp
    have "ev_id ` set (ses_events s) \<subseteq> issued_ids w s" using assms(2) by (simp add: session_ok_def)
    then show "I \<inter> ev_id ` set (ses_events s) = {}" by (rule disjoint_sub [OF old r(6)])
    fix a assume a: "a \<in> set (pending (ses_events s))" "denied w a"
    show "list_ex (answers a) new \<or> blocked_reason s1 (ev_id a) \<noteq> None"
    proof (cases "a \<in> set (batch aes)")
      case False
      have "ev_id a \<noteq> ev_id c" if "c \<in> set (batch aes)" for c
      proof -
        have "a \<in> set (ses_events s)" "c \<in> set (ses_events s)"
          using pending_executable [OF a(1)] that batch_sub(1) assms(3) by auto
        moreover have "inj_on ev_id (set (ses_events s))" using assms(2) by (simp add: session_ok_def distinct_map)
        ultimately show ?thesis using False that by (auto dest: inj_onD)
      qed
      then have "blocked_reason s1 (ev_id a) = blocked_reason s (ev_id a)"
        unfolding s1(4) by (auto simp: drop_blocks_reason)
      then show ?thesis using assms(2) a by (simp add: session_ok_def)
    qed (use r(9) in simp)
  qed
  moreover obtain ys where "settles w ys s2 (finalize w ag b s2)" "pending ys = []"
    "ses_status (finalize w ag b s2) = ses_status s2 \<or> ab_has_finish b \<and> ses_status (finalize w ag b s2) = FINISHED"
    using finalize_settles [OF assms(1)] by blast
  moreover have "execute_actions w ag aes s = (Inr (), finalize w ag b s2)"
    using r(1,2) by (simp add: execute_actions_def)
  ultimately show ?thesis
    using r(3,5,8,9) s1 extendsD(7-10) [OF r(7)]
    by (intro exI [of _ "finalize w ag b s2"] exI [of _ cs] exI [of _ "new @ ys"])
      (auto simp: settles_def pending_append)
qed

section \<open>Action events of a response\<close>

lemma with_critic_action [simp]:
  "ev_id (with_critic c e) = ev_id e" "well_called (with_critic c e) = well_called e"
  "is_executable (with_critic c e) = is_executable e" "is_action (with_critic c e) = is_action e"
  by (cases c; cases e; simp)+

lemma action_event_facts [simp]:
  "ev_id (action_event sc i t c act risk sm m) = meta_id m" "well_called (action_event sc i t c act risk sm m)"
  "is_executable (action_event sc i t c act risk sm m) = (act \<noteq> None)"
  "is_action (action_event sc i t c act risk sm m)"
  by (simp_all add: action_event_def)

lemma new_meta_id [simp]: "meta_id (new_meta w src s) = wd_uuid w (ses_fresh s)"
  by (simp add: new_meta_def)

lemma emit_tool_error_extends:
  assumes "inj (wd_uuid w)"
  shows "\<exists>new. extends w {} new s (emit_tool_error w ag err t call i sc s) \<and> pending new = []"
proof -
  let ?call = "if ag_json_ok ag (tc_arguments call) then call else call\<lparr>tc_arguments := ag_error_json ag err\<rparr>"
  let ?mk = "action_event sc i (tc_name ?call) ?call None RiskUnknown None"
  let ?s = "emit w SourceAgent ?mk s"
  let ?er = "\<lambda>m. AgentErrorEvent m \<lparr>ee_tool_name = t, ee_tool_call_id = tc_id ?call, ee_error = err,
      ee_classification = AGENT_OUTCOME\<rparr>"
  have "ev_id (?mk (new_meta w SourceAgent s)) = wd_uuid w (ses_fresh s)"
    "well_called (?mk (new_meta w SourceAgent s))" "\<not> is_executable (?mk (new_meta w SourceAgent s))" by simp_all
  then obtain xs where x: "extends w {} xs s ?s" "pending xs = []"
    using emit_extends [OF assms, of ?mk SourceAgent s] by metis
  have "ev_id (?er (new_meta w SourceAgent ?s)) = wd_uuid w (ses_fresh ?s)"
    "well_called (?er (new_meta w SourceAgent ?s))" "\<not> is_executable (?er (new_meta w SourceAgent ?s))" by simp_all
  then obtain ys where y: "extends w {} ys ?s (emit w SourceAgent ?er ?s)" "pending ys = []"
    using emit_extends [OF assms, of ?er SourceAgent ?s] by metis
  have "emit_tool_error w ag err t call i sc s = emit w SourceAgent ?er ?s"
    by (simp only: emit_tool_error_def Let_def)
  then show ?thesis
    using extends_trans0 [OF assms x(1) y(1)] x(2) y(2) by (auto simp: pending_append)
qed

lemma get_action_event_extends:
  assumes "inj (wd_uuid w)" and "get_action_event w ag call i sc s = (ae, s')"
  shows "\<exists>new. extends w {} new s s' \<and>
    (case ae of None \<Rightarrow> pending new = []
     | Some e \<Rightarrow> pending new = [e] \<and> e \<in> set new \<and> is_executable e)"
proof (cases "\<exists>p risk. ag_read_call ag call = ReadCall p \<and>
    extract_security_risk (pc_raw_risk p) (pc_read_only p) (ag_analyzer ag \<noteq> None) = Inr risk")
  case True
  then obtain p risk where p: "ag_read_call ag call = ReadCall p"
    "extract_security_risk (pc_raw_risk p) (pc_read_only p) (ag_analyzer ag \<noteq> None) = Inr risk" by blast
  let ?e = "action_event sc i (pc_tool_name p) (pc_call p) (Some (pc_action p)) risk (Some (pc_summary p))
      (new_meta w SourceAgent s)"
  define e where "e = (if should_evaluate_with_critic ag (Some (pc_action p))
      then with_critic (evaluate_with_critic ag ?e s) ?e else ?e)"
  have e: "ev_id e = wd_uuid w (ses_fresh s)" "well_called e" "is_executable e" "is_action e"
    unfolding e_def by auto
  from on_new_event_extends [OF assms(1) e(1,2)] e(3,4) obtain new where
    "extends w {} new s (on_event w e (next_id s))" "pending new = [e]" "e \<in> set new" by auto
  moreover have "ae = Some e" "s' = on_event w e (next_id s)"
    using assms(2) p by (simp_all add: get_action_event_def Let_def e_def)
  ultimately show ?thesis using e(3) by (intro exI [of _ new]) simp
next
  case False
  then obtain err t where "ae = None" "s' = emit_tool_error w ag err t call i sc s"
    using assms(2) by (auto simp: get_action_event_def split: call_reading.splits sum.splits)
  then show ?thesis using emit_tool_error_extends [OF assms(1)] by auto
qed

lemma get_action_events_extends:
  assumes "inj (wd_uuid w)" and "get_action_events w ag calls i sc s = (aes, s')"
  shows "\<exists>new. extends w {} new s s' \<and> set aes \<subseteq> set new \<and> set (pending new) \<subseteq> set aes \<and>
    list_all is_executable aes \<and> distinct (map ev_id aes)"
  using assms(2)
proof (induction calls arbitrary: aes s sc)
  case Nil
  then show ?case by (auto intro!: exI [of _ "[]"])
next
  case (Cons call calls)
  obtain ae s1 where a: "get_action_event w ag call i sc s = (ae, s1)" by fastforce
  obtain as where b: "get_action_events w ag calls i no_side_content s1 = (as, s')"
    "aes = (case ae of None \<Rightarrow> as | Some e \<Rightarrow> e # as)" using Cons.prems a by (auto split: prod.splits)
  from get_action_event_extends [OF assms(1) a] obtain xs where x: "extends w {} xs s s1"
    "case ae of None \<Rightarrow> pending xs = [] | Some e \<Rightarrow> pending xs = [e] \<and> e \<in> set xs \<and> is_executable e" by blast
  from Cons.IH [OF b(1)] obtain ys where y: "extends w {} ys s1 s'" "set as \<subseteq> set ys"
    "set (pending ys) \<subseteq> set as" "list_all is_executable as" "distinct (map ev_id as)" by blast
  have xy: "extends w {} (xs @ ys) s s'" by (rule extends_trans0 [OF assms(1) x(1) y(1)])
  then have disj: "ev_id ` set xs \<inter> ev_id ` set ys = {}" using extendsD(2) by fastforce
  show ?case
  proof (cases ae)
    case None
    then show ?thesis using x(2) y(2-5) b(2) xy by (intro exI [of _ "xs @ ys"]) (auto simp: pending_append)
  next
    case (Some e)
    then have e: "pending xs = [e]" "e \<in> set xs" "is_executable e" "aes = e # as" using x(2) b(2) by simp_all
    have "ev_id e \<notin> ev_id ` set as" using disj e(2) y(2) by blast
    then show ?thesis using e y(2-5) xy by (intro exI [of _ "xs @ ys"]) (auto simp: pending_append)
  qed
qed

end
