(* ===== verification/Step_Laws.thy ===== *)
theory Step_Laws
  imports Agent_Laws
begin

text \<open>
  What a whole step of the agent guarantees: the invariant of the session, that tool calls get their
  results, which tools may run without the user's confirmation, and what a finish call leaves behind.
\<close>

section \<open>Steps that call no tool\<close>

definition calm :: "world \<Rightarrow> session \<Rightarrow> session \<Rightarrow> bool" where
  "calm w s s' \<longleftrightarrow> (\<exists>new. settles w new s s' \<and> pending new = [])"

lemma calm_refl [simp]: "calm w s s"
  unfolding calm_def by (rule exI [of _ "[]"]) simp

lemma calm_trans: "calm w s t \<Longrightarrow> calm w t u \<Longrightarrow> calm w s u"
  unfolding calm_def using settles_trans by (fastforce simp: pending_append)

lemma calm_status [simp]: "calm w s (set_status st s)"
  unfolding calm_def using settles_status by fastforce

lemma calm_fields:
  assumes "ses_events s' = ses_events s" and "ses_fresh s' = ses_fresh s"
    and "ses_blocked_actions s' = ses_blocked_actions s" and "ses_calls s' = ses_calls s"
    and "ses_iterations_used s' = ses_iterations_used s"
  shows "calm w s s'"
  unfolding calm_def settles_def using assms session_ok_cong [OF assms(1-4)] by (intro exI [of _ "[]"]) simp

lemma calm_emit:
  assumes "inj (wd_uuid w)" and "ev_id (mk (new_meta w src s)) = wd_uuid w (ses_fresh s)"
    and "\<not> is_action (mk (new_meta w src s))"
  shows "calm w s (emit w src mk s)"
  unfolding calm_def using emit_settles [where mk = mk, OF assms] by blast

lemma calm_emits:
  assumes "inj (wd_uuid w)"
  shows "calm w s (emit w src (user_text txt) s)"
    and "calm w s (emit w src (conversation_error c d) s)"
    and "calm w s (emit w src (\<lambda>m. OtherEvent m k p) s)"
    and "calm w s (emit w src (\<lambda>m. MessageEvent m x) s)"
    and "calm w s (emit w src CondensationRequest s)"
    and "calm w s (emit w src (\<lambda>m. Condensation m cf) s)"
  by (rule calm_emit [OF assms]; simp add: conversation_error_def)+

lemma calm_on_message:
  assumes "inj (wd_uuid w)" and "ev_id e = wd_uuid w (ses_fresh s)" and "\<not> is_action e"
  shows "calm w s (on_event w e (next_id s))"
proof -
  have e: "well_called e" "\<not> is_executable e" using assms(3) by (cases e; simp)+
  obtain new where "extends w {} new s (on_event w e (next_id s))" "pending new = []"
    using on_new_event_extends [OF assms(1,2) e(1)] e(2) by auto
  then show ?thesis
    unfolding calm_def settles_def using extendsD extends_ok0 [OF assms(1)] by (intro exI [of _ new]) auto
qed

lemma calm_vllm: "inj (wd_uuid w) \<Longrightarrow> calm w s (maybe_emit_vllm_tokens w ag s)"
  by (simp add: maybe_emit_vllm_tokens_def calm_emits)

lemma calm_message_event:
  assumes "inj (wd_uuid w)" shows "calm w s (emit_message_event w ag msg i s)"
proof -
  have "\<exists>e. emit_message_event w ag msg i s = on_event w e (next_id s) \<and>
      ev_id e = wd_uuid w (ses_fresh s) \<and> \<not> is_action e"
    unfolding emit_message_event_def Let_def by (intro exI conjI, rule refl) (auto split: option.splits)
  then show ?thesis using calm_on_message [OF assms] by auto
qed

lemma calm_content:
  assumes "inj (wd_uuid w)"
  shows "calm w s (handle_content_response w ag msg i s)" and "calm w s (handle_no_content_response w ag msg i s)"
  unfolding handle_content_response_def handle_no_content_response_def send_corrective_nudge_def
  using calm_trans [OF calm_message_event [OF assms] calm_vllm [OF assms]] calm_status calm_emits(1) [OF assms]
  by (blast intro: calm_trans)+

section \<open>Confirmation\<close>

text \<open>An action that may run without the user: exempt, or of a risk the policy lets pass.\<close>

definition permitted :: "agent \<Rightarrow> event \<Rightarrow> bool" where
  "permitted ag a \<longleftrightarrow> exempt [a] \<or> list_all (\<lambda>r. should_confirm (ag_policy ag) r = Inr False) (risks_of ag [a])"

lemma any_confirm_False:
  "any_confirm p rs = Inr False \<longleftrightarrow> list_all (\<lambda>r. should_confirm p r = Inr False) rs"
  by (induction rs) (auto split: sum.splits simp: and_then_def)

lemma risks_of_each: "risks_of ag aes = concat (map (\<lambda>a. risks_of ag [a]) aes)"
  by (induction aes) (auto simp: risks_of_def analyze_pending_actions_def split: option.splits)

lemma not_required_permitted:
  assumes "requires_user_confirmation ag aes s = (Inr False, s')"
  shows "s' = s \<and> list_all (permitted ag) aes"
proof (cases "exempt aes \<or> aes = []")
  case True
  then show ?thesis using assms by (auto simp: requires_user_confirmation_def permitted_def exempt_def split: list.splits option.splits)
next
  case False
  then have "any_confirm (ag_policy ag) (risks_of ag aes) = Inr False" "s' = s"
    using assms by (auto simp: requires_user_confirmation_def split: sum.splits bool.splits)
  then show ?thesis
    unfolding any_confirm_False by (subst (asm) risks_of_each) (auto simp: permitted_def list_all_iff)
qed

lemma required_status:
  assumes "requires_user_confirmation ag aes s = (r, s')"
  shows "s' = s \<or> r = Inr True \<and> s' = set_status WAITING_FOR_CONFIRMATION s"
    and "r = Inr True \<Longrightarrow> s' = set_status WAITING_FOR_CONFIRMATION s"
  using assms by (auto simp: requires_user_confirmation_def split: if_splits sum.splits bool.splits)

section \<open>The step\<close>

text \<open>
  What a step that samples the model does. Tools it calls are permitted; when it neither waits for a
  confirmation nor saw a finish call, the events it added leave no action without a result.
\<close>

definition step_result :: "world \<Rightarrow> agent \<Rightarrow> ('e + unit) \<Rightarrow> session \<Rightarrow> session \<Rightarrow> bool" where
  "step_result w ag r s s' \<longleftrightarrow> session_ok w s' \<and> ses_iterations_used s' = ses_iterations_used s \<and>
     (\<exists>cs new. ses_calls s' = ses_calls s @ cs \<and> ses_events s' = ses_events s @ new \<and>
        list_all (permitted ag) cs \<and>
        (r = Inr () \<and> ses_status s' \<noteq> WAITING_FOR_CONFIRMATION \<and> (\<forall>a \<in> set new. tool_of a \<noteq> FINISH_TOOL) \<longrightarrow>
           pending new = []))"

lemma step_resultI:
  assumes "session_ok w s'" and "ses_iterations_used s' = ses_iterations_used s"
    and "ses_calls s' = ses_calls s @ cs" and "ses_events s' = ses_events s @ new"
    and "list_all (permitted ag) cs"
    and "r = Inr () \<Longrightarrow> ses_status s' \<noteq> WAITING_FOR_CONFIRMATION \<Longrightarrow>
      \<forall>a \<in> set new. tool_of a \<noteq> FINISH_TOOL \<Longrightarrow> pending new = []"
  shows "step_result w ag r s s'"
  unfolding step_result_def using assms by blast

lemma calm_step_result:
  assumes "session_ok w s" and "calm w s s'" shows "step_result w ag r s s'"
proof -
  obtain new where "settles w new s s'" "pending new = []" using assms(2) unfolding calm_def by blast
  then show ?thesis
    using assms(1) by (intro step_resultI [of w s' s "[]" new]) (auto simp: settles_def)
qed

lemma step_result_calm_before:
  assumes "calm w s t" and "step_result w ag r t u" shows "step_result w ag r s u"
proof -
  obtain xs where x: "settles w xs s t" "pending xs = []" using assms(1) unfolding calm_def by blast
  obtain cs ys where "session_ok w u" "ses_iterations_used u = ses_iterations_used t" "ses_calls u = ses_calls t @ cs" "ses_events u = ses_events t @ ys"
    "list_all (permitted ag) cs" "r = Inr () \<and> ses_status u \<noteq> WAITING_FOR_CONFIRMATION \<and>
      (\<forall>a \<in> set ys. tool_of a \<noteq> FINISH_TOOL) \<longrightarrow> pending ys = []"
    using assms(2) unfolding step_result_def by blast
  with x show ?thesis
    by (intro step_resultI [of w u s cs "xs @ ys"]) (auto simp: settles_def pending_append)
qed

lemma step_result_calm_after:
  assumes "step_result w ag r s t" and "calm w t u" and "ses_status u = ses_status t"
  shows "step_result w ag r s u"
proof -
  obtain ys where y: "settles w ys t u" "pending ys = []" using assms(2) unfolding calm_def by blast
  obtain cs xs where "session_ok w t" "ses_iterations_used t = ses_iterations_used s" "ses_calls t = ses_calls s @ cs" "ses_events t = ses_events s @ xs"
    "list_all (permitted ag) cs" "r = Inr () \<and> ses_status t \<noteq> WAITING_FOR_CONFIRMATION \<and>
      (\<forall>a \<in> set xs. tool_of a \<noteq> FINISH_TOOL) \<longrightarrow> pending xs = []"
    using assms(1) unfolding step_result_def by blast
  with y assms(3) show ?thesis
    by (intro step_resultI [of w u s cs "xs @ ys"]) (auto simp: settles_def pending_append)
qed

lemma vllm_status: "ses_status (maybe_emit_vllm_tokens w ag s) = ses_status s"
  using emit_adds [of s w SourceAgent "\<lambda>m. OtherEvent m ''TokenEvent'' []"]
  by (auto simp: maybe_emit_vllm_tokens_def adds_def keeps_def)

lemma truncate_no_finish:
  assumes "\<And>a. a \<in> set aes \<Longrightarrow> tool_of a \<noteq> FINISH_TOOL" shows "truncate_at_finish aes = (aes, False)"
proof -
  have all: "takeWhile (\<lambda>a. tool_of a \<noteq> FINISH_TOOL) aes = aes" using assms by (simp add: takeWhile_eq_all_conv)
  show ?thesis unfolding truncate_at_finish_def Let_def all by simp
qed

lemma executable_action: "is_executable e \<Longrightarrow> is_action e"
  by (cases e) auto

lemma handle_tool_calls_result:
  assumes "inj (wd_uuid w)" and "session_ok w s" and "handle_tool_calls w ag msg i s = (r, s')"
  shows "step_result w ag r s s'"
proof -
  let ?sc = "\<lparr>sc_thought = filter is_text (msg_content msg), sc_reasoning = msg_reasoning_content msg,
      sc_thinking = msg_thinking_blocks msg, sc_item = msg_responses_reasoning_item msg\<rparr>"
  obtain aes s1 where g: "get_action_events w ag (the (msg_tool_calls msg)) i ?sc s = (aes, s1)" by fastforce
  obtain xs where x: "extends w {} xs s s1" "set aes \<subseteq> set xs" "set (pending xs) \<subseteq> set aes"
    "list_all is_executable aes" "distinct (map ev_id aes)"
    using get_action_events_extends [OF assms(1) g] by blast
  have ok1: "session_ok w s1" by (rule extends_ok0 [OF assms(1,2) x(1)])
  obtain q s2 where q: "requires_user_confirmation ag aes s1 = (q, s2)" by fastforce
  have quiet: "step_result w ag r' s s2" if "r' = Inr () \<Longrightarrow> q = Inr True" for r' :: "py_error + unit"
    using required_status [OF q] that ok1 extendsD(7,8,10) [OF x(1)]
    by (intro step_resultI [of w s2 s "[]" xs]) auto
  show ?thesis
  proof (cases "q = Inr False")
    case False
    then have "s' = s2" "r = Inr () \<Longrightarrow> q = Inr True"
      using assms(3) g q by (auto simp: handle_tool_calls_def split: sum.splits bool.splits)
    then show ?thesis using quiet by simp
  next
    case True
    then have perm: "s2 = s1" "list_all (permitted ag) aes" using not_required_permitted q by auto
    have wf: "set aes \<subseteq> set (ses_events s1)" "list_all is_action aes"
      using x(2,4) extendsD(8) [OF x(1)] by (auto simp: list_all_iff executable_action)
    have block: "\<not> unblocked s1 a" if "a \<in> set aes" "denied w a" for a
      using that x(2) extendsD(5) [OF x(1)] by (auto simp: blocks_kept_def)
    obtain s3 cs ys where e: "execute_actions w ag aes s1 = (Inr (), s3)" "session_ok w s3"
      "ses_iterations_used s3 = ses_iterations_used s1"
      "ses_calls s3 = ses_calls s1 @ cs" "set cs \<subseteq> {a \<in> set (batch aes). unblocked s1 a}"
      "ses_events s3 = ses_events s1 @ ys" "pending ys = []" "\<forall>a \<in> set (batch aes). list_ex (answers a) ys"
      using execute_actions_run [OF assms(1) ok1 wf(1) x(5) wf(2) block] by blast
    have run: "(if aes \<noteq> [] then execute_actions w ag aes s1 else (Inr (), s1)) = (Inr (), s3) \<or>
        aes = [] \<and> (if aes \<noteq> [] then execute_actions w ag aes s1 else (Inr (), s1)) = (Inr (), s1)"
      using e(1) by auto
    have res3: "step_result w ag (Inr () :: py_error + unit) s s3"
    proof -
      have "list_all (permitted ag) cs" using e(5) perm(2) batch_sub(1) [of aes] by (auto simp: list_all_iff)
      moreover have "pending (xs @ ys) = []" if "\<forall>a \<in> set (xs @ ys). tool_of a \<noteq> FINISH_TOOL"
      proof -
        have "truncate_at_finish aes = (aes, False)" using that x(2) by (intro truncate_no_finish) auto
        then have "batch aes = aes" by (simp add: batch_def)
        then show ?thesis using e(7,8) x(3) by (auto simp: pending_append filter_empty_conv)
      qed
      ultimately show ?thesis
        using e(2,3,4,6) extendsD(7,8,10) [OF x(1)] by (intro step_resultI [of w s3 s cs "xs @ ys"]) auto
    qed
    have res1: "step_result w ag (Inr () :: py_error + unit) s s1" if "aes = []"
      using ok1 extendsD(7,8,10) [OF x(1)] x(3) that by (intro step_resultI [of w s1 s "[]" xs]) auto
    have "handle_tool_calls w ag msg i s =
        (case (if aes \<noteq> [] then execute_actions w ag aes s1 else (Inr (), s1)) of
           (Inl e, s3) \<Rightarrow> (Inl e, s3) | (Inr _, s3) \<Rightarrow> (Inr (), maybe_emit_vllm_tokens w ag s3))"
      using g q True perm(1) by (simp add: handle_tool_calls_def)
    with run res1 res3 obtain t where t: "step_result w ag (Inr () :: py_error + unit) s t"
      "handle_tool_calls w ag msg i s = (Inr (), maybe_emit_vllm_tokens w ag t)" by force
    with assms(3) have "r = Inr ()" "s' = maybe_emit_vllm_tokens w ag t" by simp_all
    then show ?thesis using step_result_calm_after [OF t(1) calm_vllm [OF assms(1)]] vllm_status by simp
  qed
qed

lemma step_result_lift:
  assumes "step_result w ag r s s'" and "(r', t) = lift_result (r, s')"
  shows "step_result w ag r' s t"
  using assms by (cases r) (auto simp: lift_result_def step_result_def)

lemma complete_step_result:
  assumes "inj (wd_uuid w)" and "session_ok w s" and "complete_step w ag messages s = (r, s')"
  shows "step_result w ag r s s'"
proof (cases "\<exists>p. ag_llm ag (ses_fresh s) messages = LLMReply p \<and> classify_response (resp_message p) = TOOL_CALLS")
  case True
  then obtain p where p: "ag_llm ag (ses_fresh s) messages = LLMReply p"
    "classify_response (resp_message p) = TOOL_CALLS" by blast
  obtain q t where q: "handle_tool_calls w ag (resp_message p) (resp_id p) s = (q, t)" by fastforce
  have "(r, s') = lift_result (q, t)" using assms(3) p q by (simp add: complete_step_def handle_response_def)
  then show ?thesis using step_result_lift handle_tool_calls_result [OF assms(1,2) q] by blast
next
  case False
  have "calm w s (session_rebuild_view s)" by (rule calm_fields) (simp_all add: session_rebuild_view_def)
  then have "calm w s (emit w SourceEnvironment CondensationRequest (session_rebuild_view s))"
    using calm_trans calm_emits(5) [OF assms(1)] by blast
  then have "calm w s s'"
    using False assms(3) calm_emits(1,5) [OF assms(1)] calm_content [OF assms(1)] calm_refl
    unfolding complete_step_def handle_response_def
    by (auto split: llm_outcome.splits response_type.splits if_splits)
  then show ?thesis by (rule calm_step_result [OF assms(2)])
qed

lemma prepare_llm_messages_calm:
  assumes "prepare_llm_messages ag s = (r, s')" shows "calm w s s'"
proof -
  have counted: "calm w s (s\<lparr>ses_counted := c\<rparr>)" for c by (rule calm_fields) simp_all
  show ?thesis
    using assms counted unfolding prepare_llm_messages_def
    by (auto split: option.splits prod.splits sum.splits condense_result.splits)
qed

lemma sample_step_result:
  assumes "inj (wd_uuid w)" and "session_ok w s" and "sample_step w ag s = (r, s')"
  shows "step_result w ag r s s'"
proof -
  obtain p s1 where p: "prepare_llm_messages ag s = (p, s1)" by fastforce
  have c: "calm w s s1" by (rule prepare_llm_messages_calm [OF p])
  have ok: "session_ok w s1" using c assms(2) by (auto simp: calm_def settles_def)
  have "step_result w ag r s1 s'"
  proof (cases "\<exists>ms. complete_step w ag ms s1 = (r, s')")
    case False
    then have "calm w s1 s'"
      using assms(3) p calm_emits(4,6) [OF assms(1)] calm_trans [OF calm_emits(4) [OF assms(1)] calm_status]
      unfolding sample_step_def by (auto split: sum.splits if_splits)
    then show ?thesis by (rule calm_step_result [OF ok])
  qed (use complete_step_result [OF assms(1) ok] in blast)
  then show ?thesis by (rule step_result_calm_before [OF c])
qed

lemma pop_blocked_message_calm:
  assumes "pop_blocked_message i s = (r, s')" shows "calm w s s'"
  using assms by (auto simp: pop_blocked_message_def split: option.splits intro: calm_fields)

lemma pending_distinct: "distinct (map ev_id es) \<Longrightarrow> distinct (map ev_id (pending es))"
proof (induction es)
  case (Cons e es)
  have "ev_id ` set (pending es) \<subseteq> ev_id ` set es" using pending_executable by blast
  then show ?case using Cons by auto
qed simp

text \<open>A step that begins with waiting actions runs them; every other step samples.\<close>

lemma agent_step_samples:
  assumes "inj (wd_uuid w)" and "session_ok w s" and "pending (ses_events s) = []"
    and "agent_step w ag s = (r, s')"
  shows "step_result w ag r s s'"
proof (cases "ses_last_user_message_id s")
  case None
  then show ?thesis
    using assms(3,4) sample_step_result [OF assms(1,2)] by (simp add: agent_step_def get_unmatched_pending Let_def)
next
  case (Some i)
  obtain q s1 where q: "pop_blocked_message i s = (q, s1)" by fastforce
  have c: "calm w s s1" by (rule pop_blocked_message_calm [OF q])
  have ok: "session_ok w s1" using c assms(2) by (auto simp: calm_def settles_def)
  have step: "(r, s') = (case q of Some _ \<Rightarrow> (Inr (), set_status FINISHED s1) | None \<Rightarrow> sample_step w ag s1)"
    using assms(3,4) Some q by (simp add: agent_step_def get_unmatched_pending Let_def split: option.splits)
  have "step_result w ag r s1 s'"
  proof (cases q)
    case None
    then show ?thesis using step sample_step_result [OF assms(1) ok] by simp
  next
    case (Some reason)
    then show ?thesis using step calm_step_result [OF ok calm_status] by simp
  qed
  then show ?thesis by (rule step_result_calm_before [OF c])
qed

lemma agent_step_resumes:
  assumes "inj (wd_uuid w)" and "session_ok w s" and "pending (ses_events s) \<noteq> []"
  shows "\<exists>s' cs new. agent_step w ag s = (Inr (), s') \<and> session_ok w s' \<and>
    ses_iterations_used s' = ses_iterations_used s \<and> ses_calls s' = ses_calls s @ cs \<and>
    set cs \<subseteq> {a \<in> set (batch (pending (ses_events s))). unblocked s a} \<and>
    ses_events s' = ses_events s @ new \<and> pending new = [] \<and>
    (\<forall>a \<in> set (batch (pending (ses_events s))). list_ex (answers a) new) \<and>
    (ses_status s' = ses_status s \<or>
      snd (truncate_at_finish (pending (ses_events s))) \<and> ses_status s' = FINISHED)"
proof -
  let ?p = "pending (ses_events s)"
  have sub: "set ?p \<subseteq> set (ses_events s)" "list_all is_action ?p"
    using pending_executable executable_action by (auto simp: list_all_iff)
  have "distinct (map ev_id ?p)" using assms(2) pending_distinct by (simp add: session_ok_def)
  moreover have block: "\<not> unblocked s a" if "a \<in> set ?p" "denied w a" for a
    using assms(2) that by (simp add: session_ok_def)
  moreover have "agent_step w ag s = lift_result (execute_actions w ag ?p s)"
    using assms(3) by (simp add: agent_step_def get_unmatched_pending)
  ultimately show ?thesis
    using execute_actions_run [OF assms(1,2) sub(1) _ sub(2) block, of ag] by (auto simp: lift_result_def)
qed

section \<open>Guarantees of a step\<close>

text \<open>
  C6. A step that returns, does not stop for a confirmation and meets no finish call leaves no action
  without a result: whether it resumed waiting actions or sampled the model, every tool call it
  recorded has been answered by an observation, a rejection or an error.
\<close>

theorem step_leaves_nothing_pending:
  assumes "inj (wd_uuid w)" and "session_ok w s" and "agent_step w ag s = (Inr (), s')"
    and "ses_status s' \<noteq> WAITING_FOR_CONFIRMATION"
    and "\<forall>a \<in> set (pending (ses_events s)) \<union> (set (ses_events s') - set (ses_events s)). tool_of a \<noteq> FINISH_TOOL"
  shows "pending (ses_events s') = []"
proof (cases "pending (ses_events s) = []")
  case True
  have r: "step_result w ag (Inr () :: raised + unit) s s'" by (rule agent_step_samples [OF assms(1,2) True assms(3)])
  then obtain new where n: "ses_events s' = ses_events s @ new"
    "ses_status s' \<noteq> WAITING_FOR_CONFIRMATION \<and> (\<forall>a \<in> set new. tool_of a \<noteq> FINISH_TOOL) \<longrightarrow> pending new = []"
    unfolding step_result_def by blast
  have "distinct (map ev_id (ses_events s @ new))" using r n(1) by (simp add: step_result_def session_ok_def)
  then have "set new \<inter> set (ses_events s) = {}" by auto
  then show ?thesis using n True assms(4,5) by (auto simp: pending_append)
next
  case False
  let ?p = "pending (ses_events s)"
  have "truncate_at_finish ?p = (?p, False)" using assms(5) by (intro truncate_no_finish) auto
  then have "batch ?p = ?p" by (simp add: batch_def)
  then obtain new where "ses_events s' = ses_events s @ new" "pending new = []"
    "\<forall>a \<in> set ?p. list_ex (answers a) new"
    using agent_step_resumes [OF assms(1,2) False, of ag] assms(3) by auto
  then show ?thesis using pending_answered by simp
qed

text \<open>
  C8. A tool never runs without the user's word unless it may: when no action was waiting, every tool a
  step calls belongs to an action that is exempt (a lone finish or think action) or whose risk the
  confirmation policy lets pass.
\<close>

theorem no_unconfirmed_call:
  assumes "inj (wd_uuid w)" and "session_ok w s" and "pending (ses_events s) = []"
    and "agent_step w ag s = (r, s')" and "a \<in> set (drop (length (ses_calls s)) (ses_calls s'))"
  shows "exempt [a] \<or> (\<forall>risk \<in> set (risks_of ag [a]). should_confirm (ag_policy ag) risk = Inr False)"
proof -
  from agent_step_samples [OF assms(1-4)] obtain cs where
    "ses_calls s' = ses_calls s @ cs" "list_all (permitted ag) cs" unfolding step_result_def by blast
  with assms(5) show ?thesis by (auto simp: permitted_def list_all_iff)
qed

section \<open>A sample agent\<close>

text \<open>An agent whose model always asks for the named tools.\<close>

definition named_call :: "string \<Rightarrow> message_tool_call" where
  "named_call name = \<lparr>tc_id = name, tc_responses_item_id = None, tc_name = name,
     tc_arguments = ''{}'', tc_origin = Completion\<rparr>"

definition sample_agent :: "confirmation_policy \<Rightarrow> string list \<Rightarrow> agent" where
  "sample_agent policy names =
     \<lparr>ag_tools = names, ag_read_call = \<lambda>c. ReadCall \<lparr>pc_tool_name = tc_name c, pc_read_only = False,
        pc_raw_risk = None, pc_summary = ''run'', pc_action = OtherAction ''Execute'' ''ls'', pc_call = c\<rparr>,
      ag_json_ok = \<lambda>_. True, ag_error_json = \<lambda>_. ''{}'', ag_risk_error = \<lambda>_ _. ''risk'',
      ag_run = \<lambda>_ _. ToolReturned (sample_output ''ok'' False), ag_resources = \<lambda>_. None,
      ag_lock_timeout = \<lambda>_ _. None, ag_cancelled = \<lambda>_ _. False,
      ag_llm = \<lambda>_ _. LLMReply \<lparr>resp_id = ''r'',
        resp_message = plain_message RoleAssistant []\<lparr>msg_tool_calls := Some (map named_call names)\<rparr>\<rparr>,
      ag_condenser = None, ag_handles_requests = False, ag_router = False, ag_vision = True,
      ag_model = ''m'', ag_mask = \<lambda>t. t, ag_tokens = False, ag_critic = None, ag_analyzer = None,
      ag_policy = policy\<rparr>"

abbreviation quiet_world :: world where
  "quiet_world \<equiv> sample_world None"

lemma sample_session_ok: "session_ok w sample_session"
  by (simp add: session_ok_def sample_session_def)

lemma step_returns: "\<not> isl (fst p) \<Longrightarrow> p = (Inr (), snd p)" for p :: "(raised + unit) \<times> session"
  by (cases p; cases "fst p") auto

theorem step_leaves_nothing_pending_witness:
  "pending (ses_events (snd (agent_step quiet_world (sample_agent NeverConfirm [''terminal'']) sample_session))) = []"
proof -
  let ?p = "agent_step quiet_world (sample_agent NeverConfirm [''terminal'']) sample_session"
  have "\<not> isl (fst ?p)" by code_simp
  moreover have "ses_status (snd ?p) \<noteq> WAITING_FOR_CONFIRMATION" by code_simp
  moreover have "list_all (\<lambda>a. tool_of a \<noteq> FINISH_TOOL) (pending (ses_events sample_session) @ ses_events (snd ?p))"
    by code_simp
  then have "\<forall>a \<in> set (pending (ses_events sample_session)) \<union> (set (ses_events (snd ?p)) - set (ses_events sample_session)).
      tool_of a \<noteq> FINISH_TOOL" by (auto simp: list_all_iff)
  ultimately show ?thesis
    using step_leaves_nothing_pending [OF sample_world_inj sample_session_ok step_returns] by blast
qed

lemma singleton_list: "length xs = 1 \<Longrightarrow> \<exists>x. xs = [x]"
  by (cases xs) auto

theorem no_unconfirmed_call_witness:
  "\<exists>a. set (drop (length (ses_calls sample_session)) (ses_calls (snd (agent_step quiet_world
      (sample_agent (ConfirmRisky RiskHigh False) [''terminal'']) sample_session)))) = {a} \<and>
    (exempt [a] \<or> (\<forall>risk \<in> set (risks_of (sample_agent (ConfirmRisky RiskHigh False) [''terminal'']) [a]).
       should_confirm (ag_policy (sample_agent (ConfirmRisky RiskHigh False) [''terminal''])) risk = Inr False))"
proof -
  let ?ag = "sample_agent (ConfirmRisky RiskHigh False) [''terminal'']"
  let ?p = "agent_step quiet_world ?ag sample_session"
  have one: "length (drop (length (ses_calls sample_session)) (ses_calls (snd ?p))) = 1" by code_simp
  from singleton_list [OF one] obtain a where
    a: "drop (length (ses_calls sample_session)) (ses_calls (snd ?p)) = [a]" by (elim exE)
  have none: "pending (ses_events sample_session) = []" by (simp add: sample_session_def)
  have "a \<in> set (drop (length (ses_calls sample_session)) (ses_calls (snd ?p)))" unfolding a by simp
  from no_unconfirmed_call [OF sample_world_inj sample_session_ok none surjective_pairing this]
  show ?thesis unfolding a by (intro exI [of _ a] conjI) simp
qed

text \<open>
  Calls after a finish call are announced as discarded, but they are only left out of the batch: they
  were recorded as actions, they get no result, and the next step runs them, after the conversation
  had finished.
\<close>

theorem calls_after_finish_run_later:
  "\<exists>ag s1 s2. agent_step quiet_world ag sample_session = (Inr (), s1) \<and>
     ses_status s1 = FINISHED \<and> map tool_of (ses_calls s1) = [FINISH_TOOL] \<and>
     map tool_of (pending (ses_events s1)) = [''terminal''] \<and>
     agent_step quiet_world ag s1 = (Inr (), s2) \<and> map tool_of (ses_calls s2) = [FINISH_TOOL, ''terminal'']"
proof -
  let ?ag = "sample_agent NeverConfirm [FINISH_TOOL, ''terminal'']"
  let ?one = "agent_step quiet_world ?ag sample_session"
  let ?two = "agent_step quiet_world ?ag (snd ?one)"
  have "\<not> isl (fst ?one) \<and> ses_status (snd ?one) = FINISHED \<and> map tool_of (ses_calls (snd ?one)) = [FINISH_TOOL] \<and>
      map tool_of (pending (ses_events (snd ?one))) = [''terminal''] \<and> \<not> isl (fst ?two) \<and>
      map tool_of (ses_calls (snd ?two)) = [FINISH_TOOL, ''terminal'']"
    by code_simp
  then show ?thesis using step_returns [of ?one] step_returns [of ?two] by metis
qed

end
