(* ===== verification/Run_Laws.thy ===== *)
theory Run_Laws
  imports Run_Loop Step_Laws
begin

text \<open>
  The run loop ends, whatever the model, the tools and the hooks do; how it ends; and what every
  sequence of operations on a conversation preserves.
\<close>

section \<open>Termination\<close>

text \<open>
  What decreases: the iterations left (nothing is left once the cap is reached and the agent has
  finished), then the condensation-only steps left, then the status, from finished over anything
  else to stuck.
\<close>

definition iterations_left :: "run_config \<Rightarrow> loop_vars \<Rightarrow> session \<Rightarrow> nat" where
  "iterations_left c v s =
     (if rc_max_iterations c \<le> lv_iteration v then (if ses_status s = FINISHED then 0 else 1)
      else rc_max_iterations c - lv_iteration v + 1)"

definition status_rank :: "session \<Rightarrow> nat" where
  "status_rank s = (if ses_status s = FINISHED then 2 else if ses_status s = STUCK then 0 else 1)"

definition run_measure :: "run_config \<Rightarrow> ((loop_vars \<times> session) \<times> (loop_vars \<times> session)) set" where
  "run_measure c = measures
     [\<lambda>(v, s). iterations_left c v s, \<lambda>(v, s). 3 - lv_streak v, \<lambda>(v, s). status_rank s]"

lemma run_measure_wf: "wf (run_measure c)"
  by (simp add: run_measure_def)

lemma record_step_cases:
  assumes "record_step start it k s = ((it', k'), s')"
  shows "it' = Suc it \<and> k' = 0 \<or> it' = it \<and> k' = Suc k \<and> (3 \<le> Suc k \<longrightarrow> ses_status s' = STUCK)"
  using assms by (auto simp: record_step_def Let_def set_status_def split: if_splits)

lemma after_step_again:
  assumes "after_step w c v s = Again v' s'"
  shows "v' = v \<and> s' = s \<and> ses_status s \<noteq> STUCK \<and> (rc_max_iterations c \<le> lv_iteration v \<longrightarrow> ses_status s = FINISHED)"
  using assms by (auto simp: after_step_def split: if_splits)

lemma step_iteration_again:
  assumes "step_iteration w ag c v s = Again v' s'" and "ses_status s \<noteq> FINISHED"
  shows "((v', s'), (v, s)) \<in> run_measure c"
proof -
  let ?s2 = "consume_message (if ses_status s = WAITING_FOR_CONFIRMATION then set_status RUNNING s else s)"
  let ?start = "length (ses_events ?s2)"
  obtain r s3 where a: "agent_step w ag ?s2 = (r, s3)" by fastforce
  obtain it k s4 where q: "record_step ?start (lv_iteration v) (lv_streak v) s3 = ((it, k), s4)"
    by (metis prod.exhaust)
  let ?den = "if list_ex is_tool_result (drop ?start (ses_events s3)) then 0 else lv_denials v"
  let ?v = "\<lparr>lv_iteration = it, lv_denials = ?den, lv_streak = k\<rparr>"
  have "after_step w c ?v s4 = Again v' s'"
    using assms(1) a q by (auto simp: step_iteration_def Let_def split: sum.splits)
  from after_step_again [OF this] have e: "v' = ?v" "s' = s4" "ses_status s4 \<noteq> STUCK"
    "rc_max_iterations c \<le> it \<longrightarrow> ses_status s4 = FINISHED" by auto
  then show ?thesis
    using record_step_cases [OF q] assms(2)
    by (auto simp: run_measure_def iterations_left_def)
qed

lemma check_stuck_status:
  assumes "check_stuck_or_nudge w c s = (stuck, s')"
  shows "stuck \<Longrightarrow> ses_status s' = STUCK"
  using assms by (auto simp: check_stuck_or_nudge_def set_status_def split: option.splits prod.splits if_splits)

lemma emit_status [simp]: "ses_status (emit w src mk s) = ses_status s"
  using emit_adds [of s w src mk] by (auto simp: adds_def keeps_def)

lemma check_stuck_same_status:
  assumes "check_stuck_or_nudge w c s = (stuck, s')" and "\<not> stuck"
  shows "ses_status s' = ses_status s"
  using assms by (auto simp: check_stuck_or_nudge_def split: option.splits prod.splits if_splits)

lemma hook_run_stop_logged:
  assumes "hook_run_stop w env cfg reason active s = (r, s')"
  shows "\<exists>logs. logged w logs s s' \<and> ses_blocked_actions s' = ses_blocked_actions s"
proof (cases "has_hooks_for_event cfg StopEvent")
  case False
  then show ?thesis using assms logged_refl [of w s] by (auto simp: hook_run_stop_def simp del: logged_refl)
next
  case True
  obtain results where "s' = emit_hook_results w StopEvent (get_hooks_for_event env cfg StopEvent None) results s"
    using True assms by (auto simp: hook_run_stop_def Let_def split: prod.splits)
  then show ?thesis using emit_hook_results_logged by blast
qed

lemma finished_iteration_again:
  assumes "finished_iteration w c v s = Again v' s'" and "ses_status s = FINISHED"
  shows "((v', s'), (v, s)) \<in> run_measure c"
proof -
  have "\<not> rc_max_iterations c \<le> lv_iteration v" "lv_iteration v' = lv_iteration v"
    "lv_streak v' = lv_streak v" "ses_status s' = RUNNING"
    using assms(1) by (auto simp: finished_iteration_def Let_def split: option.splits prod.splits bool.splits if_splits)
  then show ?thesis using assms(2) by (simp add: run_measure_def iterations_left_def status_rank_def)
qed

lemma run_iteration_again:
  assumes "run_iteration w ag c v s = Again v' s'"
  shows "((v', s'), (v, s)) \<in> run_measure c"
proof (cases "ses_status s = FINISHED")
  case True
  then show ?thesis using assms finished_iteration_again by (simp add: run_iteration_def)
next
  case False
  then have live: "ses_status s \<noteq> PAUSED" "ses_status s \<noteq> STUCK" using assms by (auto simp: run_iteration_def)
  obtain stuck s1 where k: "check_stuck_or_nudge w c s = (stuck, s1)" by fastforce
  show ?thesis
  proof (cases stuck)
    case True
    then have "v' = v" "s' = s1" "ses_status s1 = STUCK"
      using assms False live k check_stuck_status by (auto simp: run_iteration_def)
    then show ?thesis using False live by (simp add: run_measure_def iterations_left_def status_rank_def)
  next
    case go: False
    then have step: "step_iteration w ag c v s1 = Again v' s'" using assms False live k by (simp add: run_iteration_def)
    have st: "ses_status s1 = ses_status s" by (rule check_stuck_same_status [OF k go])
    have same: "iterations_left c v s1 = iterations_left c v s" "status_rank s1 = status_rank s"
      by (simp_all add: iterations_left_def status_rank_def st)
    have "((v', s'), (v, s1)) \<in> run_measure c" using step_iteration_again [OF step] False st by simp
    then show ?thesis by (simp add: run_measure_def same)
  qed
qed

lemma run_loop_returns: "\<exists>r s'. run_loop w ag c v s = Some (r, s')"
proof (induction "(v, s)" arbitrary: v s rule: wf_induct_rule [OF run_measure_wf [of c]])
  case (1 v s)
  show ?case
  proof (cases "run_iteration w ag c v s")
    case (Again v' s')
    then have "\<exists>r t. run_loop w ag c v' s' = Some (r, t)" using 1 run_iteration_again by blast
    then show ?thesis using Again by (subst run_loop.simps) simp
  qed (subst run_loop.simps, simp)+
qed

text \<open>Induction over a run that returned.\<close>

lemma run_loop_induct [consumes 1, case_names Break Raise Again]:
  assumes "run_loop w ag c v s = Some (r, s')"
    and "\<And>v s s'. run_iteration w ag c v s = Break s' \<Longrightarrow> P v s None s'"
    and "\<And>v s e s'. run_iteration w ag c v s = Raise e s' \<Longrightarrow> P v s (Some e) s'"
    and "\<And>v s v1 s1 r s'. run_iteration w ag c v s = Again v1 s1 \<Longrightarrow> P v1 s1 r s' \<Longrightarrow> P v s r s'"
  shows "P v s r s'"
  using assms(1)
proof (induction "(v, s)" arbitrary: v s rule: wf_induct_rule [OF run_measure_wf [of c]])
  case (1 v s)
  show ?case
  proof (cases "run_iteration w ag c v s")
    case (Again v1 s1)
    then have "run_loop w ag c v1 s1 = Some (r, s')" using 1(2) by (subst (asm) run_loop.simps) simp
    then show ?thesis using 1(1) run_iteration_again [OF Again] assms(4) [OF Again] by blast
  next
    case (Break t)
    then have "r = None" "s' = t" using 1(2) by (subst (asm) run_loop.simps; simp)+
    then show ?thesis using assms(2) [OF Break] by simp
  next
    case (Raise e t)
    then have "r = Some e" "s' = t" using 1(2) by (subst (asm) run_loop.simps; simp)+
    then show ?thesis using assms(3) [OF Raise] by simp
  qed
qed

section \<open>How a run ends\<close>

lemma emit_run_limit_status [simp]: "ses_status (emit_run_limit_error w code detail s) = ERROR"
  by (simp add: emit_run_limit_error_def)

lemma run_iteration_break:
  assumes "run_iteration w ag c v s = Break s'"
  shows "ses_status s' \<in> {PAUSED, STUCK, FINISHED, ERROR, WAITING_FOR_CONFIRMATION}"
proof (cases "ses_status s = FINISHED")
  case True
  have keep: "ses_status t = FINISHED"
    if "hook_run_stop w env cfg reason active s = (r, t)" for env cfg reason active r t
    using hook_run_stop_logged [OF that] True by (auto simp: logged_def keeps_def)
  have "finished_iteration w c v s = Break s'" using assms True by (simp add: run_iteration_def)
  then show ?thesis
    using True keep unfolding finished_iteration_def Let_def
    by (auto split: option.splits prod.splits bool.splits if_splits)
next
  case False
  then show ?thesis
    using assms
    by (auto simp: run_iteration_def step_iteration_def after_step_def Let_def
        split: prod.splits bool.splits if_splits sum.splits)
qed

lemma run_loop_status:
  assumes "run_loop w ag c v s = Some (None, s')"
  shows "ses_status s' \<in> {PAUSED, STUCK, FINISHED, ERROR, WAITING_FOR_CONFIRMATION}"
proof -
  have "r = None \<longrightarrow> ses_status s' \<in> {PAUSED, STUCK, FINISHED, ERROR, WAITING_FOR_CONFIRMATION}"
    if "run_loop w ag c v s = Some (r, s')" for r
    using that by (induction rule: run_loop_induct) (use run_iteration_break in blast)+
  then show ?thesis using assms by blast
qed

lemma handle_run_exception_recorded:
  "ses_status (handle_run_exception w c k e s) = ERROR \<and>
   (k \<le> length (ses_events s) \<longrightarrow>
     latest_conversation_error (ses_events (handle_run_exception w c k e s)) k \<noteq> None)"
proof (cases "agent_already_surfaced_error (ses_events s) k")
  case True
  then show ?thesis
    by (auto simp: handle_run_exception_def agent_already_surfaced_error_def split: option.splits)
next
  case False
  let ?mk = "conversation_error (fst (rc_error c e)) (snd (rc_error c e))"
  let ?s = "set_status ERROR s" and ?e = "conversation_error (fst (rc_error c e)) (snd (rc_error c e))
    (new_meta w SourceEnvironment (set_status ERROR s))"
  have "emitted w ?e (next_id ?s) (emit w SourceEnvironment ?mk ?s)" unfolding emit_def by (rule on_event_emitted)
  then obtain logs e' where n: "ses_events (emit w SourceEnvironment ?mk ?s) = ses_events s @ logs @ [e']"
    "same_event ?e e'" unfolding emitted_def by auto
  have "e' = ?e" using same_event_eq [OF n(2)] by (simp add: conversation_error_def)
  then have "k \<le> length (ses_events s) \<longrightarrow>
      latest_conversation_error (ses_events (emit w SourceEnvironment ?mk ?s)) k = Some ?e"
    using n(1) by (simp add: latest_conversation_error_def conversation_error_def)
  then show ?thesis using False by (simp add: handle_run_exception_def Let_def)
qed

section \<open>What every operation preserves\<close>

text \<open>The invariant holds again, events were only added, and tool calls too.\<close>

definition progress :: "world \<Rightarrow> session \<Rightarrow> session \<Rightarrow> bool" where
  "progress w s s' \<longleftrightarrow> (session_ok w s \<longrightarrow> session_ok w s') \<and> prefix (ses_events s) (ses_events s') \<and>
     prefix (ses_calls s) (ses_calls s')"

lemma progress_refl [simp]: "progress w s s"
  by (simp add: progress_def)

lemma progress_trans: "progress w s t \<Longrightarrow> progress w t u \<Longrightarrow> progress w s u"
  by (auto simp: progress_def intro: prefix_order.trans)

lemma calm_progress: "calm w s s' \<Longrightarrow> progress w s s'"
  by (auto simp: calm_def settles_def progress_def)

lemma calm_iterations: "calm w s s' \<Longrightarrow> ses_iterations_used s' = ses_iterations_used s"
  by (auto simp: calm_def settles_def)

lemma progress_fields:
  assumes "ses_events s' = ses_events s" and "ses_fresh s' = ses_fresh s"
    and "ses_blocked_actions s' = ses_blocked_actions s" and "ses_calls s' = ses_calls s"
  shows "progress w s s'"
  using assms session_ok_cong [OF assms] by (simp add: progress_def)

lemma agent_step_progress:
  assumes "inj (wd_uuid w)" and "session_ok w s" and "agent_step w ag s = (r, s')"
  shows "progress w s s' \<and> ses_iterations_used s' = ses_iterations_used s"
proof (cases "pending (ses_events s) = []")
  case True
  from agent_step_samples [OF assms(1,2) True assms(3)] show ?thesis
    by (auto simp: step_result_def progress_def)
next
  case False
  from agent_step_resumes [OF assms(1,2) False, of ag] assms(3) show ?thesis
    by (auto simp: progress_def)
qed

lemma logged_progress:
  assumes "inj (wd_uuid w)" and "logged w logs s s'" and "ses_blocked_actions s' = ses_blocked_actions s"
  shows "calm w s s'"
proof -
  have l: "list_all is_log logs" "ses_events s' = ses_events s @ logs" "keeps s s'" "issued w s s' logs"
    using assms(2) by (auto simp: logged_def)
  have "extends w {} logs s s'"
    unfolding extends_def adds_def blocks_kept_def
    using l issued_extends_ids [OF assms(1) l(4)] logs_well_called [OF l(1)] logs_not_denied [OF l(1)] assms(3)
    by simp
  then show ?thesis
    unfolding calm_def settles_def using extendsD extends_ok0 [OF assms(1)] logs_inert(1) [OF l(1)]
    by (intro exI [of _ logs]) auto
qed

lemma emit_run_limit_calm: "inj (wd_uuid w) \<Longrightarrow> calm w s (emit_run_limit_error w code detail s)"
  unfolding emit_run_limit_error_def by (rule calm_trans [OF calm_status calm_emits(2)])

lemma finished_iteration_calm:
  assumes "inj (wd_uuid w)" and "finished_iteration w c v s \<in> {Again v' s', Break s', Raise e s'}"
  shows "calm w s s'"
proof (cases "wd_hooks w")
  case None
  then show ?thesis using assms(2) by (simp add: finished_iteration_def)
next
  case (Some h)
  obtain env cfg where h: "wd_hooks w = Some (env, cfg)" using Some by (cases h) auto
  obtain stop fb s1 where q: "hook_run_stop w env cfg (Some ''agent_finished'') (0 < lv_denials v) s = ((stop, fb), s1)"
    by (metis prod.exhaust)
  have one: "calm w s s1" using hook_run_stop_logged [OF q] logged_progress [OF assms(1)] by blast
  have "calm w s1 s'"
    using assms(2) h q emit_run_limit_calm [OF assms(1)] calm_trans [OF calm_emits(1) [OF assms(1)] calm_status]
    unfolding finished_iteration_def Let_def
    by (auto split: bool.splits if_splits)
  with one show ?thesis by (rule calm_trans)
qed

lemma check_stuck_calm:
  assumes "inj (wd_uuid w)" and "check_stuck_or_nudge w c s = (stuck, s')"
  shows "calm w s s'"
proof -
  have det: "calm w s (s\<lparr>ses_detector := d\<rparr>)" for d by (rule calm_fields) simp_all
  show ?thesis
    using assms(2) calm_trans [OF det calm_emits(1) [OF assms(1)]] calm_trans [OF det calm_status] det
    by (auto simp: check_stuck_or_nudge_def split: option.splits prod.splits if_splits)
qed

text \<open>The session an iteration ends in.\<close>

fun end_session :: "iteration_end \<Rightarrow> session" where
  "end_session (Again v s) = s"
| "end_session (Break s) = s"
| "end_session (Raise e s) = s"

lemma consume_calm: "calm w s (consume_message s)"
  unfolding consume_message_def by (cases "ses_last_user_message_id s") (auto intro: calm_fields)

lemma record_step_progress:
  assumes "record_step k it n s = (p, s')" shows "progress w s s'"
  using assms by (auto simp: record_step_def Let_def set_status_def split: if_splits intro: progress_fields)

lemma after_step_calm:
  assumes "inj (wd_uuid w)" shows "calm w s (end_session (after_step w c v s))"
  using emit_run_limit_calm [OF assms] by (simp add: after_step_def)

lemma step_iteration_eq:
  assumes "agent_step w ag (consume_message
      (if ses_status s = WAITING_FOR_CONFIRMATION then set_status RUNNING s else s)) = (r, s3)"
    and "record_step (length (ses_events (consume_message
      (if ses_status s = WAITING_FOR_CONFIRMATION then set_status RUNNING s else s))))
      (lv_iteration v) (lv_streak v) s3 = ((it, k), s4)"
  shows "\<exists>d. step_iteration w ag c v s = (case r of Inl e \<Rightarrow> Raise e s3 | Inr _ \<Rightarrow>
      after_step w c \<lparr>lv_iteration = it, lv_denials = d, lv_streak = k\<rparr> s4)"
  unfolding step_iteration_def Let_def assms(1) prod.case assms(2) by (rule exI) (rule refl)

lemma step_iteration_progress:
  assumes "inj (wd_uuid w)" and "session_ok w s"
  shows "progress w s (end_session (step_iteration w ag c v s))"
proof -
  let ?s1 = "if ses_status s = WAITING_FOR_CONFIRMATION then set_status RUNNING s else s"
  let ?s2 = "consume_message ?s1"
  have c: "calm w s ?s2" using calm_trans [OF _ consume_calm, of w s ?s1] by simp
  have ok: "session_ok w ?s2" using c assms(2) by (auto simp: calm_def settles_def)
  obtain r s3 where a: "agent_step w ag ?s2 = (r, s3)" by fastforce
  have p3: "progress w s s3"
    using progress_trans [OF calm_progress [OF c]] agent_step_progress [OF assms(1) ok a] by blast
  obtain it k s4 where q: "record_step (length (ses_events ?s2)) (lv_iteration v) (lv_streak v) s3 = ((it, k), s4)"
    by (metis prod.exhaust)
  have p4: "progress w s s4" using progress_trans [OF p3 record_step_progress [OF q]] .
  have p5: "progress w s (end_session (after_step w c v' s4))" for v'
    by (rule progress_trans [OF p4 calm_progress [OF after_step_calm [OF assms(1)]]])
  from step_iteration_eq [OF a q, of c] show ?thesis using p3 p5 by (cases r) auto
qed

lemma run_iteration_progress:
  assumes "inj (wd_uuid w)" and "session_ok w s"
  shows "progress w s (end_session (run_iteration w ag c v s))"
proof (cases "ses_status s = PAUSED \<or> ses_status s = STUCK")
  case True
  then show ?thesis by (simp add: run_iteration_def)
next
  case live: False
  show ?thesis
  proof (cases "ses_status s = FINISHED")
    case True
    have "calm w s (end_session (finished_iteration w c v s))"
      by (cases "finished_iteration w c v s") (auto intro: finished_iteration_calm [OF assms(1)])
    then show ?thesis using live True by (simp add: run_iteration_def calm_progress)
  next
    case False
    obtain stuck s1 where k: "check_stuck_or_nudge w c s = (stuck, s1)" by fastforce
    have c: "calm w s s1" by (rule check_stuck_calm [OF assms(1) k])
    have ok: "session_ok w s1" using c assms(2) by (auto simp: calm_def settles_def)
    have "progress w s s1" "progress w s (end_session (step_iteration w ag c v s1))"
      using calm_progress [OF c] progress_trans step_iteration_progress [OF assms(1) ok] by blast+
    then show ?thesis using live False k by (simp add: run_iteration_def split: bool.splits)
  qed
qed

section \<open>Counting iterations\<close>

definition count_ok :: "run_config \<Rightarrow> loop_vars \<Rightarrow> session \<Rightarrow> bool" where
  "count_ok c v s \<longleftrightarrow> ses_iterations_used s \<le> lv_iteration v \<and>
     (lv_iteration v < rc_max_iterations c \<or> lv_iteration v = 0 \<or>
      ses_status s = FINISHED \<and> lv_iteration v \<le> max 1 (rc_max_iterations c))"

definition count_end :: "run_config \<Rightarrow> iteration_end \<Rightarrow> bool" where
  "count_end c r \<longleftrightarrow> ses_iterations_used (end_session r) \<le> max 1 (rc_max_iterations c) \<and>
     (\<forall>v s. r = Again v s \<longrightarrow> count_ok c v s)"

lemma record_step_count:
  assumes "record_step k it n s = ((it', n'), s')" and "ses_iterations_used s \<le> it"
  shows "ses_iterations_used s' \<le> it' \<and> it' \<le> Suc it"
  using assms by (auto simp: record_step_def Let_def split: if_splits)

lemma step_iteration_count:
  assumes "inj (wd_uuid w)" and "session_ok w s" and "ses_iterations_used s \<le> lv_iteration v"
    and "lv_iteration v < rc_max_iterations c \<or> lv_iteration v = 0"
  shows "count_end c (step_iteration w ag c v s)"
proof -
  let ?s1 = "if ses_status s = WAITING_FOR_CONFIRMATION then set_status RUNNING s else s"
  let ?s2 = "consume_message ?s1"
  have c: "calm w s ?s2" using calm_trans [OF _ consume_calm, of w s ?s1] by simp
  have ok: "session_ok w ?s2" using c assms(2) by (auto simp: calm_def settles_def)
  obtain r s3 where a: "agent_step w ag ?s2 = (r, s3)" by fastforce
  have i3: "ses_iterations_used s3 \<le> lv_iteration v"
    using agent_step_progress [OF assms(1) ok a] calm_iterations [OF c] assms(3) by simp
  obtain it k s4 where q: "record_step (length (ses_events ?s2)) (lv_iteration v) (lv_streak v) s3 = ((it, k), s4)"
    by (metis prod.exhaust)
  obtain d where st: "step_iteration w ag c v s = (case r of Inl e \<Rightarrow> Raise e s3 | Inr _ \<Rightarrow>
      after_step w c \<lparr>lv_iteration = it, lv_denials = d, lv_streak = k\<rparr> s4)"
    using step_iteration_eq [OF a q] by blast
  have cnt: "ses_iterations_used s4 \<le> it" "it \<le> Suc (lv_iteration v)" using record_step_count [OF q i3] by auto
  then have bnd: "it \<le> max 1 (rc_max_iterations c)" "ses_iterations_used s3 \<le> max 1 (rc_max_iterations c)"
    using assms(4) i3 by auto
  have e: "ses_iterations_used (end_session (after_step w c v' s4)) = ses_iterations_used s4" for v'
    by (rule calm_iterations [OF after_step_calm [OF assms(1)]])
  show ?thesis
  proof (cases r)
    case (Inl err)
    then show ?thesis using st bnd(2) by (simp add: count_end_def)
  next
    case (Inr u)
    let ?v = "\<lparr>lv_iteration = it, lv_denials = d, lv_streak = k\<rparr>"
    have "count_ok c v' s'" if "after_step w c ?v s4 = Again v' s'" for v' s'
      using after_step_again [OF that] cnt(1) bnd(1) by (auto simp: count_ok_def)
    then show ?thesis using st Inr e [of ?v] cnt(1) bnd(1) by (simp add: count_end_def)
  qed
qed

lemma run_iteration_count:
  assumes "inj (wd_uuid w)" and "session_ok w s" and "count_ok c v s"
  shows "count_end c (run_iteration w ag c v s)"
proof -
  have bnd: "ses_iterations_used s \<le> max 1 (rc_max_iterations c)" using assms(3) by (auto simp: count_ok_def)
  consider (stop) "ses_status s = PAUSED \<or> ses_status s = STUCK" | (finished) "ses_status s = FINISHED"
    | (live) "ses_status s \<noteq> PAUSED" "ses_status s \<noteq> STUCK" "ses_status s \<noteq> FINISHED" by blast
  then show ?thesis
  proof cases
    case stop
    then show ?thesis using bnd by (simp add: run_iteration_def count_end_def)
  next
    case finished
    let ?r = "finished_iteration w c v s"
    have i: "ses_iterations_used (end_session ?r) = ses_iterations_used s"
      by (cases ?r) (auto intro!: calm_iterations finished_iteration_calm [OF assms(1)])
    have "count_ok c v' s'" if r: "?r = Again v' s'" for v' s'
    proof -
      have "lv_iteration v' = lv_iteration v \<and> lv_iteration v < rc_max_iterations c"
        using r by (auto simp: finished_iteration_def Let_def split: option.splits prod.splits bool.splits if_splits)
      then show ?thesis using i r assms(3) by (simp add: count_ok_def)
    qed
    then show ?thesis using finished i bnd by (simp add: run_iteration_def count_end_def)
  next
    case live
    obtain stuck s1 where k: "check_stuck_or_nudge w c s = (stuck, s1)" by fastforce
    have c: "calm w s s1" by (rule check_stuck_calm [OF assms(1) k])
    have ok: "session_ok w s1" "ses_iterations_used s1 = ses_iterations_used s"
      using c assms(2) by (auto simp: calm_def settles_def)
    have "count_end c (step_iteration w ag c v s1)"
      using assms(3) live ok(2) by (intro step_iteration_count [OF assms(1) ok(1)]) (auto simp: count_ok_def)
    moreover have "count_end c (Again v s1)"
      using assms(3) live ok(2) bnd by (auto simp: count_end_def count_ok_def)
    ultimately show ?thesis using live k by (simp add: run_iteration_def split: bool.splits)
  qed
qed

lemma run_loop_count:
  assumes "run_loop w ag c v s = Some (r, s')" and "inj (wd_uuid w)" and "session_ok w s" and "count_ok c v s"
  shows "session_ok w s' \<and> ses_iterations_used s' \<le> max 1 (rc_max_iterations c) \<and>
    progress w s s'"
  using assms(1,3,4)
proof (induction rule: run_loop_induct)
  case (Break v s s')
  then show ?case
    using run_iteration_count [OF assms(2) Break(2,3), of ag] run_iteration_progress [OF assms(2) Break(2), of ag c v]
    by (simp add: count_end_def progress_def)
next
  case (Raise v s e s')
  then show ?case
    using run_iteration_count [OF assms(2) Raise(2,3), of ag] run_iteration_progress [OF assms(2) Raise(2), of ag c v]
    by (simp add: count_end_def progress_def)
next
  case (Again v s v1 s1 r s')
  have p: "progress w s s1" using run_iteration_progress [OF assms(2) Again(3), of ag c v] Again(1) by simp
  then have "session_ok w s1" using Again(3) by (simp add: progress_def)
  moreover have "count_ok c v1 s1"
    using run_iteration_count [OF assms(2) Again(3,4), of ag] Again(1) by (simp add: count_end_def)
  ultimately show ?case using Again(2) progress_trans [OF p, of s'] by simp
qed

section \<open>Guarantees of a run\<close>

text \<open>
  C3. A run of the conversation always ends, whatever the model answers, the tools return and the hooks
  decide: paused, stuck, finished, in error or waiting for the user when it returns, and in error when
  it raises.
\<close>

theorem run_returns:
  "\<exists>r s'. run w ag c s = Some (r, s') \<and>
     ses_status s' \<in> (case r of
       None \<Rightarrow> {PAUSED, STUCK, FINISHED, ERROR, WAITING_FOR_CONFIRMATION} | Some e \<Rightarrow> {ERROR})"
proof -
  obtain r t where r: "run_loop w ag c first_vars (start_run c s) = Some (r, t)" using run_loop_returns by blast
  show ?thesis
  proof (cases r)
    case None
    then show ?thesis using r run_loop_status [of w ag c first_vars "start_run c s" t] by (simp add: run_def)
  next
    case (Some e)
    then show ?thesis using r handle_run_exception_recorded by (simp add: run_def)
  qed
qed

lemma start_run_ok:
  "progress w s (start_run c s)" "ses_events (start_run c s) = ses_events s" "ses_iterations_used (start_run c s) = 0"
  unfolding start_run_def Let_def by (auto intro: progress_fields)

lemma first_count_ok: "count_ok c first_vars (start_run c s)"
  by (simp add: count_ok_def first_vars_def start_run_ok)

lemma handle_run_exception_calm: "inj (wd_uuid w) \<Longrightarrow> calm w s (handle_run_exception w c k e s)"
  unfolding handle_run_exception_def Let_def using calm_trans [OF calm_status calm_emits(2)] by auto

lemma run_result:
  assumes "inj (wd_uuid w)" and "session_ok w s"
  shows "\<exists>r s'. run w ag c s = Some (r, s') \<and> progress w s s' \<and>
    ses_iterations_used s' \<le> max 1 (rc_max_iterations c) \<and>
    (r \<noteq> None \<longrightarrow> latest_conversation_error (ses_events s') (length (ses_events s)) \<noteq> None)"
proof -
  obtain r t where r: "run_loop w ag c first_vars (start_run c s) = Some (r, t)" using run_loop_returns by blast
  have ok: "session_ok w (start_run c s)" using start_run_ok(1) [of w s c] assms(2) by (simp add: progress_def)
  have t: "ses_iterations_used t \<le> max 1 (rc_max_iterations c)" "progress w s t"
    using run_loop_count [OF r assms(1) ok first_count_ok] progress_trans [OF start_run_ok(1)] by blast+
  show ?thesis
  proof (cases r)
    case None
    then show ?thesis using r t by (simp add: run_def)
  next
    case (Some e)
    let ?u = "handle_run_exception w c (length (ses_events s)) e t"
    have c: "calm w t ?u" by (rule handle_run_exception_calm [OF assms(1)])
    have "length (ses_events s) \<le> length (ses_events t)"
      using t(2) by (auto simp: progress_def dest: prefix_length_le)
    then have "latest_conversation_error (ses_events ?u) (length (ses_events s)) \<noteq> None"
      using handle_run_exception_recorded by blast
    moreover have "run w ag c s = Some (Some e, ?u)" using Some r by (simp add: run_def start_run_ok)
    ultimately show ?thesis
      using progress_trans [OF t(2) calm_progress [OF c]] calm_iterations [OF c] t(1) by auto
  qed
qed

text \<open>
  C34. A run between whose iterations no other operation comes takes no more counted steps than its limit (one
  when the limit is zero), and it leaves the invariant of the session in force. A message that arrives
  after the last step, before the run has ended, is processed in one step more.
\<close>

theorem run_bounded:
  assumes "inj (wd_uuid w)" and "session_ok w s"
  shows "\<exists>r s'. run w ag c s = Some (r, s') \<and> ses_iterations_used s' \<le> max 1 (rc_max_iterations c) \<and>
    session_ok w s'"
  using run_result [OF assms, of ag c] assms(2) by (auto simp: progress_def)

text \<open>
  C36. A run that raises has put the conversation in error and has recorded a conversation error among the
  events it added.
\<close>

theorem run_exception_recorded:
  assumes "inj (wd_uuid w)" and "session_ok w s" and "run w ag c s = Some (Some e, s')"
  shows "\<exists>x. latest_conversation_error (ses_events s') (length (ses_events s)) = Some x"
  using run_result [OF assms(1,2), of ag c] assms(3) by auto

section \<open>Sample runs\<close>

definition sample_config :: run_config where
  "sample_config = \<lparr>rc_max_iterations = 2, rc_stop_hook_cap = MAX_CONSECUTIVE_STOP_HOOK_DENIALS,
     rc_thresholds = Some default_thresholds, rc_budget = \<lambda>_. None, rc_error = \<lambda>_. (''Error'', ''text'')\<rparr>"

theorem run_bounded_witness:
  "\<exists>r s'. run quiet_world (sample_agent NeverConfirm [''terminal'']) sample_config sample_session = Some (r, s') \<and>
    ses_iterations_used s' \<le> 2 \<and> session_ok quiet_world s'"
proof -
  have "max 1 (rc_max_iterations sample_config) = 2" by (simp add: sample_config_def)
  then show ?thesis
    using run_bounded [OF sample_world_inj sample_session_ok, of None "sample_agent NeverConfirm [''terminal'']" sample_config]
    by metis
qed

text \<open>An agent whose model call fails.\<close>

definition failing_agent :: agent where
  "failing_agent = (sample_agent NeverConfirm [])\<lparr>ag_llm := \<lambda>_ _. LLMException ''Timeout'' ''late''\<rparr>"

theorem run_exception_recorded_witness:
  "\<exists>x s'. run quiet_world failing_agent sample_config sample_session = Some (Some (LLMRaised ''Timeout'' ''late''), s') \<and>
    latest_conversation_error (ses_events s') (length (ses_events sample_session)) = Some x"
proof -
  let ?r = "run_iteration quiet_world failing_agent sample_config first_vars (start_run sample_config sample_session)"
  have "case ?r of Raise e _ \<Rightarrow> e = LLMRaised ''Timeout'' ''late'' | _ \<Rightarrow> False" by code_simp
  then obtain t where t: "?r = Raise (LLMRaised ''Timeout'' ''late'') t" by (cases ?r) auto
  then have "run_loop quiet_world failing_agent sample_config first_vars (start_run sample_config sample_session) =
      Some (Some (LLMRaised ''Timeout'' ''late''), t)" by (subst run_loop.simps) simp
  then obtain s' where r: "run quiet_world failing_agent sample_config sample_session =
      Some (Some (LLMRaised ''Timeout'' ''late''), s')" by (simp add: run_def)
  from run_exception_recorded [OF sample_world_inj sample_session_ok r] r show ?thesis by blast
qed

end
