(* ===== verification/Session_Moves.thy ===== *)
theory Session_Moves
  imports Run_Laws
begin

text \<open>
  Interleavings of the operations that drive a conversation, as a step relation: messages, iterations of
  a run and its errors, rejections, interrupts, pauses, external stops and forced condensations. The
  invariant of the session holds in every state they reach, and with it that a denied tool is never called.
  Left out are navigating to another event, rerunning logged actions and calling a tool directly
  (\<^verbatim>\<open>navigate_to\<close>, \<^verbatim>\<open>rerun_actions\<close>, \<^verbatim>\<open>execute_tool\<close>), the last two of which call tools without
  asking the hooks, and loading a stored conversation.
\<close>

section \<open>Every sequence of operations\<close>

text \<open>
  The operations named above, at the grain at which the lock of the state lets them interleave: an
  iteration of a run (of any agent, under any limits) may be followed by any other of them.
\<close>

inductive move :: "world \<Rightarrow> session \<Rightarrow> session \<Rightarrow> bool" for w where
  sent: "send_message w msg sender s = (r, s') \<Longrightarrow> move w s s'"
| started: "move w s (start_run c s)"
| iterated: "move w s (end_session (run_iteration w ag c v s))"
| failed: "move w s (handle_run_exception w c k e s)"
| rejected: "move w s (reject_pending_actions w reason s)"
| interrupted: "move w s (handle_run_cancelled w s)"
| stopped: "move w s (pause w s)"
| noted: "move w s (note_external_stop w reason s)"
| condensed: "force_condense w ag s = (r, s') \<Longrightarrow> move w s s'"

abbreviation moves :: "world \<Rightarrow> session \<Rightarrow> session \<Rightarrow> bool" where
  "moves w \<equiv> (move w)\<^sup>*\<^sup>*"

lemma run_loop_moves: "run_loop w ag c v s = Some (r, s') \<Longrightarrow> moves w s s'"
proof (induction rule: run_loop_induct)
  case (Break v s s')
  then show ?case using move.iterated [of w s ag c v] by auto
next
  case (Raise v s e s')
  then show ?case using move.iterated [of w s ag c v] by auto
next
  case (Again v s v1 s1 r s')
  then show ?case using move.iterated [of w s ag c v] by (auto intro: converse_rtranclp_into_rtranclp)
qed

text \<open>
  A run of the conversation is a sequence of these operations.\<close>

theorem run_is_moves:
  assumes "run w ag c s = Some (r, s')" shows "moves w s s'"
proof -
  obtain q t where q: "run_loop w ag c first_vars (start_run c s) = Some (q, t)" using run_loop_returns by blast
  have m: "moves w s t" using converse_rtranclp_into_rtranclp [OF move.started run_loop_moves [OF q]] .
  show ?thesis
  proof (cases q)
    case None
    then show ?thesis using assms q m by (simp add: run_def)
  next
    case (Some e)
    then have "s' = handle_run_exception w c (length (ses_events (start_run c s))) e t"
      using assms q by (simp add: run_def)
    then show ?thesis using m move.failed by (auto intro: rtranclp.rtrancl_into_rtrancl)
  qed
qed

theorem run_is_moves_witness:
  "\<exists>r s'. run quiet_world (sample_agent NeverConfirm [''terminal'']) sample_config sample_session = Some (r, s') \<and>
    moves quiet_world sample_session s'"
  using run_loop_returns [of quiet_world "sample_agent NeverConfirm [''terminal'']" sample_config first_vars
      "start_run sample_config sample_session"]
    run_is_moves [of quiet_world "sample_agent NeverConfirm [''terminal'']" sample_config sample_session]
  by (fastforce simp: run_def split: option.splits)

section \<open>The invariant\<close>

lemma fold_emit_calm:
  assumes "inj (wd_uuid w)"
    and "\<And>a m. a \<in> set as \<Longrightarrow> meta (mk a m) = m \<and> \<not> is_action (mk a m)"
  shows "calm w s (fold (\<lambda>a. emit w src (mk a)) as s)"
  using assms(2)
proof (induction as arbitrary: s)
  case (Cons a as)
  have "calm w s (emit w src (mk a) s)"
    by (rule calm_emit [OF assms(1)]) (use Cons.prems in simp_all)
  moreover have "calm w (emit w src (mk a) s) (fold (\<lambda>a. emit w src (mk a)) as (emit w src (mk a) s))"
    using Cons.prems by (intro Cons.IH) simp
  ultimately show ?case using calm_trans by simp
qed simp

lemma pending_rejection: "a \<in> set (pending es) \<Longrightarrow>
    meta (rejection reason src a m) = m \<and> \<not> is_action (rejection reason src a m)"
  by (drule pending_is_action) auto

lemma pending_agent_error: "a \<in> set (pending es) \<Longrightarrow>
    meta (agent_error e k a m) = m \<and> \<not> is_action (agent_error e k a m)"
  by (drule pending_is_action) auto

lemma reject_calm:
  assumes "inj (wd_uuid w)" shows "calm w s (reject_pending_actions w reason s)"
proof -
  let ?s = "if ses_status s = WAITING_FOR_CONFIRMATION then set_status IDLE s else s"
  have "calm w s ?s" by simp
  moreover have "calm w ?s (reject_pending_actions w reason s)"
    unfolding reject_pending_actions_def Let_def get_unmatched_pending
    by (rule fold_emit_calm [OF assms pending_rejection])
  ultimately show ?thesis by (rule calm_trans)
qed

lemma interrupt_calm:
  assumes "inj (wd_uuid w)" shows "calm w s (handle_run_cancelled w s)"
proof -
  let ?o = "snd (emit_orphaned_action_errors w s)"
  let ?n = "if \<not> fst (emit_orphaned_action_errors w s) \<and> ses_status s \<noteq> FINISHED
    then emit_interrupt_notice w ?o else ?o"
  have "calm w s ?o"
    unfolding emit_orphaned_action_errors_def Let_def get_unmatched_pending snd_conv
    by (rule fold_emit_calm [OF assms pending_agent_error])
  moreover have "calm w ?o ?n"
    using calm_emits(1) [OF assms] by (simp add: emit_interrupt_notice_def emit_run_notice_def)
  moreover have "calm w ?n (handle_run_cancelled w s)"
    unfolding handle_run_cancelled_def Let_def case_prod_beta
    by (rule calm_trans [OF calm_status calm_emits(3) [OF assms]])
  ultimately show ?thesis using calm_trans by blast
qed

lemma send_calm:
  assumes "inj (wd_uuid w)" and "send_message w msg sender s = (r, s')" shows "calm w s s'"
proof (cases "msg_role msg = RoleUser")
  case False
  then show ?thesis using assms(2) by (simp add: send_message_def)
next
  case True
  let ?s1 = "if ses_status s \<in> {FINISHED, STUCK} then set_status IDLE s else s"
  obtain ext names where e: "(case wd_message_suffix w msg (ses_knowledge_skills ?s1) of
      None \<Rightarrow> ([], []) | Some (c, names) \<Rightarrow> ([c], names)) = (ext, names)" by fastforce
  let ?s2 = "?s1\<lparr>ses_knowledge_skills := ses_knowledge_skills ?s1 @ names\<rparr>"
  have "calm w s ?s1" by simp
  moreover have "calm w ?s1 ?s2" by (rule calm_fields) simp_all
  moreover have "calm w ?s2 s'"
    using assms(2) True e calm_emits(4) [OF assms(1)] by (auto simp: send_message_def Let_def)
  ultimately show ?thesis using calm_trans by blast
qed

text \<open>No operation breaks the invariant, takes back an event or a tool call.\<close>

lemma move_progress:
  assumes "inj (wd_uuid w)" and "session_ok w s" and "move w s s'" shows "progress w s s'"
  using assms(3)
proof cases
  case (sent msg sender r)
  then show ?thesis using send_calm [OF assms(1)] calm_progress by blast
next
  case (started c)
  then show ?thesis using start_run_ok(1) by simp
next
  case (iterated ag c v)
  then show ?thesis using run_iteration_progress [OF assms(1,2)] by simp
next
  case (failed c k e)
  then show ?thesis using handle_run_exception_calm [OF assms(1)] calm_progress by blast
next
  case (rejected reason)
  then show ?thesis using reject_calm [OF assms(1)] calm_progress by blast
next
  case interrupted
  then show ?thesis using interrupt_calm [OF assms(1)] calm_progress by blast
next
  case stopped
  have "calm w s s'" unfolding stopped pause_def using calm_trans [OF calm_status calm_emits(3) [OF assms(1)]] by simp
  then show ?thesis by (rule calm_progress)
next
  case (noted reason)
  then show ?thesis
    using calm_emits(1) [OF assms(1)] calm_progress by (simp add: note_external_stop_def emit_run_notice_def)
next
  case (condensed ag r)
  let ?s = "emit w SourceEnvironment CondensationRequest s"
  have p: "progress w s ?s" by (rule calm_progress [OF calm_emits(5) [OF assms(1)]])
  then have ok: "session_ok w ?s" using assms(2) by (simp add: progress_def)
  show ?thesis
    using condensed progress_trans [OF p] agent_step_progress [OF assms(1) ok]
    by (auto simp: force_condense_def split: if_splits)
qed

lemma moves_progress:
  assumes "inj (wd_uuid w)" and "moves w s s'" and "session_ok w s" shows "progress w s s' \<and> session_ok w s'"
  using assms(2)
proof (induction rule: rtranclp_induct)
  case (step t u)
  then show ?case using move_progress [OF assms(1), of t u] progress_trans [of w s t u] by (auto simp: progress_def)
qed (use assms(3) in simp)

section \<open>Guarantees in every reachable state\<close>

text \<open>
  Event identities stay unique: whatever sequence of these operations a conversation goes through, no two
  events of its branch share an id, events are only ever appended, and so are tool calls.
\<close>

theorem event_ids_stay_unique:
  assumes "inj (wd_uuid w)" and "session_ok w s" and "moves w s s'"
  shows "distinct (map ev_id (ses_events s')) \<and> prefix (ses_events s) (ses_events s') \<and>
    prefix (ses_calls s) (ses_calls s')"
  using moves_progress [OF assms(1,3,2)] by (simp add: session_ok_def progress_def)

text \<open>
  C1. A tool call that the hooks deny does not reach its tool while a conversation is driven by messages, runs,
  rejections, interrupts, pauses, external stops and forced condensations: in every state that any
  interleaving of these reaches from an empty conversation, each action whose tool was called had passed
  its hooks. Navigation, rerunning logged actions and direct tool calls are not among these operations.
\<close>

theorem denied_tool_never_called:
  assumes "inj (wd_uuid w)" and "wd_hooks w = Some (env, cfg)"
    and "ses_events s = []" and "ses_calls s = []" and "moves w s s'"
    and "ActionEvent m a \<in> set (ses_calls s')" and "ae_action a = Some act"
  shows "fst (run_pre_tool_use env cfg (ae_tool_name a) (wd_action_dump w act))"
proof -
  have "session_ok w s" using assms(3,4) by (simp add: session_ok_def)
  then have "session_ok w s'" using moves_progress [OF assms(1,5)] by blast
  then have "\<not> denied w (ActionEvent m a)" using assms(6) by (auto simp: session_ok_def)
  then show ?thesis using assms(2,7) by (simp add: denied_def)
qed

section \<open>Samples\<close>

lemma executable_fields: "is_executable e \<Longrightarrow> \<exists>m a act. e = ActionEvent m a \<and> ae_action a = Some act"
  by (cases e) auto

text \<open>A conversation with hooks that let every call pass, after one iteration of a run.\<close>

definition hooked_world :: world where
  "hooked_world = sample_world (Some (quiet_env 0, sample_hooks))"

definition hooked_session :: session where
  "hooked_session = end_session (run_iteration hooked_world (sample_agent NeverConfirm [''terminal''])
     sample_config first_vars sample_session)"

lemma hooked_moves: "moves hooked_world sample_session hooked_session"
  unfolding hooked_session_def by (rule r_into_rtranclp) (rule move.iterated)

lemma hooked_inj: "inj (wd_uuid hooked_world)"
  unfolding hooked_world_def by (rule sample_world_inj)

theorem event_ids_stay_unique_witness:
  "distinct (map ev_id (ses_events hooked_session)) \<and> prefix (ses_events sample_session) (ses_events hooked_session) \<and>
   prefix (ses_calls sample_session) (ses_calls hooked_session)"
  by (rule event_ids_stay_unique [OF hooked_inj sample_session_ok hooked_moves])

theorem denied_tool_never_called_witness:
  "\<exists>m a act. ActionEvent m a \<in> set (ses_calls hooked_session) \<and> ae_action a = Some act \<and>
    fst (run_pre_tool_use (quiet_env 0) sample_hooks (ae_tool_name a) (wd_action_dump hooked_world act))"
proof -
  have all: "list_all is_executable (ses_calls hooked_session)" by code_simp
  have "length (ses_calls hooked_session) = 1" by code_simp
  from singleton_list [OF this] obtain e where e: "ses_calls hooked_session = [e]" by (elim exE)
  from all have "is_executable e" unfolding e by simp
  from executable_fields [OF this] obtain m a act where a: "e = ActionEvent m a" "ae_action a = Some act" by blast
  have c: "ActionEvent m a \<in> set (ses_calls hooked_session)" unfolding e a(1) by simp
  have w: "wd_hooks hooked_world = Some (quiet_env 0, sample_hooks)" by (simp add: hooked_world_def sample_world_def)
  have s: "ses_events sample_session = []" "ses_calls sample_session = []" by (simp_all add: sample_session_def)
  from denied_tool_never_called [OF hooked_inj w s hooked_moves c a(2)] c a(2) show ?thesis by blast
qed

end
