(* ===== verification/Conversation_Lease.thy ===== *)
theory Conversation_Lease
  imports Prelude
begin

text \<open>
  Ownership of a conversation directory across server processes
  (\<^verbatim>\<open>agent_server/conversation_lease.py\<close>): the lease file, claiming, renewing, guarded writes and
  release. Every operation runs under the file lock of the directory, so operations of all processes
  form one sequence. The clock, the process table of the host and the content of the file are
  explicit; clock readings are integers (ticks), where the code has seconds as floats.
\<close>

section \<open>The lease file\<close>

text \<open>A JSON value as the reader tells it apart; \<open>LInt\<close> also stands for the booleans, which are ints.\<close>

datatype lease_value = LStr string | LInt int | LFloat int | LOther

datatype lease_doc = Unreadable | NotAnObject | LeaseObject "(string \<times> lease_value) list"

record lease_payload =
  lp_owner :: string
  lp_generation :: int
  lp_expires :: int
  lp_host :: "string option"
  lp_pid :: "int option"

text \<open>\<open>_read_payload\<close>: a missing file and a file that is no lease are both no lease.\<close>

definition read_fields :: "(string \<times> lease_value) list \<Rightarrow> lease_payload option" where
  "read_fields d =
     (case map_of d ''owner_instance_id'' of
        Some (LStr owner) \<Rightarrow>
          (case map_of d ''generation'' of
             Some (LInt generation) \<Rightarrow>
               let payload = (\<lambda>expires_at.
                 \<lparr>lp_owner = owner, lp_generation = generation, lp_expires = expires_at,
                  lp_host = (case map_of d ''owner_host'' of
                     Some (LStr h) \<Rightarrow> if h = [] then None else Some h | _ \<Rightarrow> None),
                  lp_pid = (case map_of d ''owner_pid'' of Some (LInt p) \<Rightarrow> Some p | _ \<Rightarrow> None)\<rparr>)
               in (case map_of d ''expires_at'' of
                     Some (LInt e) \<Rightarrow> Some (payload e)
                   | Some (LFloat e) \<Rightarrow> Some (payload e)
                   | _ \<Rightarrow> None)
           | _ \<Rightarrow> None)
      | _ \<Rightarrow> None)"

definition read_payload :: "lease_doc option \<Rightarrow> lease_payload option" where
  "read_payload f =
     (case f of Some (LeaseObject d) \<Rightarrow> read_fields d | _ \<Rightarrow> None)"

text \<open>A server process: its instance id, the length of its leases, its host and process id.\<close>

record instance_info =
  li_owner :: string
  li_ttl :: int
  li_host :: string
  li_pid :: int

definition write_payload :: "instance_info \<Rightarrow> int \<Rightarrow> int \<Rightarrow> lease_doc" where
  "write_payload i generation expires_at =
     LeaseObject [(''owner_instance_id'', LStr (li_owner i)), (''generation'', LInt generation),
       (''expires_at'', LFloat expires_at), (''owner_host'', LStr (li_host i)),
       (''owner_pid'', LInt (li_pid i))]"

section \<open>Liveness of the owner\<close>

datatype kill_outcome = Delivered | NoSuchProcess | NotPermitted | OtherFailure

definition is_pid_alive :: "(int \<Rightarrow> kill_outcome) \<Rightarrow> int \<Rightarrow> bool" where
  "is_pid_alive kill pid = (if pid \<le> 0 then False else kill pid \<noteq> NoSuchProcess)"

definition owner_is_dead :: "(int \<Rightarrow> kill_outcome) \<Rightarrow> instance_info \<Rightarrow> lease_payload \<Rightarrow> bool" where
  "owner_is_dead kill i p =
     (case (lp_host p, lp_pid p) of
        (Some h, Some pid) \<Rightarrow>
          if h = [] then False
          else if h \<noteq> li_host i then False
          else if pid = li_pid i then False
          else \<not> is_pid_alive kill pid
      | _ \<Rightarrow> False)"

section \<open>Operations\<close>

datatype lease_error =
    ConversationLeaseHeldError string int
  | ConversationOwnershipLostError string int

datatype lease_result = Claimed int bool | Done | Failed lease_error

definition claim :: "(int \<Rightarrow> kill_outcome) \<Rightarrow> int \<Rightarrow> instance_info \<Rightarrow> lease_doc option \<Rightarrow> lease_result \<times> lease_doc option" where
  "claim kill now i f =
     (case read_payload f of
        Some p \<Rightarrow>
          let same_owner = (lp_owner p = li_owner i)
          in if \<not> same_owner \<and> now < lp_expires p \<and> \<not> owner_is_dead kill i p
             then (Failed (ConversationLeaseHeldError (lp_owner p) (lp_expires p)), f)
             else
               let generation = (if same_owner then lp_generation p else lp_generation p + 1)
               in (Claimed generation (\<not> same_owner), Some (write_payload i generation (now + li_ttl i)))
      | None \<Rightarrow> (Claimed 1 False, Some (write_payload i 1 (now + li_ttl i))))"

definition owns :: "instance_info \<Rightarrow> int \<Rightarrow> lease_doc option \<Rightarrow> bool" where
  "owns i generation f =
     (case read_payload f of
        None \<Rightarrow> False
      | Some p \<Rightarrow> \<not> (lp_owner p \<noteq> li_owner i \<or> lp_generation p \<noteq> generation))"

definition assert_owner_locked :: "instance_info \<Rightarrow> int \<Rightarrow> lease_doc option \<Rightarrow> lease_result" where
  "assert_owner_locked i generation f =
     (if owns i generation f then Done
      else Failed (ConversationOwnershipLostError (li_owner i) generation))"

definition renew :: "int \<Rightarrow> instance_info \<Rightarrow> int \<Rightarrow> lease_doc option \<Rightarrow> lease_result \<times> lease_doc option" where
  "renew now i generation f =
     (case assert_owner_locked i generation f of
        Done \<Rightarrow> (Done, Some (write_payload i generation (now + li_ttl i)))
      | r \<Rightarrow> (r, f))"

text \<open>The write itself runs inside the context manager, after the check and under the same lock.\<close>

definition guarded_write :: "instance_info \<Rightarrow> int \<Rightarrow> lease_doc option \<Rightarrow> lease_result \<times> lease_doc option" where
  "guarded_write i generation f = (assert_owner_locked i generation f, f)"

definition release_lease :: "instance_info \<Rightarrow> int \<Rightarrow> lease_doc option \<Rightarrow> lease_result \<times> lease_doc option" where
  "release_lease i generation f =
     (case read_payload f of
        None \<Rightarrow> (Done, f)
      | Some p \<Rightarrow>
          if lp_owner p \<noteq> li_owner i \<or> lp_generation p \<noteq> generation then (Done, f) else (Done, None))"

section \<open>Sequences of operations\<close>

datatype lease_op =
    Claim instance_info
  | Renew instance_info int
  | Write instance_info int
  | Release instance_info int

text \<open>An operation at a time, with the process table of its host at that time.\<close>

type_synonym timed_op = "int \<times> (int \<Rightarrow> kill_outcome) \<times> lease_op"

fun lease_exec :: "timed_op \<Rightarrow> lease_doc option \<Rightarrow> lease_result \<times> lease_doc option" where
  "lease_exec (now, kill, Claim i) f = claim kill now i f"
| "lease_exec (now, kill, Renew i g) f = renew now i g f"
| "lease_exec (now, kill, Write i g) f = guarded_write i g f"
| "lease_exec (now, kill, Release i g) f = release_lease i g f"

definition lease_run :: "timed_op list \<Rightarrow> lease_doc option \<Rightarrow> lease_doc option" where
  "lease_run ops f = fold (\<lambda>op f. snd (lease_exec op f)) ops f"

lemma lease_run_simps [simp]:
  "lease_run [] f = f" "lease_run (op # ops) f = lease_run ops (snd (lease_exec op f))"
  "lease_run (ops @ ops') f = lease_run ops' (lease_run ops f)"
  by (simp_all add: lease_run_def)

section \<open>Reading back\<close>

lemma read_written [simp]:
  "read_payload (Some (write_payload i g e)) =
     Some \<lparr>lp_owner = li_owner i, lp_generation = g, lp_expires = e,
       lp_host = (if li_host i = [] then None else Some (li_host i)), lp_pid = Some (li_pid i)\<rparr>"
  by (simp add: read_payload_def write_payload_def read_fields_def Let_def)

lemma read_missing [simp]: "read_payload None = None"
  by (simp add: read_payload_def)

lemma owns_written [simp]: "owns i g (Some (write_payload j g' e)) \<longleftrightarrow> li_owner i = li_owner j \<and> g = g'"
  by (auto simp: owns_def)

lemma owns_none [simp]: "\<not> owns i g None"
  by (simp add: owns_def)

text \<open>
  What a claim decides: it fails exactly when another owner's lease has not expired and that owner is
  not known to be dead, and then changes nothing; otherwise the caller owns the returned generation,
  which is one, the old one or its successor.
\<close>

lemma claim_cases:
  "(\<exists>p. read_payload f = Some p \<and> lp_owner p \<noteq> li_owner i \<and> now < lp_expires p \<and> \<not> owner_is_dead kill i p \<and>
      claim kill now i f = (Failed (ConversationLeaseHeldError (lp_owner p) (lp_expires p)), f)) \<or>
   (\<exists>g b. claim kill now i f = (Claimed g b, Some (write_payload i g (now + li_ttl i))) \<and>
      (case read_payload f of
         None \<Rightarrow> g = 1 \<and> \<not> b
       | Some p \<Rightarrow> if lp_owner p = li_owner i then g = lp_generation p \<and> \<not> b else g = lp_generation p + 1 \<and> b))"
  by (auto simp: claim_def Let_def split: option.splits)

section \<open>Fencing by owner\<close>

definition claims :: "string \<Rightarrow> timed_op \<Rightarrow> bool" where
  "claims owner op = (case op of (_, _, Claim i) \<Rightarrow> li_owner i = owner | _ \<Rightarrow> False)"

definition owned_by :: "string \<Rightarrow> lease_doc option \<Rightarrow> bool" where
  "owned_by owner f = (case read_payload f of None \<Rightarrow> False | Some p \<Rightarrow> lp_owner p = owner)"

lemma owned_by_written [simp]: "owned_by owner (Some (write_payload i g e)) \<longleftrightarrow> li_owner i = owner"
  by (simp add: owned_by_def)

lemma owns_owned: "owns i g f \<Longrightarrow> owned_by (li_owner i) f"
  by (auto simp: owns_def owned_by_def split: option.splits)

text \<open>Only a claim of the owner itself makes it the owner.\<close>

lemma lease_exec_owned:
  assumes "owned_by owner (snd (lease_exec op f))" and "\<not> claims owner op"
  shows "owned_by owner f"
proof -
  obtain now kill x where op: "op = (now, kill, x)" by (cases op) auto
  show ?thesis
  proof (cases x)
    case (Claim i)
    then show ?thesis using assms op claim_cases [of f i now kill] by (auto simp: claims_def)
  next
    case (Renew i g)
    then show ?thesis
      using assms(1) op owns_owned [of i g f]
      by (auto simp: renew_def assert_owner_locked_def split: if_splits)
  next
    case (Write i g)
    then show ?thesis using assms(1) op by (simp add: guarded_write_def)
  next
    case (Release i g)
    then show ?thesis
      using assms(1) op by (auto simp: release_lease_def owned_by_def split: option.splits if_splits)
  qed
qed

lemma lease_run_owned:
  assumes "owned_by owner (lease_run ops f)" and "list_all (\<lambda>op. \<not> claims owner op) ops"
  shows "owned_by owner f"
  using assms
proof (induction ops arbitrary: f)
  case (Cons op ops)
  then have "owned_by owner (snd (lease_exec op f))" by simp
  then show ?case using lease_exec_owned Cons.prems(2) by simp
qed simp

text \<open>
  C10. Once another server has claimed the conversation, the old owner is fenced off: whatever operations
  follow, as long as it does not claim again, each of its writes and renewals is refused, with any
  generation.
\<close>

theorem stale_owner_fenced:
  assumes "lease_exec (now, kill, Claim j) f = (Claimed g b, f1)" and "li_owner j \<noteq> li_owner i"
    and "list_all (\<lambda>op. \<not> claims (li_owner i) op) ops"
  shows "fst (lease_exec (now', kill', Write i g') (lease_run ops f1)) =
      Failed (ConversationOwnershipLostError (li_owner i) g') \<and>
    lease_exec (now', kill', Renew i g') (lease_run ops f1) =
      (Failed (ConversationOwnershipLostError (li_owner i) g'), lease_run ops f1)"
proof -
  have "\<not> owned_by (li_owner i) f1" using assms(1,2) claim_cases [of f j now kill] by auto
  then have "\<not> owned_by (li_owner i) (lease_run ops f1)" using lease_run_owned assms(3) by blast
  then have "\<not> owns i g' (lease_run ops f1)" using owns_owned by blast
  then show ?thesis by (simp add: guarded_write_def renew_def assert_owner_locked_def)
qed

section \<open>Generations\<close>

definition releases :: "timed_op \<Rightarrow> bool" where
  "releases op = (case op of (_, _, Release _ _) \<Rightarrow> True | _ \<Rightarrow> False)"

definition above :: "int \<Rightarrow> lease_doc option \<Rightarrow> bool" where
  "above g f = (case read_payload f of None \<Rightarrow> False | Some p \<Rightarrow> g \<le> lp_generation p)"

lemma above_written [simp]: "above g (Some (write_payload i g' e)) \<longleftrightarrow> g \<le> g'"
  by (simp add: above_def)

lemma lease_exec_above:
  assumes "above g f" and "\<not> releases op" shows "above g (snd (lease_exec op f))"
proof -
  obtain now kill x where op: "op = (now, kill, x)" by (cases op) auto
  obtain p where p: "read_payload f = Some p" "g \<le> lp_generation p"
    using assms(1) by (auto simp: above_def split: option.splits)
  show ?thesis
  proof (cases x)
    case (Claim i)
    then show ?thesis using op p assms(1) claim_cases [of f i now kill] by (auto split: if_splits)
  next
    case (Renew i g')
    then show ?thesis
      using op p assms(1) by (auto simp: renew_def assert_owner_locked_def owns_def)
  next
    case (Write i g')
    then show ?thesis using op assms(1) by (simp add: guarded_write_def)
  next
    case (Release i g')
    then show ?thesis using op assms(2) by (simp add: releases_def)
  qed
qed

lemma lease_run_above:
  "above g f \<Longrightarrow> list_all (\<lambda>op. \<not> releases op) ops \<Longrightarrow> above g (lease_run ops f)"
  by (induction ops arbitrary: f) (simp_all add: lease_exec_above)

lemma owns_not_above: "owns i g f \<Longrightarrow> \<not> above (g + 1) f"
  by (auto simp: owns_def above_def split: option.splits)

text \<open>
  While no lease is released, generations only grow, so after a takeover a write with an older
  generation is refused for good, even when the same server has claimed the conversation again.
\<close>

theorem stale_generation_fenced:
  assumes "owns i g f" and "lease_exec (now, kill, Claim j) f = (Claimed g1 True, f1)"
    and "list_all (\<lambda>op. \<not> releases op) ops"
  shows "g < g1 \<and> fst (lease_exec (now', kill', Write i g) (lease_run ops f1)) =
    Failed (ConversationOwnershipLostError (li_owner i) g)"
proof -
  have "lease_exec (now, kill, Claim j) f = (Claimed (g + 1) True, Some (write_payload j (g + 1) (now + li_ttl j))) \<and> g1 = g + 1"
    using assms(1,2) claim_cases [of f j now kill] by (auto simp: owns_def split: option.splits if_splits)
  then have "g1 = g + 1" "above (g + 1) f1" using assms(2) by auto
  moreover have "\<not> owns i g (lease_run ops f1)"
    using lease_run_above [OF calculation(2) assms(3)] owns_not_above by blast
  ultimately show ?thesis by (simp add: guarded_write_def assert_owner_locked_def)
qed

section \<open>Samples\<close>

definition sample_instance :: "string \<Rightarrow> instance_info" where
  "sample_instance owner = \<lparr>li_owner = owner, li_ttl = 45, li_host = ''h'', li_pid = 7\<rparr>"

abbreviation all_alive :: "int \<Rightarrow> kill_outcome" where
  "all_alive \<equiv> \<lambda>_. Delivered"

theorem stale_owner_fenced_witness:
  "fst (lease_exec (60, all_alive, Write (sample_instance ''a'') 1)
      (lease_run [(55, all_alive, Renew (sample_instance ''b'') 2)]
        (Some (write_payload (sample_instance ''b'') 2 95)))) =
    Failed (ConversationOwnershipLostError ''a'' 1)"
proof -
  let ?a = "sample_instance ''a''" and ?b = "sample_instance ''b''"
  have "lease_exec (50, all_alive, Claim ?b) (Some (write_payload ?a 1 45)) =
      (Claimed 2 True, Some (write_payload ?b 2 95))" by (simp add: claim_def sample_instance_def)
  moreover have "li_owner ?b \<noteq> li_owner ?a" "list_all (\<lambda>op. \<not> claims (li_owner ?a) op) [(55, all_alive, Renew ?b 2)]"
    by (simp_all add: sample_instance_def claims_def)
  ultimately show ?thesis
    using stale_owner_fenced [of 50 all_alive ?b _ 2 True _ ?a "[(55, all_alive, Renew ?b 2)]" 60 all_alive 1]
    by (simp add: sample_instance_def)
qed

theorem stale_generation_fenced_witness:
  "fst (lease_exec (200, all_alive, Write (sample_instance ''a'') 1)
      (lease_run [(150, all_alive, Claim (sample_instance ''a''))]
        (Some (write_payload (sample_instance ''b'') 2 95)))) =
    Failed (ConversationOwnershipLostError ''a'' 1)"
proof -
  let ?a = "sample_instance ''a''" and ?b = "sample_instance ''b''"
  have own: "owns ?a 1 (Some (write_payload ?a 1 45))" by simp
  have take: "lease_exec (50, all_alive, Claim ?b) (Some (write_payload ?a 1 45)) =
      (Claimed 2 True, Some (write_payload ?b 2 95))" by (simp add: claim_def sample_instance_def)
  have keep: "list_all (\<lambda>op. \<not> releases op) [(150, all_alive, Claim ?a)]" by (simp add: releases_def)
  have name: "li_owner ?a = ''a''" by (simp add: sample_instance_def)
  show ?thesis
    using stale_generation_fenced [OF own take keep, of 200 all_alive] unfolding name by (rule conjunct2)
qed

text \<open>
  A release removes the file and with it the generation: the next claim starts at one again, so a
  writer of the same server left over from before the takeover owns the conversation once more and its
  writes are accepted.
\<close>

theorem release_restarts_generation:
  "\<exists>f1 f2 f3.
     lease_exec (0, all_alive, Claim (sample_instance ''a'')) None = (Claimed 1 False, f1) \<and>
     lease_exec (50, all_alive, Claim (sample_instance ''b'')) f1 = (Claimed 2 True, f2) \<and>
     fst (lease_exec (51, all_alive, Write (sample_instance ''a'') 1) f2) =
       Failed (ConversationOwnershipLostError ''a'' 1) \<and>
     lease_exec (60, all_alive, Claim (sample_instance ''a''))
       (snd (lease_exec (55, all_alive, Release (sample_instance ''b'') 2) f2)) = (Claimed 1 False, f3) \<and>
     fst (lease_exec (61, all_alive, Write (sample_instance ''a'') 1) f3) = Done"
  by (simp add: claim_def release_lease_def guarded_write_def assert_owner_locked_def sample_instance_def)

end
