(* ===== verification/Goal_Loop.thy ===== *)
theory Goal_Loop
  imports Complex_Main Run_Laws
begin

text \<open>
  The goal loop (\<^verbatim>\<open>conversation/goal\<close>): a conversation is driven towards an objective, a second model
  judges the transcript after every run, and a controller decides whether to go on. The driver is
  composed with the run loop of the conversation; the judging model, \<open>json.loads\<close> and the conversions
  of JSON values are arguments. The events the judge sees are those of the branch.
\<close>

section \<open>Verdicts\<close>

text \<open>Floats as far as the judge uses them: finite numbers, the two infinities and not-a-number.\<close>

datatype pyfloat = Finite rat | PlusInf | MinusInf | NotANumber

fun float_less :: "pyfloat \<Rightarrow> pyfloat \<Rightarrow> bool" where
  "float_less (Finite a) (Finite b) = (a < b)"
| "float_less (Finite a) PlusInf = True"
| "float_less MinusInf (Finite b) = True"
| "float_less MinusInf PlusInf = True"
| "float_less _ _ = False"

definition float_le :: "pyfloat \<Rightarrow> pyfloat \<Rightarrow> bool" where
  "float_le a b \<longleftrightarrow> float_less a b \<or> (a = b \<and> a \<noteq> NotANumber)"

text \<open>\<open>max(0.0, min(1.0, score))\<close>: Python's \<open>min\<close> and \<open>max\<close> keep the first argument unless a later one wins.\<close>

definition clamp_score :: "pyfloat \<Rightarrow> pyfloat" where
  "clamp_score x =
     (let low = (if float_less x (Finite 1) then x else Finite 1)
      in if float_less (Finite 0) low then low else Finite 0)"

record goal_verdict =
  gv_score :: pyfloat
  gv_complete :: bool
  gv_missing :: string

text \<open>
  The judge as the code uses it: the answer of the model or its exception, the JSON value of a text
  (the pairs of an object; \<open>Some None\<close> for another value), and \<open>float\<close>, \<open>bool\<close> and \<open>str\<close> of a value.
  \<open>Inr None\<close> for \<open>float\<close> is a \<open>TypeError\<close> or \<open>ValueError\<close>, which the code catches; \<open>Inl\<close> is any other
  exception, such as the \<open>OverflowError\<close> of a huge integer, which leaves the judge.
\<close>

record 'v judge_env =
  je_llm :: "string \<Rightarrow> raised + message"
  je_loads :: "string \<Rightarrow> (string \<times> 'v) list option option"
  je_float :: "'v \<Rightarrow> raised + pyfloat option"
  je_truthy :: "'v \<Rightarrow> bool"
  je_str :: "'v \<Rightarrow> string"

text \<open>\<open>re.search(r"\{.*\}", raw, re.DOTALL)\<close>: from the first opening to the last closing brace.\<close>

definition brace_block :: "string \<Rightarrow> string option" where
  "brace_block raw =
     (let block = rev (dropWhile (\<lambda>c. c \<noteq> CHR 0x7D) (rev (dropWhile (\<lambda>c. c \<noteq> CHR 0x7B) raw)))
      in if block = [] then None else Some block)"

definition first_object :: "'v judge_env \<Rightarrow> string list \<Rightarrow> (string \<times> 'v) list option" where
  "first_object env candidates =
     (case filter (\<lambda>c. \<exists>d \<in> set_option (je_loads env c). d \<noteq> None) candidates of
        [] \<Rightarrow> None | c # _ \<Rightarrow> the (je_loads env c))"

definition parse_verdict :: "'v judge_env \<Rightarrow> message \<Rightarrow> raised + goal_verdict" where
  "parse_verdict env m =
     (let raw = strip (join newline (content_to_str (msg_content m)));
          candidates = raw # (case brace_block raw of None \<Rightarrow> [] | Some b \<Rightarrow> [b])
      in case first_object env candidates of
           None \<Rightarrow>
             Inr \<lparr>gv_score = Finite 0, gv_complete = False, gv_missing = ''Judge verdict could not be parsed.''\<rparr>
         | Some data \<Rightarrow>
             (case (case map_of data ''score'' of None \<Rightarrow> Inr (Some (Finite 0)) | Some v \<Rightarrow> je_float env v) of
                Inl e \<Rightarrow> Inl e
              | Inr x \<Rightarrow>
                  let score = clamp_score (case x of None \<Rightarrow> Finite 0 | Some y \<Rightarrow> y)
                  in Inr \<lparr>gv_score = score,
                      gv_complete = (case map_of data ''complete'' of
                         None \<Rightarrow> float_le (Finite 1) score | Some v \<Rightarrow> je_truthy env v),
                      gv_missing = (case map_of data ''missing'' of
                         None \<Rightarrow> [] | Some v \<Rightarrow> if je_truthy env v then je_str env v else [])\<rparr>))"

section \<open>The judge\<close>

definition JUDGE_PROMPT :: "string \<Rightarrow> string \<Rightarrow> string" where
  "JUDGE_PROMPT objective transcript =
     ''You are auditing whether a long-running GOAL has been COMPLETED by an AI software agent.'' @ newline @
     newline @ ''<objective>'' @ newline @ objective @ newline @ ''</objective>'' @ newline @ newline @
     ''Derive the concrete requirements implied by the objective. For EACH requirement,'' @ newline @
     ''look for authoritative evidence in the transcript below: file contents, command'' @ newline @
     ''output, or test results produced by the agent. Treat missing, uncertain, or'' @ newline @
     ''merely-claimed-but-unverified evidence as NOT satisfied.'' @ newline @ newline @
     ''<transcript>'' @ newline @ transcript @ newline @ ''</transcript>'' @ newline @ newline @
     ''Respond with STRICT JSON and nothing else, in exactly this shape:'' @ newline @
     ''{\"score\": <float 0.0-1.0, probability the FULL objective is provably done>, '' @
     ''\"complete\": <true|false>, \"missing\": \"<concise description of what remains, or '' @
     ''an empty string if complete>\"}''"

definition FOLLOWUP_PROMPT :: "nat \<Rightarrow> string \<Rightarrow> string" where
  "FOLLOWUP_PROMPT iteration missing =
     ''The goal is NOT yet complete (audit iteration '' @ dec iteration @ '').'' @ newline @
     ''Outstanding: '' @ missing @ newline @ newline @
     ''Inspect the real current state of the workspace (do not rely on memory). For '' @
     ''each remaining requirement, make concrete progress and gather authoritative '' @
     ''evidence by running the relevant tests/commands. Keep the full objective intact '' @
     ''and finish only once every requirement is provably satisfied.''"

definition render_transcript :: "event list \<Rightarrow> string result" where
  "render_transcript events =
     and_then (events_to_messages events) (\<lambda>messages.
       let turns = filter (\<lambda>(r, t). r \<noteq> RoleSystem \<and> t \<noteq> [])
             (map (\<lambda>m. (msg_role m, strip (join newline (content_to_str (msg_content m))))) messages)
       in Inr (join (newline @ newline) (map (\<lambda>(r, t). role_name r @ '': '' @ t) turns)))"

definition judge_goal :: "'v judge_env \<Rightarrow> string \<Rightarrow> event list \<Rightarrow> raised + goal_verdict" where
  "judge_goal env objective events =
     (case render_transcript (filter is_llm_convertible events) of
        Inl e \<Rightarrow> Inl (PyRaised e)
      | Inr transcript \<Rightarrow>
          (case je_llm env (JUDGE_PROMPT objective transcript) of
             Inl e \<Rightarrow> Inl e
           | Inr m \<Rightarrow> parse_verdict env m))"

section \<open>The controller\<close>

datatype goal_status = GoalComplete | GoalCapped

record goal_outcome =
  go_status :: goal_status
  go_iterations :: nat
  go_verdict :: goal_verdict

datatype goal_step = GoalContinue string goal_verdict | GoalDone goal_outcome

record goal_controller =
  gc_objective :: string
  gc_max_iterations :: nat
  gc_iteration :: nat

definition new_controller :: "string \<Rightarrow> nat \<Rightarrow> goal_controller result" where
  "new_controller objective max_iterations =
     (if strip objective = [] then Inl ValueError
      else if max_iterations < 1 then Inl ValueError
      else Inr \<lparr>gc_objective = objective, gc_max_iterations = max_iterations, gc_iteration = 0\<rparr>)"

definition start_goal :: "goal_controller \<Rightarrow> string" where
  "start_goal c = gc_objective c"

definition on_run_finished ::
    "'v judge_env \<Rightarrow> event list \<Rightarrow> goal_controller \<Rightarrow> (raised + goal_step) \<times> goal_controller" where
  "on_run_finished env events c0 =
     (let c = c0\<lparr>gc_iteration := Suc (gc_iteration c0)\<rparr>
      in case judge_goal env (gc_objective c) events of
           Inl e \<Rightarrow> (Inl e, c)
         | Inr verdict \<Rightarrow>
             (Inr (if gv_complete verdict then
                GoalDone \<lparr>go_status = GoalComplete, go_iterations = gc_iteration c, go_verdict = verdict\<rparr>
              else if gc_max_iterations c \<le> gc_iteration c then
                GoalDone \<lparr>go_status = GoalCapped, go_iterations = gc_iteration c, go_verdict = verdict\<rparr>
              else
                GoalContinue (FOLLOWUP_PROMPT (gc_iteration c)
                  (if gv_missing verdict \<noteq> [] then gv_missing verdict
                   else ''Some requirements are not yet verified.'')) verdict), c))"

section \<open>The driver\<close>

definition user_message :: "string \<Rightarrow> message" where
  "user_message txt = plain_message RoleUser [TextContent txt]"

partial_function (option) goal_rounds ::
    "world \<Rightarrow> agent \<Rightarrow> run_config \<Rightarrow> 'v judge_env \<Rightarrow> goal_controller \<Rightarrow> session \<Rightarrow>
     ((raised + goal_outcome) \<times> session) option"
where
  "goal_rounds w ag rc env c s =
     (case run w ag rc s of
        None \<Rightarrow> None
      | Some (Some e, s1) \<Rightarrow> Some (Inl e, s1)
      | Some (None, s1) \<Rightarrow>
          (case on_run_finished env (ses_events s1) c of
             (Inl e, _) \<Rightarrow> Some (Inl e, s1)
           | (Inr (GoalDone outcome), _) \<Rightarrow> Some (Inr outcome, s1)
           | (Inr (GoalContinue followup _), c1) \<Rightarrow>
               goal_rounds w ag rc env c1 (snd (send_message w (user_message followup) None s1))))"

definition run_goal ::
    "world \<Rightarrow> agent \<Rightarrow> run_config \<Rightarrow> 'v judge_env \<Rightarrow> string \<Rightarrow> nat \<Rightarrow> session \<Rightarrow>
     ((raised + goal_outcome) \<times> session) option"
where
  "run_goal w ag rc env objective max_iterations s =
     (case new_controller objective max_iterations of
        Inl e \<Rightarrow> Some (Inl (PyRaised e), s)
      | Inr c \<Rightarrow> goal_rounds w ag rc env c (snd (send_message w (user_message (start_goal c)) None s)))"

section \<open>Termination and outcome\<close>

lemma run_result_exists: "\<exists>r s'. run w ag rc s = Some (r, s')"
  using run_loop_returns [of w ag rc first_vars "start_run rc s"]
  by (auto simp: run_def split: option.splits)

lemma on_run_finished_cases:
  assumes "on_run_finished env events c = (r, c')"
  shows "gc_iteration c' = Suc (gc_iteration c) \<and> gc_max_iterations c' = gc_max_iterations c \<and>
    (case r of
       Inl e \<Rightarrow> True
     | Inr (GoalContinue f v) \<Rightarrow> Suc (gc_iteration c) < gc_max_iterations c \<and> \<not> gv_complete v
     | Inr (GoalDone out) \<Rightarrow> go_iterations out = Suc (gc_iteration c) \<and>
         go_status out = (if gv_complete (go_verdict out) then GoalComplete else GoalCapped) \<and>
         (gv_complete (go_verdict out) \<or> gc_max_iterations c \<le> Suc (gc_iteration c)))"
  using assms by (auto simp: on_run_finished_def Let_def split: sum.splits)

lemma goal_rounds_return:
  assumes "gc_iteration c < gc_max_iterations c"
  shows "\<exists>r s'. goal_rounds w ag rc env c s = Some (r, s') \<and>
    (case r of
       Inl e \<Rightarrow> True
     | Inr out \<Rightarrow> 1 \<le> go_iterations out \<and> go_iterations out \<le> gc_max_iterations c \<and>
         go_status out = (if gv_complete (go_verdict out) then GoalComplete else GoalCapped) \<and>
         (gv_complete (go_verdict out) \<or> go_iterations out = gc_max_iterations c))"
  using assms
proof (induction "gc_max_iterations c - gc_iteration c" arbitrary: c s rule: less_induct)
  case less
  obtain q s1 where run: "run w ag rc s = Some (q, s1)" using run_result_exists by blast
  obtain r c1 where r: "on_run_finished env (ses_events s1) c = (r, c1)" by fastforce
  note cases = on_run_finished_cases [OF r]
  show ?case
  proof (cases "\<exists>f v. q = None \<and> r = Inr (GoalContinue f v)")
    case True
    then obtain f v where f: "q = None" "r = Inr (GoalContinue f v)" by blast
    let ?s = "snd (send_message w (user_message f) None s1)"
    have step: "goal_rounds w ag rc env c s = goal_rounds w ag rc env c1 ?s"
      using run r f by (subst goal_rounds.simps) simp
    have c1: "gc_iteration c1 < gc_max_iterations c1" "gc_max_iterations c1 = gc_max_iterations c"
      "gc_max_iterations c1 - gc_iteration c1 < gc_max_iterations c - gc_iteration c"
      using cases f(2) less.prems by auto
    from less.hyps [OF c1(3,1), of ?s] show ?thesis unfolding step c1(2) by simp
  next
    case False
    then show ?thesis
      using run r cases less.prems
      by (subst goal_rounds.simps) (auto split: option.splits sum.splits goal_step.splits)
  qed
qed

text \<open>
  C35. Driving a conversation towards a goal ends: with an exception of the conversation or the judge, or
  with an outcome after at least one and at most the allowed number of audits, complete exactly when
  the last verdict says so, and capped only when all audits were used.
\<close>

theorem run_goal_returns:
  "\<exists>r s'. run_goal w ag rc env objective n s = Some (r, s') \<and>
    (case r of
       Inl e \<Rightarrow> True
     | Inr out \<Rightarrow> 1 \<le> go_iterations out \<and> go_iterations out \<le> n \<and>
         go_status out = (if gv_complete (go_verdict out) then GoalComplete else GoalCapped) \<and>
         (gv_complete (go_verdict out) \<or> go_iterations out = n))"
proof (cases "new_controller objective n")
  case (Inl e)
  then show ?thesis by (simp add: run_goal_def)
next
  case (Inr c)
  then have c: "gc_iteration c < gc_max_iterations c" "gc_max_iterations c = n"
    by (auto simp: new_controller_def split: if_splits)
  have "run_goal w ag rc env objective n s =
      goal_rounds w ag rc env c (snd (send_message w (user_message (start_goal c)) None s))"
    using Inr by (simp add: run_goal_def)
  then show ?thesis by (simp only:) (rule goal_rounds_return [OF c(1), unfolded c(2)])
qed

section \<open>Reading a verdict\<close>

lemma clamp_score_range: "\<exists>x. clamp_score y = Finite x \<and> 0 \<le> x \<and> x \<le> 1"
  by (cases y) (auto simp: clamp_score_def Let_def)

text \<open>A judge whose answer holds the object with the single field \<open>score\<close>, read as the given float.\<close>

definition scoring_judge :: "pyfloat \<Rightarrow> unit judge_env" where
  "scoring_judge x =
     \<lparr>je_llm = (\<lambda>_. Inl (LLMRaised [] [])), je_loads = (\<lambda>_. Some (Some [(''score'', ())])),
      je_float = (\<lambda>_. Inr (Some x)), je_truthy = (\<lambda>_. True), je_str = (\<lambda>_. [])\<rparr>"

text \<open>
  Whatever the judge answers, a verdict has a score between zero and one, as the class of a verdict
  demands, and an answer without a JSON object is a verdict of zero that is not complete. But a score
  that is not a number is read as one, so that an answer with such a score and no \<open>complete\<close> field
  counts as complete.
\<close>

theorem verdict_score_in_range:
  "(case parse_verdict env m of
      Inl e \<Rightarrow> \<exists>v. je_float env v = Inl e
    | Inr v \<Rightarrow> \<exists>x. gv_score v = Finite x \<and> 0 \<le> x \<and> x \<le> 1) \<and>
   parse_verdict (env\<lparr>je_loads := (\<lambda>_. None)\<rparr>) m =
     Inr \<lparr>gv_score = Finite 0, gv_complete = False, gv_missing = ''Judge verdict could not be parsed.''\<rparr> \<and>
   parse_verdict (scoring_judge NotANumber) m = Inr \<lparr>gv_score = Finite 1, gv_complete = True, gv_missing = []\<rparr>"
proof (intro conjI)
  show "case parse_verdict env m of Inl e \<Rightarrow> \<exists>v. je_float env v = Inl e
      | Inr v \<Rightarrow> \<exists>x. gv_score v = Finite x \<and> 0 \<le> x \<and> x \<le> 1"
    using clamp_score_range by (auto simp: parse_verdict_def Let_def split: option.splits sum.splits)
qed (simp_all add: parse_verdict_def first_object_def scoring_judge_def clamp_score_def float_le_def Let_def)

end
