(* ===== verification/Run_Scope.thy ===== *)
theory Run_Scope
  imports Session_Moves
begin

text \<open>
  What the server reports about the request in progress (\<^verbatim>\<open>agent_server/run_scope.py\<close>): whether the
  newest input has an answer, and whether it was admitted to a run. Both are read off the state of the
  session, and a new input is never credited with the answer to an older one.
\<close>

section \<open>Projections\<close>

datatype response_state = PENDING | FINAL | PARTIAL | UNAVAILABLE

datatype admission_status = QUEUED | PREPARING | ADMITTED

definition derive_result_state :: "session \<Rightarrow> response_state" where
  "derive_result_state s =
     (if ses_last_user_message_id s = None then UNAVAILABLE
      else if ses_consumed_user_message_id s = None then UNAVAILABLE
      else if ses_consumed_user_message_id s \<noteq> ses_last_user_message_id s then PENDING
      else if ses_status s \<in> {RUNNING, WAITING_FOR_CONFIRMATION} then PENDING
      else if ses_status s = FINISHED then FINAL
      else PARTIAL)"

definition derive_admission_status :: "session \<Rightarrow> admission_status" where
  "derive_admission_status s =
     (if ses_last_user_message_id s = None then ADMITTED
      else if ses_consumed_user_message_id s = ses_last_user_message_id s then
        (if ses_status s = RUNNING \<and> ses_iterations_used s = 0 then PREPARING else ADMITTED)
      else if ses_status s \<in> {IDLE, PAUSED} then QUEUED
      else ADMITTED)"

definition iterations_remaining :: "int \<Rightarrow> session \<Rightarrow> int" where
  "iterations_remaining max_iterations s = max 0 (max_iterations - int (ses_iterations_used s))"

section \<open>New input\<close>

text \<open>Emitting a user message makes a new identity the newest input.\<close>

lemma user_message_is_new:
  assumes "inj (wd_uuid w)" and "s' = emit w SourceUser (\<lambda>m. MessageEvent m x) s"
  shows "\<exists>n. ses_last_user_message_id s' = Some (wd_uuid w n) \<and> ses_fresh s \<le> n \<and>
    ses_consumed_user_message_id s' = ses_consumed_user_message_id s"
proof -
  let ?m = "new_meta w SourceUser s" and ?s = "next_id s"
  have src: "meta_source ?m = SourceUser" by (simp add: new_meta_def)
  have consumed: "ses_consumed_user_message_id s' = ses_consumed_user_message_id s"
    using emit_adds [of s w SourceUser "\<lambda>m. MessageEvent m x"] assms(2) by (auto simp: adds_def keeps_def)
  have plain: "s' = default_callback (MessageEvent ?m x) ?s" if "wd_hooks w = None"
    using assms(2) that by (simp add: emit_def on_event_def maybe_inject_path_rules_def)
  show ?thesis
  proof (cases "wd_hooks w")
    case None
    then show ?thesis
      using plain consumed src by (intro exI [of _ "ses_fresh s"]) (simp add: new_meta_def)
  next
    case (Some h)
    then obtain env cfg where h: "wd_hooks w = Some (env, cfg)" by (cases h) auto
    obtain e s1 where q: "handle_user_prompt_submit w env cfg ?m x ?s = (e, s1)" by fastforce
    have s': "s' = default_callback e s1"
      using assms(2) h q src by (simp add: emit_def on_event_def maybe_inject_path_rules_def hook_on_event_def)
    obtain logs where l: "same_event (MessageEvent ?m x) e" "ids_after w (MessageEvent ?m x) logs e ?s s1"
      using user_prompt_submit_logged [OF q src] by blast
    have user: "is_user_message e" using l(1) src by (cases rule: same_event_message) auto
    have "\<exists>n \<ge> ses_fresh s. ev_id e = wd_uuid w n"
      using l(2) unfolding ids_after_def
    proof
      assume "ev_id e = ev_id (MessageEvent ?m x) \<and> issued w ?s s1 logs"
      then show ?thesis by (intro exI [of _ "ses_fresh s"]) (simp add: new_meta_def)
    next
      assume "issued w ?s s1 (logs @ [e])"
      then have "ev_id e \<in> new_ids w ?s s1" using issued_extends_ids(2) [OF assms(1)] by fastforce
      then obtain n where "ev_id e = wd_uuid w n" "Suc (ses_fresh s) \<le> n" by auto
      then show ?thesis by (intro exI [of _ n]) simp
    qed
    then show ?thesis using s' user consumed by auto
  qed
qed

text \<open>
  A message that was just accepted is reported as pending, or as unattributed in a session that never
  consumed one, and never with the state of an earlier answer; before a run takes it up it is queued
  when the session had finished, was stuck, idle or paused.
\<close>

theorem new_input_is_pending:
  assumes "inj (wd_uuid w)" and "\<forall>i \<in> set_option (ses_consumed_user_message_id s). i \<in> issued_ids w s"
    and "send_message w msg sender s = (Inr (), s')"
  shows "derive_result_state s' = (if ses_consumed_user_message_id s = None then UNAVAILABLE else PENDING) \<and>
    (ses_status s \<in> {IDLE, PAUSED, FINISHED, STUCK} \<longrightarrow> derive_admission_status s' = QUEUED)"
proof -
  have role: "msg_role msg = RoleUser" using assms(3) by (auto simp: send_message_def split: if_splits)
  let ?s1 = "if ses_status s \<in> {FINISHED, STUCK} then set_status IDLE s else s"
  obtain ext names where e: "(case wd_message_suffix w msg (ses_knowledge_skills ?s1) of
      None \<Rightarrow> ([], []) | Some (c, names) \<Rightarrow> ([c], names)) = (ext, names)" by fastforce
  let ?s2 = "?s1\<lparr>ses_knowledge_skills := ses_knowledge_skills ?s1 @ names\<rparr>"
  let ?x = "plain_fields msg\<lparr>me_activated_skills := names, me_extended_content := ext, me_sender := sender\<rparr>"
  have s': "s' = emit w SourceUser (\<lambda>m. MessageEvent m ?x) ?s2"
    using assms(3) role e by (auto simp: send_message_def Let_def)
  have fields: "ses_fresh ?s2 = ses_fresh s" "ses_consumed_user_message_id ?s2 = ses_consumed_user_message_id s"
    by (auto simp: set_status_def)
  obtain n where n: "ses_last_user_message_id s' = Some (wd_uuid w n)" "ses_fresh s \<le> n"
    "ses_consumed_user_message_id s' = ses_consumed_user_message_id s"
    using user_message_is_new [OF assms(1) s'] fields by auto
  have differ: "ses_consumed_user_message_id s' \<noteq> ses_last_user_message_id s'"
    using assms(1,2) n by (cases "ses_consumed_user_message_id s") (auto simp: inj_eq)
  have "ses_status s' = ses_status ?s1" unfolding s' by simp
  then show ?thesis
    using n(1,3) differ by (auto simp: derive_result_state_def derive_admission_status_def)
qed

theorem new_input_is_pending_witness:
  "\<exists>s'. send_message hooked_world (plain_message RoleUser [TextContent ''again'']) None
      (sample_session\<lparr>ses_status := FINISHED, ses_fresh := 1, ses_last_user_message_id := Some [],
        ses_consumed_user_message_id := Some []\<rparr>) = (Inr (), s') \<and>
    derive_result_state s' = PENDING \<and> derive_admission_status s' = QUEUED"
proof -
  let ?s = "sample_session\<lparr>ses_status := FINISHED, ses_fresh := 1, ses_last_user_message_id := Some [],
      ses_consumed_user_message_id := Some []\<rparr>"
  let ?m = "plain_message RoleUser [TextContent ''again'']"
  have "fst (send_message hooked_world ?m None ?s) = Inr ()"
    by (simp add: send_message_def Let_def plain_message_def split: prod.splits)
  then obtain s' where s': "send_message hooked_world ?m None ?s = (Inr (), s')" by (metis prod.collapse)
  have "\<forall>i \<in> set_option (ses_consumed_user_message_id ?s). i \<in> issued_ids hooked_world ?s"
    by (simp add: hooked_world_def sample_world_def)
  from new_input_is_pending [OF hooked_inj this s'] s' show ?thesis by auto
qed

end
