(* ===== verification/Permissions.thy ===== *)
theory Permissions
  imports File_Store_Laws Hooks "HOL-Library.List_Lexorder" "HOL-Library.Char_ord"
begin

text \<open>
  The permission presets of the runtime and the path guard behind them
  (\<^verbatim>\<open>runtime/permissions.py\<close>, \<^verbatim>\<open>runtime/guarded_tools.py\<close>), on a POSIX host, where the branches for
  Windows never run. A resolved path is the list of its components below the root. What the file
  system answers (resolving links, \<open>stat\<close>, directory listings, the environment)
  are arguments, the record \<open>os_env\<close>; a failing \<open>stat\<close> or listing is \<open>None\<close> or the empty list.
\<close>

section \<open>Presets\<close>

datatype permission = Readonly | Inspect | Workspace | Broad

fun preset_name :: "permission \<Rightarrow> string" where
  "preset_name Readonly = ''readonly''"
| "preset_name Inspect = ''inspect''"
| "preset_name Workspace = ''workspace''"
| "preset_name Broad = ''broad''"

definition PRESETS :: "permission list" where
  "PRESETS = [Readonly, Inspect, Workspace, Broad]"

definition READ_ONLY_PERMISSIONS :: "permission list" where
  "READ_ONLY_PERMISSIONS = [Readonly, Inspect]"

definition DEFAULT_PERMISSION :: permission where
  "DEFAULT_PERMISSION = Workspace"

text \<open>The refusals, one constructor per message, with what the message names.\<close>

datatype denial =
    UnknownPermission string
  | UncPath string
  | ReadOnlySession permission
  | DotsAndSpaces string
  | OutsideWorkspace "string list" "string list"
  | RuntimeSecret "string list"

definition normalise :: "string option \<Rightarrow> denial + permission" where
  "normalise perm =
     (case perm of
        None \<Rightarrow> Inr DEFAULT_PERMISSION
      | Some p \<Rightarrow>
          (case filter (\<lambda>q. preset_name q = lower (strip p)) PRESETS of
             [] \<Rightarrow> Inl (UnknownPermission p) | q # _ \<Rightarrow> Inr q))"

definition tools_for :: "permission \<Rightarrow> string list" where
  "tools_for perm =
     (if perm = Readonly then [''file_editor'', ''task_tracker'']
      else if perm = Inspect then [''file_editor'', ''inspect'', ''task_tracker'']
      else [''terminal'', ''file_editor'', ''task_tracker''])"

section \<open>Paths\<close>

text \<open>\<open>str\<close> of an absolute path, \<open>Path(text).parts\<close>, and \<open>PurePath.suffix\<close> of a name.\<close>

definition path_str :: "string list \<Rightarrow> string" where
  "path_str comps = (if comps = [] then [slash] else concat (map (\<lambda>c. slash # c) comps))"

definition is_absolute :: "string \<Rightarrow> bool" where
  "is_absolute text \<longleftrightarrow> prefix [slash] text"

definition path_parts :: "string \<Rightarrow> string list" where
  "path_parts text =
     (if prefix [slash, slash] text \<and> \<not> prefix [slash, slash, slash] text then [[slash, slash]]
      else if is_absolute text then [[slash]] else []) @ filter (\<lambda>p. p \<noteq> [] \<and> p \<noteq> ''.'') (split_slash text)"

definition name_suffix :: "string \<Rightarrow> string" where
  "name_suffix name =
     (let ext = takeWhile (\<lambda>c. c \<noteq> CHR ''.'') (rev name)
      in if length ext = length name \<or> Suc (length ext) = length name \<or> ext = [] then []
         else CHR ''.'' # rev ext)"

text \<open>\<open>os.path.commonpath\<close> of two absolute paths, and \<open>contains\<close>; \<open>normcase\<close> changes nothing on POSIX.\<close>

fun common_parts :: "string list \<Rightarrow> string list \<Rightarrow> string list" where
  "common_parts (a # as) (b # bs) = (if a = b then a # common_parts as bs else [])"
| "common_parts _ _ = []"

definition commonpath :: "string \<Rightarrow> string \<Rightarrow> string" where
  "commonpath a b =
     (let s = filter (\<lambda>c. c \<noteq> [] \<and> c \<noteq> ''.'') (split_slash a);
          t = filter (\<lambda>c. c \<noteq> [] \<and> c \<noteq> ''.'') (split_slash b)
      in [slash] @ join [slash] (common_parts (min s t) (max s t)))"

definition contains :: "string list \<Rightarrow> string list \<Rightarrow> bool" where
  "contains rt target \<longleftrightarrow> commonpath (path_str rt) (path_str target) = path_str rt"

text \<open>
  What the host answers: \<open>os_resolve\<close> is \<open>Path(text).resolve()\<close>, \<open>os_stat\<close> gives device, inode and link
  count, the next three are the results of \<open>glob("*.json")\<close>, \<open>rglob("*.json")\<close> and \<open>iterdir()\<close>,
  \<open>os_set_order\<close> the order in which Python walks a set of paths, \<open>os_home\<close> is \<open>Path.home()\<close>, \<open>os_cwd\<close>
  the working directory at import, \<open>os_expand\<close> is \<open>expanduser()\<close> and \<open>os_var\<close> reads \<open>os.environ\<close>.
\<close>

record os_env =
  os_resolve :: "string \<Rightarrow> string list"
  os_stat :: "string list \<Rightarrow> (nat \<times> nat \<times> nat) option"
  os_json_files :: "string list \<Rightarrow> string list list"
  os_json_tree :: "string list \<Rightarrow> string list list"
  os_children :: "string list \<Rightarrow> string list list"
  os_set_order :: "string list list \<Rightarrow> string list list"
  os_home :: "string list"
  os_cwd :: "string list"
  os_expand :: "string \<Rightarrow> string"
  os_var :: "string \<Rightarrow> string option"

text \<open>\<open>os.environ.get(name)\<close> followed by the test for a non-empty value.\<close>

definition configured :: "os_env \<Rightarrow> string \<Rightarrow> string option" where
  "configured env name = (case os_var env name of None \<Rightarrow> None | Some v \<Rightarrow> if v = [] then None else Some v)"

definition state_dir :: "os_env \<Rightarrow> string list" where
  "state_dir env =
     (case configured env ''AGENTRT_STATE_DIR'' of
        Some v \<Rightarrow> os_resolve env v | None \<Rightarrow> os_home env @ [''.agentrt''])"

definition get_user_persistence_dir :: "os_env \<Rightarrow> string option \<Rightarrow> string" where
  "get_user_persistence_dir env dflt =
     (case configured env ''AGENTRT_PERSISTENCE_DIR'' of
        Some v \<Rightarrow>
          let r = os_expand env v
          in if is_absolute r then r else path_str (os_cwd env) @ [slash] @ r
      | None \<Rightarrow> (case dflt of Some d \<Rightarrow> d | None \<Rightarrow> path_str (os_home env @ [''.agentrt''])))"

definition real_path :: "os_env \<Rightarrow> string \<Rightarrow> string option \<Rightarrow> string list" where
  "real_path env path base =
     (case base of
        Some b \<Rightarrow> if is_absolute path then os_resolve env path else os_resolve env (b @ [slash] @ path)
      | None \<Rightarrow> os_resolve env path)"

section \<open>The runtime's own secrets\<close>

definition runtime_state_roots :: "os_env \<Rightarrow> string list list" where
  "runtime_state_roots env =
     os_set_order env
       (if configured env ''AGENTRT_PERSISTENCE_DIR'' \<noteq> None
        then List.insert (os_resolve env (get_user_persistence_dir env None)) [state_dir env]
        else [state_dir env])"

definition conversation_roots :: "os_env \<Rightarrow> string list list" where
  "conversation_roots env =
     (let roots = remdups (map (\<lambda>st. st @ [''conversations'']) (runtime_state_roots env))
      in os_set_order env
           (case configured env ''AGENTRT_CONVERSATIONS_PATH'' of
              Some v \<Rightarrow> List.insert (os_resolve env (os_expand env v)) roots
            | None \<Rightarrow> roots))"

definition state_secret :: "string list \<Rightarrow> bool option" where
  "state_secret parts =
     (if length parts = 1 \<and>
         hd parts \<in> {''.env'', ''daemon.json'', ''settings.json'', ''secrets.json'', ''secret.key''}
      then Some True
      else if length parts = 2 \<and> hd parts \<in> {''profiles'', ''agent-profiles''}
      then Some (name_suffix (last parts) = ''.json'')
      else if 2 \<le> length parts \<and> hd parts = ''provider-connections''
      then Some (name_suffix (last parts) = ''.json'')
      else None)"

text \<open>The loop over the state roots: the first root that decides, decides.\<close>

fun in_state :: "string list list \<Rightarrow> string list \<Rightarrow> bool option" where
  "in_state [] p = None"
| "in_state (st # sts) p =
     (if prefix st p then
        (case state_secret (drop (length st) p) of None \<Rightarrow> in_state sts p | Some b \<Rightarrow> Some b)
      else in_state sts p)"

definition is_runtime_secret_location :: "os_env \<Rightarrow> string list \<Rightarrow> bool" where
  "is_runtime_secret_location env p =
     (case in_state (runtime_state_roots env) p of
        Some b \<Rightarrow> b
      | None \<Rightarrow> list_ex (\<lambda>c. prefix c p \<and> length p = length c + 2 \<and>
          last p \<in> {''meta.json'', ''base_state.json''}) (conversation_roots env))"

definition secret_candidates :: "os_env \<Rightarrow> string list list" where
  "secret_candidates env =
     concat (map (\<lambda>st. map (\<lambda>n. st @ [n]) [''.env'', ''daemon.json'', ''settings.json'', ''secrets.json'', ''secret.key''] @
        os_json_files env (st @ [''profiles'']) @ os_json_tree env (st @ [''provider-connections'']) @
        os_json_files env (st @ [''agent-profiles''])) (runtime_state_roots env)) @
     concat (map (\<lambda>c. concat (map (\<lambda>d. [d @ [''meta.json''], d @ [''base_state.json'']]) (os_children env c)))
       (conversation_roots env))"

definition runtime_secret_identities :: "os_env \<Rightarrow> (nat \<times> nat) set" where
  "runtime_secret_identities env =
     set (concat (map (\<lambda>p. case os_stat env p of
        None \<Rightarrow> [] | Some (dev, ino, _) \<Rightarrow> if ino \<noteq> 0 then [(dev, ino)] else []) (secret_candidates env)))"

definition is_runtime_secret :: "os_env \<Rightarrow> string list \<Rightarrow> bool" where
  "is_runtime_secret env p =
     (if is_runtime_secret_location env p then True
      else case os_stat env p of
          None \<Rightarrow> False
        | Some (dev, ino, nlink) \<Rightarrow>
            if ino = 0 then False else if nlink < 2 then False
            else (dev, ino) \<in> runtime_secret_identities env)"

section \<open>The guard\<close>

definition odd_part :: "string \<Rightarrow> bool" where
  "odd_part part \<longleftrightarrow>
     \<not> (part = ''.'' \<or> part = ''..'') \<and> part \<noteq> [] \<and> list_all (\<lambda>c. c = CHR ''.'' \<or> c = CHR '' '') part"

definition check_path :: "os_env \<Rightarrow> string \<Rightarrow> string \<Rightarrow> permission \<Rightarrow> bool \<Rightarrow> denial + string list" where
  "check_path env raw_path rt perm writing =
     (if perm = Broad then Inr (real_path env raw_path (Some rt))
      else if prefix [CHR 0x5C, CHR 0x5C] raw_path then Inl (UncPath raw_path)
      else if writing \<and> perm \<in> set READ_ONLY_PERMISSIONS then Inl (ReadOnlySession perm)
      else case find odd_part (path_parts raw_path) of
          Some part \<Rightarrow> Inl (DotsAndSpaces part)
        | None \<Rightarrow>
            let workspace = real_path env rt None;
                resolved = real_path env raw_path (Some (path_str workspace))
            in if \<not> contains workspace resolved then Inl (OutsideWorkspace resolved workspace)
               else if is_runtime_secret env resolved then Inl (RuntimeSecret resolved)
               else Inr resolved)"

text \<open>\<open>_approve\<close>: the workspace, then for an absolute path the directory for reports.\<close>

record guard =
  gd_root :: string
  gd_permission :: permission
  gd_reports_root :: "string option"
  gd_last_denial :: "string option"
  gd_denial_streak :: nat

definition approve :: "os_env \<Rightarrow> guard \<Rightarrow> string \<Rightarrow> bool \<Rightarrow> denial + string list" where
  "approve env g raw_path writing =
     (case check_path env raw_path (gd_root g) (gd_permission g) writing of
        Inr p \<Rightarrow> Inr p
      | Inl d \<Rightarrow>
          (case gd_reports_root g of
             Some r \<Rightarrow> if is_absolute raw_path then check_path env raw_path r Workspace writing else Inl d
           | None \<Rightarrow> Inl d))"

definition denial_hint :: "string \<Rightarrow> guard \<Rightarrow> string \<times> guard" where
  "denial_hint text g =
     (let g1 = (if gd_last_denial g = Some text
                then g\<lparr>gd_denial_streak := Suc (gd_denial_streak g)\<rparr>
                else g\<lparr>gd_last_denial := Some text, gd_denial_streak := 1\<rparr>)
      in (if 2 \<le> gd_denial_streak g1
          then '' This is the same refusal as last time -- retrying this exact path will not '' @
               ''become approved. Use a different path, or stop and say what you need instead.''
          else [], g1))"

text \<open>
  A call of the editor: either a refusal as text, or the command handed on with the path that was
  checked. The text of a refusal is an argument.
\<close>

datatype editor_call = Refused string | HandedOn string string

definition guarded_call ::
    "os_env \<Rightarrow> (denial \<Rightarrow> string) \<Rightarrow> string \<Rightarrow> string \<Rightarrow> guard \<Rightarrow> editor_call \<times> guard" where
  "guarded_call env show command path g =
     (case approve env g path (command \<noteq> ''view'') of
        Inr approved \<Rightarrow> (HandedOn command (path_str approved), g)
      | Inl d \<Rightarrow>
          let (hint, g1) = denial_hint (show d) g
          in (Refused (''Refused: '' @ show d @ ''. This session runs under the '' @
                quoted (preset_name (gd_permission g)) @ '' permission preset.'' @ hint), g1))"

section \<open>Containment is a prefix of components\<close>

definition plain_path :: "string list \<Rightarrow> bool" where
  "plain_path comps \<longleftrightarrow> list_all (\<lambda>c. c \<noteq> [] \<and> c \<noteq> ''.'' \<and> slash \<notin> set c) comps"

lemma split_parts:
  assumes "plain_path comps" and "slash \<notin> set c"
  shows "split_slash (c @ concat (map (\<lambda>c. slash # c) comps)) = c # comps"
  using assms
proof (induction comps arbitrary: c)
  case Nil
  then show ?case by (simp add: split_slash_plain)
next
  case (Cons d ds)
  then have "split_slash (d @ concat (map (\<lambda>c. slash # c) ds)) = d # ds" by (simp add: plain_path_def)
  then show ?case using split_slash_append [OF Cons.prems(2)] by simp
qed

lemma path_str_parts:
  assumes "plain_path comps"
  shows "filter (\<lambda>c. c \<noteq> [] \<and> c \<noteq> ''.'') (split_slash (path_str comps)) = comps"
proof (cases "comps = []")
  case True
  then show ?thesis using split_slash_append [of "[]" "[]"] by (simp add: path_str_def)
next
  case False
  have "filter (\<lambda>c. c \<noteq> [] \<and> c \<noteq> ''.'') comps = comps"
    using assms by (intro filter_True) (auto simp: plain_path_def list_all_iff)
  then show ?thesis using split_parts [OF assms, of "[]"] False by (simp add: path_str_def)
qed

lemma path_str_join: "[slash] @ join [slash] comps = path_str comps"
  by (induction "[slash]" comps rule: join.induct) (auto simp: path_str_def)

lemma path_str_inj:
  assumes "plain_path r" and "plain_path t" and "path_str r = path_str t" shows "r = t"
  using path_str_parts [OF assms(1)] path_str_parts [OF assms(2)] assms(3) by metis

lemma common_parts_sym: "common_parts s t = common_parts t s"
  by (induction s t rule: common_parts.induct) auto

lemma common_parts_prefix: "common_parts r t = r \<longleftrightarrow> prefix r t"
  by (induction r t rule: common_parts.induct) auto

lemma common_parts_plain: "plain_path r \<Longrightarrow> plain_path (common_parts r t)"
  by (induction r t rule: common_parts.induct) (auto simp: plain_path_def)

lemma contains_prefix:
  assumes "plain_path r" and "plain_path t" shows "contains r t \<longleftrightarrow> prefix r t"
proof -
  have mm: "common_parts (min r t) (max r t) = common_parts r t"
    using common_parts_sym by (auto simp: min_def max_def)
  have "commonpath (path_str r) (path_str t) = path_str (common_parts r t)"
    using path_str_parts [OF assms(1)] path_str_parts [OF assms(2)]
    by (simp add: commonpath_def Let_def mm path_str_join [symmetric])
  then have "contains r t \<longleftrightarrow> path_str (common_parts r t) = path_str r" by (simp add: contains_def)
  also have "\<dots> \<longleftrightarrow> common_parts r t = r"
    using path_str_inj [OF common_parts_plain [OF assms(1)] assms(1)] by auto
  finally show ?thesis using common_parts_prefix by simp
qed

section \<open>What is approved\<close>

text \<open>What \<open>check_path\<close> asks of a resolved path under a confining preset.\<close>

definition confined :: "os_env \<Rightarrow> string \<Rightarrow> permission \<Rightarrow> bool \<Rightarrow> string list \<Rightarrow> bool" where
  "confined env rt perm writing p \<longleftrightarrow>
     prefix (os_resolve env rt) p \<and> \<not> is_runtime_secret env p \<and> (writing \<longrightarrow> perm = Workspace)"

lemma real_path_plain:
  assumes "\<forall>t. plain_path (os_resolve env t)" shows "plain_path (real_path env t b)"
  using assms by (auto simp: real_path_def split: option.split)

lemma real_path_root [simp]: "real_path env t None = os_resolve env t"
  by (simp add: real_path_def)

lemma check_path_approves:
  assumes "\<forall>t. plain_path (os_resolve env t)" and "perm \<noteq> Broad"
  shows "check_path env raw rt perm writing = Inr p \<longleftrightarrow>
    p = real_path env raw (Some (path_str (os_resolve env rt))) \<and> confined env rt perm writing p \<and>
    \<not> prefix [CHR 0x5C, CHR 0x5C] raw \<and> \<not> list_ex odd_part (path_parts raw)"
proof -
  have "contains (os_resolve env rt) (real_path env raw b) \<longleftrightarrow>
      prefix (os_resolve env rt) (real_path env raw b)" for b
    by (rule contains_prefix) (use assms(1) real_path_plain in auto)
  moreover have "list_ex odd_part xs \<longleftrightarrow> find odd_part xs \<noteq> None" for xs
    by (auto simp: find_None_iff list_ex_iff)
  moreover have "perm \<in> set READ_ONLY_PERMISSIONS \<longleftrightarrow> perm \<noteq> Workspace"
    using assms(2) by (cases perm) (auto simp: READ_ONLY_PERMISSIONS_def)
  ultimately show ?thesis
    using assms(2) by (auto simp: check_path_def confined_def Let_def split: option.splits)
qed

lemma approve_confined:
  assumes "\<forall>t. plain_path (os_resolve env t)" and "gd_permission g \<noteq> Broad"
    and "approve env g raw writing = Inr p"
  shows "confined env (gd_root g) (gd_permission g) writing p \<or>
    (\<exists>r. gd_reports_root g = Some r \<and> is_absolute raw \<and> confined env r Workspace writing p)"
  using assms(3) check_path_approves [OF assms(1,2)] check_path_approves [OF assms(1), of Workspace]
  by (auto simp: approve_def split: sum.splits option.splits if_splits)

text \<open>
  C9. Whatever the guarded editor hands on under a preset other than broad is the text of a resolved
  path that lies, component by component, inside the resolved workspace and is written only under the
  workspace preset, or, for an absolute path, inside the directory for reports; and it
  is no secret of the runtime by the guard's own test. That test compares with the home directory as it is
  spelled, so it misses the secrets of a home that is reached through a symbolic link. The command is
  handed on as it came and the guard is unchanged. The only assumption is that resolving a path gives no
  empty or dot component.
\<close>

theorem guarded_editor_confined:
  assumes "\<forall>t. plain_path (os_resolve env t)" and "gd_permission g \<noteq> Broad"
    and "guarded_call env show command path g = (HandedOn c q, g')"
  shows "c = command \<and> g' = g \<and> (\<exists>p. q = path_str p \<and> \<not> is_runtime_secret env p \<and>
    (prefix (os_resolve env (gd_root g)) p \<and> (command = ''view'' \<or> gd_permission g = Workspace) \<or>
     (\<exists>r. gd_reports_root g = Some r \<and> is_absolute path \<and> prefix (os_resolve env r) p)))"
proof -
  obtain p where p: "approve env g path (command \<noteq> ''view'') = Inr p"
    and eq: "c = command" "q = path_str p" "g' = g"
    using assms(3) by (auto simp: guarded_call_def Let_def split: sum.splits prod.splits)
  then show ?thesis using approve_confined [OF assms(1,2) p] by (auto simp: confined_def)
qed

text \<open>A host with one workspace in which \<open>link\<close> is a hard link to the settings of the runtime.\<close>

definition sample_host :: os_env where
  "sample_host =
     \<lparr>os_resolve = (\<lambda>t. filter (\<lambda>c. c \<noteq> [] \<and> c \<noteq> ''.'' \<and> c \<noteq> ''..'') (split_slash t)),
      os_stat = (\<lambda>p. if p = [''ws'', ''link''] \<or> p = [''h'', ''.agentrt'', ''settings.json''] then Some (1, 7, 2)
                     else Some (1, 8, 1)),
      os_json_files = (\<lambda>_. []), os_json_tree = (\<lambda>_. []), os_children = (\<lambda>_. []), os_set_order = id,
      os_home = [''h''], os_cwd = [], os_expand = id, os_var = (\<lambda>_. None)\<rparr>"

definition sample_guard :: guard where
  "sample_guard = \<lparr>gd_root = ''/ws'', gd_permission = Readonly, gd_reports_root = None,
     gd_last_denial = None, gd_denial_streak = 0\<rparr>"

lemma split_slash_pieces: "c \<in> set (split_slash t) \<Longrightarrow> slash \<notin> set c"
proof (induction t arbitrary: c)
  case (Cons x xs)
  then show ?case by (cases "split_slash xs") (auto split: if_splits)
qed simp

lemma sample_host_plain: "\<forall>t. plain_path (os_resolve sample_host t)"
  using split_slash_pieces by (auto simp: sample_host_def plain_path_def list_all_iff)

theorem guarded_editor_confined_witness:
  "guarded_call sample_host (\<lambda>_. []) ''view'' ''a/b'' sample_guard = (HandedOn ''view'' ''/ws/a/b'', sample_guard) \<and>
   (\<exists>p. ''/ws/a/b'' = path_str p \<and> \<not> is_runtime_secret sample_host p \<and> prefix [''ws''] p)"
proof -
  have call: "guarded_call sample_host (\<lambda>_. []) ''view'' ''a/b'' sample_guard =
      (HandedOn ''view'' ''/ws/a/b'', sample_guard)" by code_simp
  have "os_resolve sample_host ''/ws'' = [''ws'']" by code_simp
  then show ?thesis
    using guarded_editor_confined [OF sample_host_plain _ call] call by (auto simp: sample_guard_def)
qed

text \<open>
  Under a preset other than broad, a path that resolves to a second name of one of the runtime's
  credential files (same device and inode as a candidate, and the link count shows a second name) is
  refused, wherever it lies.
\<close>

theorem hard_link_to_secret_refused:
  assumes "\<forall>t. plain_path (os_resolve env t)" and "gd_permission g \<noteq> Broad"
    and "s \<in> set (secret_candidates env)" and "os_stat env s = Some (dev, ino, m)"
    and "os_stat env p = Some (dev, ino, n)" and "0 < ino" and "2 \<le> n"
  shows "approve env g raw writing \<noteq> Inr p"
proof -
  have "(dev, ino) \<in> runtime_secret_identities env"
    unfolding runtime_secret_identities_def set_concat
    using assms(3,4,6) by (auto intro!: bexI [of _ s])
  then have "is_runtime_secret env p" using assms(5-7) by (simp add: is_runtime_secret_def)
  then show ?thesis using approve_confined [OF assms(1,2)] by (auto simp: confined_def)
qed

theorem hard_link_to_secret_refused_witness:
  "approve sample_host sample_guard ''link'' False \<noteq> Inr [''ws'', ''link''] \<and>
   approve sample_host sample_guard ''link'' False = Inl (RuntimeSecret [''ws'', ''link''])"
proof -
  have "[''h'', ''.agentrt'', ''settings.json''] \<in> set (secret_candidates sample_host)" by code_simp
  then have "approve sample_host sample_guard ''link'' False \<noteq> Inr [''ws'', ''link'']"
    by (rule hard_link_to_secret_refused [OF sample_host_plain, where dev = 1 and ino = 7 and m = 2 and n = 2, rotated])
       (simp_all add: sample_guard_def sample_host_def)
  moreover have "approve sample_host sample_guard ''link'' False = Inl (RuntimeSecret [''ws'', ''link''])"
    by code_simp
  ultimately show ?thesis by simp
qed

section \<open>A state directory behind a link\<close>

text \<open>
  A host where \<open>/home\<close> is a link to \<open>/mnt\<close>: \<open>state_dir\<close> gives the home directory as it is spelled, the
  guard compares it with resolved paths.
\<close>

definition linked_host :: os_env where
  "linked_host =
     sample_host\<lparr>os_resolve := (\<lambda>t. case filter (\<lambda>c. c \<noteq> [] \<and> c \<noteq> ''.'' \<and> c \<noteq> ''..'') (split_slash t) of
          [] \<Rightarrow> [] | c # cs \<Rightarrow> (if c = ''home'' then ''mnt'' else c) # cs),
       os_home := [''home'', ''u'']\<rparr>"

text \<open>
  With the default state directory below a home that is reached through a symbolic link, a
  read-only session whose workspace is that home may view the key file of the runtime: the location
  check compares the resolved path with the unresolved state directory, and the identity check
  is skipped for a file with one link. With the state directory named through the environment
  variable, which is resolved, the same request is refused.
\<close>

theorem linked_home_exposes_key:
  "check_path linked_host ''.agentrt/secret.key'' ''/home/u'' Readonly False =
     Inr [''mnt'', ''u'', ''.agentrt'', ''secret.key''] \<and>
   os_resolve linked_host (path_str (state_dir linked_host @ [''secret.key''])) =
     [''mnt'', ''u'', ''.agentrt'', ''secret.key''] \<and>
   check_path (linked_host\<lparr>os_var := (\<lambda>v. if v = ''AGENTRT_STATE_DIR'' then Some ''/home/u/.agentrt'' else None)\<rparr>)
     ''.agentrt/secret.key'' ''/home/u'' Readonly False =
     Inl (RuntimeSecret [''mnt'', ''u'', ''.agentrt'', ''secret.key''])"
  by (intro conjI; code_simp)

end
