(* ===== verification/Apply_Patch.thy ===== *)
theory Apply_Patch
  imports File_Store_Laws Hooks Event_Strings
begin

text \<open>
  The patch tool (\<^verbatim>\<open>agentrt-tools/apply_patch/core.py\<close> and the executor in \<^verbatim>\<open>definition.py\<close>): the parser
  of the patch text, the search for the context of a section, the assembly of the new file text and
  the commit. Reading, writing and removing files are arguments over a store, as in the code. Positions
  of the parser in the patch are natural numbers, positions in a file integers, as far as the code
  computes with them.
\<close>

section \<open>Python pieces\<close>

datatype patch_error = DiffError string | PatchRaised py_error

definition try_then :: "patch_error + 'a \<Rightarrow> ('a \<Rightarrow> patch_error + 'b) \<Rightarrow> patch_error + 'b" where
  "try_then r f = (case r of Inl e \<Rightarrow> Inl e | Inr a \<Rightarrow> f a)"

lemma try_then_simps [simp]: "try_then (Inl e) f = Inl e" "try_then (Inr a) f = f a"
  by (simp_all add: try_then_def)

lemma try_then_Inr: "try_then r f = Inr b \<longleftrightarrow> (\<exists>a. r = Inr a \<and> f a = Inr b)"
  by (cases r) auto

lemma try_then_cong [fundef_cong]:
  "r = r' \<Longrightarrow> (\<And>a. r' = Inr a \<Longrightarrow> f a = g a) \<Longrightarrow> try_then r f = try_then r' g"
  by (cases r') auto

text \<open>\<open>text.split("\n")\<close>, \<open>str.rstrip()\<close>, \<open>s.startswith(markers)\<close> and the slice \<open>xs[i:j]\<close>.\<close>

fun split_newline :: "string \<Rightarrow> string list" where
  "split_newline [] = [[]]"
| "split_newline (c # cs) =
     (case split_newline cs of
        [] \<Rightarrow> [[c]]
      | s # ss \<Rightarrow> if c = CHR 0x0A then [] # s # ss else (c # s) # ss)"

definition rstrip :: "string \<Rightarrow> string" where
  "rstrip s = rev (dropWhile is_space (rev s))"

definition starts_any :: "string list \<Rightarrow> string \<Rightarrow> bool" where
  "starts_any markers s \<longleftrightarrow> list_ex (\<lambda>m. prefix m s) markers"

definition py_slice :: "'a list \<Rightarrow> int \<Rightarrow> int \<Rightarrow> 'a list" where
  "py_slice xs i j =
     (let n = int (length xs);
          a = (if i < 0 then max 0 (i + n) else min i n);
          b = (if j < 0 then max 0 (j + n) else min j n)
      in take (nat (b - a)) (drop (nat a) xs))"

section \<open>Data\<close>

datatype action_type = ADD | DELETE | UPDATE

record file_change =
  fc_type :: action_type
  fc_old_content :: "string option"
  fc_new_content :: "string option"
  fc_move_path :: "string option"

record chunk =
  ck_orig_index :: int
  ck_del_lines :: "string list"
  ck_ins_lines :: "string list"

record patch_action =
  pa_type :: action_type
  pa_new_file :: "string option"
  pa_chunks :: "chunk list"
  pa_move_path :: "string option"

text \<open>Dictionaries keep the order of insertion; the parser only adds paths that are not there yet.\<close>

type_synonym file_texts = "(string \<times> string) list"
type_synonym patch_actions = "(string \<times> patch_action) list"
type_synonym commit = "(string \<times> file_change) list"

record patch_parser =
  pp_files :: file_texts
  pp_lines :: "string list"
  pp_index :: nat
  pp_actions :: patch_actions
  pp_fuzz :: nat

section \<open>Reading lines\<close>

definition is_done :: "string list \<Rightarrow> patch_parser \<Rightarrow> bool" where
  "is_done markers p \<longleftrightarrow>
     length (pp_lines p) \<le> pp_index p \<or> starts_any markers (pp_lines p ! pp_index p)"

definition read_str :: "string \<Rightarrow> patch_parser \<Rightarrow> patch_error + (string \<times> patch_parser)" where
  "read_str pre p =
     (if length (pp_lines p) \<le> pp_index p
      then Inl (DiffError (''Unexpected end of patch at index '' @ dec (pp_index p)))
      else let line = pp_lines p ! pp_index p
           in if prefix pre line then Inr (drop (length pre) line, p\<lparr>pp_index := Suc (pp_index p)\<rparr>)
              else Inr ([], p))"

section \<open>A section of an update\<close>

definition FILE_MARKERS :: "string list" where
  "FILE_MARKERS = [''*** End Patch'', ''*** Update File:'', ''*** Delete File:'', ''*** Add File:'']"

datatype line_mode = KeepLine | AddLine | DeleteLine

definition flush_chunk :: "string list \<Rightarrow> string list \<Rightarrow> string list \<Rightarrow> chunk list \<Rightarrow> chunk list" where
  "flush_chunk old dels ins chunks =
     (if ins \<noteq> [] \<or> dels \<noteq> []
      then chunks @ [\<lparr>ck_orig_index = int (length old) - int (length dels), ck_del_lines = dels, ck_ins_lines = ins\<rparr>]
      else chunks)"

text \<open>What the loop of \<open>peek_next_section\<close> makes of a line: the end of the section, an error, or a mode and a text.\<close>

definition section_line :: "string \<Rightarrow> patch_error + (line_mode \<times> string) option" where
  "section_line s =
     (if starts_any (''@@'' # FILE_MARKERS @ [''*** End of File'']) s then Inr None
      else if s = ''***'' then Inr None
      else if prefix ''***'' s then Inl (DiffError (''Invalid Line: '' @ s))
      else
        let t = (if s = [] then '' '' else s)
        in if hd t = CHR ''+'' then Inr (Some (AddLine, tl t))
           else if hd t = CHR ''-'' then Inr (Some (DeleteLine, tl t))
           else if hd t = CHR '' '' then Inr (Some (KeepLine, tl t))
           else Inl (DiffError (''Invalid Line: '' @ t)))"

fun peek_lines ::
    "string list \<Rightarrow> nat \<Rightarrow> line_mode \<Rightarrow> string list \<Rightarrow> string list \<Rightarrow> string list \<Rightarrow> chunk list \<Rightarrow>
     patch_error + (nat \<times> string list \<times> string list \<times> string list \<times> chunk list)" where
  "peek_lines [] index mode old dels ins chunks = Inr (index, old, dels, ins, chunks)"
| "peek_lines (s # rest) index mode old dels ins chunks =
     (case section_line s of
        Inl e \<Rightarrow> Inl e
      | Inr None \<Rightarrow> Inr (index, old, dels, ins, chunks)
      | Inr (Some (AddLine, x)) \<Rightarrow> peek_lines rest (Suc index) AddLine old dels (ins @ [x]) chunks
      | Inr (Some (DeleteLine, x)) \<Rightarrow> peek_lines rest (Suc index) DeleteLine (old @ [x]) (dels @ [x]) ins chunks
      | Inr (Some (KeepLine, x)) \<Rightarrow>
          if mode = KeepLine then peek_lines rest (Suc index) KeepLine (old @ [x]) dels ins chunks
          else peek_lines rest (Suc index) KeepLine (old @ [x]) [] [] (flush_chunk old dels ins chunks))"

definition peek_next_section ::
    "string list \<Rightarrow> nat \<Rightarrow> patch_error + (string list \<times> chunk list \<times> nat \<times> bool)" where
  "peek_next_section lines index =
     try_then (peek_lines (drop index lines) index KeepLine [] [] [] []) (\<lambda>(i, old, dels, ins, chunks).
       let all_chunks = flush_chunk old dels ins chunks
       in if i < length lines \<and> lines ! i = ''*** End of File'' then Inr (old, all_chunks, Suc i, True)
          else if i = index then
            (if i < length lines
             then Inl (DiffError (''Nothing in this section - index='' @ dec i @ '' '' @ lines ! i))
             else Inl (PatchRaised IndexError))
          else Inr (old, all_chunks, i, False))"

section \<open>Finding the context\<close>

definition find_context_core :: "string list \<Rightarrow> string list \<Rightarrow> int \<Rightarrow> int \<times> nat" where
  "find_context_core lines context start =
     (if context = [] then (start, 0)
      else
        let search = (\<lambda>norm. List.find
              (\<lambda>i. map norm (py_slice lines i (i + int (length context))) = map norm context)
              [start..int (length lines) - 1])
        in case search (\<lambda>s. s) of
             Some i \<Rightarrow> (i, 0)
           | None \<Rightarrow> (case search rstrip of
               Some i \<Rightarrow> (i, 1)
             | None \<Rightarrow> (case search strip of Some i \<Rightarrow> (i, 100) | None \<Rightarrow> (-1, 0))))"

definition find_context :: "string list \<Rightarrow> string list \<Rightarrow> int \<Rightarrow> bool \<Rightarrow> int \<times> nat" where
  "find_context lines context start eof =
     (if eof then
        let (new_index, fuzz) = find_context_core lines context (int (length lines) - int (length context))
        in if new_index \<noteq> -1 then (new_index, fuzz)
           else let (new_index, fuzz) = find_context_core lines context start in (new_index, fuzz + 10000)
      else find_context_core lines context start)"

text \<open>Moving to the line named after \<open>@@\<close>; the second component is the added fuzz.\<close>

definition seek_def :: "string list \<Rightarrow> string \<Rightarrow> nat \<Rightarrow> nat \<times> nat" where
  "seek_def lines def_str index =
     (if strip def_str = [] then (index, 0)
      else
        let exact = (if def_str \<in> set (take index lines) then None
                     else List.find (\<lambda>i. lines ! i = def_str) [index..<length lines])
        in case exact of
             Some i \<Rightarrow> (Suc i, 0)
           | None \<Rightarrow>
               if strip def_str \<in> strip ` set (take index lines) then (index, 0)
               else (case List.find (\<lambda>i. strip (lines ! i) = strip def_str) [index..<length lines] of
                       Some i \<Rightarrow> (Suc i, 1) | None \<Rightarrow> (index, 0)))"

section \<open>Parsing an update\<close>

text \<open>
  One round of the loop of \<open>parse_update_file\<close>, at position \<open>pos\<close> of the patch and \<open>index\<close> of the file: the
  new positions, the fuzz added and the chunks found.
\<close>

definition update_section ::
    "string list \<Rightarrow> string list \<Rightarrow> nat \<Rightarrow> nat \<Rightarrow> patch_error + (nat \<times> nat \<times> nat \<times> chunk list)" where
  "update_section plines lines pos index =
     (let named = prefix ''@@ '' (plines ! pos);
          def_str = (if named then drop 3 (plines ! pos) else []);
          pos1 = (if named then Suc pos else pos)
      in if def_str = [] \<and> length plines \<le> pos1 then Inl (PatchRaised IndexError)
         else
           let section_str = (def_str = [] \<and> plines ! pos1 = ''@@'');
               pos2 = (if section_str then Suc pos1 else pos1)
           in if def_str = [] \<and> \<not> section_str \<and> index \<noteq> 0
              then Inl (DiffError (''Invalid Line:'' @ newline @ plines ! pos2))
              else
                let (index1, fuzz1) = seek_def lines def_str index
                in try_then (peek_next_section plines pos2) (\<lambda>(context, chunks, end_index, eof).
                     let (new_index, fuzz2) = find_context lines context (int index1) eof
                     in if new_index = -1 then
                          Inl (DiffError ((if eof then ''Invalid EOF Context '' else ''Invalid Context '') @
                            dec index1 @ '':'' @ newline @ join newline context))
                        else Inr (end_index, nat new_index + length context, fuzz1 + fuzz2,
                          map (\<lambda>c. c\<lparr>ck_orig_index := ck_orig_index c + new_index\<rparr>) chunks)))"

lemma peek_lines_index:
  "peek_lines ls index mode old dels ins chunks = Inr (i, r) \<Longrightarrow> index \<le> i \<and> i \<le> index + length ls"
proof (induction ls arbitrary: index mode old dels ins chunks)
  case (Cons s ls)
  note step = Cons.IH [of "Suc index"]
  show ?case
    using Cons.prems
    by (auto split: sum.splits option.splits prod.splits line_mode.splits if_splits dest!: step)
qed simp

lemma peek_next_section_advances:
  assumes "peek_next_section lines index = Inr (old, chunks, i, eof)"
  shows "index < i \<and> i \<le> length lines"
proof -
  obtain j r where j: "peek_lines (drop index lines) index KeepLine [] [] [] [] = Inr (j, r)"
    using assms by (auto simp: peek_next_section_def try_then_Inr)
  then have "index \<le> j" "j \<le> index + length (drop index lines)" using peek_lines_index [OF j] by simp_all
  then show ?thesis
    using assms j by (cases "index \<le> length lines")
      (auto simp: peek_next_section_def Let_def split: if_splits prod.splits)
qed

lemma update_section_advances:
  assumes "update_section plines lines pos index = Inr (pos', r)"
  shows "pos < pos' \<and> pos' \<le> length plines"
  using assms peek_next_section_advances
  by (fastforce simp: update_section_def Let_def try_then_Inr split: if_splits prod.splits)

function update_sections ::
    "string list \<Rightarrow> string list \<Rightarrow> nat \<Rightarrow> nat \<Rightarrow> nat \<Rightarrow> chunk list \<Rightarrow> patch_error + (nat \<times> nat \<times> chunk list)" where
  "update_sections plines lines pos index fuzz chunks =
     (if length plines \<le> pos \<or> starts_any (FILE_MARKERS @ [''*** End of File'']) (plines ! pos)
      then Inr (pos, fuzz, chunks)
      else
        (case update_section plines lines pos index of
           Inl e \<Rightarrow> Inl e
         | Inr (pos', index', added, new_chunks) \<Rightarrow>
             update_sections plines lines pos' index' (fuzz + added) (chunks @ new_chunks)))"
  by pat_completeness auto
termination
  by (relation "measure (\<lambda>(plines, _, pos, _). length plines - pos)")
     (use update_section_advances in fastforce)+

declare update_sections.simps [simp del]

definition parse_update_file :: "string \<Rightarrow> patch_parser \<Rightarrow> patch_error + (patch_action \<times> patch_parser)" where
  "parse_update_file text p =
     try_then (update_sections (pp_lines p) (split_newline text) (pp_index p) 0 (pp_fuzz p) [])
       (\<lambda>(pos, fuzz, chunks).
          Inr (\<lparr>pa_type = UPDATE, pa_new_file = None, pa_chunks = chunks, pa_move_path = None\<rparr>,
               p\<lparr>pp_index := pos, pp_fuzz := fuzz\<rparr>))"

section \<open>Parsing a patch\<close>

text \<open>\<open>parse_add_file\<close>: the added lines up to the next file marker.\<close>

function add_lines :: "patch_parser \<Rightarrow> string list \<Rightarrow> patch_error + (string list \<times> patch_parser)" where
  "add_lines p acc =
     (if is_done FILE_MARKERS p then Inr (acc, p)
      else
        let s = pp_lines p ! pp_index p
        in if \<not> prefix ''+'' s then Inl (DiffError (''Invalid Add File Line: '' @ s))
           else add_lines (p\<lparr>pp_index := Suc (pp_index p)\<rparr>) (acc @ [tl s]))"
  by pat_completeness auto
termination
  by (relation "measure (\<lambda>(p, _). length (pp_lines p) - pp_index p)") (auto simp: is_done_def)

declare add_lines.simps [simp del]

definition parse_add_file :: "patch_parser \<Rightarrow> patch_error + (patch_action \<times> patch_parser)" where
  "parse_add_file p =
     try_then (add_lines p []) (\<lambda>(lines, p1).
       Inr (\<lparr>pa_type = ADD, pa_new_file = Some (join newline lines), pa_chunks = [], pa_move_path = None\<rparr>, p1))"

definition add_action :: "string \<Rightarrow> patch_action \<Rightarrow> patch_parser \<Rightarrow> patch_parser" where
  "add_action path a p = p\<lparr>pp_actions := pp_actions p @ [(path, a)]\<rparr>"

definition known_path :: "string \<Rightarrow> patch_parser \<Rightarrow> bool" where
  "known_path path p \<longleftrightarrow> path \<in> fst ` set (pp_actions p)"

definition bad_move_path :: "string \<Rightarrow> bool" where
  "bad_move_path move_to \<longleftrightarrow> move_to \<noteq> [] \<and> (''..'' \<in> set (split_slash move_to) \<or> prefix [slash] move_to)"

definition parse_update :: "string \<Rightarrow> patch_parser \<Rightarrow> patch_error + patch_parser" where
  "parse_update path p =
     (if known_path path p then Inl (DiffError (''Update File Error: Duplicate Path: '' @ path))
      else try_then (read_str ''*** Move to: '' p) (\<lambda>(move_to, p1).
        if bad_move_path move_to
        then Inl (DiffError (''Update File Error: Invalid move path '' @ quoted move_to @
               '': must be a relative path without '' @ quoted ''..'' @ '' components''))
        else (case map_of (pp_files p1) path of
                None \<Rightarrow> Inl (DiffError (''Update File Error: Missing File: '' @ path))
              | Some text \<Rightarrow>
                  try_then (parse_update_file text p1) (\<lambda>(a, p2).
                    Inr (add_action path (a\<lparr>pa_move_path := Some move_to\<rparr>) p2)))))"

definition parse_delete :: "string \<Rightarrow> patch_parser \<Rightarrow> patch_error + patch_parser" where
  "parse_delete path p =
     (if known_path path p then Inl (DiffError (''Delete File Error: Duplicate Path: '' @ path))
      else if map_of (pp_files p) path = None then Inl (DiffError (''Delete File Error: Missing File: '' @ path))
      else Inr (add_action path \<lparr>pa_type = DELETE, pa_new_file = None, pa_chunks = [], pa_move_path = None\<rparr> p))"

definition parse_add :: "string \<Rightarrow> patch_parser \<Rightarrow> patch_error + patch_parser" where
  "parse_add path p =
     (if known_path path p then Inl (DiffError (''Add File Error: Duplicate Path: '' @ path))
      else try_then (parse_add_file p) (\<lambda>(a, p1). Inr (add_action path a p1)))"

text \<open>One round of \<open>Parser.parse\<close>; a header without a path is passed over.\<close>

definition parse_entry :: "patch_parser \<Rightarrow> patch_error + patch_parser" where
  "parse_entry p =
     try_then (read_str ''*** Update File: '' p) (\<lambda>(path1, p1).
       if path1 \<noteq> [] then parse_update path1 p1
       else try_then (read_str ''*** Delete File: '' p1) (\<lambda>(path2, p2).
         if path2 \<noteq> [] then parse_delete path2 p2
         else try_then (read_str ''*** Add File: '' p2) (\<lambda>(path3, p3).
           if path3 \<noteq> [] then parse_add path3 p3
           else if pp_index p3 < length (pp_lines p3)
             then Inl (DiffError (''Unknown Line: '' @ pp_lines p3 ! pp_index p3))
             else Inl (PatchRaised IndexError))))"

lemma read_str_reads:
  assumes "read_str pre p = Inr (s, p')"
  shows "p' = p\<lparr>pp_index := pp_index p'\<rparr> \<and> pp_index p \<le> pp_index p' \<and> (s \<noteq> [] \<longrightarrow> pp_index p < pp_index p')"
  using assms by (auto simp: read_str_def Let_def split: if_splits)

lemma add_lines_reads:
  "add_lines p acc = Inr (ls, p') \<Longrightarrow> p' = p\<lparr>pp_index := pp_index p'\<rparr> \<and> pp_index p \<le> pp_index p'"
proof (induction p acc rule: add_lines.induct)
  case (1 p acc)
  show ?case
  proof (cases "is_done FILE_MARKERS p")
    case True
    then show ?thesis using 1(2) by (simp add: add_lines.simps)
  next
    case False
    then have "prefix ''+'' (pp_lines p ! pp_index p)" and
      "add_lines (p\<lparr>pp_index := Suc (pp_index p)\<rparr>) (acc @ [tl (pp_lines p ! pp_index p)]) = Inr (ls, p')"
      using 1(2) by (auto simp: add_lines.simps [of p] Let_def split: if_splits)
    then show ?thesis using 1(1) [OF False refl] by simp
  qed
qed

lemma update_sections_reads:
  "update_sections plines lines pos index fuzz chunks = Inr (pos', r) \<Longrightarrow> pos \<le> pos'"
proof (induction plines lines pos index fuzz chunks rule: update_sections.induct)
  case (1 plines lines pos index fuzz chunks)
  then show ?case
    using update_section_advances
    by (fastforce simp: update_sections.simps [of plines lines pos] split: if_splits sum.splits prod.splits)
qed

lemma parse_update_file_reads:
  assumes "parse_update_file text p = Inr (a, p')"
  shows "pp_lines p' = pp_lines p \<and> pp_index p \<le> pp_index p'"
  using assms update_sections_reads by (fastforce simp: parse_update_file_def try_then_Inr)

lemma add_action_fields [simp]:
  "pp_lines (add_action path a p) = pp_lines p" "pp_index (add_action path a p) = pp_index p"
  "pp_files (add_action path a p) = pp_files p" "pp_fuzz (add_action path a p) = pp_fuzz p"
  "pp_actions (add_action path a p) = pp_actions p @ [(path, a)]"
  by (simp_all add: add_action_def)

lemma parse_updateD:
  assumes "parse_update path p = Inr p'"
  obtains move_to p1 t a p2 where "read_str ''*** Move to: '' p = Inr (move_to, p1)"
    "map_of (pp_files p1) path = Some t" "parse_update_file t p1 = Inr (a, p2)" "\<not> known_path path p"
    "p' = add_action path (a\<lparr>pa_move_path := Some move_to\<rparr>) p2"
proof -
  have known: "\<not> known_path path p" using assms by (auto simp: parse_update_def)
  obtain move_to p1 where read: "read_str ''*** Move to: '' p = Inr (move_to, p1)"
    using assms known by (cases "read_str ''*** Move to: '' p") (auto simp: parse_update_def)
  obtain t where t: "map_of (pp_files p1) path = Some t"
    using assms known read by (cases "map_of (pp_files p1) path") (auto simp: parse_update_def split: if_splits)
  obtain a p2 where upd: "parse_update_file t p1 = Inr (a, p2)"
    using assms known read t by (cases "parse_update_file t p1") (auto simp: parse_update_def split: if_splits)
  have "p' = add_action path (a\<lparr>pa_move_path := Some move_to\<rparr>) p2"
    using assms known read t upd by (auto simp: parse_update_def split: if_splits)
  then show thesis using that known read t upd by blast
qed

lemma parse_update_reads:
  assumes "parse_update path p = Inr p'"
  shows "pp_lines p' = pp_lines p \<and> pp_index p \<le> pp_index p'"
proof -
  obtain move_to p1 t a p2 where "read_str ''*** Move to: '' p = Inr (move_to, p1)"
    "parse_update_file t p1 = Inr (a, p2)" and p': "p' = add_action path (a\<lparr>pa_move_path := Some move_to\<rparr>) p2"
    using parse_updateD [OF assms] by metis
  then have "p1 = p\<lparr>pp_index := pp_index p1\<rparr>" "pp_index p \<le> pp_index p1"
    "pp_lines p2 = pp_lines p1" "pp_index p1 \<le> pp_index p2"
    using read_str_reads parse_update_file_reads by blast+
  moreover have "pp_lines p1 = pp_lines p" by (subst calculation(1)) simp
  ultimately show ?thesis using p' by simp
qed

lemma parse_add_reads:
  assumes "parse_add path p = Inr p'"
  shows "pp_lines p' = pp_lines p \<and> pp_index p \<le> pp_index p'"
proof -
  obtain ls a p1 where "add_lines p [] = Inr (ls, p1)" and p': "p' = add_action path a p1"
    using assms by (auto simp: parse_add_def parse_add_file_def try_then_Inr split: if_splits)
  then have "p1 = p\<lparr>pp_index := pp_index p1\<rparr>" "pp_index p \<le> pp_index p1" using add_lines_reads by blast+
  moreover have "pp_lines p1 = pp_lines p" by (subst calculation(1)) simp
  ultimately show ?thesis using p' by simp
qed

lemma parse_delete_reads:
  assumes "parse_delete path p = Inr p'"
  shows "pp_lines p' = pp_lines p \<and> pp_index p \<le> pp_index p'"
  using assms by (auto simp: parse_delete_def split: if_splits)

lemma read_str_lines:
  assumes "read_str pre p = Inr (s, p')" shows "pp_lines p' = pp_lines p"
  using assms by (auto simp: read_str_def Let_def split: if_splits)

lemma parse_entry_reads:
  assumes "parse_entry p = Inr p'"
  shows "pp_lines p' = pp_lines p \<and> pp_index p < pp_index p'"
proof -
  obtain s1 p1 where r1: "read_str ''*** Update File: '' p = Inr (s1, p1)"
    using assms by (auto simp: parse_entry_def try_then_Inr)
  note m1 = read_str_reads [OF r1] read_str_lines [OF r1]
  show ?thesis
  proof (cases "s1 = []")
    case False
    then show ?thesis using assms r1 m1 parse_update_reads [of s1 p1 p'] by (simp add: parse_entry_def)
  next
    case s1: True
    obtain s2 p2 where r2: "read_str ''*** Delete File: '' p1 = Inr (s2, p2)"
      using assms s1 r1 by (auto simp: parse_entry_def try_then_Inr)
    note m2 = read_str_reads [OF r2] read_str_lines [OF r2]
    show ?thesis
    proof (cases "s2 = []")
      case False
      then show ?thesis using assms r1 s1 r2 m1 m2 parse_delete_reads [of s2 p2 p'] by (simp add: parse_entry_def)
    next
      case s2: True
      then obtain s3 p3 where r3: "read_str ''*** Add File: '' p2 = Inr (s3, p3)" "s3 \<noteq> []"
        "parse_add s3 p3 = Inr p'"
        using assms s1 r1 r2 by (auto simp: parse_entry_def try_then_Inr split: if_splits)
      then show ?thesis
        using m1 m2 read_str_reads [OF r3(1)] read_str_lines [OF r3(1)] parse_add_reads [OF r3(3)] by simp
    qed
  qed
qed

function parse_entries :: "patch_parser \<Rightarrow> patch_error + patch_parser" where
  "parse_entries p =
     (if is_done [''*** End Patch''] p then Inr p
      else (case parse_entry p of Inl e \<Rightarrow> Inl e | Inr p1 \<Rightarrow> parse_entries p1))"
  by pat_completeness auto
termination
  by (relation "measure (\<lambda>p. length (pp_lines p) - pp_index p)")
     (auto simp: is_done_def dest!: parse_entry_reads)

declare parse_entries.simps [simp del]

definition parse :: "patch_parser \<Rightarrow> patch_error + patch_parser" where
  "parse p =
     try_then (parse_entries p) (\<lambda>p1.
       if length (pp_lines p1) \<le> pp_index p1
       then Inl (DiffError (''Unexpected end of patch at index '' @ dec (pp_index p1)))
       else if \<not> prefix ''*** End Patch'' (pp_lines p1 ! pp_index p1) then Inl (DiffError ''Missing End Patch'')
       else Inr (p1\<lparr>pp_index := Suc (pp_index p1)\<rparr>))"

definition text_to_patch :: "string \<Rightarrow> file_texts \<Rightarrow> patch_error + (patch_actions \<times> nat)" where
  "text_to_patch text orig =
     (let lines = split_newline (strip text)
      in if length lines < 2 \<or> \<not> prefix ''*** Begin Patch'' (hd lines) \<or> last lines \<noteq> ''*** End Patch''
         then Inl (DiffError ''Invalid patch text'')
         else try_then (parse \<lparr>pp_files = orig, pp_lines = lines, pp_index = 1, pp_actions = [], pp_fuzz = 0\<rparr>)
                (\<lambda>p. Inr (pp_actions p, pp_fuzz p)))"

text \<open>The result is a set turned into a list; the model keeps the order of the text.\<close>

definition identify_files_needed :: "string \<Rightarrow> string list" where
  "identify_files_needed text =
     remdups (concat (map (\<lambda>line.
       (if prefix ''*** Update File: '' line then [drop (length ''*** Update File: '') line] else []) @
       (if prefix ''*** Delete File: '' line then [drop (length ''*** Delete File: '') line] else []))
       (split_newline (strip text))))"

section \<open>The new text of a file\<close>

fun apply_chunks ::
    "string list \<Rightarrow> chunk list \<Rightarrow> string list \<times> int \<times> int \<Rightarrow> patch_error + (string list \<times> int \<times> int)" where
  "apply_chunks orig_lines [] st = Inr st"
| "apply_chunks orig_lines (c # cs) (dest_lines, orig_index, dest_index) =
     (if int (length orig_lines) < ck_orig_index c
      then Inl (DiffError ''_get_updated_file: chunk.orig_index > len(lines)'')
      else if ck_orig_index c < orig_index
      then Inl (DiffError ''_get_updated_file: orig_index > chunk.orig_index'')
      else apply_chunks orig_lines cs
        (dest_lines @ py_slice orig_lines orig_index (ck_orig_index c) @ ck_ins_lines c,
         ck_orig_index c + int (length (ck_del_lines c)),
         dest_index + (ck_orig_index c - orig_index) + int (length (ck_ins_lines c))))"

definition get_updated_file :: "string \<Rightarrow> patch_action \<Rightarrow> patch_error + string" where
  "get_updated_file text a =
     (if pa_type a \<noteq> UPDATE then Inl (DiffError ''_get_updated_file: expected UPDATE action'')
      else
        let orig_lines = split_newline text
        in try_then (apply_chunks orig_lines (pa_chunks a) ([], 0, 0)) (\<lambda>(dest, orig_index, dest_index).
             let dest_lines = dest @ py_slice orig_lines orig_index (int (length orig_lines));
                 delta = int (length orig_lines) - orig_index
             in if orig_index + delta \<noteq> int (length orig_lines)
                then Inl (DiffError ''_get_updated_file: did not consume all original lines'')
                else if dest_index + delta \<noteq> int (length dest_lines)
                then Inl (DiffError ''_get_updated_file: dest line count mismatch'')
                else Inr (join newline dest_lines)))"

section \<open>The commit\<close>

definition change_of :: "file_texts \<Rightarrow> string \<times> patch_action \<Rightarrow> patch_error + (string \<times> file_change)" where
  "change_of orig entry =
     (let (path, a) = entry
      in case pa_type a of
           ADD \<Rightarrow> Inr (path, \<lparr>fc_type = ADD, fc_old_content = None, fc_new_content = pa_new_file a, fc_move_path = None\<rparr>)
         | DELETE \<Rightarrow>
             (case map_of orig path of
                None \<Rightarrow> Inl (PatchRaised KeyError)
              | Some t \<Rightarrow> Inr (path, \<lparr>fc_type = DELETE, fc_old_content = Some t, fc_new_content = None, fc_move_path = None\<rparr>))
         | UPDATE \<Rightarrow>
             (case map_of orig path of
                None \<Rightarrow> Inl (PatchRaised KeyError)
              | Some t \<Rightarrow> try_then (get_updated_file t a) (\<lambda>new.
                  Inr (path, \<lparr>fc_type = UPDATE, fc_old_content = Some t, fc_new_content = Some new,
                    fc_move_path = pa_move_path a\<rparr>))))"

fun patch_to_commit :: "patch_actions \<Rightarrow> file_texts \<Rightarrow> patch_error + commit" where
  "patch_to_commit [] orig = Inr []"
| "patch_to_commit (x # xs) orig =
     try_then (change_of orig x) (\<lambda>c. try_then (patch_to_commit xs orig) (\<lambda>cs. Inr (c # cs)))"

text \<open>The three callables, over a store \<open>'f\<close>; a failing one leaves the store as it returns it.\<close>

record 'f file_io =
  io_open :: "'f \<Rightarrow> string \<Rightarrow> patch_error + string"
  io_write :: "'f \<Rightarrow> string \<Rightarrow> string \<Rightarrow> patch_error option \<times> 'f"
  io_remove :: "'f \<Rightarrow> string \<Rightarrow> patch_error option \<times> 'f"

fun load_files :: "'f file_io \<Rightarrow> 'f \<Rightarrow> string list \<Rightarrow> patch_error + file_texts" where
  "load_files io f [] = Inr []"
| "load_files io f (path # paths) =
     (case io_open io f path of
        Inl e \<Rightarrow> Inl (if e = PatchRaised FileNotFoundError
                     then DiffError (''Delete File Error: Missing File: '' @ path) else e)
      | Inr t \<Rightarrow> try_then (load_files io f paths) (\<lambda>ts. Inr ((path, t) # ts)))"

definition apply_change :: "'f file_io \<Rightarrow> string \<times> file_change \<Rightarrow> 'f \<Rightarrow> patch_error option \<times> 'f" where
  "apply_change io entry f =
     (let (path, c) = entry
      in case fc_type c of
           DELETE \<Rightarrow> io_remove io f path
         | ADD \<Rightarrow>
             (case fc_new_content c of
                None \<Rightarrow> (Some (DiffError ''apply_commit: ADD change has no content''), f)
              | Some t \<Rightarrow> io_write io f path t)
         | UPDATE \<Rightarrow>
             (case fc_new_content c of
                None \<Rightarrow> (Some (DiffError ''apply_commit: UPDATE change has no content''), f)
              | Some t \<Rightarrow>
                  if fc_move_path c \<noteq> None \<and> fc_move_path c \<noteq> Some [] then
                    (case io_write io f (the (fc_move_path c)) t of
                       (Some e, f1) \<Rightarrow> (Some e, f1)
                     | (None, f1) \<Rightarrow> io_remove io f1 path)
                  else io_write io f path t))"

fun apply_commit :: "'f file_io \<Rightarrow> commit \<Rightarrow> 'f \<Rightarrow> patch_error option \<times> 'f" where
  "apply_commit io [] f = (None, f)"
| "apply_commit io (c # cs) f =
     (case apply_change io c f of (Some e, f1) \<Rightarrow> (Some e, f1) | (None, f1) \<Rightarrow> apply_commit io cs f1)"

definition process_patch ::
    "'f file_io \<Rightarrow> string \<Rightarrow> 'f \<Rightarrow> (patch_error + (string \<times> nat \<times> commit)) \<times> 'f" where
  "process_patch io text f =
     (if \<not> prefix ''*** Begin Patch'' text
      then (Inl (DiffError ''Invalid patch: must start with *** Begin Patch''), f)
      else
        (case try_then (load_files io f (identify_files_needed text)) (\<lambda>orig.
                try_then (text_to_patch text orig) (\<lambda>(actions, fuzz).
                  try_then (patch_to_commit actions orig) (\<lambda>commit. Inr (fuzz, commit)))) of
           Inl e \<Rightarrow> (Inl e, f)
         | Inr (fuzz, commit) \<Rightarrow>
             (case apply_commit io commit f of
                (Some e, f1) \<Rightarrow> (Inl e, f1)
              | (None, f1) \<Rightarrow> (Inr (''Done!'', fuzz, commit), f1))))"

end
