(* ===== verification/Text_Files.thy ===== *)
theory Text_Files
  imports Apply_Patch Permissions
begin

text \<open>
  Text files as Python's text mode shows them, shared by the patch tool and the file editor: the
  translation of line ends on reading and the lines of a text with their ends. On a POSIX host writing
  translates nothing. Also lemmas on splitting and joining lines.
\<close>

text \<open>Universal newlines: \<open>open(path)\<close> reads carriage returns and CR LF pairs as line feeds.\<close>

fun universal_newlines :: "string \<Rightarrow> string" where
  "universal_newlines [] = []"
| "universal_newlines (c # cs) =
     (if c = CHR 0x0D then
        CHR 0x0A # (case cs of [] \<Rightarrow> [] | d # ds \<Rightarrow> if d = CHR 0x0A then universal_newlines ds else universal_newlines cs)
      else c # universal_newlines cs)"

text \<open>Iterating over a text file opened that way: each line with its line feed, the last one maybe without.\<close>

fun text_lines :: "string \<Rightarrow> string list" where
  "text_lines [] = []"
| "text_lines (c # cs) =
     (if c = CHR 0x0A then [c] # text_lines cs
      else (case text_lines cs of [] \<Rightarrow> [[c]] | l # ls \<Rightarrow> (c # l) # ls))"

lemma concat_text_lines [simp]: "concat (text_lines t) = t"
  by (induction t rule: text_lines.induct) (auto split: list.splits)

lemma text_lines_nonempty: "l \<in> set (text_lines t) \<Longrightarrow> l \<noteq> []"
  by (induction t arbitrary: l rule: text_lines.induct) (auto split: if_splits list.splits)

lemma universal_newlines_plain: "CHR 0x0D \<notin> set t \<Longrightarrow> universal_newlines t = t"
  by (induction t rule: universal_newlines.induct) auto

lemma universal_newlines_no_return: "CHR 0x0D \<notin> set (universal_newlines t)"
  by (induction t rule: universal_newlines.induct) (auto split: list.splits)

lemma universal_newlines_idem [simp]: "universal_newlines (universal_newlines t) = universal_newlines t"
  by (rule universal_newlines_plain) (rule universal_newlines_no_return)

section \<open>Splitting and joining lines\<close>

lemma split_newline_nonempty [simp]: "split_newline t \<noteq> []"
  by (induction t) (auto split: list.splits)

lemma join_split_newline [simp]: "join newline (split_newline t) = t"
proof (induction t)
  case (Cons c cs)
  then show ?case by (cases "split_newline cs"; cases "tl (split_newline cs)") (auto simp: newline_def)
qed simp

lemma split_newline_plain: "CHR 0x0A \<notin> set l \<Longrightarrow> split_newline l = [l]"
  by (induction l) auto

lemma split_newline_append:
  "CHR 0x0A \<notin> set l \<Longrightarrow> split_newline (l @ newline @ t) = l # split_newline t"
proof (induction l)
  case Nil
  then show ?case by (cases "split_newline t") (auto simp: newline_def)
qed auto

lemma split_join_newline:
  "ls \<noteq> [] \<Longrightarrow> list_all (\<lambda>l. CHR 0x0A \<notin> set l) ls \<Longrightarrow> split_newline (join newline ls) = ls"
  by (induction "newline :: string" ls rule: join.induct) (auto simp: split_newline_plain split_newline_append)

section \<open>Stripping\<close>

lemma strip_rstrip: "strip s = dropWhile is_space (rstrip s)"
proof (cases "\<forall>c \<in> set s. is_space c")
  case True
  then have "dropWhile is_space s = []" and "dropWhile is_space (rev s) = []"
    by (simp_all add: dropWhile_eq_Nil_conv)
  then show ?thesis unfolding strip_def rstrip_def by (simp only:) simp
next
  case False
  then have "\<exists>c \<in> set s. \<not> is_space c" by simp
  from split_list_first_prop [OF this] obtain a x b
    where s: "s = a @ x # b" and a: "\<forall>c \<in> set a. is_space c" and x: "\<not> is_space x" by auto
  let ?u = "dropWhile is_space (rev b @ [x])"
  have u: "dropWhile is_space (rev b @ x # r) = ?u @ r" for r
    using x by (induction b rule: rev_induct) auto
  have "rev ?u \<noteq> [] \<and> hd (rev ?u) = x"
    using x by (induction b rule: rev_induct) (auto simp: hd_append)
  then have "dropWhile is_space (rev ?u) = rev ?u" using x by (cases "rev ?u") auto
  moreover have "rstrip s = a @ rev ?u" using u [of "rev a"] s by (simp add: rstrip_def)
  moreover have "strip s = rev ?u" using s a x by (simp add: strip_def dropWhile_append2)
  ultimately show ?thesis using a by (simp add: dropWhile_append2)
qed

lemma rstrip_strip: "rstrip a = rstrip b \<Longrightarrow> strip a = strip b"
  by (simp add: strip_rstrip)

end
