(* ===== verification/Apply_Patch_Laws.thy ===== *)
theory Apply_Patch_Laws
  imports Text_Files
begin

text \<open>
  What a patch does: an update replaces exactly the lines the patch names (up to white space at the ends
  of lines where the match was fuzzy), a patch changes only the files of the workspace it names and, when
  it reports success, has made every change that no later entry overwrites, added files are read back
  from their printed form, and three ways in which a patch loses or half-changes files.
\<close>

section \<open>Stores\<close>

text \<open>Reading and removing a file by its resolved path; a missing file fails.\<close>

definition plain_io :: "('k \<rightharpoonup> string) \<Rightarrow> 'k \<Rightarrow> patch_error + string" where
  "plain_io f k = (case f k of None \<Rightarrow> Inl (PatchRaised FileNotFoundError) | Some t \<Rightarrow> Inr (universal_newlines t))"

definition plain_remove :: "('k \<rightharpoonup> string) \<Rightarrow> 'k \<Rightarrow> patch_error option \<times> ('k \<rightharpoonup> string)" where
  "plain_remove f k =
     (if f k = None then (Some (PatchRaised FileNotFoundError), f) else (None, f(k := None)))"

text \<open>
  The callables of \<open>ApplyPatchExecutor\<close>: a path is resolved against the workspace (resolving is an
  argument) and refused outside it. Creating parent directories has no effect on texts, and the host
  refuses no write inside the workspace.
\<close>

definition resolve_path :: "(string \<Rightarrow> string list) \<Rightarrow> string list \<Rightarrow> string \<Rightarrow> patch_error + string list" where
  "resolve_path resolve workspace_root p =
     (let pth = (if \<not> prefix [slash] p then resolve (path_str workspace_root @ [slash] @ p) else resolve p)
      in if prefix workspace_root pth then Inr pth
         else Inl (DiffError ''Absolute or escaping paths are not allowed''))"

definition executor_io :: "(string \<Rightarrow> string list) \<Rightarrow> string list \<Rightarrow> (string list \<rightharpoonup> string) file_io" where
  "executor_io resolve workspace_root =
     \<lparr>io_open = (\<lambda>f p. try_then (resolve_path resolve workspace_root p) (\<lambda>fp. plain_io f fp)),
      io_write = (\<lambda>f p t. case resolve_path resolve workspace_root p of
         Inl e \<Rightarrow> (Some e, f) | Inr fp \<Rightarrow> (None, f(fp \<mapsto> t))),
      io_remove = (\<lambda>f p. case resolve_path resolve workspace_root p of
         Inl e \<Rightarrow> (Some e, f) | Inr fp \<Rightarrow> plain_remove f fp)\<rparr>"

text \<open>A host without links, where resolving only treats dots.\<close>

fun drop_dots :: "string list \<Rightarrow> string list \<Rightarrow> string list" where
  "drop_dots acc [] = rev acc"
| "drop_dots acc (c # cs) =
     (if c = [] \<or> c = ''.'' then drop_dots acc cs
      else if c = ''..'' then drop_dots (tl acc) cs
      else drop_dots (c # acc) cs)"

definition patch_text :: "string list \<Rightarrow> string" where
  "patch_text body = join newline (''*** Begin Patch'' # body @ [''*** End Patch''])"

text \<open>
  An update that moves a file to its own path writes the new text and then removes the file, and
  reports success.
\<close>

theorem move_to_itself_deletes:
  "fst (process_patch (executor_io (\<lambda>t. drop_dots [] (split_slash t)) [''ws''])
     (patch_text [''*** Update File: a'', ''*** Move to: a'', ''-x'', ''+y'']) [[''ws'', ''a''] \<mapsto> ''x'']) =
     Inr (''Done!'', 0, [(''a'', \<lparr>fc_type = UPDATE, fc_old_content = Some ''x'', fc_new_content = Some ''y'',
       fc_move_path = Some ''a''\<rparr>)]) \<and>
   snd (process_patch (executor_io (\<lambda>t. drop_dots [] (split_slash t)) [''ws''])
     (patch_text [''*** Update File: a'', ''*** Move to: a'', ''-x'', ''+y'']) [[''ws'', ''a''] \<mapsto> ''x''])
       [''ws'', ''a''] = None"
  by (intro conjI; code_simp)

text \<open>
  A file moved onto a path that the same patch adds is overwritten: its text is lost, and the patch
  reports success.
\<close>

theorem move_onto_added_file_loses:
  "fst (process_patch (executor_io (\<lambda>t. drop_dots [] (split_slash t)) [''ws''])
     (patch_text [''*** Update File: a'', ''*** Move to: b'', ''-x'', ''+y'', ''*** Add File: b'', ''+z'']) [[''ws'', ''a''] \<mapsto> ''x'']) = Inr (''Done!'', 0,
     [(''a'', \<lparr>fc_type = UPDATE, fc_old_content = Some ''x'', fc_new_content = Some ''y'', fc_move_path = Some ''b''\<rparr>),
      (''b'', \<lparr>fc_type = ADD, fc_old_content = None, fc_new_content = Some ''z'', fc_move_path = None\<rparr>)]) \<and>
   map (snd (process_patch (executor_io (\<lambda>t. drop_dots [] (split_slash t)) [''ws''])
     (patch_text [''*** Update File: a'', ''*** Move to: b'', ''-x'', ''+y'', ''*** Add File: b'', ''+z'']) [[''ws'', ''a''] \<mapsto> ''x'']))
       [[''ws'', ''a''], [''ws'', ''b'']] = [None, Some ''z'']"
  by (intro conjI; code_simp)

text \<open>
  A patch whose second entry writes outside the workspace is refused, but its first entry has been
  written by then.
\<close>

theorem refused_patch_half_applied:
  "fst (process_patch (executor_io (\<lambda>t. drop_dots [] (split_slash t)) [''ws''])
     (patch_text [''*** Update File: a'', ''-x'', ''+y'', ''*** Add File: ../b'', ''+z'']) [[''ws'', ''a''] \<mapsto> ''x'']) =
     Inl (DiffError ''Absolute or escaping paths are not allowed'') \<and>
   snd (process_patch (executor_io (\<lambda>t. drop_dots [] (split_slash t)) [''ws''])
     (patch_text [''*** Update File: a'', ''-x'', ''+y'', ''*** Add File: ../b'', ''+z'']) [[''ws'', ''a''] \<mapsto> ''x''])
       [''ws'', ''a''] = Some ''y''"
  by (intro conjI; code_simp)

section \<open>A section of an update\<close>

definition plus_lines :: "string list \<Rightarrow> string list" where
  "plus_lines ls = map tl (filter (prefix ''+'') ls)"

definition minus_lines :: "string list \<Rightarrow> string list" where
  "minus_lines ls = map tl (filter (prefix ''-'') ls)"

text \<open>A chunk sits in a list of lines: its deleted lines are found at its position, up to \<open>nm\<close>.\<close>

definition fits :: "(string \<Rightarrow> string) \<Rightarrow> string list \<Rightarrow> chunk \<Rightarrow> bool" where
  "fits nm lines c \<longleftrightarrow> 0 \<le> ck_orig_index c \<and>
     nat (ck_orig_index c) + length (ck_del_lines c) \<le> length lines \<and>
     map nm (take (length (ck_del_lines c)) (drop (nat (ck_orig_index c)) lines)) = map nm (ck_del_lines c)"

lemma plus_minus_simps [simp]:
  "plus_lines [] = []" "minus_lines [] = []"
  "plus_lines (a @ b) = plus_lines a @ plus_lines b" "minus_lines (a @ b) = minus_lines a @ minus_lines b"
  by (simp_all add: plus_lines_def minus_lines_def)

lemma section_line_signs:
  assumes "section_line s = Inr (Some (mode, x))"
  shows "plus_lines [s] = (if mode = AddLine then [x] else [])"
    and "minus_lines [s] = (if mode = DeleteLine then [x] else [])"
  using assms
  by (cases s; auto simp: section_line_def plus_lines_def minus_lines_def Let_def split: if_splits)+

lemma fits_append: "fits nm lines c \<Longrightarrow> fits nm (lines @ more_lines) c"
  by (auto simp: fits_def)

lemma flush_chunk_fits:
  assumes "old = k @ dels" and "\<forall>c \<in> set chunks. fits (\<lambda>s. s) old c" and "c \<in> set (flush_chunk old dels ins chunks)"
  shows "fits (\<lambda>s. s) old c"
  using assms by (auto simp: flush_chunk_def fits_def split: if_splits)

lemma flush_chunk_lines:
  "concat (map ck_del_lines (flush_chunk old dels ins chunks)) = concat (map ck_del_lines chunks) @ dels"
  "concat (map ck_ins_lines (flush_chunk old dels ins chunks)) = concat (map ck_ins_lines chunks) @ ins"
  by (auto simp: flush_chunk_def)

lemma peek_lines_spec:
  assumes "peek_lines ls index mode old dels ins chunks = Inr (i, old', dels', ins', chunks')"
    and "\<exists>k. old = k @ dels" and "mode = KeepLine \<Longrightarrow> dels = [] \<and> ins = []"
    and "\<forall>c \<in> set chunks. fits (\<lambda>s. s) old c"
  shows "concat (map ck_del_lines chunks') @ dels' =
      concat (map ck_del_lines chunks) @ dels @ minus_lines (take (i - index) ls) \<and>
    concat (map ck_ins_lines chunks') @ ins' =
      concat (map ck_ins_lines chunks) @ ins @ plus_lines (take (i - index) ls) \<and>
    (\<exists>k. old' = k @ dels') \<and> (\<forall>c \<in> set chunks'. fits (\<lambda>s. s) old' c)"
  using assms
proof (induction ls arbitrary: index mode old dels ins chunks)
  case (Cons s ls)
  show ?case
  proof (cases "\<exists>m x. section_line s = Inr (Some (m, x))")
    case False
    then show ?thesis using Cons.prems by (auto split: sum.splits option.splits prod.splits)
  next
    case True
    then obtain m x where sl: "section_line s = Inr (Some (m, x))" by auto
    note signs = section_line_signs [OF sl]
    have pm: "plus_lines (s # take n ls) = plus_lines [s] @ plus_lines (take n ls)"
      "minus_lines (s # take n ls) = minus_lines [s] @ minus_lines (take n ls)" for n
      by (simp_all add: plus_lines_def minus_lines_def)
    let ?rest = "\<lambda>mode old dels ins chunks. peek_lines ls (Suc index) mode old dels ins chunks"
    have less: "Suc index \<le> i" if "?rest m1 o1 d1 i1 c1 = Inr (i, old', dels', ins', chunks')" for m1 o1 d1 i1 c1
      using peek_lines_index [OF that] by simp
    have tk: "take (i - index) (s # ls) = s # take (i - Suc index) ls" if "Suc index \<le> i"
      using that by (simp add: take_Cons')
    show ?thesis
    proof (cases m)
      case AddLine
      have r: "?rest AddLine old dels (ins @ [x]) chunks = Inr (i, old', dels', ins', chunks')"
        using Cons.prems(1) sl AddLine by simp
      show ?thesis
        using Cons.IH [OF r Cons.prems(2) _ Cons.prems(4)] tk [OF less [OF r]] signs AddLine by (simp add: pm)
    next
      case DeleteLine
      have r: "?rest DeleteLine (old @ [x]) (dels @ [x]) ins chunks = Inr (i, old', dels', ins', chunks')"
        using Cons.prems(1) sl DeleteLine by simp
      have "\<exists>k. old @ [x] = k @ dels @ [x]" using Cons.prems(2) by auto
      then show ?thesis
        using Cons.IH [OF r] Cons.prems(4) fits_append tk [OF less [OF r]] signs DeleteLine by (simp add: pm)
    next
      case KeepLine
      define ch where "ch = (if mode = KeepLine then chunks else flush_chunk old dels ins chunks)"
      have r: "?rest KeepLine (old @ [x]) [] [] ch = Inr (i, old', dels', ins', chunks')"
        using Cons.prems(1,3) sl KeepLine by (cases "mode = KeepLine") (simp_all add: ch_def)
      have "\<forall>c \<in> set ch. fits (\<lambda>s. s) old c"
        using Cons.prems(4) flush_chunk_fits [OF _ Cons.prems(4)] Cons.prems(2) by (cases "mode = KeepLine") (auto simp: ch_def)
      then have "\<forall>c \<in> set ch. fits (\<lambda>s. s) (old @ [x]) c" using fits_append by blast
      then have "concat (map ck_del_lines chunks') @ dels' = concat (map ck_del_lines ch) @ minus_lines (take (i - Suc index) ls) \<and>
          concat (map ck_ins_lines chunks') @ ins' = concat (map ck_ins_lines ch) @ plus_lines (take (i - Suc index) ls) \<and>
          (\<exists>k. old' = k @ dels') \<and> (\<forall>c \<in> set chunks'. fits (\<lambda>s. s) old' c)"
        using Cons.IH [OF r] by simp
      moreover have "concat (map ck_del_lines ch) = concat (map ck_del_lines chunks) @ dels"
        "concat (map ck_ins_lines ch) = concat (map ck_ins_lines chunks) @ ins"
        using Cons.prems(3) by (cases "mode = KeepLine"; simp add: ch_def flush_chunk_lines)+
      ultimately show ?thesis using tk [OF less [OF r]] signs KeepLine by (simp add: pm)
    qed
  qed
qed simp

lemma peek_next_section_spec:
  assumes "peek_next_section lines index = Inr (old, chunks, i, eof)"
  shows "concat (map ck_del_lines chunks) = minus_lines (take (i - index) (drop index lines)) \<and>
    concat (map ck_ins_lines chunks) = plus_lines (take (i - index) (drop index lines)) \<and>
    (\<forall>c \<in> set chunks. fits (\<lambda>s. s) old c)"
proof -
  obtain j dels ins ch where p: "peek_lines (drop index lines) index KeepLine [] [] [] [] = Inr (j, old, dels, ins, ch)"
    and chunks: "chunks = flush_chunk old dels ins ch"
    and i: "i = j \<or> i = Suc j \<and> j < length lines \<and> lines ! j = ''*** End of File''"
    using assms by (auto simp: peek_next_section_def try_then_Inr Let_def split: if_splits)
  note spec = peek_lines_spec [OF p]
  have "index \<le> j" using peek_lines_index [OF p] by simp
  then have "take (Suc j - index) (drop index lines) = take (j - index) (drop index lines) @ [lines ! j]" if "j < length lines"
    using that by (simp add: Suc_diff_le take_Suc_conv_app_nth)
  then have "plus_lines (take (i - index) (drop index lines)) = plus_lines (take (j - index) (drop index lines))"
    "minus_lines (take (i - index) (drop index lines)) = minus_lines (take (j - index) (drop index lines))"
    using i by (auto simp: plus_lines_def minus_lines_def)
  moreover have "\<forall>c \<in> set chunks. fits (\<lambda>s. s) old c"
    using spec flush_chunk_fits unfolding chunks by (auto simp: flush_chunk_fits)
  ultimately show ?thesis using spec by (simp add: chunks flush_chunk_lines)
qed

section \<open>Finding the context\<close>

lemma length_py_slice_le: "length (py_slice xs i j) \<le> length xs"
  by (auto simp: py_slice_def Let_def)

lemma py_slice_nat:
  assumes "0 \<le> i" and "i \<le> j" and "i \<le> int (length xs)"
  shows "py_slice xs i j = take (nat (j - i)) (drop (nat i) xs)"
proof (cases "j \<le> int (length xs)")
  case False
  then have "py_slice xs i j = take (length xs - nat i) (drop (nat i) xs)"
    using assms by (simp add: py_slice_def Let_def nat_diff_distrib)
  moreover have "take (nat (j - i)) (drop (nat i) xs) = drop (nat i) xs" using assms False by simp
  ultimately show ?thesis by simp
qed (use assms in \<open>simp add: py_slice_def Let_def\<close>)

lemma find_Some_prop: "List.find P xs = Some x \<Longrightarrow> P x \<and> x \<in> set xs"
  by (induction xs) (auto split: if_splits)

text \<open>A match of the search is a place in the file, also when the search starts before the file.\<close>

definition found_at :: "(string \<Rightarrow> string) \<Rightarrow> string list \<Rightarrow> string list \<Rightarrow> int \<Rightarrow> bool" where
  "found_at nm lines context i \<longleftrightarrow> 0 \<le> i \<and> nat i + length context \<le> length lines \<and>
     map nm (take (length context) (drop (nat i) lines)) = map nm context"

lemma slice_found_at:
  assumes "map nm (py_slice lines i (i + int (length context))) = map nm context"
    and "i \<le> int (length lines) - 1" and "int (length lines) - int (length context) \<le> i \<or> 0 \<le> i" and "context \<noteq> []"
  shows "found_at nm lines context i"
proof -
  have len: "length (py_slice lines i (i + int (length context))) = length context"
    using assms(1) by (metis length_map)
  then have "length context \<le> length lines" using length_py_slice_le by metis
  then have "0 \<le> i" using assms(3) by auto
  then have s: "py_slice lines i (i + int (length context)) = take (length context) (drop (nat i) lines)"
    using py_slice_nat [of i "i + int (length context)" lines] assms(2) by simp
  have "length context \<le> length lines - nat i" using len unfolding s by simp
  then have "nat i + length context \<le> length lines" using \<open>0 \<le> i\<close> assms(2) by linarith
  then show ?thesis using \<open>0 \<le> i\<close> assms(1) unfolding s by (simp add: found_at_def)
qed

lemma found_at_strip: "found_at (\<lambda>s. s) lines context i \<Longrightarrow> found_at strip lines context i"
  by (auto simp: found_at_def)

lemma found_at_rstrip:
  assumes "found_at rstrip lines context i" shows "found_at strip lines context i"
proof -
  have "map (dropWhile is_space) (map rstrip a) = map strip a" for a by (simp add: strip_rstrip)
  then show ?thesis using assms unfolding found_at_def by metis
qed

lemma find_context_core_found:
  assumes "find_context_core lines context start = (i, fuzz)" and "i \<noteq> -1" and "context \<noteq> []"
    and "int (length lines) - int (length context) \<le> start \<or> 0 \<le> start"
  shows "found_at strip lines context i \<and> (fuzz = 0 \<longrightarrow> found_at (\<lambda>s. s) lines context i)"
proof -
  let ?s = "\<lambda>nm. List.find (\<lambda>i. map nm (py_slice lines i (i + int (length context))) = map nm context)
     [start..int (length lines) - 1]"
  have f: "found_at nm lines context j" if "?s nm = Some j" for nm j
    using find_Some_prop [OF that] slice_found_at [of nm lines j "context"] assms(3,4) by auto
  consider "?s (\<lambda>s. s) = Some i" | "?s rstrip = Some i" "fuzz = 1" | "?s strip = Some i" "fuzz = 100"
    using assms(1-3) by (auto simp: find_context_core_def Let_def split: option.splits)
  then show ?thesis using f found_at_strip found_at_rstrip by cases auto
qed

lemma find_context_found:
  assumes "find_context lines context (int start) eof = (i, fuzz)" and "i \<noteq> -1" and "start \<le> length lines"
  shows "found_at strip lines context i \<and> (fuzz = 0 \<longrightarrow> found_at (\<lambda>s. s) lines context i)"
proof (cases "context = []")
  case True
  then show ?thesis using assms
    by (auto simp: find_context_def find_context_core_def found_at_def Let_def split: if_splits)
next
  case False
  then show ?thesis
    using assms find_context_core_found [OF _ _ False]
    by (auto simp: find_context_def Let_def split: if_splits prod.splits)
qed

section \<open>Parsing an update\<close>

lemma fits_shift:
  assumes "fits (\<lambda>s. s) context c" and "found_at nm lines context i"
  shows "fits nm lines (c\<lparr>ck_orig_index := ck_orig_index c + i\<rparr>)"
proof -
  let ?k = "nat (ck_orig_index c)" and ?n = "length (ck_del_lines c)" and ?j = "nat i"
  have c: "0 \<le> ck_orig_index c" "?k + ?n \<le> length context" "take ?n (drop ?k context) = ck_del_lines c"
    using assms(1) by (auto simp: fits_def)
  have f: "0 \<le> i" "?j + length context \<le> length lines"
    "map nm (take (length context) (drop ?j lines)) = map nm context"
    using assms(2) by (auto simp: found_at_def)
  have "take ?n (drop (?k + ?j) lines) = take ?n (drop ?k (take (length context) (drop ?j lines)))"
    using c(2) by (simp add: drop_take min_def)
  then have "map nm (take ?n (drop (?k + ?j) lines)) = take ?n (drop ?k (map nm context))"
    using f(3) by (metis drop_map take_map)
  also have "\<dots> = map nm (ck_del_lines c)" using c(3) by (metis drop_map take_map)
  finally show ?thesis using c f by (simp add: fits_def nat_add_distrib)
qed

lemma seek_def_bound:
  assumes "seek_def lines d index = (index1, fuzz)" and "index \<le> length lines"
  shows "index1 \<le> length lines"
  using assms find_Some_prop [where xs = "[index..<length lines]"]
  by (fastforce simp: seek_def_def Let_def split: if_splits option.splits)

lemma header_line:
  assumes "pos < length plines" and "prefix ''@@'' (plines ! pos)" and "pos < e"
  shows "plus_lines (take (e - pos) (drop pos plines)) = plus_lines (take (e - Suc pos) (drop (Suc pos) plines))"
    and "minus_lines (take (e - pos) (drop pos plines)) = minus_lines (take (e - Suc pos) (drop (Suc pos) plines))"
proof -
  have "take (e - pos) (drop pos plines) = plines ! pos # take (e - Suc pos) (drop (Suc pos) plines)"
    using assms by (simp add: Cons_nth_drop_Suc [symmetric] take_Cons')
  then show "plus_lines (take (e - pos) (drop pos plines)) = plus_lines (take (e - Suc pos) (drop (Suc pos) plines))"
    "minus_lines (take (e - pos) (drop pos plines)) = minus_lines (take (e - Suc pos) (drop (Suc pos) plines))"
    using assms(2) by (auto simp: plus_lines_def minus_lines_def prefix_def)
qed

definition carries :: "string list \<Rightarrow> string list \<Rightarrow> nat \<Rightarrow> chunk list \<Rightarrow> bool" where
  "carries sec lines added cs \<longleftrightarrow>
     concat (map ck_del_lines cs) = minus_lines sec \<and> concat (map ck_ins_lines cs) = plus_lines sec \<and>
     list_all (fits strip lines) cs \<and> (added = 0 \<longrightarrow> list_all (fits (\<lambda>s. s) lines) cs)"

lemma update_section_spec:
  assumes "update_section plines lines pos index = Inr (pos', index', added, cs)"
    and "index \<le> length lines" and "pos < length plines"
  shows "index' \<le> length lines \<and> carries (take (pos' - pos) (drop pos plines)) lines added cs"
proof -
  define named where "named = prefix ''@@ '' (plines ! pos)"
  define pos1 where "pos1 = (if named then Suc pos else pos)"
  define def_str where "def_str = (if named then drop 3 (plines ! pos) else [])"
  define pos2 where "pos2 = (if def_str = [] \<and> plines ! pos1 = ''@@'' then Suc pos1 else pos1)"
  have in1: "\<not> (def_str = [] \<and> length plines \<le> pos1)"
    using assms(1) by (auto simp: update_section_def Let_def named_def pos1_def def_str_def)
  obtain index1 f1 where seek: "seek_def lines def_str index = (index1, f1)" by fastforce
  obtain ctx ch eof new_index f2 where peek: "peek_next_section plines pos2 = Inr (ctx, ch, pos', eof)"
    and find: "find_context lines ctx (int index1) eof = (new_index, f2)" "new_index \<noteq> -1"
    and res: "index' = nat new_index + length ctx" "added = f1 + f2"
      "cs = map (\<lambda>c. c\<lparr>ck_orig_index := ck_orig_index c + new_index\<rparr>) ch"
    using assms(1) in1 seek
    unfolding update_section_def Let_def named_def [symmetric] pos1_def [symmetric] def_str_def [symmetric] pos2_def [symmetric]
    by (auto simp: try_then_Inr pos2_def split: if_splits prod.splits)
  have found: "found_at strip lines ctx new_index" "f2 = 0 \<longrightarrow> found_at (\<lambda>s. s) lines ctx new_index"
    using find_context_found [OF find seek_def_bound [OF seek assms(2)]] by auto
  note sec = peek_next_section_spec [OF peek] and adv = peek_next_section_advances [OF peek]
  have head1: "plus_lines (take (pos' - pos) (drop pos plines)) = plus_lines (take (pos' - pos1) (drop pos1 plines))"
    "minus_lines (take (pos' - pos) (drop pos plines)) = minus_lines (take (pos' - pos1) (drop pos1 plines))"
    using header_line [of pos plines pos'] assms(3) adv
    by (auto simp: pos1_def pos2_def named_def prefix_def split: if_splits)
  have head2: "plus_lines (take (pos' - pos1) (drop pos1 plines)) = plus_lines (take (pos' - pos2) (drop pos2 plines))"
    "minus_lines (take (pos' - pos1) (drop pos1 plines)) = minus_lines (take (pos' - pos2) (drop pos2 plines))"
    using header_line [of pos1 plines pos'] in1 adv by (auto simp: pos2_def split: if_splits)
  have keep: "concat (map ck_del_lines cs) = concat (map ck_del_lines ch)" "concat (map ck_ins_lines cs) = concat (map ck_ins_lines ch)"
    by (simp_all add: res comp_def)
  have "list_all (fits strip lines) cs" "added = 0 \<longrightarrow> list_all (fits (\<lambda>s. s) lines) cs"
    using sec found fits_shift by (auto simp: res list_all_iff)
  moreover have "index' \<le> length lines" using found(1) by (simp add: res found_at_def)
  ultimately show ?thesis using sec head1 head2 keep by (simp add: carries_def)
qed

lemma carries_append:
  assumes "carries s1 lines a cs" and "carries s2 lines b ds"
  shows "carries (s1 @ s2) lines (a + b) (cs @ ds)"
  using assms by (auto simp: carries_def)

lemma update_sections_spec:
  assumes "update_sections plines lines pos index fuzz chunks = Inr (pos', fuzz', chunks')"
    and "index \<le> length lines"
  shows "\<exists>cs. chunks' = chunks @ cs \<and> fuzz \<le> fuzz' \<and> pos \<le> pos' \<and>
    carries (take (pos' - pos) (drop pos plines)) lines (fuzz' - fuzz) cs"
  using assms
proof (induction plines lines pos index fuzz chunks rule: update_sections.induct)
  case (1 plines lines pos index fuzz chunks)
  let ?done = "length plines \<le> pos \<or> starts_any (FILE_MARKERS @ [''*** End of File'']) (plines ! pos)"
  show ?case
  proof (cases ?done)
    case True
    then show ?thesis using 1(2) by (simp add: update_sections.simps [of plines] carries_def)
  next
    case False
    then obtain p1 i1 added cs where sec: "update_section plines lines pos index = Inr (p1, i1, added, cs)"
      and rest: "update_sections plines lines p1 i1 (fuzz + added) (chunks @ cs) = Inr (pos', fuzz', chunks')"
      using 1(2) by (auto simp: update_sections.simps [of plines lines pos] split: sum.splits prod.splits)
    note spec = update_section_spec [OF sec 1(3)] and adv = update_section_advances [OF sec]
    obtain ds where ds: "chunks' = (chunks @ cs) @ ds" "fuzz + added \<le> fuzz'" "p1 \<le> pos'"
      "carries (take (pos' - p1) (drop p1 plines)) lines (fuzz' - (fuzz + added)) ds"
      using 1(1) [OF False sec refl refl refl rest] spec False by auto
    have "take (pos' - pos) (drop pos plines) = take (p1 - pos) (drop pos plines) @ take (pos' - p1) (drop p1 plines)"
      using adv ds(3) take_add [of "p1 - pos" "pos' - p1" "drop pos plines"] by simp
    then have "carries (take (pos' - pos) (drop pos plines)) lines (added + (fuzz' - (fuzz + added))) (cs @ ds)"
      using carries_append [OF _ ds(4)] spec False by simp
    then show ?thesis using ds adv by (intro exI [of _ "cs @ ds"]) simp
  qed
qed

section \<open>The new text\<close>

text \<open>The lines a chunk takes out of a file.\<close>

definition taken :: "string list \<Rightarrow> chunk \<Rightarrow> string list" where
  "taken lines c = take (length (ck_del_lines c)) (drop (nat (ck_orig_index c)) lines)"

lemma taken_fits:
  "list_all (fits nm lines) cs \<Longrightarrow> map nm (concat (map (taken lines) cs)) = map nm (concat (map ck_del_lines cs))"
  by (induction cs) (auto simp: fits_def taken_def)

lemma apply_chunks_spec:
  assumes "apply_chunks lines cs (dest, int n, int (length dest)) = Inr (dest', n', m')"
    and "n \<le> length lines" and "list_all (fits strip lines) cs"
  shows "\<exists>ps k. n' = int k \<and> n \<le> k \<and> k \<le> length lines \<and> m' = int (length dest') \<and>
    dest' = dest @ concat (map (\<lambda>(a, d, i). a @ i) ps) \<and>
    take (k - n) (drop n lines) = concat (map (\<lambda>(a, d, i). a @ d) ps) \<and>
    map (\<lambda>(a, d, i). i) ps = map ck_ins_lines cs \<and> map (\<lambda>(a, d, i). d) ps = map (taken lines) cs"
  using assms
proof (induction cs arbitrary: dest n)
  case Nil
  then show ?case by (intro exI [of _ "[]"] exI [of _ n]) auto
next
  case (Cons c cs)
  let ?i = "nat (ck_orig_index c)" and ?e = "nat (ck_orig_index c) + length (ck_del_lines c)"
  have c: "0 \<le> ck_orig_index c" "?e \<le> length lines" and order: "n \<le> ?i"
    using Cons.prems by (auto simp: fits_def split: if_splits)
  let ?a = "take (?i - n) (drop n lines)"
  have a: "py_slice lines (int n) (ck_orig_index c) = ?a" "length ?a = ?i - n"
    using py_slice_nat [of "int n" "ck_orig_index c" lines] c order Cons.prems(2)
    by (auto simp: nat_diff_distrib)
  have "apply_chunks lines cs (dest @ ?a @ ck_ins_lines c, int ?e, int (length (dest @ ?a @ ck_ins_lines c))) = Inr (dest', n', m')"
    using Cons.prems(1) a c order by (simp add: algebra_simps split: if_splits)
  from Cons.IH [OF this c(2)] Cons.prems(3) obtain ps k where ps: "n' = int k" "?e \<le> k" "k \<le> length lines"
    "m' = int (length dest')" "dest' = (dest @ ?a @ ck_ins_lines c) @ concat (map (\<lambda>(a, d, i). a @ i) ps)"
    "take (k - ?e) (drop ?e lines) = concat (map (\<lambda>(a, d, i). a @ d) ps)"
    "map (\<lambda>(a, d, i). i) ps = map ck_ins_lines cs" "map (\<lambda>(a, d, i). d) ps = map (taken lines) cs"
    by auto
  have "take (k - n) (drop n lines) = take (?e - n) (drop n lines) @ take (k - ?e) (drop ?e lines)"
    using ps(2) order take_add [of "?e - n" "k - ?e" "drop n lines"] by simp
  also have "take (?e - n) (drop n lines) = ?a @ taken lines c"
    using order take_add [of "?i - n" "length (ck_del_lines c)" "drop n lines"] by (simp add: taken_def)
  finally show ?case
    using ps order by (intro exI [of _ "(?a, taken lines c, ck_ins_lines c) # ps"] exI [of _ k]) simp
qed

text \<open>
  C13. An update changes a file exactly as its part of the patch says. The lines of the old text are cut
  into pieces, each a run of kept lines followed by removed ones, and a rest; in the new text
  the removed lines of each piece are replaced by inserted ones. All inserted lines together are the lines marked
  with a plus in that part of the patch, and all removed lines are those marked with a minus, up to
  white space at both ends of a line, and literally so when the parser added no fuzz.
\<close>

theorem update_applies_marked_lines:
  assumes "parse_update_file t p = Inr (a, p')" and "get_updated_file t a = Inr new"
    and "sec = take (pp_index p' - pp_index p) (drop (pp_index p) (pp_lines p))"
  shows "\<exists>ps rest. split_newline t = concat (map (\<lambda>(kept, del, ins). kept @ del) ps) @ rest \<and>
    new = join newline (concat (map (\<lambda>(kept, del, ins). kept @ ins) ps) @ rest) \<and>
    concat (map (\<lambda>(kept, del, ins). ins) ps) = plus_lines sec \<and>
    map strip (concat (map (\<lambda>(kept, del, ins). del) ps)) = map strip (minus_lines sec) \<and>
    (pp_fuzz p' = pp_fuzz p \<longrightarrow> concat (map (\<lambda>(kept, del, ins). del) ps) = minus_lines sec)"
proof -
  let ?lines = "split_newline t"
  obtain cs where cs: "pa_chunks a = cs" "pp_fuzz p \<le> pp_fuzz p'"
    "carries sec ?lines (pp_fuzz p' - pp_fuzz p) cs"
    using assms(1,3) update_sections_spec [of "pp_lines p" ?lines "pp_index p" 0 "pp_fuzz p" "[]"]
    by (auto simp: parse_update_file_def try_then_Inr)
  obtain dest n m where ap: "apply_chunks ?lines cs ([], 0, 0) = Inr (dest, n, m)"
    and new: "new = join newline (dest @ py_slice ?lines n (int (length ?lines)))"
    using assms(2) cs(1) by (auto simp: get_updated_file_def try_then_Inr Let_def split: if_splits)
  obtain ps k where ps: "n = int k" "k \<le> length ?lines" "dest = concat (map (\<lambda>(a, d, i). a @ i) ps)"
    "take k ?lines = concat (map (\<lambda>(a, d, i). a @ d) ps)" "map (\<lambda>(a, d, i). i) ps = map ck_ins_lines cs"
    "map (\<lambda>(a, d, i). d) ps = map (taken ?lines) cs"
    using apply_chunks_spec [of ?lines cs "[]" 0 dest n m] ap cs(3) by (auto simp: carries_def)
  have rest: "py_slice ?lines n (int (length ?lines)) = drop k ?lines"
    using py_slice_nat [of n "int (length ?lines)" ?lines] ps(1,2) by simp
  have "?lines = concat (map (\<lambda>(a, d, i). a @ d) ps) @ drop k ?lines" using ps(4) by (metis append_take_drop_id)
  moreover have "map strip (concat (map (taken ?lines) cs)) = map strip (minus_lines sec)"
    using taken_fits [of strip ?lines cs] cs(3) by (simp add: carries_def)
  moreover have "concat (map (taken ?lines) cs) = minus_lines sec" if "pp_fuzz p' = pp_fuzz p"
    using taken_fits [of "\<lambda>s. s" ?lines cs] cs(3) that by (simp add: carries_def)
  ultimately show ?thesis
    using ps(3,5,6) cs(3) new rest by (intro exI [of _ ps] exI [of _ "drop k ?lines"]) (simp add: carries_def)
qed

definition sample_parser :: patch_parser where
  "sample_parser = \<lparr>pp_files = [], pp_lines = ['' a'', ''-b'', ''+c'', ''*** End Patch''], pp_index = 0,
     pp_actions = [], pp_fuzz = 0\<rparr>"

theorem update_applies_marked_lines_witness:
  "\<exists>a p'. parse_update_file (join newline [''a'', ''b'', ''d'']) sample_parser = Inr (a, p') \<and>
     get_updated_file (join newline [''a'', ''b'', ''d'']) a = Inr (join newline [''a'', ''c'', ''d'']) \<and>
     (\<exists>ps rest. split_newline (join newline [''a'', ''b'', ''d'']) = concat (map (\<lambda>(kept, del, ins). kept @ del) ps) @ rest \<and>
        concat (map (\<lambda>(kept, del, ins). ins) ps) = [''c''] \<and> concat (map (\<lambda>(kept, del, ins). del) ps) = [''b''])"
proof -
  let ?t = "join newline [''a'', ''b'', ''d'']"
  let ?a = "\<lparr>pa_type = UPDATE, pa_new_file = None,
    pa_chunks = [\<lparr>ck_orig_index = 1, ck_del_lines = [''b''], ck_ins_lines = [''c'']\<rparr>], pa_move_path = None\<rparr>"
  have parse: "parse_update_file ?t sample_parser = Inr (?a, sample_parser\<lparr>pp_index := 3\<rparr>)" by code_simp
  have get: "get_updated_file ?t ?a = Inr (join newline [''a'', ''c'', ''d''])" by code_simp
  have "plus_lines [''+c''] = [''c'']" "minus_lines [''-b''] = [''b'']" by code_simp+
  then show ?thesis
    using update_applies_marked_lines [OF parse get refl] parse get
    by (fastforce simp: sample_parser_def plus_lines_def minus_lines_def)
qed

section \<open>Whole patches\<close>

definition entry_ok :: "file_texts \<Rightarrow> string \<times> patch_action \<Rightarrow> bool" where
  "entry_ok files entry \<longleftrightarrow>
     (pa_type (snd entry) = ADD \<longrightarrow> pa_new_file (snd entry) \<noteq> None) \<and>
     (pa_type (snd entry) \<noteq> ADD \<longrightarrow> map_of files (fst entry) \<noteq> None)"

definition actions_ok :: "file_texts \<Rightarrow> patch_actions \<Rightarrow> bool" where
  "actions_ok files as \<longleftrightarrow> distinct (map fst as) \<and> list_all (entry_ok files) as"

lemma read_str_fields:
  assumes "read_str pre p = Inr (s, p')"
  shows "pp_files p' = pp_files p" "pp_actions p' = pp_actions p"
  using assms by (auto simp: read_str_def Let_def split: if_splits)

lemma add_lines_fields:
  assumes "add_lines p acc = Inr (ls, p')"
  shows "pp_files p' = pp_files p" "pp_actions p' = pp_actions p"
proof -
  have p': "p' = p\<lparr>pp_index := pp_index p'\<rparr>" using add_lines_reads [OF assms] by blast
  show "pp_files p' = pp_files p" "pp_actions p' = pp_actions p" by (subst p', simp)+
qed

lemma actions_ok_snoc:
  assumes "actions_ok files (pp_actions p)" and "\<not> known_path path p" and "entry_ok files (path, a)"
  shows "actions_ok files (pp_actions p @ [(path, a)])"
  using assms by (auto simp: actions_ok_def known_path_def)

lemma parse_update_ok:
  assumes "parse_update path p = Inr p'" and "actions_ok (pp_files p) (pp_actions p)"
  shows "pp_files p' = pp_files p \<and> actions_ok (pp_files p) (pp_actions p')"
proof -
  obtain m p1 t a p2 where r: "read_str ''*** Move to: '' p = Inr (m, p1)" "map_of (pp_files p1) path = Some t"
    "parse_update_file t p1 = Inr (a, p2)" "\<not> known_path path p" and p': "p' = add_action path (a\<lparr>pa_move_path := Some m\<rparr>) p2"
    using parse_updateD [OF assms(1)] by metis
  have "pp_files p2 = pp_files p1" "pp_actions p2 = pp_actions p1" "pa_type a = UPDATE"
    using r(3) by (auto simp: parse_update_file_def try_then_Inr)
  then show ?thesis
    using actions_ok_snoc [OF assms(2) r(4)] r(2) read_str_fields [OF r(1)] p' by (simp add: entry_ok_def)
qed

lemma parse_delete_ok:
  assumes "parse_delete path p = Inr p'" and "actions_ok (pp_files p) (pp_actions p)"
  shows "pp_files p' = pp_files p \<and> actions_ok (pp_files p) (pp_actions p')"
  using assms actions_ok_snoc [OF assms(2)] by (auto simp: parse_delete_def entry_ok_def split: if_splits)

lemma parse_add_ok:
  assumes "parse_add path p = Inr p'" and "actions_ok (pp_files p) (pp_actions p)"
  shows "pp_files p' = pp_files p \<and> actions_ok (pp_files p) (pp_actions p')"
proof -
  obtain ls a p1 where "add_lines p [] = Inr (ls, p1)" "\<not> known_path path p" and p': "p' = add_action path a p1"
    and a: "pa_type a = ADD" "pa_new_file a = Some (join newline ls)"
    using assms(1) by (auto simp: parse_add_def parse_add_file_def try_then_Inr split: if_splits)
  then show ?thesis
    using actions_ok_snoc [OF assms(2), of path a] add_lines_fields by (simp add: entry_ok_def)
qed

lemma parse_entry_ok:
  assumes "parse_entry p = Inr p'" and "actions_ok (pp_files p) (pp_actions p)"
  shows "pp_files p' = pp_files p \<and> actions_ok (pp_files p) (pp_actions p')"
proof -
  obtain s1 p1 where r1: "read_str ''*** Update File: '' p = Inr (s1, p1)"
    and e1: "s1 \<noteq> [] \<Longrightarrow> parse_update s1 p1 = Inr p'"
    using assms(1) by (auto simp: parse_entry_def try_then_Inr split: if_splits)
  note f1 = read_str_fields [OF r1]
  show ?thesis
  proof (cases "s1 = []")
    case False
    then show ?thesis using parse_update_ok [OF e1] assms(2) f1 by simp
  next
    case s1: True
    then obtain s2 p2 where r2: "read_str ''*** Delete File: '' p1 = Inr (s2, p2)"
      and e2: "s2 \<noteq> [] \<Longrightarrow> parse_delete s2 p2 = Inr p'"
      using assms(1) r1 by (auto simp: parse_entry_def try_then_Inr split: if_splits)
    note f2 = read_str_fields [OF r2]
    show ?thesis
    proof (cases "s2 = []")
      case False
      then show ?thesis using parse_delete_ok [OF e2] assms(2) f1 f2 by simp
    next
      case s2: True
      then obtain s3 p3 where r3: "read_str ''*** Add File: '' p2 = Inr (s3, p3)" "parse_add s3 p3 = Inr p'"
        using assms(1) s1 r1 r2 by (auto simp: parse_entry_def try_then_Inr split: if_splits)
      then show ?thesis using parse_add_ok [OF r3(2)] assms(2) f1 f2 read_str_fields [OF r3(1)] by simp
    qed
  qed
qed

lemma parse_entries_ok:
  "parse_entries p = Inr p' \<Longrightarrow> actions_ok (pp_files p) (pp_actions p) \<Longrightarrow>
   pp_files p' = pp_files p \<and> actions_ok (pp_files p) (pp_actions p')"
proof (induction p rule: parse_entries.induct)
  case (1 p)
  show ?case
  proof (cases "is_done [''*** End Patch''] p")
    case True
    then show ?thesis using 1 by (simp add: parse_entries.simps)
  next
    case False
    then obtain p1 where "parse_entry p = Inr p1" "parse_entries p1 = Inr p'"
      using 1(2) by (auto simp: parse_entries.simps [of p] split: sum.splits)
    then show ?thesis using 1(1) [OF False] parse_entry_ok [OF _ 1(3)] by metis
  qed
qed

lemma text_to_patch_ok:
  assumes "text_to_patch t orig = Inr (as, fuzz)" shows "actions_ok orig as"
proof -
  let ?p = "\<lparr>pp_files = orig, pp_lines = split_newline (strip t), pp_index = 1, pp_actions = [], pp_fuzz = 0\<rparr>"
  obtain p1 where "parse_entries ?p = Inr p1" "as = pp_actions p1"
    using assms by (auto simp: text_to_patch_def parse_def try_then_Inr Let_def split: if_splits)
  then show ?thesis using parse_entries_ok [of ?p p1] by (simp add: actions_ok_def)
qed

text \<open>The names a patch can refer to files by: what follows one of the markers in a line of its text.\<close>

definition named_paths :: "string \<Rightarrow> string set" where
  "named_paths t = {name. \<exists>marker \<in> {''*** Update File: '', ''*** Delete File: '', ''*** Add File: '', ''*** Move to: ''}.
     marker @ name \<in> set (split_newline (strip t))}"

definition moves_to :: "string option \<Rightarrow> string set" where
  "moves_to m = (case m of None \<Rightarrow> {} | Some name \<Rightarrow> if name = [] then {} else {name})"

definition entry_named :: "string list \<Rightarrow> string \<times> patch_action \<Rightarrow> bool" where
  "entry_named lines entry \<longleftrightarrow> (\<forall>name \<in> insert (fst entry) (moves_to (pa_move_path (snd entry))).
     \<exists>marker \<in> {''*** Update File: '', ''*** Delete File: '', ''*** Add File: '', ''*** Move to: ''}. marker @ name \<in> set lines)"

lemma read_str_names:
  assumes "read_str pre p = Inr (s, p1)"
  shows "pp_lines p1 = pp_lines p" and "pp_actions p1 = pp_actions p" and "s \<noteq> [] \<Longrightarrow> pre @ s \<in> set (pp_lines p)"
proof -
  show "pp_lines p1 = pp_lines p" "pp_actions p1 = pp_actions p"
    using assms by (auto simp: read_str_def Let_def split: if_splits)
  assume "s \<noteq> []"
  then have "pp_index p < length (pp_lines p)" "prefix pre (pp_lines p ! pp_index p)" "s = drop (length pre) (pp_lines p ! pp_index p)"
    using assms by (auto simp: read_str_def Let_def split: if_splits)
  then show "pre @ s \<in> set (pp_lines p)" by (metis append_eq_conv_conj nth_mem prefix_def)
qed

lemma parse_update_names:
  assumes "parse_update path p = Inr p1" and "''*** Update File: '' @ path \<in> set (pp_lines p)"
    and "list_all (entry_named (pp_lines p)) (pp_actions p)"
  shows "pp_lines p1 = pp_lines p \<and> list_all (entry_named (pp_lines p)) (pp_actions p1)"
proof -
  obtain m q t a p2 where r: "read_str ''*** Move to: '' p = Inr (m, q)" "parse_update_file t q = Inr (a, p2)"
    and p1: "p1 = add_action path (a\<lparr>pa_move_path := Some m\<rparr>) p2" using parse_updateD [OF assms(1)] by metis
  note R = read_str_names [OF r(1)]
  have "entry_named (pp_lines p) (path, a\<lparr>pa_move_path := Some m\<rparr>)"
    using R(3) assms(2) by (auto simp: entry_named_def moves_to_def)
  moreover have "pp_actions p2 = pp_actions q" using r(2) by (auto simp: parse_update_file_def try_then_Inr)
  ultimately show ?thesis using parse_update_file_reads [OF r(2)] R(1,2) p1 assms(3) by simp
qed

lemma parse_delete_names:
  assumes "parse_delete path p = Inr p1" and "''*** Delete File: '' @ path \<in> set (pp_lines p)"
    and "list_all (entry_named (pp_lines p)) (pp_actions p)"
  shows "pp_lines p1 = pp_lines p \<and> list_all (entry_named (pp_lines p)) (pp_actions p1)"
  using assms by (auto simp: parse_delete_def entry_named_def moves_to_def split: if_splits)

lemma parse_add_names:
  assumes "parse_add path p = Inr p1" and "''*** Add File: '' @ path \<in> set (pp_lines p)"
    and "list_all (entry_named (pp_lines p)) (pp_actions p)"
  shows "pp_lines p1 = pp_lines p \<and> list_all (entry_named (pp_lines p)) (pp_actions p1)"
proof -
  obtain ls a q where q: "add_lines p [] = Inr (ls, q)" and p1: "p1 = add_action path a q" and a: "pa_move_path a = None"
    using assms(1) by (auto simp: parse_add_def parse_add_file_def try_then_Inr split: if_splits)
  have "q = p\<lparr>pp_index := pp_index q\<rparr>" using add_lines_reads [OF q] by blast
  then have "pp_lines q = pp_lines p" by (metis patch_parser.select_convs(2) patch_parser.surjective patch_parser.update_convs(3))
  then show ?thesis using p1 a assms(2,3) add_lines_fields [OF q] by (auto simp: entry_named_def moves_to_def)
qed

lemma parse_entry_names:
  assumes "parse_entry p = Inr p'" and "list_all (entry_named (pp_lines p)) (pp_actions p)"
  shows "pp_lines p' = pp_lines p \<and> list_all (entry_named (pp_lines p)) (pp_actions p')"
proof -
  obtain s1 p1 where r1: "read_str ''*** Update File: '' p = Inr (s1, p1)"
    and e1: "s1 \<noteq> [] \<Longrightarrow> parse_update s1 p1 = Inr p'"
    using assms(1) by (auto simp: parse_entry_def try_then_Inr split: if_splits)
  note f1 = read_str_names [OF r1]
  show ?thesis
  proof (cases "s1 = []")
    case False
    then show ?thesis using parse_update_names [OF e1] assms(2) f1 by simp
  next
    case s1: True
    then obtain s2 p2 where r2: "read_str ''*** Delete File: '' p1 = Inr (s2, p2)"
      and e2: "s2 \<noteq> [] \<Longrightarrow> parse_delete s2 p2 = Inr p'"
      using assms(1) r1 by (auto simp: parse_entry_def try_then_Inr split: if_splits)
    note f2 = read_str_names [OF r2]
    show ?thesis
    proof (cases "s2 = []")
      case False
      then show ?thesis using parse_delete_names [OF e2] assms(2) f1 f2 by simp
    next
      case s2: True
      then obtain s3 p3 where r3: "read_str ''*** Add File: '' p2 = Inr (s3, p3)" "parse_add s3 p3 = Inr p'" "s3 \<noteq> []"
        using assms(1) s1 r1 r2 by (auto simp: parse_entry_def try_then_Inr split: if_splits)
      then show ?thesis using parse_add_names [OF r3(2)] assms(2) f1 f2 read_str_names [OF r3(1)] by simp
    qed
  qed
qed

lemma parse_entries_names:
  "parse_entries p = Inr p' \<Longrightarrow> list_all (entry_named (pp_lines p)) (pp_actions p) \<Longrightarrow>
   pp_lines p' = pp_lines p \<and> list_all (entry_named (pp_lines p)) (pp_actions p')"
proof (induction p rule: parse_entries.induct)
  case (1 p)
  show ?case
  proof (cases "is_done [''*** End Patch''] p")
    case True
    then show ?thesis using 1 by (simp add: parse_entries.simps)
  next
    case False
    then obtain p1 where "parse_entry p = Inr p1" "parse_entries p1 = Inr p'"
      using 1(2) by (auto simp: parse_entries.simps [of p] split: sum.splits)
    then show ?thesis using 1(1) [OF False] parse_entry_names [OF _ 1(3)] by metis
  qed
qed

text \<open>The files a change of a commit refers to.\<close>

definition change_names :: "string \<times> file_change \<Rightarrow> string set" where
  "change_names x = insert (fst x) (moves_to (fc_move_path (snd x)))"

lemma change_of_names: "change_of orig x = Inr c \<Longrightarrow> fst c = fst x \<and> change_names c \<subseteq> insert (fst x) (moves_to (pa_move_path (snd x)))"
  by (cases x; cases "pa_type (snd x)")
     (auto simp: change_of_def change_names_def moves_to_def try_then_Inr split: option.splits)

lemma text_to_patch_names:
  assumes "text_to_patch t orig = Inr (as, fuzz)" and "x \<in> set as"
  shows "insert (fst x) (moves_to (pa_move_path (snd x))) \<subseteq> named_paths t"
proof -
  let ?p = "\<lparr>pp_files = orig, pp_lines = split_newline (strip t), pp_index = 1, pp_actions = [], pp_fuzz = 0\<rparr>"
  obtain p1 where "parse_entries ?p = Inr p1" "as = pp_actions p1"
    using assms(1) by (auto simp: text_to_patch_def parse_def try_then_Inr Let_def split: if_splits)
  then have "entry_named (split_newline (strip t)) x" using parse_entries_names [of ?p p1] assms(2) by (auto simp: list_all_iff)
  then show ?thesis unfolding entry_named_def named_paths_def by blast
qed

lemma patch_to_commit_names:
  "patch_to_commit as orig = Inr cs \<Longrightarrow> map fst cs = map fst as \<and>
     (\<forall>c \<in> set cs. \<exists>x \<in> set as. change_names c \<subseteq> insert (fst x) (moves_to (pa_move_path (snd x))))"
proof (induction as arbitrary: cs)
  case (Cons x as)
  then obtain c cs' where "change_of orig x = Inr c" "patch_to_commit as orig = Inr cs'" "cs = c # cs'"
    by (auto simp: try_then_Inr)
  then show ?case using Cons(1) change_of_names [of orig x c] by auto
qed simp

text \<open>The resolved files of the workspace that a change refers to.\<close>

definition touched :: "(string \<Rightarrow> string list) \<Rightarrow> string list \<Rightarrow> string \<times> file_change \<Rightarrow> string list set" where
  "touched resolve ws x = {q. \<exists>name \<in> change_names x. resolve_path resolve ws name = Inr q}"

lemma apply_change_touched:
  assumes "apply_change (executor_io resolve ws) x f = (e, f1)" and "q \<notin> touched resolve ws x"
  shows "f1 q = f q"
proof -
  obtain path c where x: "x = (path, c)" by fastforce
  show ?thesis
    using assms unfolding x
    by (cases "fc_type c"; cases "fc_move_path c")
       (auto simp: apply_change_def executor_io_def plain_remove_def touched_def change_names_def moves_to_def
          split: option.splits sum.splits if_splits prod.splits)
qed

lemma apply_commit_touched:
  "apply_commit (executor_io resolve ws) cs f = (e, f1) \<Longrightarrow> \<forall>x \<in> set cs. q \<notin> touched resolve ws x \<Longrightarrow> f1 q = f q"
proof (induction cs arbitrary: f)
  case (Cons c cs)
  obtain r g where g: "apply_change (executor_io resolve ws) c f = (r, g)" by fastforce
  then have "g q = f q" using Cons(3) by (intro apply_change_touched) auto
  then show ?case using Cons g by (cases r) auto
qed simp

lemma process_patch_cases:
  assumes "process_patch io t f = (r, f1)"
  shows "(f1 = f \<and> (\<exists>e. r = Inl e)) \<or>
    (\<exists>orig as fuzz cs. load_files io f (identify_files_needed t) = Inr orig \<and> text_to_patch t orig = Inr (as, fuzz) \<and>
       patch_to_commit as orig = Inr cs \<and>
       ((\<exists>e. apply_commit io cs f = (Some e, f1) \<and> r = Inl e) \<or> (apply_commit io cs f = (None, f1) \<and> r = Inr (''Done!'', fuzz, cs))))"
proof (cases "prefix ''*** Begin Patch'' t")
  case True
  let ?r = "try_then (load_files io f (identify_files_needed t)) (\<lambda>orig.
    try_then (text_to_patch t orig) (\<lambda>(actions, fuzz).
      try_then (patch_to_commit actions orig) (\<lambda>commit. Inr (fuzz, commit))))"
  show ?thesis
  proof (cases ?r)
    case (Inr b)
    then show ?thesis using assms True
      by (cases b) (auto simp: process_patch_def try_then_Inr split: prod.splits option.splits)
  qed (use assms True in \<open>auto simp: process_patch_def\<close>)
qed (use assms in \<open>auto simp: process_patch_def\<close>)

text \<open>
  C17. A patch changes nothing but the files it names, and those only inside the workspace: whatever its text and
  whether it is applied or refused, a file that differs afterwards has a path inside the workspace root
  and is what a name of the patch, a moved file's new name included, resolves to. A patch that cannot be
  parsed, or names a file to update or delete that cannot be read, changes nothing.
\<close>

theorem patch_confined:
  assumes "process_patch (executor_io resolve ws) t f = (r, f1)" and "f1 q \<noteq> f q"
  shows "prefix ws q \<and> (\<exists>name \<in> named_paths t. resolve_path resolve ws name = Inr q) \<and>
    (\<exists>orig as fuzz. load_files (executor_io resolve ws) f (identify_files_needed t) = Inr orig \<and> text_to_patch t orig = Inr (as, fuzz))"
proof -
  from process_patch_cases [OF assms(1)] assms(2) obtain orig as fuzz cs e where
    c: "load_files (executor_io resolve ws) f (identify_files_needed t) = Inr orig" "text_to_patch t orig = Inr (as, fuzz)"
      "patch_to_commit as orig = Inr cs" "apply_commit (executor_io resolve ws) cs f = (e, f1)" by auto
  obtain x where x: "x \<in> set cs" "q \<in> touched resolve ws x" using apply_commit_touched [OF c(4)] assms(2) by blast
  then obtain name where n: "name \<in> change_names x" "resolve_path resolve ws name = Inr q" by (auto simp: touched_def)
  have "name \<in> named_paths t" using patch_to_commit_names [OF c(3)] text_to_patch_names [OF c(2)] x(1) n(1) by blast
  moreover have "prefix ws q" using n(2) by (auto simp: resolve_path_def Let_def split: if_splits)
  ultimately show ?thesis using n(2) c(1,2) by blast
qed

definition sample_patch :: string where
  "sample_patch = patch_text [''*** Update File: a'', ''*** Move to: b'', ''-x'', ''+y'']"

definition sample_host :: "string list \<rightharpoonup> string" where
  "sample_host = [[''ws'', ''a''] \<mapsto> ''x'', [''etc''] \<mapsto> ''e'']"

theorem patch_confined_witness:
  "snd (process_patch (executor_io (\<lambda>t. drop_dots [] (split_slash t)) [''ws'']) sample_patch sample_host) [''ws'', ''b''] \<noteq> None \<and>
   (\<exists>name \<in> named_paths sample_patch. resolve_path (\<lambda>t. drop_dots [] (split_slash t)) [''ws''] name = Inr [''ws'', ''b''])"
proof -
  let ?io = "executor_io (\<lambda>t. drop_dots [] (split_slash t)) [''ws'']"
  have b: "snd (process_patch ?io sample_patch sample_host) [''ws'', ''b''] = Some ''y''" by code_simp
  moreover have "sample_host [''ws'', ''b''] = None" by (simp add: sample_host_def)
  ultimately show ?thesis
    using patch_confined [of "\<lambda>t. drop_dots [] (split_slash t)" "[''ws'']" sample_patch sample_host
        "fst (process_patch ?io sample_patch sample_host)" "snd (process_patch ?io sample_patch sample_host)" "[''ws'', ''b'']"]
    by simp
qed

text \<open>The text a name of the patch stands for, if it names a file inside the workspace that exists.\<close>

definition text_at :: "(string \<Rightarrow> string list) \<Rightarrow> string list \<Rightarrow> (string list \<rightharpoonup> string) \<Rightarrow> string \<Rightarrow> string option" where
  "text_at resolve ws f name = (case resolve_path resolve ws name of Inl e \<Rightarrow> None | Inr q \<Rightarrow> f q)"

text \<open>
  What a change is to bring about: the file is gone, or holds the new text; a moved file holds it under the
  new name and is gone under the old. Nothing is said of a file that is moved to itself.
\<close>

definition change_made :: "(string \<Rightarrow> string list) \<Rightarrow> string list \<Rightarrow> string \<times> file_change \<Rightarrow> (string list \<rightharpoonup> string) \<Rightarrow> bool" where
  "change_made resolve ws x f \<longleftrightarrow>
     (case fc_type (snd x) of
        DELETE \<Rightarrow> text_at resolve ws f (fst x) = None
      | ADD \<Rightarrow> fc_new_content (snd x) \<noteq> None \<and> text_at resolve ws f (fst x) = fc_new_content (snd x)
      | UPDATE \<Rightarrow> fc_new_content (snd x) \<noteq> None \<and>
          (if moves_to (fc_move_path (snd x)) = {} then text_at resolve ws f (fst x) = fc_new_content (snd x)
           else resolve_path resolve ws (the (fc_move_path (snd x))) \<noteq> resolve_path resolve ws (fst x) \<longrightarrow>
             text_at resolve ws f (fst x) = None \<and>
             text_at resolve ws f (the (fc_move_path (snd x))) = fc_new_content (snd x)))"

lemma apply_change_made:
  assumes "apply_change (executor_io resolve ws) x f = (None, f1)"
  shows "change_made resolve ws x f1"
proof -
  obtain path c where x: "x = (path, c)" by fastforce
  show ?thesis
    using assms unfolding x
    by (cases "fc_type c"; cases "fc_move_path c")
       (auto simp: apply_change_def executor_io_def plain_remove_def change_made_def moves_to_def text_at_def
          split: option.splits sum.splits if_splits prod.splits)
qed

lemma text_at_untouched:
  "\<forall>q. resolve_path resolve ws name = Inr q \<longrightarrow> f1 q = f q \<Longrightarrow> text_at resolve ws f1 name = text_at resolve ws f name"
  by (auto simp: text_at_def split: sum.splits)

lemma change_made_kept:
  assumes "change_made resolve ws x f" and "\<And>q. q \<in> touched resolve ws x \<Longrightarrow> f1 q = f q"
  shows "change_made resolve ws x f1"
proof -
  have kept: "text_at resolve ws f1 name = text_at resolve ws f name" if "name \<in> change_names x" for name
    using assms(2) that by (intro text_at_untouched) (auto simp: touched_def)
  have "text_at resolve ws f1 (fst x) = text_at resolve ws f (fst x)" by (rule kept) (simp add: change_names_def)
  moreover have "text_at resolve ws f1 (the (fc_move_path (snd x))) = text_at resolve ws f (the (fc_move_path (snd x)))"
    if "moves_to (fc_move_path (snd x)) \<noteq> {}"
    using that by (intro kept) (auto simp: change_names_def moves_to_def split: option.splits if_splits)
  ultimately show ?thesis using assms(1) unfolding change_made_def by (auto split: action_type.splits if_splits)
qed

lemma apply_commit_made:
  assumes "apply_commit (executor_io resolve ws) (pre @ x # post) f = (None, f1)"
    and "\<forall>y \<in> set post. touched resolve ws y \<inter> touched resolve ws x = {}"
  shows "change_made resolve ws x f1"
  using assms(1)
proof (induction pre arbitrary: f)
  case Nil
  then obtain g where g: "apply_change (executor_io resolve ws) x f = (None, g)" "apply_commit (executor_io resolve ws) post g = (None, f1)"
    by (auto split: prod.splits option.splits)
  then show ?case using assms(2) by (intro change_made_kept [OF apply_change_made [OF g(1)]] apply_commit_touched [OF g(2)]) blast
next
  case (Cons c pre)
  then show ?case by (auto split: prod.splits option.splits)
qed

text \<open>
  C18. A patch that reports success has made its changes: no path has two entries, and every entry of the commit
  whose files no later entry refers to has had its effect, so a deleted file is gone, an added or updated
  one holds its new text, and one moved to another path holds it there and is gone from the old path.
\<close>

theorem patch_done_made:
  assumes "process_patch (executor_io resolve ws) t f = (Inr (msg, fuzz, commit), f1)"
  shows "distinct (map fst commit) \<and>
    (\<forall>pre x post. commit = pre @ x # post \<longrightarrow> (\<forall>y \<in> set post. touched resolve ws y \<inter> touched resolve ws x = {}) \<longrightarrow>
       change_made resolve ws x f1)"
proof -
  from process_patch_cases [OF assms] obtain orig as where
    c: "text_to_patch t orig = Inr (as, fuzz)" "patch_to_commit as orig = Inr commit"
      "apply_commit (executor_io resolve ws) commit f = (None, f1)" by auto
  have "distinct (map fst commit)" using text_to_patch_ok [OF c(1)] patch_to_commit_names [OF c(2)] by (simp add: actions_ok_def)
  then show ?thesis using apply_commit_made c(3) by blast
qed

theorem patch_done_made_witness:
  "text_at (\<lambda>t. drop_dots [] (split_slash t)) [''ws'']
     (snd (process_patch (executor_io (\<lambda>t. drop_dots [] (split_slash t)) [''ws'']) sample_patch sample_host)) ''b'' = Some ''y''"
proof -
  let ?res = "\<lambda>t. drop_dots [] (split_slash t)"
  let ?x = "(''a'', \<lparr>fc_type = UPDATE, fc_old_content = Some ''x'', fc_new_content = Some ''y'', fc_move_path = Some ''b''\<rparr>)"
  have "fst (process_patch (executor_io ?res [''ws'']) sample_patch sample_host) = Inr (''Done!'', 0, [?x])" by code_simp
  then have "change_made ?res [''ws''] ?x (snd (process_patch (executor_io ?res [''ws'']) sample_patch sample_host))"
    using patch_done_made [of ?res "[''ws'']" sample_patch sample_host "''Done!''" 0 "[?x]"
        "snd (process_patch (executor_io ?res [''ws'']) sample_patch sample_host)"]
    by (metis append_Nil empty_iff list.set(1) prod.collapse)
  moreover have "resolve_path ?res [''ws''] ''b'' \<noteq> resolve_path ?res [''ws''] ''a''" by code_simp
  ultimately show ?thesis by (simp add: change_made_def moves_to_def)
qed

section \<open>Added files\<close>

lemma distinct_fst_Cons: "distinct (map fst (c # cs)) \<Longrightarrow> x \<in> set cs \<Longrightarrow> fst x \<noteq> fst c"
  by (induction cs) auto

definition add_body :: "(string \<times> string list) list \<Rightarrow> string list" where
  "add_body adds = concat (map (\<lambda>(path, ls). (''*** Add File: '' @ path) # map ((#) (CHR ''+'')) ls) adds)"

definition add_entry :: "string \<times> string list \<Rightarrow> string \<times> patch_action" where
  "add_entry x = (fst x, \<lparr>pa_type = ADD, pa_new_file = Some (join newline (snd x)), pa_chunks = [], pa_move_path = None\<rparr>)"

lemma drop_ConsD: "drop i xs = y # ys \<Longrightarrow> i < length xs \<and> xs ! i = y \<and> drop (Suc i) xs = ys"
  by (metis drop_Suc drop_eq_Nil2 leI list.discI list.sel(3) nth_via_drop tl_drop)

lemma markers:
  "starts_any FILE_MARKERS (''*** Add File: '' @ path)" "starts_any FILE_MARKERS ''*** End Patch''"
  "\<not> starts_any FILE_MARKERS (CHR ''+'' # l)"
  by (simp_all add: starts_any_def FILE_MARKERS_def)

lemma add_lines_printed:
  assumes "drop (pp_index p) (pp_lines p) = map ((#) (CHR ''+'')) ls @ r # rest" and "starts_any FILE_MARKERS r"
  shows "add_lines p acc = Inr (acc @ ls, p\<lparr>pp_index := pp_index p + length ls\<rparr>)"
  using assms(1)
proof (induction ls arbitrary: p acc)
  case Nil
  then have "pp_lines p ! pp_index p = r" using drop_ConsD [of "pp_index p" "pp_lines p"] by simp
  then show ?case using assms(2) by (simp add: add_lines.simps is_done_def)
next
  case (Cons l ls)
  let ?p = "p\<lparr>pp_index := Suc (pp_index p)\<rparr>"
  have at: "pp_index p < length (pp_lines p)" "pp_lines p ! pp_index p = CHR ''+'' # l"
    "drop (pp_index ?p) (pp_lines ?p) = map ((#) (CHR ''+'')) ls @ r # rest"
    using drop_ConsD [of "pp_index p" "pp_lines p"] Cons.prems by simp_all
  have "add_lines p acc = add_lines ?p (acc @ [l])"
    using at markers(3) by (subst add_lines.simps) (simp add: is_done_def)
  then show ?case using Cons.IH [OF at(3)] by simp
qed

lemma parse_entries_printed:
  assumes "drop (pp_index p) (pp_lines p) = add_body adds @ [''*** End Patch'']"
    and "distinct (map fst adds)" and "\<forall>x \<in> set adds. fst x \<noteq> [] \<and> \<not> known_path (fst x) p"
  shows "parse_entries p = Inr (p\<lparr>pp_index := pp_index p + length (add_body adds), pp_actions := pp_actions p @ map add_entry adds\<rparr>)"
  using assms
proof (induction adds arbitrary: p)
  case Nil
  then have "pp_lines p ! pp_index p = ''*** End Patch''"
    using drop_ConsD [of "pp_index p" "pp_lines p"] by (simp add: add_body_def)
  then show ?case by (simp add: parse_entries.simps is_done_def starts_any_def add_body_def)
next
  case (Cons x adds)
  obtain path ls where x: "x = (path, ls)" by fastforce
  obtain r rest where next_line: "add_body adds @ [''*** End Patch''] = r # rest" "starts_any FILE_MARKERS r"
    using markers by (cases adds) (auto simp: add_body_def)
  let ?p1 = "p\<lparr>pp_index := Suc (pp_index p)\<rparr>"
  let ?p2 = "p\<lparr>pp_index := Suc (pp_index p + length ls)\<rparr>"
  let ?p3 = "add_action path (snd (add_entry x)) ?p2"
  have at: "pp_index p < length (pp_lines p)" "pp_lines p ! pp_index p = ''*** Add File: '' @ path"
    and more_lines: "drop (Suc (pp_index p)) (pp_lines p) = map ((#) (CHR ''+'')) ls @ add_body adds @ [''*** End Patch'']"
    using drop_ConsD [of "pp_index p" "pp_lines p"] Cons.prems(1) by (simp_all add: x add_body_def)
  have add: "add_lines ?p1 [] = Inr (ls, ?p2)"
    using add_lines_printed [of ?p1 ls r rest "[]"] more_lines next_line by simp
  have "\<not> known_path path ?p1" "path \<noteq> []" using Cons.prems(3) by (auto simp: x known_path_def)
  then have "parse_entry p = Inr ?p3"
    using at add by (simp add: parse_entry_def read_str_def parse_add_def parse_add_file_def add_entry_def x)
  then have step: "parse_entries p = parse_entries ?p3"
    using at by (subst parse_entries.simps) (simp add: is_done_def starts_any_def)
  have "drop (pp_index ?p3) (pp_lines ?p3) = drop (length ls) (drop (Suc (pp_index p)) (pp_lines p))"
    by (simp add: add.commute)
  also have "\<dots> = add_body adds @ [''*** End Patch'']" unfolding more_lines by simp
  finally have "drop (pp_index ?p3) (pp_lines ?p3) = add_body adds @ [''*** End Patch'']" .
  moreover have "\<forall>y \<in> set adds. fst y \<noteq> [] \<and> \<not> known_path (fst y) ?p3"
  proof
    fix y
    assume y: "y \<in> set adds"
    then have "fst y \<noteq> [] \<and> \<not> known_path (fst y) p" using Cons.prems(3) by simp
    moreover have "fst y \<noteq> path" using distinct_fst_Cons [OF Cons.prems(2) y] by (simp add: x)
    ultimately show "fst y \<noteq> [] \<and> \<not> known_path (fst y) ?p3" by (simp add: known_path_def)
  qed
  ultimately have "parse_entries ?p3 = Inr (?p3\<lparr>pp_index := pp_index ?p3 + length (add_body adds),
      pp_actions := pp_actions ?p3 @ map add_entry adds\<rparr>)"
    using Cons.IH Cons.prems(2) by simp
  then show ?case unfolding step by (simp add: x add_action_def add_body_def add_entry_def)
qed

lemma strip_id: "s \<noteq> [] \<Longrightarrow> \<not> is_space (hd s) \<Longrightarrow> \<not> is_space (last s) \<Longrightarrow> strip s = s"
proof -
  assume s: "s \<noteq> []" "\<not> is_space (hd s)" "\<not> is_space (last s)"
  then have "dropWhile is_space s = s" by (cases s) simp_all
  moreover have "dropWhile is_space (rev s) = rev s"
    using s by (cases s rule: rev_cases) simp_all
  ultimately show ?thesis by (simp add: strip_def)
qed

lemma last_join: "ls \<noteq> [] \<Longrightarrow> last ls \<noteq> [] \<Longrightarrow> join sep ls \<noteq> [] \<and> last (join sep ls) = last (last ls)"
  by (induction sep ls rule: join.induct) auto

lemma strip_patch_text: "strip (patch_text body) = patch_text body"
proof -
  have "last (patch_text body) = CHR ''h''" "patch_text body \<noteq> []"
    using last_join [of "''*** Begin Patch'' # body @ [''*** End Patch'']" newline] by (simp_all add: patch_text_def)
  moreover have "hd (patch_text body) = CHR ''*''" by (cases body) (simp_all add: patch_text_def)
  ultimately show ?thesis by (intro strip_id) (simp_all add: is_space_def)
qed

text \<open>
  C38. A patch that adds files is read back from its text: for distinct non-empty paths and lines without
  line feeds, parsing the printed patch gives one action per file, in order, with the lines of the file
  joined, and no fuzz.
\<close>

theorem added_files_roundtrip:
  assumes "distinct (map fst adds)"
    and "\<forall>x \<in> set adds. fst x \<noteq> [] \<and> CHR 0x0A \<notin> set (fst x) \<and> (\<forall>l \<in> set (snd x). CHR 0x0A \<notin> set l)"
  shows "text_to_patch (patch_text (add_body adds)) orig = Inr (map add_entry adds, 0)"
proof -
  let ?lines = "''*** Begin Patch'' # add_body adds @ [''*** End Patch'']"
  have "CHR 0x0A \<notin> set l" if "l \<in> set (add_body adds)" for l
    using that assms(2) by (fastforce simp: add_body_def)
  then have "split_newline (patch_text (add_body adds)) = ?lines"
    unfolding patch_text_def by (intro split_join_newline) (auto simp: list_all_iff)
  then have lines: "split_newline (strip (patch_text (add_body adds))) = ?lines" by (simp add: strip_patch_text)
  let ?p = "\<lparr>pp_files = orig, pp_lines = ?lines, pp_index = 1, pp_actions = [], pp_fuzz = 0\<rparr>"
  have "parse_entries ?p = Inr (?p\<lparr>pp_index := Suc (length (add_body adds)), pp_actions := map add_entry adds\<rparr>)"
    using parse_entries_printed [of ?p adds] assms by (simp add: known_path_def)
  then show ?thesis unfolding text_to_patch_def Let_def lines by (simp add: parse_def nth_append)
qed

theorem added_files_roundtrip_witness:
  "text_to_patch (patch_text (add_body [(''a'', [''x'', []]), (''b/c'', [])])) [] =
     Inr (map add_entry [(''a'', [''x'', []]), (''b/c'', [])], 0)"
  by (rule added_files_roundtrip) simp_all

end
