(* ===== verification/View_Pages.thy ===== *)
theory View_Pages
  imports Text_Files
begin

text \<open>
  The \<open>view\<close> command of the file editor (\<^verbatim>\<open>agentrt-tools/file_editor/view_contract.py\<close> and the view part of
  \<^verbatim>\<open>editor.py\<close>): the scan of a file, one page of lines, continuation cursors and the request for a span.
  A file is its text, its identity and its digest; the text stands for the bytes as well, as in
  encodings that keep line ends. A cursor is the payload a valid token carries: JSON, base64 and the
  checksum of a token are not modelled.
\<close>

section \<open>Scanning a file\<close>

fun count_crlf :: "string \<Rightarrow> nat" where
  "count_crlf (c # d # cs) =
     (if c = CHR 0x0D \<and> d = CHR 0x0A then Suc (count_crlf cs) else count_crlf (d # cs))"
| "count_crlf _ = 0"

record scan_state =
  sc_size :: nat
  sc_lf :: nat
  sc_cr :: nat
  sc_crlf :: nat
  sc_prev_cr :: bool
  sc_last :: "char option"

definition scan_chunk :: "string \<Rightarrow> scan_state \<Rightarrow> scan_state" where
  "scan_chunk chunk s =
     \<lparr>sc_size = sc_size s + length chunk,
      sc_lf = sc_lf s + count_list chunk (CHR 0x0A),
      sc_cr = sc_cr s + count_list chunk (CHR 0x0D),
      sc_crlf = sc_crlf s + count_crlf chunk + (if sc_prev_cr s \<and> hd chunk = CHR 0x0A then 1 else 0),
      sc_prev_cr = (last chunk = CHR 0x0D),
      sc_last = Some (last chunk)\<rparr>"

datatype newline_kind = NoNewline | CRLF | LF | CR | MixedNewlines

record file_scan =
  fsc_size :: nat
  fsc_line_count :: nat
  fsc_newline :: newline_kind
  fsc_has_final_newline :: bool

text \<open>The chunks are what successive reads return: non-empty.\<close>

definition scan_file :: "string list \<Rightarrow> file_scan" where
  "scan_file chunks =
     (let s = fold scan_chunk chunks
            \<lparr>sc_size = 0, sc_lf = 0, sc_cr = 0, sc_crlf = 0, sc_prev_cr = False, sc_last = None\<rparr>;
          lone_lf = sc_lf s - sc_crlf s;
          lone_cr = sc_cr s - sc_crlf s;
          total = sc_crlf s + lone_lf + lone_cr;
          final = (sc_last s = Some (CHR 0x0A) \<or> sc_last s = Some (CHR 0x0D))
      in \<lparr>fsc_size = sc_size s,
          fsc_line_count = (if sc_size s = 0 then 0 else if final then total else total + 1),
          fsc_newline =
            (if sc_size s = 0 \<or> total = 0 then NoNewline
             else if sc_crlf s \<noteq> 0 \<and> lone_lf = 0 \<and> lone_cr = 0 then CRLF
             else if lone_lf \<noteq> 0 \<and> sc_crlf s = 0 \<and> lone_cr = 0 then LF
             else if lone_cr \<noteq> 0 \<and> sc_crlf s = 0 \<and> lone_lf = 0 then CR
             else MixedNewlines),
          fsc_has_final_newline = final\<rparr>)"

text \<open>The reads of a binary file in chunks of 64 KiB, until one returns nothing.\<close>

function file_chunks :: "string \<Rightarrow> string list" where
  "file_chunks t = (if t = [] then [] else take 65536 t # file_chunks (drop 65536 t))"
  by pat_completeness auto
termination
  by (relation "measure length") auto

declare file_chunks.simps [simp del]

section \<open>Reading a page\<close>

text \<open>Iterating over a file opened with \<open>newline=""\<close>: lines with their untranslated ends.\<close>

fun raw_lines :: "string \<Rightarrow> string list" where
  "raw_lines [] = []"
| "raw_lines (c # cs) =
     (if c = CHR 0x0D then
        (case cs of
           d # ds \<Rightarrow> if d = CHR 0x0A then [c, d] # raw_lines ds else [c] # raw_lines cs
         | [] \<Rightarrow> [[c]])
      else if c = CHR 0x0A then [c] # raw_lines cs
      else (case raw_lines cs of [] \<Rightarrow> [[c]] | l # ls \<Rightarrow> (c # l) # ls))"

definition split_terminator :: "string \<Rightarrow> string \<times> string" where
  "split_terminator line =
     (if suffix [CHR 0x0D, CHR 0x0A] line then (take (length line - 2) line, [CHR 0x0D, CHR 0x0A])
      else if suffix [CHR 0x0A] line \<or> suffix [CHR 0x0D] line then (butlast line, [last line])
      else (line, []))"

record page_request =
  pr_start_line :: nat
  pr_start_char :: nat
  pr_req_end :: "nat option"
  pr_max_lines :: nat
  pr_char_budget :: nat

record page_state =
  ps_out :: "(nat \<times> string) list"
  ps_raw_out :: "string list"
  ps_used :: nat
  ps_rendered :: nat

record page =
  pg_lines :: "(nat \<times> string) list"
  pg_content :: string
  pg_partial :: bool
  pg_next_line :: "nat option"
  pg_next_char :: nat

definition finish_page :: "page_state \<Rightarrow> bool \<Rightarrow> nat option \<Rightarrow> nat \<Rightarrow> page" where
  "finish_page st part next_line next_char =
     \<lparr>pg_lines = ps_out st, pg_content = concat (ps_raw_out st), pg_partial = part,
      pg_next_line = next_line, pg_next_char = next_char\<rparr>"

definition rendered_cost :: "nat \<Rightarrow> string \<Rightarrow> nat" where
  "rendered_cost lineno content = max 6 (length (dec lineno)) + 1 + length content + 1"

text \<open>The two tests of the loop: the text does not fit the budget, and the page ends before this line.\<close>

definition overlong :: "page_request \<Rightarrow> page_state \<Rightarrow> string \<Rightarrow> bool" where
  "overlong r st content \<longleftrightarrow> max 1 (pr_char_budget r) < ps_used st + length content"

definition page_full :: "page_request \<Rightarrow> page_state \<Rightarrow> nat \<Rightarrow> string \<Rightarrow> bool" where
  "page_full r st lineno content \<longleftrightarrow>
     max 1 (pr_max_lines r) \<le> length (ps_out st) \<or>
     ps_out st \<noteq> [] \<and> (overlong r st content \<or>
       max 1 (pr_char_budget r) < ps_rendered st + rendered_cost lineno content)"

definition add_line :: "nat \<Rightarrow> string \<Rightarrow> string \<Rightarrow> page_state \<Rightarrow> page_state" where
  "add_line lineno content terminator st =
     \<lparr>ps_out = ps_out st @ [(lineno, content)], ps_raw_out = ps_raw_out st @ [content @ terminator],
      ps_used = ps_used st + length content, ps_rendered = ps_rendered st + rendered_cost lineno content\<rparr>"

definition cut_line :: "page_request \<Rightarrow> nat \<Rightarrow> nat \<Rightarrow> string \<Rightarrow> page_state \<Rightarrow> page" where
  "cut_line r lineno offset content st =
     (let piece = take (max 1 (max 1 (pr_char_budget r) - ps_used st)) content
      in finish_page (st\<lparr>ps_out := ps_out st @ [(lineno, piece)], ps_raw_out := ps_raw_out st @ [piece]\<rparr>)
           True (Some lineno) (offset + length piece))"

fun page_loop :: "page_request \<Rightarrow> nat \<Rightarrow> string list \<Rightarrow> page_state \<Rightarrow> page" where
  "page_loop r lineno [] st = finish_page st False None 0"
| "page_loop r lineno (raw # rest) st =
     (if lineno < pr_start_line r then page_loop r (Suc lineno) rest st
      else if (case pr_req_end r of None \<Rightarrow> False | Some e \<Rightarrow> e < lineno) then finish_page st False None 0
      else
        let (content0, terminator) = split_terminator raw;
            offset = (if lineno = pr_start_line r then pr_start_char r else 0);
            content = drop offset content0
        in if offset \<noteq> 0 \<and> length content0 \<le> offset then page_loop r (Suc lineno) rest st
           else if page_full r st lineno content then finish_page st False (Some lineno) 0
           else if overlong r st content then cut_line r lineno offset content st
           else page_loop r (Suc lineno) rest (add_line lineno content terminator st))"

definition read_page :: "string \<Rightarrow> page_request \<Rightarrow> page" where
  "read_page t r = page_loop r 1 (raw_lines t) \<lparr>ps_out = [], ps_raw_out = [], ps_used = 0, ps_rendered = 0\<rparr>"

section \<open>Viewing\<close>

definition DEFAULT_MAX_VIEW_LINES :: int where
  "DEFAULT_MAX_VIEW_LINES = 500"

definition MAX_RESPONSE_LEN_CHAR :: nat where
  "MAX_RESPONSE_LEN_CHAR = 16000"

record view_file =
  vf_path :: string
  vf_id :: string
  vf_digest :: string
  vf_text :: string

record cursor =
  cu_path :: string
  cu_file_id :: string
  cu_digest :: string
  cu_line :: nat
  cu_char :: nat
  cu_req_start :: nat
  cu_end_line :: "nat option"
  cu_max_lines :: nat

datatype view_refusal =
    BadCursor string
  | BadParameter string
  | NoContent
  | FileChanged

datatype view_status = ViewOk | ViewEof | ViewEmpty | ViewTruncated | ViewPartialLine

record view_observation =
  vo_status :: view_status
  vo_requested :: "(nat \<times> nat) option"
  vo_content :: string
  vo_eof :: bool
  vo_truncated :: bool
  vo_cursor :: "cursor option"
  vo_warning :: bool

text \<open>\<open>_requested_span\<close>: the first and last line, and whether the end was cut to the file.\<close>

definition requested_span :: "int list \<Rightarrow> nat \<Rightarrow> view_refusal + (nat \<times> nat \<times> bool)" where
  "requested_span view_range num_lines =
     (case view_range of
        [] \<Rightarrow> Inr (1, num_lines, False)
      | [start_line, end_line] \<Rightarrow>
          if start_line < 1 \<or> int num_lines < start_line then Inl (BadParameter ''view_range'')
          else
            let e = (if end_line = -1 \<or> int num_lines < end_line then int num_lines else end_line)
            in if e < start_line then Inl (BadParameter ''view_range'')
               else Inr (nat start_line, nat e, end_line \<noteq> -1 \<and> int num_lines < end_line)
      | _ \<Rightarrow> Inl (BadParameter ''view_range''))"

text \<open>The first part of \<open>_view_file_page\<close>: where the page starts, what was asked for, and the page size.\<close>

definition page_position ::
    "view_file \<Rightarrow> int list \<Rightarrow> cursor option \<Rightarrow> int option \<Rightarrow>
     view_refusal + (nat \<times> nat \<times> nat \<times> nat option \<times> nat \<times> bool)" where
  "page_position f view_range cur max_lines =
     (case cur of
        Some c \<Rightarrow>
          if cu_path c \<noteq> vf_path f then Inl (BadCursor ''cursor was issued for a different file'')
          else if cu_file_id c \<noteq> vf_id f \<or> cu_digest c \<noteq> vf_digest f then Inl FileChanged
          else if max_lines \<noteq> None \<and> max_lines \<noteq> Some (int (cu_max_lines c))
          then Inl (BadCursor ''cursor was issued for a different page size'')
          else Inr (cu_line c, cu_char c, cu_req_start c, cu_end_line c, cu_max_lines c, False)
      | None \<Rightarrow>
          let page_max_lines = (case max_lines of None \<Rightarrow> DEFAULT_MAX_VIEW_LINES | Some n \<Rightarrow> n)
          in if page_max_lines < 1 then Inl (BadParameter ''max_lines'')
             else (case requested_span view_range (fsc_line_count (scan_file (file_chunks (vf_text f)))) of
                     Inl e \<Rightarrow> Inl e
                   | Inr (req_start, req_end, warning) \<Rightarrow>
                       Inr (req_start, 0, req_start, Some req_end, nat page_max_lines, warning)))"

definition view_file_page ::
    "view_file \<Rightarrow> int list \<Rightarrow> cursor option \<Rightarrow> int option \<Rightarrow> view_refusal + view_observation" where
  "view_file_page f view_range cur max_lines =
     (case page_position f view_range cur max_lines of
        Inl e \<Rightarrow> Inl e
      | Inr (start_line, start_char, req_start, req_end, page_max_lines, warning) \<Rightarrow>
          let line_count = fsc_line_count (scan_file (file_chunks (vf_text f)))
          in if line_count = 0 then
               Inr \<lparr>vo_status = ViewEmpty, vo_requested = None, vo_content = [], vo_eof = True,
                   vo_truncated = False, vo_cursor = None, vo_warning = warning\<rparr>
             else if line_count < start_line then Inl NoContent
             else
               let pg = read_page (vf_text f)
                     \<lparr>pr_start_line = start_line, pr_start_char = start_char, pr_req_end = req_end,
                      pr_max_lines = page_max_lines, pr_char_budget = MAX_RESPONSE_LEN_CHAR\<rparr>
               in if pg_lines pg = [] then Inl NoContent
                  else
                    let eof = (\<not> pg_partial pg \<and> fst (last (pg_lines pg)) = line_count);
                        again = (case pg_next_line pg of
                           None \<Rightarrow> False
                         | Some l \<Rightarrow> pg_partial pg \<or> (case req_end of None \<Rightarrow> True | Some e \<Rightarrow> l \<le> e));
                        next_cursor = (if again then
                           Some \<lparr>cu_path = vf_path f, cu_file_id = vf_id f, cu_digest = vf_digest f,
                             cu_line = the (pg_next_line pg), cu_char = pg_next_char pg,
                             cu_req_start = req_start, cu_end_line = req_end, cu_max_lines = page_max_lines\<rparr>
                           else None)
                    in Inr \<lparr>vo_status =
                           (if pg_partial pg then ViewPartialLine else if again then ViewTruncated
                            else if eof then ViewEof else ViewOk),
                         vo_requested = Some (req_start, case req_end of None \<Rightarrow> line_count | Some e \<Rightarrow> e),
                         vo_content = pg_content pg, vo_eof = eof, vo_truncated = again,
                         vo_cursor = next_cursor, vo_warning = warning\<rparr>)"

text \<open>\<open>view\<close> of a text file: an empty range is no range, and a cursor overrides a range.\<close>

definition view_text :: "view_file \<Rightarrow> int list \<Rightarrow> cursor option \<Rightarrow> int option \<Rightarrow> view_refusal + view_observation" where
  "view_text f view_range cur max_lines =
     view_file_page f (if cur \<noteq> None then [] else view_range) cur max_lines"

end
