(* ===== verification/View_Pages_Laws.thy ===== *)
theory View_Pages_Laws
  imports View_Pages
begin

text \<open>
  The view contract: the scan counts the lines the reader yields, however the file is cut into
  chunks, and following the cursors of a view ends and puts together exactly the lines asked for.
\<close>

section \<open>The scan\<close>

lemma raw_lines_cases:
  "raw_lines (CHR 0x0D # CHR 0x0A # t) = [CHR 0x0D, CHR 0x0A] # raw_lines t"
  "t = [] \<or> hd t \<noteq> CHR 0x0A \<Longrightarrow> raw_lines (CHR 0x0D # t) = [CHR 0x0D] # raw_lines t"
  "raw_lines (CHR 0x0A # t) = [CHR 0x0A] # raw_lines t"
  "c \<noteq> CHR 0x0D \<Longrightarrow> c \<noteq> CHR 0x0A \<Longrightarrow> raw_lines t = [] \<Longrightarrow> raw_lines (c # t) = [[c]]"
  "c \<noteq> CHR 0x0D \<Longrightarrow> c \<noteq> CHR 0x0A \<Longrightarrow> raw_lines t = l # ls \<Longrightarrow> raw_lines (c # t) = (c # l) # ls"
  by (cases t; simp)+

declare raw_lines.simps(2) [simp del]

lemma raw_lines_induct [case_names Nil CRLF CR LF Char]:
  assumes "P []" and "\<And>t. P t \<Longrightarrow> P (CHR 0x0D # CHR 0x0A # t)"
    and "\<And>t. P t \<Longrightarrow> t = [] \<or> hd t \<noteq> CHR 0x0A \<Longrightarrow> P (CHR 0x0D # t)"
    and "\<And>t. P t \<Longrightarrow> P (CHR 0x0A # t)"
    and "\<And>c t. P t \<Longrightarrow> c \<noteq> CHR 0x0D \<Longrightarrow> c \<noteq> CHR 0x0A \<Longrightarrow> P (c # t)"
  shows "P t"
proof (induction t rule: length_induct)
  case (1 t)
  consider "t = []" | u where "t = CHR 0x0D # CHR 0x0A # u" | u where "t = CHR 0x0D # u" "u = [] \<or> hd u \<noteq> CHR 0x0A"
    | u where "t = CHR 0x0A # u" | c u where "t = c # u" "c \<noteq> CHR 0x0D" "c \<noteq> CHR 0x0A"
    by (metis hd_Cons_tl list.exhaust)
  then show ?case using 1 assms by cases simp_all
qed

lemma raw_lines_Nil [simp]: "raw_lines t = [] \<longleftrightarrow> t = []"
proof (induction t rule: raw_lines_induct)
  case (Char c t)
  then show ?case by (cases "raw_lines t") (simp_all add: raw_lines_cases)
qed (simp_all add: raw_lines_cases)

lemma raw_lines_concat [simp]: "concat (raw_lines t) = t"
proof (induction t rule: raw_lines_induct)
  case (Char c t)
  then show ?case by (cases "raw_lines t") (simp_all add: raw_lines_cases)
qed (simp_all add: raw_lines_cases)

lemma raw_lines_nonempty: "list_all (\<lambda>l. l \<noteq> []) (raw_lines t)"
proof (induction t rule: raw_lines_induct)
  case (Char c t)
  then show ?case by (cases "raw_lines t") (simp_all add: raw_lines_cases)
qed (simp_all add: raw_lines_cases)

lemma count_crlf_line_feed [simp]: "count_crlf (CHR 0x0A # t) = count_crlf t"
  by (cases t) simp_all

lemma count_crlf_append:
  "count_crlf (a @ b) = count_crlf a + count_crlf b +
     (if a \<noteq> [] \<and> b \<noteq> [] \<and> last a = CHR 0x0D \<and> hd b = CHR 0x0A then 1 else 0)"
  by (induction a rule: count_crlf.induct; cases b; auto)

lemma count_crlf_le: "count_crlf t \<le> count_list t (CHR 0x0A) \<and> count_crlf t \<le> count_list t (CHR 0x0D)"
  by (induction t rule: count_crlf.induct) auto

definition scanned :: "string \<Rightarrow> scan_state" where
  "scanned t = \<lparr>sc_size = length t, sc_lf = count_list t (CHR 0x0A), sc_cr = count_list t (CHR 0x0D),
     sc_crlf = count_crlf t, sc_prev_cr = (t \<noteq> [] \<and> last t = CHR 0x0D),
     sc_last = (if t = [] then None else Some (last t))\<rparr>"

lemma count_list_append: "count_list (a @ b) x = count_list a x + count_list b x"
  by (induction a) auto

lemma scan_chunk_scanned: "c \<noteq> [] \<Longrightarrow> scan_chunk c (scanned t) = scanned (t @ c)"
  by (simp add: scan_chunk_def scanned_def count_crlf_append count_list_append)

lemma scan_chunks: "list_all (\<lambda>c. c \<noteq> []) chunks \<Longrightarrow> fold scan_chunk chunks (scanned t) = scanned (t @ concat chunks)"
  by (induction chunks arbitrary: t) (simp_all add: scan_chunk_scanned)

lemma raw_lines_count:
  "t \<noteq> [] \<Longrightarrow> length (raw_lines t) + count_crlf t =
     count_list t (CHR 0x0A) + count_list t (CHR 0x0D) + (if last t = CHR 0x0A \<or> last t = CHR 0x0D then 0 else 1)"
proof (induction t rule: raw_lines_induct)
  case (CR t)
  then have "count_crlf (CHR 0x0D # t) = count_crlf t" by (cases t) simp_all
  then show ?case using CR by (cases "t = []") (simp_all add: raw_lines_cases)
next
  case (Char c t)
  then have "count_crlf (c # t) = count_crlf t" by (cases t) simp_all
  then show ?case using Char by (cases "t = []"; cases "raw_lines t") (simp_all add: raw_lines_cases)
next
  case (CRLF t)
  then show ?case by (cases "t = []") (simp_all add: raw_lines_cases)
next
  case (LF t)
  then show ?case by (cases "t = []") (simp_all add: raw_lines_cases)
qed simp

text \<open>
  However a file is cut into non-empty chunks, the scan reports its size and exactly the number
  of lines the reader yields, with a final line that lacks a line end counted as well.
\<close>

theorem scan_counts_lines:
  assumes "list_all (\<lambda>c. c \<noteq> []) chunks"
  shows "fsc_size (scan_file chunks) = length (concat chunks) \<and>
    fsc_line_count (scan_file chunks) = length (raw_lines (concat chunks)) \<and>
    (fsc_has_final_newline (scan_file chunks) \<longleftrightarrow>
       concat chunks \<noteq> [] \<and> last (concat chunks) \<in> {CHR 0x0A, CHR 0x0D})"
proof -
  define t where "t = concat chunks"
  have "\<lparr>sc_size = 0, sc_lf = 0, sc_cr = 0, sc_crlf = 0, sc_prev_cr = False, sc_last = None\<rparr> = scanned []"
    by (simp add: scanned_def)
  then have s: "fold scan_chunk chunks \<lparr>sc_size = 0, sc_lf = 0, sc_cr = 0, sc_crlf = 0, sc_prev_cr = False, sc_last = None\<rparr> = scanned t"
    using scan_chunks [OF assms, of "[]"] by (simp add: t_def)
  show ?thesis unfolding t_def [symmetric]
  proof (cases "t = []")
    case True
    then show "fsc_size (scan_file chunks) = length t \<and> fsc_line_count (scan_file chunks) = length (raw_lines t) \<and>
      (fsc_has_final_newline (scan_file chunks) \<longleftrightarrow> t \<noteq> [] \<and> last t \<in> {CHR 0x0A, CHR 0x0D})"
      by (simp add: scan_file_def s Let_def) (simp add: scanned_def)
  next
    case False
    then show "fsc_size (scan_file chunks) = length t \<and> fsc_line_count (scan_file chunks) = length (raw_lines t) \<and>
      (fsc_has_final_newline (scan_file chunks) \<longleftrightarrow> t \<noteq> [] \<and> last t \<in> {CHR 0x0A, CHR 0x0D})"
      using raw_lines_count [OF False] count_crlf_le [of t]
      by (simp add: scan_file_def s Let_def) (auto simp: scanned_def split: if_splits)
  qed
qed

theorem scan_counts_lines_witness:
  "fsc_line_count (scan_file [[CHR ''a'', CHR 0x0D], [CHR 0x0A, CHR ''b'']]) = 2"
proof -
  have "list_all (\<lambda>c. c \<noteq> []) [[CHR ''a'', CHR 0x0D], [CHR 0x0A, CHR ''b'']]" by simp
  from scan_counts_lines [OF this] show ?thesis by (simp add: raw_lines_cases)
qed

section \<open>One page\<close>

lemma split_terminator_append: "fst (split_terminator l) @ snd (split_terminator l) = l"
proof -
  have "take (length l - 2) l @ [CHR 0x0D, CHR 0x0A] = l" if "suffix [CHR 0x0D, CHR 0x0A] l"
    using that by (auto simp: suffix_def)
  moreover have "butlast l @ [last l] = l" if "suffix [CHR 0x0A] l \<or> suffix [CHR 0x0D] l"
    using that by (intro append_butlast_last_id) auto
  ultimately show ?thesis by (simp add: split_terminator_def)
qed

definition within :: "nat option \<Rightarrow> nat \<Rightarrow> bool" where
  "within e l \<longleftrightarrow> (case e of None \<Rightarrow> True | Some k \<Rightarrow> l \<le> k)"

text \<open>The lines from \<open>lineno\<close> to the end asked for, when \<open>ls\<close> starts at \<open>lineno\<close>.\<close>

definition upto_end :: "nat option \<Rightarrow> nat \<Rightarrow> string list \<Rightarrow> string list" where
  "upto_end e lineno ls = (case e of None \<Rightarrow> ls | Some k \<Rightarrow> take (Suc k - lineno) ls)"

lemma upto_end_Nil [simp]: "upto_end e n [] = []"
  by (simp add: upto_end_def split: option.splits)

lemma upto_end_Cons:
  "upto_end e n (l # ls) = (if within e n then l # upto_end e (Suc n) ls else [])"
  by (auto simp: upto_end_def within_def Suc_diff_le split: option.splits)

lemma upto_end_split:
  assumes "within e l" and "n \<le> l"
  shows "upto_end e n ls = take (l - n) ls @ upto_end e l (drop (l - n) ls)"
proof (cases e)
  case (Some k)
  then have "Suc k - n = (l - n) + (Suc k - l)" using assms by (simp add: within_def)
  then show ?thesis using Some by (simp add: upto_end_def take_add)
qed (simp add: upto_end_def)

lemma page_loop_later:
  assumes "pr_start_line r < n" and "ps_out st \<noteq> []" and "pg = page_loop r n ls st"
  shows "\<not> pg_partial pg \<and> pg_lines pg \<noteq> [] \<and> (\<exists>u. pg_content pg = concat (ps_raw_out st) @ u) \<and>
    (case pg_next_line pg of
       None \<Rightarrow> pg_content pg = concat (ps_raw_out st) @ concat (upto_end (pr_req_end r) n ls)
     | Some l \<Rightarrow> pg_next_char pg = 0 \<and> n \<le> l \<and> l < n + length ls \<and> within (pr_req_end r) l \<and>
         pg_content pg = concat (ps_raw_out st) @ concat (take (l - n) ls))"
  using assms
proof (induction ls arbitrary: n st)
  case Nil
  then show ?case by (simp add: finish_page_def)
next
  case (Cons raw ls)
  obtain c0 tm where sp: "split_terminator raw = (c0, tm)" by fastforce
  then have raw: "c0 @ tm = raw" using split_terminator_append [of raw] by simp
  let ?st = "add_line n c0 tm st"
  have outside: "(case pr_req_end r of None \<Rightarrow> False | Some e \<Rightarrow> e < n) \<longleftrightarrow> \<not> within (pr_req_end r) n"
    by (auto simp: within_def split: option.splits)
  have full: "page_full r st n c0 \<or> \<not> overlong r st c0" using Cons.prems(2) by (auto simp: page_full_def)
  show ?case
  proof (cases "within (pr_req_end r) n")
    case False
    then show ?thesis using Cons.prems by (simp add: outside finish_page_def upto_end_Cons)
  next
    case within: True
    show ?thesis
    proof (cases "page_full r st n c0")
      case True
      then have "pg = finish_page st False (Some n) 0"
        using Cons.prems within sp by (simp add: outside Let_def)
      then show ?thesis using Cons.prems(2) within by (simp add: finish_page_def)
    next
      case False
      then have next_page: "pg = page_loop r (Suc n) ls ?st"
        using Cons.prems within sp full by (simp add: outside Let_def)
      have "pr_start_line r < Suc n" "ps_out ?st \<noteq> []" using Cons.prems(1) by (simp_all add: add_line_def)
      note ih = Cons.IH [OF this next_page]
      have "take (l - n) (raw # ls) = raw # take (l - Suc n) ls" if "Suc n \<le> l" for l
        using that by (simp add: take_Cons')
      then show ?thesis using ih within raw by (auto simp: upto_end_Cons add_line_def split: option.splits)
    qed
  qed
qed

lemma page_loop_skip:
  assumes "n \<le> pr_start_line r" and "pr_start_line r < n + length ls"
  shows "page_loop r n ls st = page_loop r (pr_start_line r) (drop (pr_start_line r - n) ls) st"
  using assms
proof (induction ls arbitrary: n)
  case (Cons raw ls)
  show ?case
  proof (cases "n = pr_start_line r")
    case False
    then show ?thesis using Cons.prems Cons.IH [of "Suc n"] by (simp add: drop_Cons')
  qed simp
qed simp

definition position_ok :: "string list \<Rightarrow> nat option \<Rightarrow> nat \<Rightarrow> nat \<Rightarrow> bool" where
  "position_ok ls e l ch \<longleftrightarrow> 1 \<le> l \<and> l \<le> length ls \<and> within e l \<and>
     (ch = 0 \<or> ch < length (fst (split_terminator (ls ! (l - 1)))))"

definition rest_of :: "string list \<Rightarrow> nat option \<Rightarrow> nat \<Rightarrow> nat \<Rightarrow> string" where
  "rest_of ls e l ch = drop ch (concat (upto_end e l (drop (l - 1) ls)))"

definition page_spec :: "string list \<Rightarrow> page_request \<Rightarrow> page \<Rightarrow> bool" where
  "page_spec ls r pg \<longleftrightarrow> pg_lines pg \<noteq> [] \<and> pg_content pg \<noteq> [] \<and>
     (let here = rest_of ls (pr_req_end r) (pr_start_line r) (pr_start_char r)
      in case pg_next_line pg of
           None \<Rightarrow> \<not> pg_partial pg \<and> pg_content pg = here
         | Some l \<Rightarrow> position_ok ls (pr_req_end r) l (pg_next_char pg) \<and>
             pg_content pg @ rest_of ls (pr_req_end r) l (pg_next_char pg) = here)"

lemma cut_line_spec:
  assumes ok: "position_ok ls (pr_req_end r) (pr_start_line r) (pr_start_char r)"
    and here: "drop (pr_start_line r - 1) ls = raw # rest" and sp: "split_terminator raw = (c0, tm)"
    and long: "overlong r st (drop (pr_start_char r) c0)" and st: "ps_raw_out st = []" "ps_out st = []" "ps_used st = 0"
  shows "page_spec ls r (cut_line r (pr_start_line r) (pr_start_char r) (drop (pr_start_char r) c0) st)"
proof -
  let ?s = "pr_start_line r" and ?ch = "pr_start_char r" and ?k = "max 1 (pr_char_budget r)"
  have raw: "raw = c0 @ tm" using split_terminator_append [of raw] sp by simp
  have at: "ls ! (?s - 1) = raw" using here by (metis nth_via_drop)
  have k: "?ch + ?k < length c0" "1 \<le> ?k" using long st(3) by (auto simp: overlong_def)
  have piece: "length (take ?k (drop ?ch c0)) = ?k" using k(1) by simp
  let ?all = "concat (upto_end (pr_req_end r) ?s (drop (?s - 1) ls))"
  have all: "\<exists>u. ?all = c0 @ u" using ok raw unfolding here by (simp add: upto_end_Cons position_ok_def)
  then obtain u where u: "?all = c0 @ u" by blast
  have "take ?k (drop ?ch c0) @ drop (?ch + ?k) ?all = drop ?ch ?all"
    unfolding u using k(1) append_take_drop_id [of ?k "drop ?ch (c0 @ u)"] by (simp add: add.commute)
  moreover have "position_ok ls (pr_req_end r) ?s (?ch + ?k)"
    using ok k(1) sp unfolding position_ok_def at by simp
  moreover have "take ?k (drop ?ch c0) \<noteq> []" using piece k(2) by (metis length_0_conv not_one_le_zero)
  ultimately show ?thesis
    using piece st by (simp add: page_spec_def cut_line_def finish_page_def Let_def rest_of_def)
qed

lemma whole_line_spec:
  assumes ok: "position_ok ls (pr_req_end r) (pr_start_line r) (pr_start_char r)"
    and here: "drop (pr_start_line r - 1) ls = raw # rest" and sp: "split_terminator raw = (c0, tm)"
    and filled: "raw \<noteq> []" and st: "ps_raw_out st = []"
  shows "page_spec ls r (page_loop r (Suc (pr_start_line r)) rest (add_line (pr_start_line r) (drop (pr_start_char r) c0) tm st))"
proof -
  let ?s = "pr_start_line r" and ?ch = "pr_start_char r" and ?e = "pr_req_end r"
  let ?st = "add_line ?s (drop ?ch c0) tm st"
  let ?pg = "page_loop r (Suc ?s) rest ?st"
  have raw: "raw = c0 @ tm" using split_terminator_append [of raw] sp by simp
  have at: "ls ! (?s - 1) = raw" and s: "1 \<le> ?s" using here ok by (metis nth_via_drop, simp add: position_ok_def)
  have ch: "?ch = 0 \<or> ?ch < length c0" using ok sp unfolding position_ok_def at by simp
  have later: "rest = drop ?s ls" using here s by (metis Suc_pred' drop_Suc less_eq_Suc_le list.sel(3) One_nat_def tl_drop)
  have out: "concat (ps_raw_out ?st) = drop ?ch raw" "drop ?ch raw \<noteq> []" "ps_out ?st \<noteq> []"
    using ch filled raw st by (auto simp: add_line_def)
  have here_text: "rest_of ls ?e ?s ?ch = drop ?ch raw @ concat (upto_end ?e (Suc ?s) rest)"
    using ok ch raw unfolding rest_of_def here by (auto simp: upto_end_Cons position_ok_def)
  have spec: "\<not> pg_partial ?pg" "pg_lines ?pg \<noteq> []" "pg_content ?pg \<noteq> []"
    using page_loop_later [of r "Suc ?s" ?st ?pg rest] out by auto
  show ?thesis
  proof (cases "pg_next_line ?pg")
    case None
    then show ?thesis
      using page_loop_later [of r "Suc ?s" ?st ?pg rest] spec out here_text by (simp add: page_spec_def)
  next
    case (Some l)
    then have l: "pg_next_char ?pg = 0" "Suc ?s \<le> l" "l < Suc ?s + length rest" "within ?e l"
      "pg_content ?pg = drop ?ch raw @ concat (take (l - Suc ?s) rest)"
      using page_loop_later [of r "Suc ?s" ?st ?pg rest] out by auto
    have "drop (l - Suc ?s) rest = drop (l - 1) ls" using l(2) unfolding later by simp
    then have "rest_of ls ?e ?s ?ch = pg_content ?pg @ rest_of ls ?e l 0"
      using upto_end_split [OF l(4,2), of rest] here_text l(5) by (simp add: rest_of_def)
    moreover have "position_ok ls ?e l 0" using l(2-4) unfolding later by (auto simp: position_ok_def)
    ultimately show ?thesis using Some l(1) spec by (simp add: page_spec_def)
  qed
qed

lemma read_page_spec:
  assumes "position_ok (raw_lines t) (pr_req_end r) (pr_start_line r) (pr_start_char r)"
  shows "page_spec (raw_lines t) r (read_page t r)"
proof -
  let ?ls = "raw_lines t" and ?s = "pr_start_line r" and ?st = "\<lparr>ps_out = [], ps_raw_out = [], ps_used = 0, ps_rendered = 0\<rparr>"
  have s: "1 \<le> ?s" "?s \<le> length ?ls" "within (pr_req_end r) ?s" using assms by (auto simp: position_ok_def)
  obtain raw rest where here: "drop (?s - 1) ?ls = raw # rest"
    using s by (cases "drop (?s - 1) ?ls") auto
  obtain c0 tm where sp: "split_terminator raw = (c0, tm)" by fastforce
  have "?ls ! (?s - 1) = raw" using here by (metis nth_via_drop)
  then have ch: "pr_start_char r = 0 \<or> pr_start_char r < length c0" and filled: "raw \<noteq> []"
    using assms sp raw_lines_nonempty [of t] s by (auto simp: position_ok_def list_all_length)
  have "read_page t r = page_loop r ?s (raw # rest) ?st"
    using page_loop_skip [of 1 r ?ls ?st] s here by (simp add: read_page_def)
  also have "\<dots> = (if overlong r ?st (drop (pr_start_char r) c0)
      then cut_line r ?s (pr_start_char r) (drop (pr_start_char r) c0) ?st
      else page_loop r (Suc ?s) rest (add_line ?s (drop (pr_start_char r) c0) tm ?st))"
    using s(3) sp ch by (auto simp: page_full_def within_def Let_def split: option.splits)
  finally show ?thesis
    using cut_line_spec [OF assms here sp] whole_line_spec [OF assms here sp filled] by simp
qed

section \<open>Following the cursors\<close>

lemma file_chunks_concat [simp]: "concat (file_chunks t) = t"
  by (induction t rule: file_chunks.induct) (subst file_chunks.simps, simp)

lemma file_chunks_filled: "list_all (\<lambda>c. c \<noteq> []) (file_chunks t)"
  by (induction t rule: file_chunks.induct) (subst file_chunks.simps, simp)

lemma line_count [simp]: "fsc_line_count (scan_file (file_chunks t)) = length (raw_lines t)"
  using scan_counts_lines [OF file_chunks_filled [of t]] by simp

definition cursor_at :: "view_file \<Rightarrow> nat \<Rightarrow> nat option \<Rightarrow> nat \<Rightarrow> nat \<Rightarrow> nat \<Rightarrow> cursor" where
  "cursor_at f req_start e m l ch =
     \<lparr>cu_path = vf_path f, cu_file_id = vf_id f, cu_digest = vf_digest f, cu_line = l, cu_char = ch,
      cu_req_start = req_start, cu_end_line = e, cu_max_lines = m\<rparr>"

lemma view_page_step:
  assumes "page_position f vrange cur max_lines = Inr (l, ch, req_start, e, m, w)"
    and "position_ok (raw_lines (vf_text f)) e l ch"
  shows "\<exists>obs. view_file_page f vrange cur max_lines = Inr obs \<and> vo_content obs \<noteq> [] \<and>
    (case vo_cursor obs of
       None \<Rightarrow> vo_content obs = rest_of (raw_lines (vf_text f)) e l ch
     | Some c \<Rightarrow> \<exists>l' ch'. c = cursor_at f req_start e m l' ch' \<and> position_ok (raw_lines (vf_text f)) e l' ch' \<and>
         vo_content obs @ rest_of (raw_lines (vf_text f)) e l' ch' = rest_of (raw_lines (vf_text f)) e l ch)"
proof -
  let ?ls = "raw_lines (vf_text f)"
  let ?r = "\<lparr>pr_start_line = l, pr_start_char = ch, pr_req_end = e, pr_max_lines = m, pr_char_budget = MAX_RESPONSE_LEN_CHAR\<rparr>"
  let ?pg = "read_page (vf_text f) ?r"
  have spec: "page_spec ?ls ?r ?pg" using assms(2) by (intro read_page_spec) simp
  have bounds: "1 \<le> l" "l \<le> length ?ls" using assms(2) by (auto simp: position_ok_def)
  then have "vf_text f \<noteq> []" by auto
  have next_ok: "pg_partial ?pg \<or> (case e of None \<Rightarrow> True | Some k \<Rightarrow> l' \<le> k)" if "pg_next_line ?pg = Some l'" for l'
    using spec that by (auto simp: page_spec_def position_ok_def within_def split: option.splits)
  show ?thesis
  proof (cases "pg_next_line ?pg")
    case None
    then show ?thesis
      using spec assms(1) bounds \<open>vf_text f \<noteq> []\<close> by (auto simp: view_file_page_def Let_def page_spec_def)
  next
    case (Some l')
    then show ?thesis
      using spec assms(1) bounds \<open>vf_text f \<noteq> []\<close> next_ok [OF Some]
      by (simp add: view_file_page_def Let_def page_spec_def cursor_at_def)
  qed
qed

text \<open>Viewing until no cursor is returned, as a reader does: the contents put together.\<close>

partial_function (option) view_all ::
    "view_file \<Rightarrow> int list \<Rightarrow> cursor option \<Rightarrow> int option \<Rightarrow> (view_refusal + string) option" where
  "view_all f vrange cur max_lines =
     (case view_text f vrange cur max_lines of
        Inl e \<Rightarrow> Some (Inl e)
      | Inr obs \<Rightarrow>
          (case vo_cursor obs of
             None \<Rightarrow> Some (Inr (vo_content obs))
           | Some c \<Rightarrow> Option.bind (view_all f [] (Some c) max_lines)
               (\<lambda>r. Some (case r of Inl e \<Rightarrow> Inl e | Inr u \<Rightarrow> Inr (vo_content obs @ u)))))"

lemma view_all_from:
  assumes "page_position f vrange cur max_lines = Inr (l, ch, req_start, e, m, w)"
    and "position_ok (raw_lines (vf_text f)) e l ch" and "max_lines = None \<or> max_lines = Some (int m)"
    and "cur = None \<or> vrange = []"
  shows "view_all f vrange cur max_lines = Some (Inr (rest_of (raw_lines (vf_text f)) e l ch))"
  using assms
proof (induction "length (rest_of (raw_lines (vf_text f)) e l ch)" arbitrary: vrange cur l ch w rule: less_induct)
  case less
  let ?ls = "raw_lines (vf_text f)"
  obtain obs where obs: "view_file_page f vrange cur max_lines = Inr obs" "vo_content obs \<noteq> []"
    and step: "case vo_cursor obs of
       None \<Rightarrow> vo_content obs = rest_of ?ls e l ch
     | Some c \<Rightarrow> \<exists>l' ch'. c = cursor_at f req_start e m l' ch' \<and> position_ok ?ls e l' ch' \<and>
         vo_content obs @ rest_of ?ls e l' ch' = rest_of ?ls e l ch"
    using view_page_step [OF less.prems(1,2)] by blast
  have view: "view_text f vrange cur max_lines = Inr obs"
    using obs(1) less.prems(4) by (auto simp: view_text_def)
  show ?case
  proof (cases "vo_cursor obs")
    case None
    then show ?thesis using view step by (subst view_all.simps) simp
  next
    case (Some c)
    then obtain l' ch' where c: "c = cursor_at f req_start e m l' ch'" "position_ok ?ls e l' ch'"
      "vo_content obs @ rest_of ?ls e l' ch' = rest_of ?ls e l ch" using step by auto
    have pos: "page_position f [] (Some c) max_lines = Inr (l', ch', req_start, e, m, False)"
      using less.prems(3) by (auto simp: page_position_def c(1) cursor_at_def)
    have "length (rest_of ?ls e l' ch') < length (rest_of ?ls e l ch)"
      using obs(2) arg_cong [OF c(3), of length] by (cases "vo_content obs") auto
    then have "view_all f [] (Some c) max_lines = Some (Inr (rest_of ?ls e l' ch'))"
      using less.hyps [OF _ pos c(2) less.prems(3)] by simp
    then show ?thesis using view Some c(3) by (subst view_all.simps) simp
  qed
qed

text \<open>
  C14. Viewing a file page by page, with any page size, ends and shows exactly the lines asked for: the
  contents of the pages put together are the lines of the requested span with their line ends,
  also when a line is too long for one page and is cut in pieces. A request without a range gives the
  whole text.
\<close>

theorem view_pages_complete:
  assumes "requested_span vrange (length (raw_lines (vf_text f))) = Inr (a, b, w)"
    and "max_lines = None \<or> (\<exists>n \<ge> 1. max_lines = Some n)"
  shows "view_all f vrange None max_lines =
      Some (Inr (concat (take (Suc b - a) (drop (a - 1) (raw_lines (vf_text f)))))) \<and>
    view_all f [] None max_lines = Some (Inr (vf_text f))"
proof -
  let ?ls = "raw_lines (vf_text f)"
  define m where "m = nat (case max_lines of None \<Rightarrow> DEFAULT_MAX_VIEW_LINES | Some n \<Rightarrow> n)"
  have m: "max_lines = None \<or> max_lines = Some (int m)" using assms(2) by (auto simp: m_def)
  have one: "view_all f rg None max_lines = Some (Inr (concat (take (Suc b' - a') (drop (a' - 1) ?ls))))"
    if span: "requested_span rg (length ?ls) = Inr (a', b', w')" for rg a' b' w'
  proof (cases "vf_text f = []")
    case True
    then have "view_file_page f rg None max_lines = Inr \<lparr>vo_status = ViewEmpty, vo_requested = None, vo_content = [],
        vo_eof = True, vo_truncated = False, vo_cursor = None, vo_warning = w'\<rparr>"
      using span assms(2) by (auto simp: view_file_page_def page_position_def DEFAULT_MAX_VIEW_LINES_def)
    then show ?thesis using True by (subst view_all.simps) (simp add: view_text_def)
  next
    case False
    have pos: "page_position f rg None max_lines = Inr (a', 0, a', Some b', m, w')"
      using span assms(2) by (auto simp: page_position_def m_def DEFAULT_MAX_VIEW_LINES_def)
    have "1 \<le> a' \<and> a' \<le> b' \<and> b' \<le> length ?ls"
      using span False by (auto simp: requested_span_def Let_def Suc_le_eq split: list.splits if_splits)
    then have "position_ok ?ls (Some b') a' 0" by (simp add: position_ok_def within_def)
    from view_all_from [OF pos this m] show ?thesis by (simp add: rest_of_def upto_end_def)
  qed
  show ?thesis
    using one [OF assms(1)] one [of "[]" 1 "length ?ls" False] by (simp add: requested_span_def)
qed

definition sample_file :: view_file where
  "sample_file = \<lparr>vf_path = ''/a'', vf_id = ''1:2'', vf_digest = ''d'', vf_text = ''x'' @ newline @ ''y''\<rparr>"

theorem view_pages_complete_witness:
  "view_all sample_file [2, -1] None (Some 1) = Some (Inr ''y'')"
proof -
  have ls: "raw_lines (vf_text sample_file) = [''x'' @ newline, ''y'']" by code_simp
  have "requested_span [2, -1] (length (raw_lines (vf_text sample_file))) = Inr (2, 2, False)"
    unfolding ls by (simp add: requested_span_def)
  from view_pages_complete [OF this, of "Some 1"] show ?thesis unfolding ls by simp
qed

end
