(* ===== verification/Edit_History.thy ===== *)
theory Edit_History
  imports Text_Files
begin

text \<open>
  The undo history of the file editor (\<^verbatim>\<open>agentrt-tools/file_editor/utils/history.py\<close> on
  \<^verbatim>\<open>utils/file_cache.py\<close>): entries and metadata are values in one cache, under keys built from the path. The
  cache keeps a file per hashed key; the model identifies keys with equal text only, and has no size limit, as
  the history manager sets none. The contract of an undo history is the locale \<open>undo_history\<close>.
\<close>

section \<open>The history manager\<close>

datatype cache_value = CText string | CMeta "nat list" nat

type_synonym history_cache = "string \<rightharpoonup> cache_value"

definition get_metadata_key :: "string \<Rightarrow> string" where
  "get_metadata_key file_path = file_path @ ''.metadata''"

definition get_history_key :: "string \<Rightarrow> nat \<Rightarrow> string" where
  "get_history_key file_path counter = file_path @ ''.'' @ dec counter"

definition get_metadata :: "string \<Rightarrow> history_cache \<Rightarrow> nat list \<times> nat" where
  "get_metadata file_path c =
     (case c (get_metadata_key file_path) of Some (CMeta es n) \<Rightarrow> (es, n) | _ \<Rightarrow> ([], 0))"

definition max_history_per_file :: nat where
  "max_history_per_file = 10"

text \<open>The loop that drops the oldest entries.\<close>

fun trim_entries :: "string \<Rightarrow> nat list \<Rightarrow> history_cache \<Rightarrow> nat list \<times> history_cache" where
  "trim_entries file_path [] c = ([], c)"
| "trim_entries file_path (e # es) c =
     (if max_history_per_file < length (e # es)
      then trim_entries file_path es (c(get_history_key file_path e := None))
      else (e # es, c))"

definition add_history :: "string \<Rightarrow> string \<Rightarrow> history_cache \<Rightarrow> history_cache" where
  "add_history file_path content c =
     (let (entries, counter) = get_metadata file_path c;
          (kept, c1) = trim_entries file_path (entries @ [counter])
            (c(get_history_key file_path counter \<mapsto> CText content))
      in c1(get_metadata_key file_path \<mapsto> CMeta kept (Suc counter)))"

definition pop_last_history :: "string \<Rightarrow> history_cache \<Rightarrow> string option \<times> history_cache" where
  "pop_last_history file_path c =
     (let (entries, counter) = get_metadata file_path c
      in if entries = [] then (None, c)
         else
           let key = get_history_key file_path (last entries);
               c1 = c(key := None)
           in (case c key of Some (CText t) \<Rightarrow> Some t | _ \<Rightarrow> None,
               c1(get_metadata_key file_path \<mapsto> CMeta (butlast entries) counter)))"

definition get_all_history :: "string \<Rightarrow> history_cache \<Rightarrow> string list" where
  "get_all_history file_path c =
     concat (map (\<lambda>e. case c (get_history_key file_path e) of Some (CText t) \<Rightarrow> [t] | _ \<Rightarrow> [])
       (fst (get_metadata file_path c)))"

definition clear_history :: "string \<Rightarrow> history_cache \<Rightarrow> history_cache" where
  "clear_history file_path c =
     (fold (\<lambda>e c. c(get_history_key file_path e := None)) (fst (get_metadata file_path c)) c)
       (get_metadata_key file_path \<mapsto> CMeta [] 0)"

section \<open>The contract\<close>

locale undo_history =
  fixes ok :: "'h \<Rightarrow> bool" and stack :: "'h \<Rightarrow> 'p \<Rightarrow> 'c list"
    and push :: "'p \<Rightarrow> 'c \<Rightarrow> 'h \<Rightarrow> 'h" and pop :: "'p \<Rightarrow> 'h \<Rightarrow> 'c option \<times> 'h" and depth :: nat
  assumes depth_pos: "0 < depth"
    and push_ok: "ok h \<Longrightarrow> ok (push p x h)"
    and push_stack: "ok h \<Longrightarrow> stack (push p x h) q =
      (if q = p then drop (Suc (length (stack h p)) - depth) (stack h p @ [x]) else stack h q)"
    and pop_ok: "ok h \<Longrightarrow> ok (snd (pop p h))"
    and pop_value: "ok h \<Longrightarrow> fst (pop p h) = (if stack h p = [] then None else Some (last (stack h p)))"
    and pop_stack: "ok h \<Longrightarrow> stack (snd (pop p h)) q = (if q = p then butlast (stack h p) else stack h q)"
begin

lemma push_then_pop:
  assumes "ok h" and "length (stack h p) < depth"
  shows "fst (pop p (push p x h)) = Some x \<and> stack (snd (pop p (push p x h))) q = stack h q"
  using assms by (simp add: push_ok push_stack pop_value pop_stack)

lemma push_then_value:
  assumes "ok h" shows "fst (pop p (push p x h)) = Some x"
proof -
  have "Suc (length (stack h p)) - depth \<le> length (stack h p)" using depth_pos by simp
  then have "stack (push p x h) p \<noteq> []" "last (stack (push p x h) p) = x"
    using assms by (simp_all add: push_stack last_drop)
  then show ?thesis using assms by (simp add: push_ok pop_value)
qed

lemma stack_bounded:
  assumes "ok h" shows "length (stack (push p x h) p) \<le> max depth (length (stack h p))"
  using assms depth_pos by (simp add: push_stack)

end

section \<open>The history manager keeps the contract\<close>

lemma after_last_dot:
  assumes "CHR ''.'' \<notin> set d"
  shows "takeWhile (\<lambda>c. c \<noteq> CHR ''.'') (rev (p @ CHR ''.'' # d)) = rev d"
proof -
  have "takeWhile (\<lambda>c. c \<noteq> CHR ''.'') (rev d @ CHR ''.'' # rev p) = rev d @ takeWhile (\<lambda>c. c \<noteq> CHR ''.'') (CHR ''.'' # rev p)"
    using assms by (intro takeWhile_append2) auto
  then show ?thesis by simp
qed

lemma dec_no_dot: "CHR ''.'' \<notin> set (dec n)"
  using dec_digits [of n] by (auto simp: list_all_iff is_digit_def)

lemma history_key_inject [simp]: "get_history_key p n = get_history_key q m \<longleftrightarrow> p = q \<and> n = m"
proof
  assume eq: "get_history_key p n = get_history_key q m"
  then have "rev (dec n) = rev (dec m)"
    using after_last_dot [OF dec_no_dot, of p n] after_last_dot [OF dec_no_dot, of q m] by (simp add: get_history_key_def)
  then have "n = m" by simp
  then show "p = q \<and> n = m" using eq by (simp add: get_history_key_def)
qed simp

lemma metadata_key_inject [simp]: "get_metadata_key p = get_metadata_key q \<longleftrightarrow> p = q"
  by (simp add: get_metadata_key_def)

lemma keys_apart [simp]: "get_history_key p n \<noteq> get_metadata_key q" "get_metadata_key q \<noteq> get_history_key p n"
proof -
  show "get_history_key p n \<noteq> get_metadata_key q"
  proof
    assume "get_history_key p n = get_metadata_key q"
    then have "rev (dec n) = rev ''metadata''"
      using after_last_dot [OF dec_no_dot, of p n] after_last_dot [of "''metadata''" q]
      by (simp add: get_history_key_def get_metadata_key_def)
    then have "dec n = ''metadata''" by (simp only: rev_is_rev_conv)
    then show False using dec_digits [of n] by (simp add: is_digit_def)
  qed
  then show "get_metadata_key q \<noteq> get_history_key p n" by metis
qed

definition entries_ok :: "history_cache \<Rightarrow> string \<Rightarrow> bool" where
  "entries_ok c p \<longleftrightarrow> (let (es, n) = get_metadata p c in distinct es \<and> (\<forall>e \<in> set es. e < n \<and>
     (\<exists>t. c (get_history_key p e) = Some (CText t))))"

definition history_ok :: "history_cache \<Rightarrow> bool" where
  "history_ok c \<longleftrightarrow> (\<forall>p. entries_ok c p \<and> length (fst (get_metadata p c)) \<le> max_history_per_file)"

definition entry_text :: "history_cache \<Rightarrow> string \<Rightarrow> nat \<Rightarrow> string" where
  "entry_text c p e = (case c (get_history_key p e) of Some (CText t) \<Rightarrow> t | _ \<Rightarrow> [])"

definition history_stack :: "history_cache \<Rightarrow> string \<Rightarrow> string list" where
  "history_stack c p = map (entry_text c p) (fst (get_metadata p c))"

lemma history_okD:
  assumes "history_ok c" and "get_metadata p c = (es, n)"
  shows "distinct es" "e \<in> set es \<Longrightarrow> e < n" "e \<in> set es \<Longrightarrow> c (get_history_key p e) = Some (CText (entry_text c p e))"
    "length es \<le> max_history_per_file"
proof -
  have ok: "entries_ok c p" "length (fst (get_metadata p c)) \<le> max_history_per_file"
    using assms(1) by (auto simp: history_ok_def)
  show "distinct es" "e \<in> set es \<Longrightarrow> e < n" "length es \<le> max_history_per_file"
    "e \<in> set es \<Longrightarrow> c (get_history_key p e) = Some (CText (entry_text c p e))"
    using ok assms(2) by (auto simp: entries_ok_def entry_text_def)
qed

lemma entries_listed:
  "\<forall>e \<in> set es. \<exists>t. c (get_history_key p e) = Some (CText t) \<Longrightarrow>
   concat (map (\<lambda>e. case c (get_history_key p e) of Some (CText t) \<Rightarrow> [t] | _ \<Rightarrow> []) es) = map (entry_text c p) es"
  by (induction es) (auto simp: entry_text_def)

lemma get_all_history_stack:
  assumes "history_ok c" shows "get_all_history p c = history_stack c p"
proof -
  obtain es n where m: "get_metadata p c = (es, n)" by fastforce
  then have "\<forall>e \<in> set es. \<exists>t. c (get_history_key p e) = Some (CText t)" using history_okD(3) [OF assms m] by blast
  then show ?thesis using m by (simp add: get_all_history_def history_stack_def entries_listed)
qed

lemma trim_entries_eq:
  "trim_entries p es c = (drop (length es - max_history_per_file) es,
     \<lambda>k. if k \<in> get_history_key p ` set (take (length es - max_history_per_file) es) then None else c k)"
proof (induction es arbitrary: c)
  case (Cons e es)
  then show ?case by (auto simp: Suc_diff_le fun_eq_iff)
qed simp

text \<open>The metadata and the entries after adding and popping.\<close>

lemma add_history_lookup:
  assumes "get_metadata p c = (es, n)"
  shows "get_metadata q (add_history p x c) =
      (if q = p then (drop (Suc (length es) - max_history_per_file) (es @ [n]), Suc n) else get_metadata q c)"
    and "add_history p x c (get_history_key q e) =
      (if q = p \<and> e \<in> set (take (Suc (length es) - max_history_per_file) (es @ [n])) then None
       else if q = p \<and> e = n then Some (CText x) else c (get_history_key q e))"
  using assms by (auto simp: add_history_def trim_entries_eq get_metadata_def [of _ "_(_ := _)"] get_metadata_def [of q c])

lemma pop_history_lookup:
  assumes "get_metadata p c = (es, n)" and "es \<noteq> []"
  shows "get_metadata q (snd (pop_last_history p c)) = (if q = p then (butlast es, n) else get_metadata q c)"
    and "snd (pop_last_history p c) (get_history_key q e) =
      (if q = p \<and> e = last es then None else c (get_history_key q e))"
  using assms by (auto simp: pop_last_history_def get_metadata_def [of _ "_(_ := _)"] get_metadata_def [of q c] Let_def)

lemma history_okI:
  assumes "\<And>p es n. get_metadata p c = (es, n) \<Longrightarrow> distinct es \<and> length es \<le> max_history_per_file \<and>
    (\<forall>e \<in> set es. e < n \<and> (\<exists>t. c (get_history_key p e) = Some (CText t)))"
  shows "history_ok c"
proof -
  have "entries_ok c p \<and> length (fst (get_metadata p c)) \<le> max_history_per_file" for p
  proof -
    obtain es n where m: "get_metadata p c = (es, n)" by fastforce
    show ?thesis using assms [OF m] m by (simp add: entries_ok_def)
  qed
  then show ?thesis by (simp add: history_ok_def)
qed

lemma dropped_not_kept:
  assumes "distinct xs" and "e \<in> set (drop k xs)" shows "e \<notin> set (take k xs)"
  using assms by (metis append_take_drop_id disjoint_iff distinct_append)

lemma add_history_ok:
  assumes "history_ok c" shows "history_ok (add_history p x c)"
proof (rule history_okI)
  fix q es' n'
  assume m': "get_metadata q (add_history p x c) = (es', n')"
  obtain es n where m: "get_metadata p c = (es, n)" by fastforce
  note look = add_history_lookup [OF m] and okp = history_okD [OF assms m]
  let ?k = "Suc (length es) - max_history_per_file"
  have d: "distinct (es @ [n])" using okp(1,2) by auto
  show "distinct es' \<and> length es' \<le> max_history_per_file \<and>
    (\<forall>e \<in> set es'. e < n' \<and> (\<exists>t. add_history p x c (get_history_key q e) = Some (CText t)))"
  proof (cases "q = p")
    case False
    then have "get_metadata q c = (es', n')" using m' look(1) by simp
    note okq = history_okD [OF assms this]
    show ?thesis using False okq(1,2,4) okq(3) by (simp add: look(2))
  next
    case True
    then have es': "es' = drop ?k (es @ [n])" "n' = Suc n" using m' look(1) by auto
    have "\<exists>t. add_history p x c (get_history_key q e) = Some (CText t)" if "e \<in> set es'" for e
    proof -
      have "e \<notin> set (take ?k (es @ [n]))" by (rule dropped_not_kept [OF d that [unfolded es'(1)]])
      moreover have "e = n \<or> e \<in> set es" using that set_drop_subset [of ?k "es @ [n]"] unfolding es'(1) by auto
      ultimately show ?thesis using True okp(3) [of e] by (auto simp: look(2))
    qed
    moreover have "e < n'" if "e \<in> set es'" for e
      using that set_drop_subset [of ?k "es @ [n]"] okp(2) [of e] es' by auto
    ultimately show ?thesis using d es'(1) by (simp add: distinct_drop del: drop_append)
  qed
qed

lemma add_history_stack:
  assumes "history_ok c"
  shows "history_stack (add_history p x c) q =
    (if q = p then drop (Suc (length (history_stack c p)) - max_history_per_file) (history_stack c p @ [x]) else history_stack c q)"
proof -
  obtain es n where m: "get_metadata p c = (es, n)" by fastforce
  note look = add_history_lookup [OF m] and okp = history_okD [OF assms m]
  let ?k = "Suc (length es) - max_history_per_file"
  have d: "distinct (es @ [n])" using okp(1,2) by auto
  have "map (entry_text (add_history p x c) p) (drop ?k (es @ [n])) = drop ?k (map (entry_text c p) es @ [x])"
  proof -
    have "entry_text (add_history p x c) p e = (if e = n then x else entry_text c p e)" if "e \<in> set (drop ?k (es @ [n]))" for e
      using dropped_not_kept [OF d that] by (simp add: entry_text_def look(2))
    then have "map (entry_text (add_history p x c) p) (drop ?k (es @ [n])) =
        map (\<lambda>e. if e = n then x else entry_text c p e) (drop ?k (es @ [n]))" by simp
    also have "\<dots> = drop ?k (map (\<lambda>e. if e = n then x else entry_text c p e) (es @ [n]))" by (simp only: drop_map)
    also have "map (\<lambda>e. if e = n then x else entry_text c p e) (es @ [n]) = map (entry_text c p) es @ [x]"
      using okp(2) by auto
    finally show ?thesis .
  qed
  then show ?thesis using m by (auto simp: history_stack_def look(1) entry_text_def look(2) simp del: drop_append)
qed

lemma pop_history_ok:
  assumes "history_ok c" shows "history_ok (snd (pop_last_history p c))"
proof -
  obtain es n where m: "get_metadata p c = (es, n)" by fastforce
  show ?thesis
  proof (cases "es = []")
    case True
    then show ?thesis using assms m by (simp add: pop_last_history_def)
  next
    case False
    note look = pop_history_lookup [OF m False] and okp = history_okD [OF assms m]
    have last_out: "last es \<notin> set (butlast es)" using okp(1) False by (metis append_butlast_last_id distinct_append disjoint_iff list.set_intros(1))
    show ?thesis
    proof (rule history_okI)
      fix q es' n'
      assume m': "get_metadata q (snd (pop_last_history p c)) = (es', n')"
      show "distinct es' \<and> length es' \<le> max_history_per_file \<and>
        (\<forall>e \<in> set es'. e < n' \<and> (\<exists>t. snd (pop_last_history p c) (get_history_key q e) = Some (CText t)))"
      proof (cases "q = p")
        case True
        then have es': "es' = butlast es" "n' = n" using m' look(1) by auto
        then show ?thesis
          using True okp last_out in_set_butlastD [of _ es] by (auto simp: look(2) distinct_butlast)
      next
        case False
        then have mq: "get_metadata q c = (es', n')" using m' look(1) by simp
        show ?thesis using False history_okD [OF assms mq] by (simp add: look(2))
      qed
    qed
  qed
qed

lemma pop_history_value:
  assumes "history_ok c"
  shows "fst (pop_last_history p c) = (if history_stack c p = [] then None else Some (last (history_stack c p)))"
proof -
  obtain es n where m: "get_metadata p c = (es, n)" by fastforce
  then show ?thesis
    using history_okD(3) [OF assms m, of "last es"]
    by (cases "es = []") (auto simp: pop_last_history_def history_stack_def last_map Let_def)
qed

lemma pop_history_stack:
  assumes "history_ok c"
  shows "history_stack (snd (pop_last_history p c)) q = (if q = p then butlast (history_stack c p) else history_stack c q)"
proof -
  obtain es n where m: "get_metadata p c = (es, n)" by fastforce
  show ?thesis
  proof (cases "es = []")
    case True
    then show ?thesis using m by (simp add: pop_last_history_def history_stack_def)
  next
    case False
    note look = pop_history_lookup [OF m False] and okp = history_okD [OF assms m]
    have "last es \<notin> set (butlast es)" using okp(1) False by (metis append_butlast_last_id distinct_append disjoint_iff list.set_intros(1))
    then show ?thesis using m by (auto simp: history_stack_def look(1) entry_text_def look(2) map_butlast [symmetric])
  qed
qed

interpretation editor_history: undo_history history_ok history_stack add_history pop_last_history max_history_per_file
  by unfold_locales
     (simp_all add: max_history_per_file_def [symmetric] add_history_ok add_history_stack pop_history_ok
       pop_history_value pop_history_stack, simp add: max_history_per_file_def)

section \<open>Sequences of operations\<close>

datatype history_op = Push string string | Pop string

fun history_exec :: "history_op \<Rightarrow> history_cache \<Rightarrow> string option \<times> history_cache" where
  "history_exec (Push p x) c = (None, add_history p x c)"
| "history_exec (Pop p) c = pop_last_history p c"

fun history_run :: "history_op list \<Rightarrow> history_cache \<Rightarrow> string option list \<times> history_cache" where
  "history_run [] c = ([], c)"
| "history_run (op # ops) c =
     (let (v, c1) = history_exec op c; (vs, c2) = history_run ops c1 in (v # vs, c2))"

text \<open>The specification: one bounded stack of texts for each path.\<close>

fun stack_exec :: "history_op \<Rightarrow> (string \<Rightarrow> string list) \<Rightarrow> string option \<times> (string \<Rightarrow> string list)" where
  "stack_exec (Push p x) f = (None, f(p := drop (Suc (length (f p)) - max_history_per_file) (f p @ [x])))"
| "stack_exec (Pop p) f = (if f p = [] then (None, f) else (Some (last (f p)), f(p := butlast (f p))))"

fun stack_run :: "history_op list \<Rightarrow> (string \<Rightarrow> string list) \<Rightarrow> string option list \<times> (string \<Rightarrow> string list)" where
  "stack_run [] f = ([], f)"
| "stack_run (op # ops) f = (let (v, f1) = stack_exec op f; (vs, f2) = stack_run ops f1 in (v # vs, f2))"

lemma history_exec_refines:
  assumes "history_ok c"
  shows "history_ok (snd (history_exec op c)) \<and> fst (history_exec op c) = fst (stack_exec op (history_stack c)) \<and>
    history_stack (snd (history_exec op c)) = snd (stack_exec op (history_stack c))"
  using assms
  by (cases op)
     (auto simp: fun_eq_iff editor_history.push_ok editor_history.push_stack editor_history.pop_ok
       editor_history.pop_value editor_history.pop_stack simp del: drop_append)

lemma history_run_refines:
  "history_ok c \<Longrightarrow> history_ok (snd (history_run ops c)) \<and>
   fst (history_run ops c) = fst (stack_run ops (history_stack c)) \<and>
   history_stack (snd (history_run ops c)) = snd (stack_run ops (history_stack c))"
proof (induction ops arbitrary: c)
  case (Cons op ops)
  note step = history_exec_refines [OF Cons.prems, of op]
  have "history_ok (snd (history_exec op c))" using step by simp
  note rest = Cons.IH [OF this]
  show ?case using step rest by (auto simp: Let_def split: prod.splits)
qed simp

lemma no_history:
  "history_ok Map.empty" "history_stack Map.empty = (\<lambda>_. [])"
  by (auto intro!: history_okI simp: get_metadata_def history_stack_def)

text \<open>
  C15. The undo history, which keeps entries and metadata under made-up keys of one cache, is one bounded
  stack per file: whatever edits of whatever files are recorded and undone, in any order, every undo returns
  what the stack of that file holds on top, nothing when it is empty, and the listed history is the stack.
\<close>

theorem history_refines_stacks:
  "fst (history_run ops Map.empty) = fst (stack_run ops (\<lambda>_. [])) \<and>
   get_all_history p (snd (history_run ops Map.empty)) = snd (stack_run ops (\<lambda>_. [])) p"
  using history_run_refines [OF no_history(1), of ops] get_all_history_stack
  by (simp add: no_history(2))

end
