(* ===== verification/File_Editor.thy ===== *)
theory File_Editor
  imports Edit_History
begin

text \<open>
  The editing commands of the file editor (\<^verbatim>\<open>agentrt-tools/file_editor/editor.py\<close>): creating a file,
  replacing a string, inserting lines and undoing, with the checks before them. A file is its raw text;
  reading translates line ends, as text mode does. What the host decides (directories, binary files, whether
  a write succeeds) is an argument. Encodings and the texts shown to the model are not modelled.
\<close>

section \<open>State and checks\<close>

record editor_env =
  ev_is_dir :: "string \<Rightarrow> bool"
  ev_is_binary :: "string \<Rightarrow> bool"
  ev_write_fails :: "string \<Rightarrow> string \<Rightarrow> bool"
  ev_max_file_size :: nat
  ev_expanduser :: "string \<Rightarrow> string"

record editor =
  ed_files :: "string \<rightharpoonup> string"
  ed_history :: history_cache

datatype editor_error =
    ParameterMissing string string
  | ParameterInvalid string
  | FileInvalid string
  | EditFailed string

record edit_observation =
  eo_old_content :: "string option"
  eo_new_content :: string

type_synonym edit_result = "(editor_error + edit_observation) \<times> editor"

definition IMAGE_EXTENSIONS :: "string set" where
  "IMAGE_EXTENSIONS = {''.png'', ''.jpg'', ''.jpeg'', ''.gif'', ''.webp'', ''.bmp''}"

definition path_exists :: "editor_env \<Rightarrow> editor \<Rightarrow> string \<Rightarrow> bool" where
  "path_exists env s path \<longleftrightarrow> ev_is_dir env path \<or> ed_files s path \<noteq> None"

definition validate_path :: "editor_env \<Rightarrow> string \<Rightarrow> string \<Rightarrow> editor \<Rightarrow> editor_error option" where
  "validate_path env command path s =
     (if \<not> is_absolute (ev_expanduser env (strip path)) then Some (ParameterInvalid ''path'')
      else if command = ''create'' \<and> path_exists env s path then Some (ParameterInvalid ''path'')
      else if command \<noteq> ''create'' \<and> \<not> path_exists env s path then Some (ParameterInvalid ''path'')
      else if command \<noteq> ''view'' \<and> ev_is_dir env path then Some (ParameterInvalid ''path'')
      else None)"

definition validate_file :: "editor_env \<Rightarrow> string \<Rightarrow> editor \<Rightarrow> editor_error option" where
  "validate_file env path s =
     (case ed_files s path of
        None \<Rightarrow> None
      | Some t \<Rightarrow>
          if ev_max_file_size env < length t then Some (FileInvalid ''File is too large'')
          else if ev_is_binary env t \<and> lower (name_suffix (last (path_parts path))) \<notin> IMAGE_EXTENSIONS
          then Some (FileInvalid ''File appears to be binary'')
          else None)"

definition read_file :: "editor_env \<Rightarrow> string \<Rightarrow> editor \<Rightarrow> editor_error + string" where
  "read_file env path s =
     (case validate_file env path s of
        Some e \<Rightarrow> Inl e
      | None \<Rightarrow>
          (case ed_files s path of
             None \<Rightarrow> Inl (EditFailed ''read'') | Some t \<Rightarrow> Inr (universal_newlines t)))"

text \<open>A failed write leaves the file as it was: the text goes to a temporary file first.\<close>

definition write_file :: "editor_env \<Rightarrow> string \<Rightarrow> string \<Rightarrow> editor \<Rightarrow> editor_error option \<times> editor" where
  "write_file env path text s =
     (case validate_file env path s of
        Some e \<Rightarrow> (Some e, s)
      | None \<Rightarrow>
          if ev_write_fails env path text then (Some (EditFailed ''write''), s)
          else (None, s\<lparr>ed_files := (ed_files s)(path \<mapsto> text)\<rparr>))"

definition remember :: "string \<Rightarrow> string \<Rightarrow> editor \<Rightarrow> editor" where
  "remember path text s = s\<lparr>ed_history := add_history path text (ed_history s)\<rparr>"

section \<open>Commands\<close>

text \<open>The start positions of \<open>re.finditer(re.escape(old), text)\<close>: leftmost and without overlap.\<close>

function occurrences :: "string \<Rightarrow> string \<Rightarrow> nat \<Rightarrow> nat list" where
  "occurrences old t i =
     (if t = [] then (if old = [] then [i] else [])
      else if prefix old t then
        (if old = [] then i # occurrences old (tl t) (Suc i)
         else i # occurrences old (drop (length old) t) (i + length old))
      else occurrences old (tl t) (Suc i))"
  by pat_completeness auto
termination
  by (relation "measure (\<lambda>(_, t, _). length t)") auto

declare occurrences.simps [simp del]

definition create_file :: "editor_env \<Rightarrow> string \<Rightarrow> string \<Rightarrow> editor \<Rightarrow> edit_result" where
  "create_file env path file_text s =
     (case write_file env path file_text s of
        (Some e, s1) \<Rightarrow> (Inl e, s1)
      | (None, s1) \<Rightarrow>
          (Inr \<lparr>eo_old_content = None, eo_new_content = file_text\<rparr>, remember path file_text s1))"

definition str_replace :: "editor_env \<Rightarrow> string \<Rightarrow> string \<Rightarrow> string \<Rightarrow> editor \<Rightarrow> edit_result" where
  "str_replace env path old_str new_str s =
     (case validate_file env path s of
        Some e \<Rightarrow> (Inl e, s)
      | None \<Rightarrow>
          (case read_file env path s of
             Inl e \<Rightarrow> (Inl e, s)
           | Inr file_content \<Rightarrow>
               let old = (if occurrences old_str file_content 0 = [] then strip old_str else old_str)
               in case occurrences old file_content 0 of
                    [] \<Rightarrow> (Inl (EditFailed ''did not appear verbatim''), s)
                  | [idx] \<Rightarrow>
                      let new_file_content = take idx file_content @ new_str @ drop (idx + length old) file_content
                      in (case write_file env path new_file_content s of
                            (Some e, s1) \<Rightarrow> (Inl e, s1)
                          | (None, s1) \<Rightarrow>
                              let s2 = remember path file_content s1
                              in (case read_file env path s2 of
                                    Inl e \<Rightarrow> (Inl e, s2)
                                  | Inr _ \<Rightarrow>
                                      (Inr \<lparr>eo_old_content = Some file_content, eo_new_content = new_file_content\<rparr>, s2)))
                  | _ \<Rightarrow> (Inl (EditFailed ''Multiple occurrences''), s)))"

text \<open>\<open>insert\<close>: the lines before, the new lines each with a line feed, the lines after.\<close>

definition insert_text :: "nat \<Rightarrow> string \<Rightarrow> string \<Rightarrow> string" where
  "insert_text insert_line new_str content =
     concat (take insert_line (text_lines content) @ map (\<lambda>l. l @ newline) (split_newline new_str) @
       drop insert_line (text_lines content))"

definition insert_lines :: "editor_env \<Rightarrow> string \<Rightarrow> int \<Rightarrow> string \<Rightarrow> editor \<Rightarrow> edit_result" where
  "insert_lines env path insert_line new_str s =
     (case validate_file env path s of
        Some e \<Rightarrow> (Inl e, s)
      | None \<Rightarrow>
          (case ed_files s path of
             None \<Rightarrow> (Inl (EditFailed ''read''), s)
           | Some raw \<Rightarrow>
               let content = universal_newlines raw
               in if insert_line < 0 \<or> int (length (text_lines content)) < insert_line
                  then (Inl (ParameterInvalid ''insert_line''), s)
                  else
                    (case write_file env path (insert_text (nat insert_line) new_str content) s of
                       (Some e, s1) \<Rightarrow> (Inl e, s1)
                     | (None, s1) \<Rightarrow>
                         (case read_file env path s1 of
                            Inl e \<Rightarrow> (Inl e, s1)
                          | Inr new_file_text \<Rightarrow>
                              (Inr \<lparr>eo_old_content = Some content, eo_new_content = new_file_text\<rparr>,
                               remember path content s1)))))"

definition undo_edit :: "editor_env \<Rightarrow> string \<Rightarrow> editor \<Rightarrow> edit_result" where
  "undo_edit env path s =
     (case read_file env path s of
        Inl e \<Rightarrow> (Inl e, s)
      | Inr current_text \<Rightarrow>
          (case pop_last_history path (ed_history s) of
             (None, h) \<Rightarrow> (Inl (EditFailed ''No edit history found''), s\<lparr>ed_history := h\<rparr>)
           | (Some old_text, h) \<Rightarrow>
               (case write_file env path old_text (s\<lparr>ed_history := h\<rparr>) of
                  (Some e, s1) \<Rightarrow> (Inl e, s1)
                | (None, s1) \<Rightarrow>
                    (Inr \<lparr>eo_old_content = Some current_text, eo_new_content = old_text\<rparr>, s1))))"

datatype edit_command =
    Create "string option"
  | StrReplace "string option" "string option"
  | Insert "int option" "string option"
  | UndoEdit

fun command_name :: "edit_command \<Rightarrow> string" where
  "command_name (Create _) = ''create''"
| "command_name (StrReplace _ _) = ''str_replace''"
| "command_name (Insert _ _) = ''insert''"
| "command_name UndoEdit = ''undo_edit''"

fun run_command :: "editor_env \<Rightarrow> string \<Rightarrow> edit_command \<Rightarrow> editor \<Rightarrow> edit_result" where
  "run_command env path (Create None) s = (Inl (ParameterMissing ''create'' ''file_text''), s)"
| "run_command env path (Create (Some t)) s = create_file env path t s"
| "run_command env path (StrReplace None new_str) s = (Inl (ParameterMissing ''str_replace'' ''old_str''), s)"
| "run_command env path (StrReplace (Some old_str) None) s = (Inl (ParameterMissing ''str_replace'' ''new_str''), s)"
| "run_command env path (StrReplace (Some old_str) (Some new_str)) s =
     (if new_str = old_str then (Inl (ParameterInvalid ''new_str''), s) else str_replace env path old_str new_str s)"
| "run_command env path (Insert None new_str) s = (Inl (ParameterMissing ''insert'' ''insert_line''), s)"
| "run_command env path (Insert (Some n) None) s = (Inl (ParameterMissing ''insert'' ''new_str''), s)"
| "run_command env path (Insert (Some n) (Some t)) s = insert_lines env path n t s"
| "run_command env path UndoEdit s = undo_edit env path s"

definition edit :: "editor_env \<Rightarrow> string \<Rightarrow> edit_command \<Rightarrow> editor \<Rightarrow> edit_result" where
  "edit env path command s =
     (case validate_path env (command_name command) path s of
        Some e \<Rightarrow> (Inl e, s) | None \<Rightarrow> run_command env path command s)"

section \<open>Replacing a string\<close>

definition occurs_at :: "string \<Rightarrow> string \<Rightarrow> nat \<Rightarrow> bool" where
  "occurs_at old t k \<longleftrightarrow> k \<le> length t \<and> prefix old (drop k t)"

lemma occurs_at_tl: "t \<noteq> [] \<Longrightarrow> occurs_at old t (Suc k) \<longleftrightarrow> occurs_at old (tl t) k"
  by (cases t) (auto simp: occurs_at_def)

lemma occurs_at_drop: "n \<le> length t \<Longrightarrow> n \<le> k \<Longrightarrow> occurs_at old t k \<longleftrightarrow> occurs_at old (drop n t) (k - n)"
  by (auto simp: occurs_at_def)

lemma occurrences_sound:
  "j \<in> set (occurrences old t i) \<Longrightarrow> i \<le> j \<and> occurs_at old t (j - i)"
proof (induction old t i arbitrary: j rule: occurrences.induct)
  case (1 old t i)
  consider "t = []" | "t \<noteq> []" "prefix old t" "old = []" | "t \<noteq> []" "prefix old t" "old \<noteq> []" | "t \<noteq> []" "\<not> prefix old t" by blast
  then show ?case
  proof cases
    case 1
    then show ?thesis using "1.prems" by (auto simp: occurrences.simps [of old "[]"] occurs_at_def split: if_splits)
  next
    case 2
    then have "occurrences old t i = i # occurrences old (tl t) (Suc i)" by (subst occurrences.simps) simp
    then have "j = i \<or> j \<in> set (occurrences old (tl t) (Suc i))" using "1.prems" by simp
    then show ?thesis
    proof
      assume "j \<in> set (occurrences old (tl t) (Suc i))"
      from "1.IH"(1) [OF 2 this] have "Suc i \<le> j" "occurs_at old (tl t) (j - Suc i)" by auto
      then show ?thesis using occurs_at_tl [OF 2(1), of old "j - Suc i"] by (simp add: Suc_diff_Suc)
    qed (use 2 in \<open>simp add: occurs_at_def\<close>)
  next
    case 3
    then have "j = i \<or> j \<in> set (occurrences old (drop (length old) t) (i + length old))"
      using "1.prems" by (simp add: occurrences.simps [of old t])
    then show ?thesis
    proof
      assume "j \<in> set (occurrences old (drop (length old) t) (i + length old))"
      from "1.IH"(2) [OF 3 this] have "i + length old \<le> j" "occurs_at old (drop (length old) t) (j - (i + length old))" by auto
      moreover have "length old \<le> length t" using 3(2) by (simp add: prefix_length_le)
      ultimately show ?thesis using occurs_at_drop [of "length old" t "j - i" old] by simp
    qed (use 3 in \<open>simp add: occurs_at_def\<close>)
  next
    case 4
    then have "j \<in> set (occurrences old (tl t) (Suc i))" using "1.prems" by (simp add: occurrences.simps [of old t])
    from "1.IH"(3) [OF 4 this] have "Suc i \<le> j" "occurs_at old (tl t) (j - Suc i)" by auto
    then show ?thesis using occurs_at_tl [OF 4(1), of old "j - Suc i"] by (simp add: Suc_diff_Suc)
  qed
qed

text \<open>Every occurrence overlaps a reported one.\<close>

lemma occurrences_complete:
  "old \<noteq> [] \<Longrightarrow> occurs_at old t k \<Longrightarrow>
   \<exists>j \<in> set (occurrences old t i). i + k < j + length old \<and> j < i + k + length old"
proof (induction old t i arbitrary: k rule: occurrences.induct)
  case (1 old t i)
  have t: "t \<noteq> []" using "1.prems" by (auto simp: occurs_at_def)
  have len: "0 < length old" using "1.prems"(1) by simp
  show ?case
  proof (cases "prefix old t")
    case True
    show ?thesis
    proof (cases "k < length old")
      case small: True
      have "i \<in> set (occurrences old t i)" using t True "1.prems"(1) by (simp add: occurrences.simps [of old t])
      then show ?thesis using small len by (intro bexI [of _ i]) auto
    next
      case False
      have "length old \<le> length t" using True by (simp add: prefix_length_le)
      then have "occurs_at old (drop (length old) t) (k - length old)"
        using "1.prems"(2) False occurs_at_drop [of "length old" t k old] by simp
      from "1.IH"(2) [OF t True "1.prems"(1,1) this] show ?thesis
        using t True "1.prems"(1) False by (fastforce simp: occurrences.simps [of old t])
    qed
  next
    case False
    then obtain k' where k: "k = Suc k'" using "1.prems"(2) by (cases k) (auto simp: occurs_at_def)
    then have "occurs_at old (tl t) k'" using "1.prems"(2) occurs_at_tl [OF t] by simp
    from "1.IH"(3) [OF t False "1.prems"(1) this] show ?thesis
      using t False k by (simp add: occurrences.simps [of old t])
  qed
qed

lemma write_file_None:
  assumes "write_file env path t s = (None, s1)"
  shows "s1 = s\<lparr>ed_files := (ed_files s)(path \<mapsto> t)\<rparr>" "validate_file env path s = None"
  using assms by (auto simp: write_file_def split: option.splits if_splits)

lemma read_file_history [simp]: "read_file env path (s\<lparr>ed_history := h\<rparr>) = read_file env path s"
  by (cases "ed_files s path") (simp_all add: read_file_def validate_file_def)

lemma str_replaceD:
  assumes "str_replace env path old_str new_str s = (Inr obs, s')"
  obtains content old idx where "read_file env path s = Inr content" "old = old_str \<or> old = strip old_str"
    "occurrences old content 0 = [idx]"
    "s' = remember path content (s\<lparr>ed_files := (ed_files s)(path \<mapsto> take idx content @ new_str @ drop (idx + length old) content)\<rparr>)"
    "obs = \<lparr>eo_old_content = Some content, eo_new_content = take idx content @ new_str @ drop (idx + length old) content\<rparr>"
    "\<exists>t. read_file env path s' = Inr t"
proof -
  have v: "validate_file env path s = None" using assms by (auto simp: str_replace_def split: option.splits)
  obtain content where r: "read_file env path s = Inr content"
    using assms v by (cases "read_file env path s") (auto simp: str_replace_def)
  define old where "old = (if occurrences old_str content 0 = [] then strip old_str else old_str)"
  let ?new = "\<lambda>idx. take idx content @ new_str @ drop (idx + length old) content"
  obtain idx where o: "occurrences old content 0 = [idx]"
    using assms v r by (auto simp: str_replace_def old_def [symmetric] Let_def split: list.splits)
  obtain s1 where w: "write_file env path (?new idx) s = (None, s1)"
    using assms v r o
    by (cases "write_file env path (?new idx) s"; cases "fst (write_file env path (?new idx) s)")
       (auto simp: str_replace_def old_def [symmetric] Let_def)
  have res: "obs = \<lparr>eo_old_content = Some content, eo_new_content = ?new idx\<rparr>" "s' = remember path content s1"
    "\<exists>t. read_file env path s' = Inr t"
    using assms v r o w by (auto simp: str_replace_def old_def [symmetric] Let_def split: sum.splits)
  show thesis
    by (rule that [OF r _ o _ res(1,3)]) (simp_all add: old_def res(2) write_file_None(1) [OF w])
qed

text \<open>
  A successful replacement found the string once: the text read from the file is the part before, the
  string asked for (or, when that was not found, the string without white space around it) and the part after, the
  file then holds the new string between the same parts, other files are unchanged, and the old text is
  recorded for undo. Every other occurrence of the string in the old text overlaps the replaced one.
\<close>

theorem str_replace_result:
  assumes "str_replace env path old_str new_str s = (Inr obs, s')"
  shows "\<exists>before old after. read_file env path s = Inr (before @ old @ after) \<and> (old = old_str \<or> old = strip old_str) \<and>
    ed_files s' = (ed_files s)(path \<mapsto> before @ new_str @ after) \<and>
    ed_history s' = add_history path (before @ old @ after) (ed_history s) \<and>
    (\<forall>k. old \<noteq> [] \<and> occurs_at old (before @ old @ after) k \<longrightarrow>
       length before < k + length old \<and> k < length before + length old)"
proof -
  obtain content old idx where c: "read_file env path s = Inr content" "old = old_str \<or> old = strip old_str"
    "occurrences old content 0 = [idx]"
    "s' = remember path content (s\<lparr>ed_files := (ed_files s)(path \<mapsto> take idx content @ new_str @ drop (idx + length old) content)\<rparr>)"
    using str_replaceD [OF assms] by metis
  have at: "occurs_at old content idx" using occurrences_sound [of idx old content 0] c(3) by simp
  then obtain rest where "drop idx content = old @ rest" "idx \<le> length content" by (auto simp: occurs_at_def prefix_def)
  then have split: "content = take idx content @ old @ rest" "drop (idx + length old) content = rest" "length (take idx content) = idx"
    by (metis append_take_drop_id, metis append_eq_conv_conj drop_drop add.commute, simp)
  have overlap: "idx < k + length old \<and> k < idx + length old" if "old \<noteq> []" "occurs_at old content k" for k
    using occurrences_complete [OF that, of 0] c(3) by auto
  show ?thesis
  proof (intro exI conjI)
    show "read_file env path s = Inr (take idx content @ old @ rest)" using c(1) split(1) by simp
    show "ed_files s' = (ed_files s)(path \<mapsto> take idx content @ new_str @ rest)" using c(4) split(2) by (simp add: remember_def)
    show "ed_history s' = add_history path (take idx content @ old @ rest) (ed_history s)"
      using c(4) split(1) by (simp add: remember_def)
    show "\<forall>k. old \<noteq> [] \<and> occurs_at old (take idx content @ old @ rest) k \<longrightarrow>
       length (take idx content) < k + length old \<and> k < length (take idx content) + length old"
      using overlap unfolding split(1) [symmetric] split(3) by blast
  qed (rule c(2))
qed

definition sample_editor_env :: editor_env where
  "sample_editor_env = \<lparr>ev_is_dir = (\<lambda>_. False), ev_is_binary = (\<lambda>_. False), ev_write_fails = (\<lambda>_ _. False),
     ev_max_file_size = 20, ev_expanduser = (\<lambda>p. p)\<rparr>"

definition sample_editor :: "string \<Rightarrow> editor" where
  "sample_editor t = \<lparr>ed_files = [''/f'' \<mapsto> t], ed_history = Map.empty\<rparr>"

theorem str_replace_result_witness:
  "\<exists>obs s'. str_replace sample_editor_env ''/f'' ''b'' ''x'' (sample_editor ''abc'') = (Inr obs, s') \<and>
     eo_new_content obs = ''axc'' \<and> ed_history s' = add_history ''/f'' ''abc'' Map.empty"
proof -
  let ?r = "str_replace sample_editor_env ''/f'' ''b'' ''x'' (sample_editor ''abc'')"
  have "fst ?r = Inr \<lparr>eo_old_content = Some ''abc'', eo_new_content = ''axc''\<rparr>" by code_simp
  then obtain s' where r: "?r = (Inr \<lparr>eo_old_content = Some ''abc'', eo_new_content = ''axc''\<rparr>, s')"
    by (metis prod.collapse)
  have "read_file sample_editor_env ''/f'' (sample_editor ''abc'') = Inr ''abc''" by code_simp
  then show ?thesis using str_replace_result [OF r] r by (auto simp: sample_editor_def)
qed

section \<open>Undoing an edit\<close>










section \<open>Where the editor surprises\<close>

text \<open>
  Inserting after the last line of a file that does not end in a line feed appends to that line
  instead of starting a new one; after an earlier line the new text stands on its own lines.
\<close>

theorem insert_joins_last_line:
  "insert_text 1 ''b'' ''a'' = ''ab'' @ newline \<and>
   fst (edit sample_editor_env ''/f'' (Insert (Some 1) (Some ''b'')) (sample_editor ''a'')) =
     Inr \<lparr>eo_old_content = Some ''a'', eo_new_content = ''ab'' @ newline\<rparr> \<and>
   insert_text 1 ''b'' (''a'' @ newline @ ''c'') = ''a'' @ newline @ ''b'' @ newline @ ''c''"
  by (intro conjI; code_simp)

text \<open>
  An insertion that makes the file larger than the editor reads is written, reported as an error and
  not recorded, so that undoing finds no history.
\<close>

theorem oversized_insert_not_undoable:
  "let r = edit sample_editor_env ''/f'' (Insert (Some 0) (Some (replicate 30 CHR ''b''))) (sample_editor ''a'')
   in fst r = Inl (FileInvalid ''File is too large'') \<and>
      ed_files (snd r) ''/f'' = Some (replicate 30 CHR ''b'' @ newline @ ''a'') \<and>
      history_stack (ed_history (snd r)) ''/f'' = []"
  unfolding Let_def by (intro conjI; code_simp)

text \<open>
  Replacing one word rewrites the line ends of the whole file, and a string that occurs twice with
  overlap counts as unique.
\<close>

theorem replace_rewrites_line_ends:
  "map_option eo_new_content (case fst (edit sample_editor_env ''/f'' (StrReplace (Some ''a'') (Some ''x''))
       (sample_editor [CHR ''a'', CHR 0x0D, CHR 0x0A, CHR ''b'', CHR 0x0D, CHR 0x0A])) of Inl _ \<Rightarrow> None | Inr r \<Rightarrow> Some r) =
     Some [CHR ''x'', CHR 0x0A, CHR ''b'', CHR 0x0A] \<and>
   occurs_at ''aa'' ''aaa'' 0 \<and> occurs_at ''aa'' ''aaa'' 1 \<and>
   fst (edit sample_editor_env ''/f'' (StrReplace (Some ''aa'') (Some ''b'')) (sample_editor ''aaa'')) =
     Inr \<lparr>eo_old_content = Some ''aaa'', eo_new_content = ''ba''\<rparr>"
  by (intro conjI; code_simp)

text \<open>
  Creating a file records its own text, so undoing the creation reports success and leaves the file as it
  is, and after a later edit a second undo repeats the first.
\<close>

theorem undo_of_create_keeps_file:
  "let s0 = \<lparr>ed_files = Map.empty, ed_history = Map.empty\<rparr>;
       s1 = snd (edit sample_editor_env ''/f'' (Create (Some ''a'')) s0);
       r2 = edit sample_editor_env ''/f'' UndoEdit s1
   in fst r2 = Inr \<lparr>eo_old_content = Some ''a'', eo_new_content = ''a''\<rparr> \<and> ed_files (snd r2) ''/f'' = Some ''a''"
  unfolding Let_def by (intro conjI; code_simp)

end
