(* ===== verification/Secret_Registry.thy ===== *)
theory Secret_Registry
  imports Complex_Main Hooks
begin

text \<open>
  The secrets of a conversation (\<^verbatim>\<open>conversation/secret_registry.py\<close>, \<^verbatim>\<open>secret/secrets.py\<close>): registering and
  resolving them, exporting them to the environment of a command, and masking their values in texts
  and in the nested values of an observation. A dictionary is an association list in insertion order.
  Looking a secret up over the network is an argument of each operation: \<open>fetch name url\<close> is the
  text of the response, or \<open>None\<close> for an exception.
\<close>

section \<open>Sources and registry\<close>

datatype secret_source =
    StaticSecret "string option" "string option"
  | LookupSecret string "string option"

fun source_description :: "secret_source \<Rightarrow> string option" where
  "source_description (StaticSecret v d) = d"
| "source_description (LookupSecret u d) = d"

text \<open>\<open>None\<close> is an exception of the lookup, \<open>Some None\<close> a source without a value.\<close>

fun get_value :: "(string \<Rightarrow> string \<Rightarrow> string option) \<Rightarrow> string \<Rightarrow> secret_source \<Rightarrow> string option option" where
  "get_value fetch name (StaticSecret v d) = Some v"
| "get_value fetch name (LookupSecret u d) = map_option Some (fetch name u)"

datatype secret_value = PlainSecret string | SourceSecret secret_source | OtherSecret

fun wrap_secret :: "secret_value \<Rightarrow> secret_source result" where
  "wrap_secret (SourceSecret s) = Inr s"
| "wrap_secret (PlainSecret v) = Inr (StaticSecret (Some v) None)"
| "wrap_secret OtherSecret = Inl ValueError"

record secret_registry =
  secret_sources :: "(string \<times> secret_source) list"
  exported_values :: "(string \<times> string) list"
  failed_lookups :: "(string \<times> rat) list"

definition new_registry :: secret_registry where
  "new_registry = \<lparr>secret_sources = [], exported_values = [], failed_lookups = []\<rparr>"

definition FAILED_LOOKUP_RETRY_SECONDS :: rat where
  "FAILED_LOOKUP_RETRY_SECONDS = 60"

definition dict_update :: "('k \<times> 'v) list \<Rightarrow> ('k \<times> 'v) list \<Rightarrow> ('k \<times> 'v) list" where
  "dict_update new d = fold (\<lambda>(k, v). AList.update k v) new d"

definition track_exported_values :: "(string \<times> string) list \<Rightarrow> secret_registry \<Rightarrow> secret_registry" where
  "track_exported_values values r =
     r\<lparr>exported_values := dict_update (filter (\<lambda>(k, v). v \<noteq> []) values) (exported_values r)\<rparr>"

text \<open>A value of the wrong kind raises before anything is registered.\<close>

definition update_secrets :: "(string \<times> secret_value) list \<Rightarrow> secret_registry \<Rightarrow> secret_registry result" where
  "update_secrets secrets r =
     and_then (map_result (\<lambda>(name, v). and_then (wrap_secret v) (\<lambda>s. Inr (name, s))) secrets)
       (\<lambda>sources. Inr (r\<lparr>secret_sources := dict_update sources (secret_sources r)\<rparr>))"

definition find_secrets_in_text :: "string \<Rightarrow> secret_registry \<Rightarrow> string list" where
  "find_secrets_in_text t r = filter (\<lambda>key. sublist (lower key) (lower t)) (map fst (secret_sources r))"

definition get_secret_value ::
    "(string \<Rightarrow> string \<Rightarrow> string option) \<Rightarrow> string \<Rightarrow> secret_registry \<Rightarrow> string option \<times> secret_registry" where
  "get_secret_value fetch name r =
     (case map_of (secret_sources r) name of
        None \<Rightarrow> (None, r)
      | Some source \<Rightarrow>
          (case get_value fetch name source of
             None \<Rightarrow> (None, r)
           | Some None \<Rightarrow> (None, r)
           | Some (Some v) \<Rightarrow> (Some v, if v \<noteq> [] then track_exported_values [(name, v)] r else r)))"

text \<open>
  The loop of \<open>get_secrets_as_env_vars\<close> goes over a set, in the order \<open>iter\<close> gives to the found keys.
\<close>

fun export_keys ::
    "(string \<Rightarrow> string \<Rightarrow> string option) \<Rightarrow> string list \<Rightarrow> secret_registry \<Rightarrow> (string \<times> string) list \<times> secret_registry" where
  "export_keys fetch [] r = ([], r)"
| "export_keys fetch (key # keys) r =
     (let (v, r1) = get_secret_value fetch key r; (env_vars, r2) = export_keys fetch keys r1
      in ((case v of Some s \<Rightarrow> (if s \<noteq> [] then (key, s) # env_vars else env_vars) | None \<Rightarrow> env_vars), r2))"

definition get_secrets_as_env_vars ::
    "(string list \<Rightarrow> string list) \<Rightarrow> (string \<Rightarrow> string \<Rightarrow> string option) \<Rightarrow> string \<Rightarrow> secret_registry \<Rightarrow>
     (string \<times> string) list \<times> secret_registry" where
  "get_secrets_as_env_vars iter fetch command r = export_keys fetch (iter (find_secrets_in_text command r)) r"

definition get_all_secrets_as_env_vars ::
    "(string \<Rightarrow> string \<Rightarrow> string option) \<Rightarrow> string set \<Rightarrow> secret_registry \<Rightarrow> (string \<times> string) list \<times> secret_registry" where
  "get_all_secrets_as_env_vars fetch exclude r =
     export_keys fetch (filter (\<lambda>name. name \<notin> exclude) (map fst (secret_sources r))) r"

definition get_secret_infos :: "secret_registry \<Rightarrow> (string \<times> string option) list" where
  "get_secret_infos r = map (\<lambda>(name, source). (name, source_description source)) (secret_sources r)"

section \<open>Masking texts\<close>

text \<open>\<open>s.replace(old, new)\<close> for a non-empty \<open>old\<close>: leftmost occurrences without overlap.\<close>

function replace_all :: "string \<Rightarrow> string \<Rightarrow> string \<Rightarrow> string" where
  "replace_all old new s =
     (if s = [] \<or> old = [] then s
      else if prefix old s then new @ replace_all old new (drop (length old) s)
      else hd s # replace_all old new (tl s))"
  by pat_completeness auto
termination
  by (relation "measure (\<lambda>(_, _, s). length s)") auto

declare replace_all.simps [simp del]

definition SECRET_HIDDEN :: string where
  "SECRET_HIDDEN = ''<secret-hidden>''"

text \<open>One key of the loop that resolves what is neither cached nor known to have failed lately.\<close>

definition resolve_key ::
    "rat \<Rightarrow> (string \<Rightarrow> string \<Rightarrow> string option) \<Rightarrow> string \<Rightarrow> secret_registry \<Rightarrow> secret_registry" where
  "resolve_key now fetch key r =
     (if key \<in> fst ` set (exported_values r) then r
      else case map_of (failed_lookups r) key of
        Some failed_at \<Rightarrow>
          if now - failed_at < FAILED_LOOKUP_RETRY_SECONDS then r
          else (let (v, r1) = get_secret_value fetch key r
                in if v = None \<or> v = Some [] then r1\<lparr>failed_lookups := AList.update key now (failed_lookups r1)\<rparr> else r1)
      | None \<Rightarrow>
          (let (v, r1) = get_secret_value fetch key r
           in if v = None \<or> v = Some [] then r1\<lparr>failed_lookups := AList.update key now (failed_lookups r1)\<rparr> else r1))"

definition mask_values :: "string list \<Rightarrow> string \<Rightarrow> string" where
  "mask_values values t = fold (\<lambda>v masked. if v \<noteq> [] then replace_all v SECRET_HIDDEN masked else masked) values t"

definition mask_secrets_in_output ::
    "rat \<Rightarrow> (string \<Rightarrow> string \<Rightarrow> string option) \<Rightarrow> string \<Rightarrow> secret_registry \<Rightarrow> string \<times> secret_registry" where
  "mask_secrets_in_output now fetch t r =
     (if t = [] then (t, r)
      else
        (let r1 = fold (resolve_key now fetch) (map fst (secret_sources r)) r
         in (mask_values (map snd (exported_values r1)) t, r1)))"

section \<open>Masking nested values\<close>

text \<open>
  The values the walk distinguishes. Keys of a dictionary are kept as their text; a tuple knows
  whether it is a named one.
\<close>

datatype pyval =
    PyEnum string
  | PyStr string
  | PyModel "(string \<times> pyval) list"
  | PyList "pyval list"
  | PyTuple bool "pyval list"
  | PySet "pyval list"
  | PyDict "(string \<times> pyval) list"
  | PyOther string

text \<open>
  Masking changes the registry, so the walk threads its state. \<open>cb\<close> is the stateful callback.
\<close>

fun mask_value :: "(string \<Rightarrow> 's \<Rightarrow> string \<times> 's) \<Rightarrow> pyval \<Rightarrow> 's \<Rightarrow> pyval \<times> 's"
  and mask_items :: "(string \<Rightarrow> 's \<Rightarrow> string \<times> 's) \<Rightarrow> pyval list \<Rightarrow> 's \<Rightarrow> pyval list \<times> 's"
  and mask_fields :: "(string \<Rightarrow> 's \<Rightarrow> string \<times> 's) \<Rightarrow> (string \<times> pyval) list \<Rightarrow> 's \<Rightarrow> (string \<times> pyval) list \<times> 's" where
  "mask_value cb (PyEnum e) st = (PyEnum e, st)"
| "mask_value cb (PyStr s) st = (let (t, st1) = cb s st in (PyStr t, st1))"
| "mask_value cb (PyModel fs) st = (let (gs, st1) = mask_fields cb fs st in (PyModel gs, st1))"
| "mask_value cb (PyList vs) st = (let (ws, st1) = mask_items cb vs st in (PyList ws, st1))"
| "mask_value cb (PyTuple named vs) st = (let (ws, st1) = mask_items cb vs st in (PyTuple named ws, st1))"
| "mask_value cb (PySet vs) st = (let (ws, st1) = mask_items cb vs st in (PySet (remdups ws), st1))"
| "mask_value cb (PyDict kvs) st = (let (gs, st1) = mask_fields cb kvs st in (PyDict gs, st1))"
| "mask_value cb (PyOther x) st = (PyOther x, st)"
| "mask_items cb [] st = ([], st)"
| "mask_items cb (v # vs) st =
     (let (w, st1) = mask_value cb v st; (ws, st2) = mask_items cb vs st1 in (w # ws, st2))"
| "mask_fields cb [] st = ([], st)"
| "mask_fields cb ((name, v) # fs) st =
     (let (w, st1) = mask_value cb v st; (gs, st2) = mask_fields cb fs st1 in ((name, w) # gs, st2))"

text \<open>
  \<open>mask_secrets_in_model\<close>: the clock and the network as they are at the \<open>n\<close>-th text of the walk.
\<close>

definition masker ::
    "(nat \<Rightarrow> rat \<times> (string \<Rightarrow> string \<Rightarrow> string option)) \<Rightarrow> string \<Rightarrow> secret_registry \<times> nat \<Rightarrow>
     string \<times> (secret_registry \<times> nat)" where
  "masker world t st =
     (let (out, r1) = mask_secrets_in_output (fst (world (snd st))) (snd (world (snd st))) t (fst st)
      in (out, (r1, Suc (snd st))))"

definition mask_secrets_in_model ::
    "(nat \<Rightarrow> rat \<times> (string \<Rightarrow> string \<Rightarrow> string option)) \<Rightarrow> pyval \<Rightarrow> secret_registry \<Rightarrow> pyval \<times> secret_registry" where
  "mask_secrets_in_model world model r =
     (let (m, st) = mask_value (masker world) model (r, 0) in (m, fst st))"

section \<open>Replacing leaves the pieces between the occurrences\<close>

function pieces :: "string \<Rightarrow> string \<Rightarrow> string list" where
  "pieces old s =
     (if s = [] \<or> old = [] then [s]
      else if prefix old s then [] # pieces old (drop (length old) s)
      else (hd s # hd (pieces old (tl s))) # tl (pieces old (tl s)))"
  by pat_completeness auto
termination
  by (relation "measure (\<lambda>(_, s). length s)") auto

declare pieces.simps [simp del]

lemma pieces_nonempty [simp]: "pieces old s \<noteq> []"
  by (subst pieces.simps) auto

lemma join_cons: "ss \<noteq> [] \<Longrightarrow> join sep (s # ss) = s @ sep @ join sep ss"
  by (cases ss) auto

lemma join_cons_char: "ss \<noteq> [] \<Longrightarrow> join sep ((c # hd ss) # tl ss) = c # join sep ss"
  by (cases ss; cases "tl ss") auto

lemma join_pieces: "old \<noteq> [] \<Longrightarrow> join new (pieces old s) = replace_all old new s"
proof (induction old s rule: pieces.induct)
  case (1 old s)
  then show ?case
    by (subst pieces.simps, subst replace_all.simps) (auto simp: join_cons join_cons_char)
qed

lemma join_pieces_id: "old \<noteq> [] \<Longrightarrow> join old (pieces old s) = s"
proof (induction old s rule: pieces.induct)
  case (1 old s)
  then show ?case
    by (subst pieces.simps) (auto simp: join_cons join_cons_char elim!: prefixE)
qed

lemma prefix_join_hd: "ss \<noteq> [] \<Longrightarrow> prefix (hd ss) (join sep ss)"
  by (cases ss; cases "tl ss") auto

lemma sublist_join: "p \<in> set ss \<Longrightarrow> sublist p (join sep ss)"
proof (induction sep ss rule: join.induct)
  case (3 sep s t ss)
  then show ?case
    by (auto simp: sublist_append intro: sublist_order.order.trans)
qed auto

lemma pieces_clean: "old \<noteq> [] \<Longrightarrow> p \<in> set (pieces old s) \<Longrightarrow> \<not> sublist old p"
proof (induction old s arbitrary: p rule: pieces.induct)
  case (1 old s)
  show ?case
  proof (cases "s = []")
    case True
    then show ?thesis using 1 by (simp add: pieces.simps)
  next
    case False
    show ?thesis
    proof (cases "prefix old s")
      case True
      then show ?thesis using 1 False by (auto simp: pieces.simps [of old s])
    next
      case no: False
      have IH: "\<And>q. q \<in> set (pieces old (tl s)) \<Longrightarrow> \<not> sublist old q" using 1 False no by blast
      have "prefix (hd (pieces old (tl s))) (tl s)"
        using prefix_join_hd [of "pieces old (tl s)" old] join_pieces_id [OF 1(4), of "tl s"] by simp
      then have "prefix (hd s # hd (pieces old (tl s))) s" using False by (cases s) auto
      then have "\<not> prefix old (hd s # hd (pieces old (tl s)))" using no prefix_order.trans by blast
      moreover have "p = hd s # hd (pieces old (tl s)) \<or> p \<in> set (tl (pieces old (tl s)))"
        using 1(5) False no 1(4) by (auto simp: pieces.simps [of old s])
      ultimately show ?thesis using IH
        by (metis list.set_sel(1) list.set_sel(2) pieces_nonempty sublist_Cons_right)
    qed
  qed
qed

text \<open>A string without a separator character lies on one side of it.\<close>

lemma sublist_around: "d \<notin> set v \<Longrightarrow> sublist v (a @ d # b) \<Longrightarrow> sublist v a \<or> sublist v b"
  by (auto simp: sublist_append sublist_Cons_right prefix_Cons dest: suffix_imp_sublist)

text \<open>What can be masked at all: neither part of the mask nor overlapping with its ends.\<close>

definition hidden_word :: string where
  "hidden_word = ''secret-hidden''"

definition plain_secret :: "string \<Rightarrow> bool" where
  "plain_secret v \<longleftrightarrow> CHR ''<'' \<notin> set v \<and> CHR ''>'' \<notin> set v \<and> \<not> sublist v hidden_word"

lemma plain_nonempty: "plain_secret v \<Longrightarrow> v \<noteq> []"
  by (auto simp: plain_secret_def)

lemma sublist_hidden_join:
  "plain_secret v \<Longrightarrow> sublist v (join SECRET_HIDDEN ss) \<Longrightarrow> \<exists>p \<in> set ss. sublist v p"
proof (induction ss rule: induct_list012)
  case 1
  then show ?case using plain_nonempty by fastforce
next
  case (3 s t ss)
  have "join SECRET_HIDDEN (s # t # ss) = s @ CHR ''<'' # hidden_word @ CHR ''>'' # join SECRET_HIDDEN (t # ss)"
    by (simp add: SECRET_HIDDEN_def hidden_word_def)
  then have "sublist v s \<or> sublist v hidden_word \<or> sublist v (join SECRET_HIDDEN (t # ss))"
    using sublist_around 3(3,4) unfolding plain_secret_def by metis
  then show ?case using 3 by (auto simp: plain_secret_def)
qed auto

lemma replace_hides:
  assumes "plain_secret v" and "old \<noteq> []" and "v = old \<or> \<not> sublist v s"
  shows "\<not> sublist v (replace_all old SECRET_HIDDEN s)"
proof
  assume "sublist v (replace_all old SECRET_HIDDEN s)"
  then obtain p where p: "p \<in> set (pieces old s)" "sublist v p"
    using sublist_hidden_join [OF assms(1)] by (metis assms(2) join_pieces)
  have "sublist p s" using sublist_join [OF p(1), of old] by (simp add: assms(2) join_pieces_id)
  then show False using p assms pieces_clean sublist_order.order.trans by blast
qed

lemma mask_values_keeps_hidden:
  "plain_secret v \<Longrightarrow> \<not> sublist v t \<Longrightarrow> \<not> sublist v (mask_values vs t)"
  by (induction vs arbitrary: t) (auto simp: mask_values_def replace_hides)

lemma mask_values_hides:
  "plain_secret v \<Longrightarrow> v \<in> set vs \<Longrightarrow> \<not> sublist v (mask_values vs t)"
proof (induction vs arbitrary: t)
  case (Cons u vs)
  have step: "mask_values (u # vs) t = mask_values vs (if u \<noteq> [] then replace_all u SECRET_HIDDEN t else t)"
    by (simp add: mask_values_def)
  show ?case
  proof (cases "v = u")
    case True
    then show ?thesis
      using step Cons(2) mask_values_keeps_hidden [OF Cons(2)] replace_hides [OF Cons(2)] plain_nonempty by auto
  next
    case False
    then show ?thesis using step Cons by auto
  qed
qed simp

lemma replace_absent: "\<not> sublist old s \<Longrightarrow> replace_all old new s = s"
proof (induction old new s rule: replace_all.induct)
  case (1 old new s)
  then show ?case
    by (cases s) (auto simp: replace_all.simps [of old new "[]"] replace_all.simps [of old new "_ # _"] sublist_Cons_right)
qed

lemma mask_values_absent: "\<forall>v \<in> set vs. v \<noteq> [] \<longrightarrow> \<not> sublist v t \<Longrightarrow> mask_values vs t = t"
  by (induction vs) (auto simp: mask_values_def replace_absent)

section \<open>Resolving only adds to the known values\<close>

lemma update_new_key: "k \<notin> fst ` set al \<Longrightarrow> AList.update k v al = al @ [(k, v)]"
  by (induction al) auto

lemma get_secret_value_cases:
  "get_secret_value fetch name r = (None, r) \<or> get_secret_value fetch name r = (Some [], r) \<or>
   (\<exists>v. v \<noteq> [] \<and>
     get_secret_value fetch name r = (Some v, r\<lparr>exported_values := AList.update name v (exported_values r)\<rparr>))"
  by (auto simp: get_secret_value_def track_exported_values_def dict_update_def split: option.splits)

text \<open>A key counts as recently failed when masking will not look it up again.\<close>

definition recently_failed :: "rat \<Rightarrow> secret_registry \<Rightarrow> string \<Rightarrow> bool" where
  "recently_failed now r key \<longleftrightarrow>
     (\<exists>failed_at. map_of (failed_lookups r) key = Some failed_at \<and> now - failed_at < FAILED_LOOKUP_RETRY_SECONDS)"

definition settled :: "rat \<Rightarrow> secret_registry \<Rightarrow> string \<Rightarrow> bool" where
  "settled now r key \<longleftrightarrow> key \<in> fst ` set (exported_values r) \<or> recently_failed now r key"

lemma recently_failed_update:
  "recently_failed now (r\<lparr>failed_lookups := AList.update key now (failed_lookups r)\<rparr>) k \<longleftrightarrow>
     k = key \<or> recently_failed now r k"
  by (auto simp: recently_failed_def update_conv' FAILED_LOOKUP_RETRY_SECONDS_def)

lemma recently_failed_exported [simp]:
  "recently_failed now (r\<lparr>exported_values := x\<rparr>) k = recently_failed now r k"
  by (simp add: recently_failed_def)

lemma resolve_key_settles:
  "(\<exists>new. exported_values (resolve_key now fetch key r) = exported_values r @ new) \<and>
   secret_sources (resolve_key now fetch key r) = secret_sources r \<and>
   settled now (resolve_key now fetch key r) key \<and>
   (\<forall>k. settled now r k \<longrightarrow> settled now (resolve_key now fetch key r) k)"
proof (cases "settled now r key")
  case True
  then have "resolve_key now fetch key r = r"
    by (auto simp: resolve_key_def settled_def recently_failed_def)
  then show ?thesis using True by simp
next
  case False
  then have fresh: "key \<notin> fst ` set (exported_values r)" by (simp add: settled_def)
  have r: "resolve_key now fetch key r =
      (let (v, r1) = get_secret_value fetch key r
       in if v = None \<or> v = Some [] then r1\<lparr>failed_lookups := AList.update key now (failed_lookups r1)\<rparr> else r1)"
    using False by (auto simp: resolve_key_def settled_def recently_failed_def split: option.splits)
  show ?thesis
    using get_secret_value_cases [of fetch key r]
    by (auto simp: r settled_def recently_failed_update update_new_key [OF fresh])
qed

lemma resolve_keys_settle:
  "(\<exists>new. exported_values (fold (resolve_key now fetch) keys r) = exported_values r @ new) \<and>
   secret_sources (fold (resolve_key now fetch) keys r) = secret_sources r \<and>
   (\<forall>k. k \<in> set keys \<or> settled now r k \<longrightarrow> settled now (fold (resolve_key now fetch) keys r) k)"
proof (induction keys arbitrary: r)
  case (Cons key keys)
  then show ?case using resolve_key_settles [of now fetch key r] by (fastforce simp del: fold_append)
qed simp

lemma mask_secrets_keeps_known:
  "mask_secrets_in_output now fetch t r = (out, r1) \<Longrightarrow> \<exists>new. exported_values r1 = exported_values r @ new"
  using resolve_keys_settle by (auto simp: mask_secrets_in_output_def Let_def split: if_splits)

lemma mask_secrets_hides:
  assumes "mask_secrets_in_output now fetch t r = (out, r1)" and "v \<in> snd ` set (exported_values r1)"
    and "plain_secret v"
  shows "\<not> sublist v out"
proof (cases "t = []")
  case True
  then show ?thesis using assms plain_nonempty by (auto simp: mask_secrets_in_output_def)
next
  case False
  then have "out = mask_values (map snd (exported_values r1)) t"
    using assms(1) by (auto simp: mask_secrets_in_output_def Let_def)
  then show ?thesis using assms(2,3) mask_values_hides by auto
qed

text \<open>
  C11. Masking hides the known values when all of them are plain, that is, contain neither of the brackets of
  the mask and are not part of its word: after masking a text, no value the registry knows occurs in it;
  the known values only grow; every registered secret was resolved or has failed within the last minute;
  and a text in which no known value occurs is unchanged.
\<close>

theorem masked_output_hides_secrets:
  assumes "mask_secrets_in_output now fetch t r = (out, r1)" and "list_all plain_secret (map snd (exported_values r1))"
  shows "list_all (\<lambda>v. \<not> sublist v out) (map snd (exported_values r1)) \<and>
    (\<exists>new. exported_values r1 = exported_values r @ new) \<and>
    (t \<noteq> [] \<longrightarrow> list_all (settled now r1) (map fst (secret_sources r))) \<and>
    (list_all (\<lambda>v. \<not> sublist v t) (map snd (exported_values r1)) \<longrightarrow> out = t)"
proof (intro conjI impI)
  show "list_all (\<lambda>v. \<not> sublist v out) (map snd (exported_values r1))"
    using assms mask_secrets_hides [OF assms(1)] by (auto simp: list_all_iff)
  show "\<exists>new. exported_values r1 = exported_values r @ new" by (rule mask_secrets_keeps_known [OF assms(1)])
  show "list_all (settled now r1) (map fst (secret_sources r))" if "t \<noteq> []"
    using assms(1) that resolve_keys_settle [of now fetch "map fst (secret_sources r)" r]
    by (auto simp: mask_secrets_in_output_def Let_def list_all_iff)
  show "out = t" if "list_all (\<lambda>v. \<not> sublist v t) (map snd (exported_values r1))"
    using assms(1) that mask_values_absent [of "map snd (exported_values r1)" t]
    by (auto simp: mask_secrets_in_output_def Let_def list_all_iff split: if_splits)
qed

text \<open>A token fetched for the first time while its own output is masked.\<close>

definition token_registry :: secret_registry where
  "token_registry = new_registry\<lparr>secret_sources := [(''TOKEN'', LookupSecret ''u'' None), (''KEY'', LookupSecret ''w'' None)]\<rparr>"

definition token_fetch :: "string \<Rightarrow> string \<Rightarrow> string option" where
  "token_fetch name url = (if name = ''TOKEN'' then Some ''k9'' else None)"

theorem masked_output_hides_secrets_witness:
  "fst (mask_secrets_in_output 0 token_fetch ''a k9'' token_registry) = ''a <secret-hidden>'' \<and>
   \<not> sublist ''k9'' (fst (mask_secrets_in_output 0 token_fetch ''a k9'' token_registry))"
proof -
  let ?r = "mask_secrets_in_output 0 token_fetch ''a k9'' token_registry"
  have v: "exported_values (snd ?r) = [(''TOKEN'', ''k9'')]" by code_simp
  have "list_all plain_secret (map snd (exported_values (snd ?r)))"
    unfolding v by (auto simp: plain_secret_def hidden_word_def sublist_Cons_right)
  then have "\<not> sublist ''k9'' (fst ?r)"
    using masked_output_hides_secrets [of 0 token_fetch "''a k9''" token_registry "fst ?r" "snd ?r"] v by simp
  moreover have "fst ?r = ''a <secret-hidden>''" by code_simp
  ultimately show ?thesis by simp
qed

section \<open>Masking whole observations\<close>

text \<open>The texts of a value that the walk is to mask: all but enumeration members and dictionary keys, which the program leaves alone.\<close>

fun texts :: "pyval \<Rightarrow> string list"
  and item_texts :: "pyval list \<Rightarrow> string list"
  and field_texts :: "(string \<times> pyval) list \<Rightarrow> string list" where
  "texts (PyEnum e) = []"
| "texts (PyStr s) = [s]"
| "texts (PyModel fs) = field_texts fs"
| "texts (PyList vs) = item_texts vs"
| "texts (PyTuple named vs) = item_texts vs"
| "texts (PySet vs) = item_texts vs"
| "texts (PyDict kvs) = field_texts kvs"
| "texts (PyOther x) = []"
| "item_texts [] = []"
| "item_texts (v # vs) = texts v @ item_texts vs"
| "field_texts [] = []"
| "field_texts ((name, v) # fs) = texts v @ field_texts fs"

lemma set_item_texts: "set (item_texts vs) = (\<Union>v \<in> set vs. set (texts v))"
  by (induction vs) auto

text \<open>A callback that makes every text good while its state keeps an invariant does so for nested values.\<close>

locale text_masker =
  fixes cb :: "string \<Rightarrow> 's \<Rightarrow> string \<times> 's" and good :: "string \<Rightarrow> bool" and keeps :: "'s \<Rightarrow> bool"
  assumes cb_good: "keeps st \<Longrightarrow> good (fst (cb s st))"
    and cb_keeps: "keeps st \<Longrightarrow> keeps (snd (cb s st))"
begin

lemma masks_all:
  "f = cb \<Longrightarrow> keeps st \<Longrightarrow> list_all good (texts (fst (mask_value f v st))) \<and> keeps (snd (mask_value f v st))"
  "f = cb \<Longrightarrow> keeps st \<Longrightarrow> list_all good (item_texts (fst (mask_items f vs st))) \<and> keeps (snd (mask_items f vs st))"
  "f = cb \<Longrightarrow> keeps st \<Longrightarrow> list_all good (field_texts (fst (mask_fields f fs st))) \<and> keeps (snd (mask_fields f fs st))"
proof (induction f v st and f vs st and f fs st rule: mask_value_mask_items_mask_fields.induct)
  case (2 f s st)
  then show ?case using cb_good [of st s] cb_keeps [of st s] by (cases "cb s st") simp
qed (auto simp: set_item_texts list_all_iff split: prod.splits)

end

definition knows :: "string \<Rightarrow> secret_registry \<times> nat \<Rightarrow> bool" where
  "knows v st \<longleftrightarrow> plain_secret v \<and> v \<in> snd ` set (exported_values (fst st))"

interpretation known_secret: text_masker "masker world" "\<lambda>s. \<not> sublist v s" "knows v" for world v
proof
  fix st s
  assume k: "knows v st"
  obtain out r1 where m: "mask_secrets_in_output (fst (world (snd st))) (snd (world (snd st))) s (fst st) = (out, r1)"
    by fastforce
  obtain new where "exported_values r1 = exported_values (fst st) @ new" using mask_secrets_keeps_known [OF m] by blast
  then have v: "v \<in> snd ` set (exported_values r1)" using k by (auto simp: knows_def)
  show "\<not> sublist v (fst (masker world s st))"
    using mask_secrets_hides [OF m v] k by (simp add: masker_def m knows_def)
  show "knows v (snd (masker world s st))"
    using v k by (simp add: masker_def m knows_def)
qed

text \<open>
  C24. Masking an observation hides a known plain value (neither bracket of the mask in it, not part of its
  word) in every text inside it other than dictionary keys and enumeration members, which the walk leaves
  alone, however deeply nested and whatever the other secrets answer while the walk goes on.
\<close>

theorem masked_model_hides_secrets:
  assumes "v \<in> snd ` set (exported_values r)" and "plain_secret v"
  shows "list_all (\<lambda>s. \<not> sublist v s) (texts (fst (mask_secrets_in_model world model r)))"
proof -
  have "knows v (r, 0)" using assms by (simp add: knows_def)
  then show ?thesis using known_secret.masks_all(1) [OF refl, of v "(r, 0)" world model]
    by (cases "mask_value (masker world) model (r, 0)") (simp add: mask_secrets_in_model_def)
qed

definition known_token :: secret_registry where
  "known_token = new_registry\<lparr>exported_values := [(''TOKEN'', ''k9'')]\<rparr>"

theorem masked_model_hides_secrets_witness:
  "list_all (\<lambda>s. \<not> sublist ''k9'' s)
     (texts (fst (mask_secrets_in_model (\<lambda>_. (0, token_fetch)) (PyModel [(''f'', PyList [PyStr ''k9k9''])]) known_token)))"
  using masked_model_hides_secrets [of "''k9''" known_token "\<lambda>_. (0, token_fetch)" "PyModel [(''f'', PyList [PyStr ''k9k9''])]"]
  by (simp add: known_token_def plain_secret_def hidden_word_def sublist_Cons_right)

text \<open>
  What masking does not reach. Values are replaced in the order in which they became known, so a
  secret that begins with another one is cut by the mask of the shorter one and its rest stays
  visible; the keys of a dictionary are not masked; and a secret that is registered anew keeps masking
  its old value, not the new one.
\<close>

theorem masking_gaps:
  "mask_values [''pass'', ''password1''] ''password1'' = ''<secret-hidden>word1'' \<and>
   fst (mask_secrets_in_model (\<lambda>_. (0, token_fetch)) (PyDict [(''k9'', PyStr ''k9'')]) known_token) =
     PyDict [(''k9'', PyStr ''<secret-hidden>'')] \<and>
   (case update_secrets [(''TOKEN'', PlainSecret ''new'')] known_token of
      Inr r \<Rightarrow> fst (mask_secrets_in_output 0 token_fetch ''k9 new'' r) = ''<secret-hidden> new'' | Inl _ \<Rightarrow> False)"
  by code_simp

section \<open>Exported values\<close>

lemma get_secret_value_known:
  "fst (get_secret_value fetch name r) = Some v \<Longrightarrow> v \<noteq> [] \<Longrightarrow>
     map_of (exported_values (snd (get_secret_value fetch name r))) name = Some v"
  using get_secret_value_cases [of fetch name r] by (auto simp: update_conv')

lemma get_secret_value_other:
  "k \<noteq> name \<Longrightarrow> map_of (exported_values (snd (get_secret_value fetch name r))) k = map_of (exported_values r) k"
  using get_secret_value_cases [of fetch name r] by (auto simp: update_conv')

lemma export_keys_other:
  "k \<notin> set keys \<Longrightarrow> map_of (exported_values (snd (export_keys fetch keys r))) k = map_of (exported_values r) k"
  by (induction fetch keys r rule: export_keys.induct)
    (auto simp: get_secret_value_other split: prod.splits, metis get_secret_value_other snd_conv)

lemma export_keys_known:
  "distinct keys \<Longrightarrow> (k, v) \<in> set (fst (export_keys fetch keys r)) \<Longrightarrow>
     k \<in> set keys \<and> v \<noteq> [] \<and> map_of (exported_values (snd (export_keys fetch keys r))) k = Some v"
proof (induction fetch keys r rule: export_keys.induct)
  case (2 fetch key keys r)
  obtain w r1 where g: "get_secret_value fetch key r = (w, r1)" by fastforce
  obtain env r2 where e: "export_keys fetch keys r1 = (env, r2)" by fastforce
  have "map_of (exported_values r2) key = map_of (exported_values r1) key"
    using export_keys_other [of key keys fetch r1] 2 e by simp
  moreover have "w = Some x \<Longrightarrow> x \<noteq> [] \<Longrightarrow> map_of (exported_values r1) key = Some x" for x
    using get_secret_value_known [of fetch key r x] g by simp
  ultimately show ?case using 2(1) [OF g [symmetric]] 2(2,3) g e by (auto split: option.splits if_splits)
qed simp

text \<open>
  What a command gets in its environment is masked in its output: every exported variable is a
  registered secret the command names, and its value is known to the registry from then on.
\<close>

theorem exported_secrets_are_masked:
  assumes "get_secrets_as_env_vars iter fetch command r = (env_vars, r1)" and "distinct (iter (find_secrets_in_text command r))"
    and "set (iter (find_secrets_in_text command r)) = set (find_secrets_in_text command r)"
    and "(k, v) \<in> set env_vars" and "plain_secret v"
  shows "sublist (lower k) (lower command) \<and> k \<in> fst ` set (secret_sources r) \<and>
    \<not> sublist v (fst (mask_secrets_in_output now fetch2 t r1))"
proof -
  have k: "k \<in> set (find_secrets_in_text command r)" "map_of (exported_values r1) k = Some v"
    using export_keys_known [OF assms(2), of k v fetch r] assms(1,3,4) by (auto simp: get_secrets_as_env_vars_def)
  obtain out r2 where m: "mask_secrets_in_output now fetch2 t r1 = (out, r2)" by fastforce
  have "v \<in> snd ` set (exported_values r2)"
    using map_of_SomeD [OF k(2)] mask_secrets_keeps_known [OF m] by force
  then show ?thesis using k(1) mask_secrets_hides [OF m _ assms(5)] m by (auto simp: find_secrets_in_text_def)
qed

theorem exported_secrets_are_masked_witness:
  "get_secrets_as_env_vars id token_fetch ''echo $token'' token_registry =
     ([(''TOKEN'', ''k9'')], token_registry\<lparr>exported_values := [(''TOKEN'', ''k9'')]\<rparr>) \<and>
   \<not> sublist ''k9'' (fst (mask_secrets_in_output 5 token_fetch ''k9'' (token_registry\<lparr>exported_values := [(''TOKEN'', ''k9'')]\<rparr>)))"
proof -
  have e: "get_secrets_as_env_vars id token_fetch ''echo $token'' token_registry =
     ([(''TOKEN'', ''k9'')], token_registry\<lparr>exported_values := [(''TOKEN'', ''k9'')]\<rparr>)" by code_simp
  have d: "distinct (id (find_secrets_in_text ''echo $token'' token_registry))" by code_simp
  have "plain_secret ''k9''" by (simp add: plain_secret_def hidden_word_def sublist_Cons_right)
  then show ?thesis using exported_secrets_are_masked [OF e d, of "''TOKEN''" "''k9''" 5 token_fetch "''k9''"] e by simp
qed

end
