(* ===== verification/Pane_Pool.thy ===== *)
theory Pane_Pool
  imports Prelude
begin

text \<open>
  The pool of terminal panes (\<^verbatim>\<open>agentrt-tools/terminal/terminal/tmux_pane_pool.py\<close>): at most \<open>max_panes\<close>
  commands run at a time, each in a pane of its own. The operations are split where another thread can
  come in between: the check of the flags, the semaphore, the section under the lock, and what follows
  it. Panes are numbered in the order of their creation; whether tmux creates one is an argument.
\<close>

section \<open>The pool\<close>

type_synonym pane = nat

record pane_pool =
  max_panes :: nat
  semaphore :: nat
  available_panes :: "pane list"
  all_panes :: "pane list"
  initial_window :: bool
  pane_windows :: "pane list"
  closed_terminals :: "pane list"
  next_pane :: pane
  initialized :: bool
  closed :: bool

text \<open>\<open>__post_init__\<close>.\<close>

definition new_pool :: "nat \<Rightarrow> pane_pool result" where
  "new_pool n =
     (if n < 1 then Inl ValueError
      else Inr \<lparr>max_panes = n, semaphore = n, available_panes = [], all_panes = [], initial_window = False,
        pane_windows = [], closed_terminals = [], next_pane = 0, initialized = False, closed = False\<rparr>)"

definition is_usable :: "pane_pool \<Rightarrow> bool" where
  "is_usable p \<longleftrightarrow> initialized p \<and> \<not> closed p"

text \<open>The session starts with a default window, which keeps it alive until there is a pane.\<close>

definition initialize :: "pane_pool \<Rightarrow> pane_pool" where
  "initialize p = (if initialized p then p else p\<lparr>initial_window := True, initialized := True\<rparr>)"

text \<open>
  \<open>_create_pane\<close>: tmux may refuse the window, or a later step may raise when the window is there and
  the default window is gone.
\<close>

datatype creation = Created | WindowRefused | SetupFailed

fun create_pane :: "creation \<Rightarrow> pane_pool \<Rightarrow> pane result \<times> pane_pool" where
  "create_pane WindowRefused p = (Inl OSError, p)"
| "create_pane c p =
     (let p1 = p\<lparr>pane_windows := pane_windows p @ [next_pane p], initial_window := False, next_pane := Suc (next_pane p)\<rparr>
      in (if c = Created then Inr (next_pane p) else Inl OSError, p1))"

section \<open>Operations\<close>

text \<open>\<open>checkout\<close> after the flags were checked: a permit of the semaphore, then the section under the lock.\<close>

definition acquire_permit :: "pane_pool \<Rightarrow> pane_pool option" where
  "acquire_permit p = (if semaphore p = 0 then None else Some (p\<lparr>semaphore := semaphore p - 1\<rparr>))"

definition take_pane :: "creation \<Rightarrow> pane_pool \<Rightarrow> pane result \<times> pane_pool" where
  "take_pane c p =
     (case available_panes p of
        t # rest \<Rightarrow> (Inr t, p\<lparr>available_panes := rest\<rparr>)
      | [] \<Rightarrow>
          (case create_pane c p of
             (Inl e, p1) \<Rightarrow> (Inl e, p1)
           | (Inr t, p1) \<Rightarrow> (Inr t, p1\<lparr>all_panes := all_panes p1 @ [t]\<rparr>)))"

text \<open>\<open>checkin\<close>: the flag tells whether the semaphore is released after the lock.\<close>

definition checkin :: "pane \<Rightarrow> pane_pool \<Rightarrow> bool \<times> pane_pool" where
  "checkin t p =
     (if t \<notin> set (all_panes p) then (False, p)
      else (True, if closed p then p else p\<lparr>available_panes := available_panes p @ [t]\<rparr>))"

definition release_permit :: "pane_pool \<Rightarrow> pane_pool" where
  "release_permit p = p\<lparr>semaphore := Suc (semaphore p)\<rparr>"

text \<open>\<open>replace\<close>: the section under the lock, and the end of the old window after it.\<close>

definition replace_pane :: "creation \<Rightarrow> pane \<Rightarrow> pane_pool \<Rightarrow> pane result \<times> pane_pool" where
  "replace_pane c old p =
     (case create_pane c p of
        (Inl e, p1) \<Rightarrow> (Inl e, p1)
      | (Inr t, p1) \<Rightarrow>
          (Inr t, p1\<lparr>all_panes := remove1 old (all_panes p1 @ [t]), available_panes := remove1 old (available_panes p1)\<rparr>))"

definition kill_replaced :: "pane \<Rightarrow> pane_pool \<Rightarrow> pane_pool" where
  "kill_replaced old p =
     p\<lparr>pane_windows := removeAll old (pane_windows p), closed_terminals := closed_terminals p @ [old]\<rparr>"

text \<open>\<open>close\<close>: the flag, the section under the lock, the end of the session.\<close>

definition close_flag :: "pane_pool \<Rightarrow> pane_pool" where
  "close_flag p = p\<lparr>closed := True\<rparr>"

definition close_panes :: "pane_pool \<Rightarrow> pane_pool" where
  "close_panes p = p\<lparr>closed_terminals := closed_terminals p @ all_panes p, all_panes := [], available_panes := []\<rparr>"

definition kill_session :: "pane_pool \<Rightarrow> pane_pool" where
  "kill_session p = p\<lparr>pane_windows := [], initial_window := False\<rparr>"

section \<open>Threads\<close>

text \<open>
  Where a thread is in the context manager \<open>pane\<close>: outside, past the check of the flags, with a permit,
  with a pane, with a new pane whose predecessor still has its window, or past the lock of \<open>checkin\<close>.
\<close>

datatype pane_user =
    Outside
  | Waiting
  | Permitted
  | Using pane
  | Replaced pane pane
  | Leaving

text \<open>The closing thread has reached its first, second or third part.\<close>

datatype closing = NotClosing | FlagSet | PanesCleared | SessionKilled

text \<open>\<open>pool_lost\<close> counts the permits that were taken and will not be released; the code has no such counter.\<close>

record pool_system =
  pool :: pane_pool
  users :: "nat \<Rightarrow> pane_user"
  closer :: closing
  pool_lost :: nat

definition pool_start :: "pane_pool \<Rightarrow> pool_system" where
  "pool_start p = \<lparr>pool = p, users = (\<lambda>_. Outside), closer = NotClosing, pool_lost = 0\<rparr>"

definition at :: "nat \<Rightarrow> pane_user \<Rightarrow> pool_system \<Rightarrow> pane_pool \<Rightarrow> pool_system" where
  "at t u s p = s\<lparr>pool := p, users := (users s)(t := u)\<rparr>"

inductive pool_step :: "pool_system \<Rightarrow> pool_system \<Rightarrow> bool" where
  Initialize: "pool_step s (s\<lparr>pool := initialize (pool s)\<rparr>)"
| Enter: "users s t = Outside \<Longrightarrow> is_usable (pool s) \<Longrightarrow> pool_step s (at t Waiting s (pool s))"
| GiveUp: "users s t = Waiting \<Longrightarrow> pool_step s (at t Outside s (pool s))"
| Acquire: "users s t = Waiting \<Longrightarrow> acquire_permit (pool s) = Some p \<Longrightarrow> pool_step s (at t Permitted s p)"
| Take: "users s t = Permitted \<Longrightarrow> take_pane c (pool s) = (Inr x, p) \<Longrightarrow> pool_step s (at t (Using x) s p)"
| TakeRaises: "users s t = Permitted \<Longrightarrow> take_pane c (pool s) = (Inl e, p) \<Longrightarrow>
    pool_step s ((at t Outside s p)\<lparr>pool_lost := Suc (pool_lost s)\<rparr>)"
| Replace: "users s t = Using x \<Longrightarrow> replace_pane c x (pool s) = (Inr y, p) \<Longrightarrow> pool_step s (at t (Replaced x y) s p)"
| ReplaceRaises: "users s t = Using x \<Longrightarrow> replace_pane c x (pool s) = (Inl e, p) \<Longrightarrow> pool_step s (at t (Using x) s p)"
| KillOld: "users s t = Replaced x y \<Longrightarrow> pool_step s (at t (Using y) s (kill_replaced x (pool s)))"
| Return: "users s t = Using x \<Longrightarrow> checkin x (pool s) = (True, p) \<Longrightarrow> pool_step s (at t Leaving s p)"
| ReturnUnknown: "users s t = Using x \<Longrightarrow> checkin x (pool s) = (False, p) \<Longrightarrow>
    pool_step s ((at t Outside s p)\<lparr>pool_lost := Suc (pool_lost s)\<rparr>)"
| Release: "users s t = Leaving \<Longrightarrow> pool_step s (at t Outside s (release_permit (pool s)))"
| Close: "closer s = NotClosing \<Longrightarrow> pool_step s (s\<lparr>pool := close_flag (pool s), closer := FlagSet\<rparr>)"
| CloseClears: "closer s = FlagSet \<Longrightarrow> pool_step s (s\<lparr>pool := close_panes (pool s), closer := PanesCleared\<rparr>)"
| CloseKills: "closer s = PanesCleared \<Longrightarrow> pool_step s (s\<lparr>pool := kill_session (pool s), closer := SessionKilled\<rparr>)"

inductive pool_reachable :: "nat \<Rightarrow> pool_system \<Rightarrow> bool" for n where
  Start: "new_pool n = Inr p \<Longrightarrow> pool_reachable n (pool_start p)"
| Step: "pool_reachable n s \<Longrightarrow> pool_step s s1 \<Longrightarrow> pool_reachable n s1"

section \<open>The invariant\<close>

fun holds :: "pane_user \<Rightarrow> pane option" where
  "holds (Using x) = Some x"
| "holds (Replaced x y) = Some y"
| "holds _ = None"

definition between :: "pane_user \<Rightarrow> bool" where
  "between u \<longleftrightarrow> u = Permitted \<or> u = Leaving"

definition holding :: "pane_user \<Rightarrow> bool" where
  "holding u \<longleftrightarrow> holds u \<noteq> None"

lemma user_kinds [simp]:
  "\<not> between Outside" "\<not> between Waiting" "between Permitted" "between Leaving"
  "\<not> between (Using x)" "\<not> between (Replaced x y)"
  "\<not> holding Outside" "\<not> holding Waiting" "\<not> holding Permitted" "\<not> holding Leaving"
  "holding (Using x)" "holding (Replaced x y)"
  by (simp_all add: between_def holding_def)

definition user_count :: "(pane_user \<Rightarrow> bool) \<Rightarrow> pool_system \<Rightarrow> nat" where
  "user_count P s = card {t. P (users s t)}"

lemma user_count_at:
  assumes "finite {t. users s t \<noteq> Outside}" and "\<not> P Outside"
  shows "user_count P (at t u s p) + (if P (users s t) then 1 else 0) = user_count P s + (if P u then 1 else 0)"
proof -
  have "finite {x. P (users s x)}" by (rule finite_subset [OF _ assms(1)]) (use assms(2) in auto)
  then show ?thesis using card_fun_upd [of P "users s" t u] by (simp add: user_count_def at_def)
qed

lemma user_count_other [simp]:
  "user_count P (s\<lparr>pool := p\<rparr>) = user_count P s"
  "user_count P (s\<lparr>closer := c\<rparr>) = user_count P s"
  "user_count P (s\<lparr>pool_lost := k\<rparr>) = user_count P s"
  by (simp_all add: user_count_def)

definition permits_ok :: "nat \<Rightarrow> pool_system \<Rightarrow> bool" where
  "permits_ok n s \<longleftrightarrow>
     finite {t. users s t \<noteq> Outside} \<and>
     semaphore (pool s) + user_count between s + user_count holding s + pool_lost s = n \<and>
     length (available_panes (pool s)) \<le> semaphore (pool s) + user_count between s \<and>
     (\<not> closed (pool s) \<longrightarrow> length (all_panes (pool s)) = length (available_panes (pool s)) + user_count holding s)"

definition panes_ok :: "pool_system \<Rightarrow> bool" where
  "panes_ok s \<longleftrightarrow>
     distinct (available_panes (pool s)) \<and> distinct (all_panes (pool s)) \<and>
     (\<forall>t x. holds (users s t) = Some x \<longrightarrow> x \<notin> set (available_panes (pool s))) \<and>
     (\<forall>t u x. holds (users s t) = Some x \<longrightarrow> holds (users s u) = Some x \<longrightarrow> t = u) \<and>
     (\<forall>t x. holds (users s t) = Some x \<longrightarrow> x < next_pane (pool s)) \<and>
     (\<forall>t x y. users s t = Replaced x y \<longrightarrow> x < next_pane (pool s)) \<and>
     (\<forall>x \<in> set (available_panes (pool s)) \<union> set (all_panes (pool s)) \<union> set (closed_terminals (pool s)) \<union> set (pane_windows (pool s)).
        x < next_pane (pool s))"

definition open_ok :: "pool_system \<Rightarrow> bool" where
  "open_ok s \<longleftrightarrow>
     (closed (pool s) \<longleftrightarrow> closer s \<noteq> NotClosing) \<and>
     (\<not> closed (pool s) \<longrightarrow>
        set (available_panes (pool s)) \<subseteq> set (all_panes (pool s)) \<and>
        (\<forall>t x. holds (users s t) = Some x \<longrightarrow> x \<in> set (all_panes (pool s))) \<and>
        (\<forall>t x y. users s t = Replaced x y \<longrightarrow> x \<notin> set (all_panes (pool s))) \<and>
        set (closed_terminals (pool s)) \<inter> set (all_panes (pool s)) = {} \<and>
        set (all_panes (pool s)) \<subseteq> set (pane_windows (pool s)) \<and>
        (initialized (pool s) \<longrightarrow> initial_window (pool s) \<or> pane_windows (pool s) \<noteq> []))"

definition pool_ok :: "nat \<Rightarrow> pool_system \<Rightarrow> bool" where
  "pool_ok n s \<longleftrightarrow> permits_ok n s \<and> panes_ok s \<and> open_ok s"

inductive_cases pool_stepE: "pool_step s s1"

lemma at_simps [simp]:
  "pool (at t u s p) = p" "users (at t u s p) = (users s)(t := u)" "closer (at t u s p) = closer s"
  "pool_lost (at t u s p) = pool_lost s"
  by (simp_all add: at_def)

lemma at_same_lost [simp]: "(at t u s p)\<lparr>pool_lost := pool_lost s\<rparr> = at t u s p"
  by (cases s) (simp add: at_def)

lemma finite_users_at: "finite {t. users s t \<noteq> Outside} \<Longrightarrow> finite {x. ((users s)(t := u)) x \<noteq> Outside}"
  by (rule finite_fun_upd)

abbreviation (input) with_window :: "pane_pool \<Rightarrow> pane_pool" where
  "with_window p \<equiv>
     p\<lparr>initial_window := False, pane_windows := pane_windows p @ [next_pane p], next_pane := Suc (next_pane p)\<rparr>"

lemma create_pane_cases:
  "create_pane c p \<in> {(Inl OSError, p), (Inl OSError, with_window p), (Inr (next_pane p), with_window p)}"
  by (cases c) (simp_all add: Let_def)

lemma take_pane_Inr:
  "take_pane c p = (Inr x, p1) \<Longrightarrow>
     (\<exists>rest. available_panes p = x # rest \<and> p1 = p\<lparr>available_panes := rest\<rparr>) \<or>
     (available_panes p = [] \<and> x = next_pane p \<and> p1 = (with_window p)\<lparr>all_panes := all_panes p @ [x]\<rparr>)"
  using create_pane_cases [of c p] by (auto simp: take_pane_def split: list.splits)

lemma take_pane_Inl:
  "take_pane c p = (Inl e, p1) \<Longrightarrow> available_panes p = [] \<and> (p1 = p \<or> p1 = with_window p)"
  using create_pane_cases [of c p] by (auto simp: take_pane_def split: list.splits)

lemma replace_pane_Inr:
  "replace_pane c old p = (Inr x, p1) \<Longrightarrow>
     x = next_pane p \<and>
     p1 = (with_window p)\<lparr>all_panes := remove1 old (all_panes p @ [x]), available_panes := remove1 old (available_panes p)\<rparr>"
  using create_pane_cases [of c p] by (auto simp: replace_pane_def)

lemma replace_pane_Inl: "replace_pane c old p = (Inl e, p1) \<Longrightarrow> p1 = p \<or> p1 = with_window p"
  using create_pane_cases [of c p] by (auto simp: replace_pane_def)

lemma panes_okD:
  assumes "panes_ok s"
  shows "holds (users s t) = Some x \<Longrightarrow> x \<notin> set (available_panes (pool s)) \<and> x < next_pane (pool s)"
    and "holds (users s t) = Some x \<Longrightarrow> holds (users s v) = Some x \<Longrightarrow> v = t"
    and "users s t = Replaced x y \<Longrightarrow> x < next_pane (pool s)"
    and "x \<in> set (available_panes (pool s)) \<Longrightarrow> x < next_pane (pool s)"
    and "x \<in> set (all_panes (pool s)) \<Longrightarrow> x < next_pane (pool s)"
    and "x \<in> set (closed_terminals (pool s)) \<Longrightarrow> x < next_pane (pool s)"
    and "x \<in> set (pane_windows (pool s)) \<Longrightarrow> x < next_pane (pool s)"
    and "distinct (available_panes (pool s))" and "distinct (all_panes (pool s))"
  using assms unfolding panes_ok_def by blast+

text \<open>One thread moves on to \<open>u\<close> and the pool becomes \<open>p\<close>.\<close>

lemma panes_ok_at:
  assumes ok: "panes_ok s" and d: "distinct (available_panes p)" "distinct (all_panes p)"
    and le: "next_pane (pool s) \<le> next_pane p"
    and bound: "\<And>x. x \<in> set (available_panes p) \<union> set (all_panes p) \<union> set (closed_terminals p) \<union> set (pane_windows p) \<Longrightarrow> x < next_pane p"
    and av: "\<And>x. x \<in> set (available_panes p) \<Longrightarrow> x \<in> set (available_panes (pool s)) \<or> holds (users s t) = Some x"
    and hold: "\<And>x. holds u = Some x \<Longrightarrow> x < next_pane p \<and> x \<notin> set (available_panes p) \<and> (\<forall>v. v \<noteq> t \<longrightarrow> holds (users s v) \<noteq> Some x)"
    and repl: "\<And>x y. u = Replaced x y \<Longrightarrow> x < next_pane p"
  shows "panes_ok (at t u s p)"
  unfolding panes_ok_def at_simps fun_upd_apply
proof (intro conjI allI impI ballI)
  fix v x assume v: "holds (if v = t then u else users s v) = Some x"
  show "x \<notin> set (available_panes p)"
    using v hold av panes_okD(1) [OF ok, of v x] panes_okD(2) [OF ok, of v x t] by (cases "v = t") auto
  show "x < next_pane p" using v hold panes_okD(1) [OF ok, of v x] le by (cases "v = t") auto
  fix w assume "holds (if w = t then u else users s w) = Some x"
  then show "v = w" using v hold panes_okD(2) [OF ok, of w x v] by (cases "v = t"; cases "w = t") auto
next
  fix v x y assume "(if v = t then u else users s v) = Replaced x y"
  then show "x < next_pane p" using repl panes_okD(3) [OF ok, of v x y] le by (cases "v = t") auto
qed (use d bound in auto)

lemma panes_ok_lost [simp]: "panes_ok (s\<lparr>pool_lost := k\<rparr>) = panes_ok s"
  by (simp add: panes_ok_def)

lemma panes_ok_step: "pool_step s s1 \<Longrightarrow> panes_ok s \<Longrightarrow> panes_ok s1"
proof (induction rule: pool_step.induct)
  case (Take s t c x p)
  note D = panes_okD [OF Take(3)]
  show ?case
    by (rule panes_ok_at [OF Take(3)])
      (use take_pane_Inr [OF Take(2)] D in \<open>auto simp: less_Suc_eq dest: D(1) D(5)\<close>)
next
  case (TakeRaises s t c e p)
  note D = panes_okD [OF TakeRaises(3)]
  have "panes_ok (at t Outside s p)"
    by (rule panes_ok_at [OF TakeRaises(3)])
      (use take_pane_Inl [OF TakeRaises(2)] D in \<open>auto simp: less_Suc_eq\<close>)
  then show ?case by simp
next
  case (Replace s t x c y p)
  note D = panes_okD [OF Replace(3)]
  let ?n = "next_pane (pool s)"
  have x: "x \<notin> set (available_panes (pool s))" "x < ?n" using D(1) [of t x] Replace(1) by auto
  have n: "?n \<notin> set (all_panes (pool s))" "?n \<notin> set (available_panes (pool s))" using D(4,5) by blast+
  have "distinct (remove1 x (all_panes (pool s) @ [?n]))" using D(9) n by (intro distinct_remove1) simp
  moreover have "set (remove1 x (all_panes (pool s) @ [?n])) \<subseteq> insert ?n (set (all_panes (pool s)))"
    using set_remove1_subset [of x "all_panes (pool s) @ [?n]"] by simp
  ultimately show ?case
    by (intro panes_ok_at [OF Replace(3)])
      (use replace_pane_Inr [OF Replace(2)] D x n in \<open>auto simp: remove1_idem less_Suc_eq dest: D(1) D(4-7)\<close>)
next
  case (ReplaceRaises s t x c e p)
  note D = panes_okD [OF ReplaceRaises(3)]
  have "x \<notin> set (available_panes (pool s))" "x < next_pane (pool s)" using D(1) [of t x] ReplaceRaises(1) by auto
  then show ?case
    by (intro panes_ok_at [OF ReplaceRaises(3)])
      (use ReplaceRaises(1) replace_pane_Inl [OF ReplaceRaises(2)] D in \<open>auto simp: less_Suc_eq dest: D(1)\<close>)
next
  case (KillOld s t x y)
  note D = panes_okD [OF KillOld(2)]
  have "y \<notin> set (available_panes (pool s))" "y < next_pane (pool s)" "x < next_pane (pool s)"
    using D(1) [of t y] D(3) [of t x y] KillOld(1) by auto
  then show ?case
    by (intro panes_ok_at [OF KillOld(2)]) (use KillOld(1) D in \<open>auto simp: kill_replaced_def dest: D(2)\<close>)
next
  case (Return s t x p)
  note D = panes_okD [OF Return(3)]
  have "x \<notin> set (available_panes (pool s))" using D(1) [of t x] Return(1) by auto
  then show ?case
    by (intro panes_ok_at [OF Return(3)]) (use Return D in \<open>auto simp: checkin_def split: if_splits\<close>)
next
  case (ReturnUnknown s t x p)
  note D = panes_okD [OF ReturnUnknown(3)]
  have "panes_ok (at t Outside s p)"
    by (intro panes_ok_at [OF ReturnUnknown(3)]) (use ReturnUnknown D in \<open>auto simp: checkin_def split: if_splits\<close>)
  then show ?case by simp
next
  case (Enter s t)
  note D = panes_okD [OF Enter(3)]
  show ?case by (intro panes_ok_at [OF Enter(3)]) (use D in auto)
next
  case (GiveUp s t)
  note D = panes_okD [OF GiveUp(2)]
  show ?case by (intro panes_ok_at [OF GiveUp(2)]) (use D in auto)
next
  case (Acquire s t p)
  note D = panes_okD [OF Acquire(3)]
  show ?case
    by (intro panes_ok_at [OF Acquire(3)]) (use Acquire(2) D in \<open>auto simp: acquire_permit_def split: if_splits\<close>)
next
  case (Release s t)
  note D = panes_okD [OF Release(2)]
  show ?case by (intro panes_ok_at [OF Release(2)]) (use D in \<open>auto simp: release_permit_def\<close>)
qed (auto simp: panes_ok_def initialize_def close_flag_def close_panes_def kill_session_def)

lemma open_okD:
  assumes "open_ok s"
  shows "closed (pool s) \<longleftrightarrow> closer s \<noteq> NotClosing"
    and "\<not> closed (pool s) \<Longrightarrow> set (available_panes (pool s)) \<subseteq> set (all_panes (pool s))"
    and "\<not> closed (pool s) \<Longrightarrow> holds (users s t) = Some x \<Longrightarrow> x \<in> set (all_panes (pool s))"
    and "\<not> closed (pool s) \<Longrightarrow> users s t = Replaced x y \<Longrightarrow> x \<notin> set (all_panes (pool s))"
    and "\<not> closed (pool s) \<Longrightarrow> set (closed_terminals (pool s)) \<inter> set (all_panes (pool s)) = {}"
    and "\<not> closed (pool s) \<Longrightarrow> set (all_panes (pool s)) \<subseteq> set (pane_windows (pool s))"
    and "\<not> closed (pool s) \<Longrightarrow> initialized (pool s) \<Longrightarrow> initial_window (pool s) \<or> pane_windows (pool s) \<noteq> []"
  using assms unfolding open_ok_def by blast+

lemma permits_ok_at:
  assumes "permits_ok n s"
    and "semaphore p + (if between u then 1 else 0) + (if holding u then 1 else 0) + lost =
      semaphore (pool s) + (if between (users s t) then 1 else 0) + (if holding (users s t) then 1 else 0)"
    and "length (available_panes p) = 0 \<or>
      length (available_panes p) + semaphore (pool s) + (if between (users s t) then 1 else 0) \<le>
        length (available_panes (pool s)) + semaphore p + (if between u then 1 else 0)"
    and "closed p = closed (pool s)"
    and "\<not> closed p \<Longrightarrow> length (all_panes p) + length (available_panes (pool s)) + (if holding (users s t) then 1 else 0) =
      length (available_panes p) + length (all_panes (pool s)) + (if holding u then 1 else 0)"
  shows "permits_ok n ((at t u s p)\<lparr>pool_lost := pool_lost s + lost\<rparr>)"
proof -
  have fin: "finite {t. users s t \<noteq> Outside}" using assms(1) by (simp add: permits_ok_def)
  have "finite {x. ((users s)(t := u)) x \<noteq> Outside}" by (rule finite_users_at [OF fin])
  moreover note user_count_at [OF fin, of between t u p] user_count_at [OF fin, of holding t u p] assms
  ultimately show ?thesis unfolding permits_ok_def by (auto split: if_splits)
qed

lemma permits_ok_step: "pool_step s s1 \<Longrightarrow> permits_ok n s \<Longrightarrow> open_ok s \<Longrightarrow> panes_ok s \<Longrightarrow> permits_ok n s1"
proof (induction rule: pool_step.induct)
  case (Enter s t)
  then show ?case using permits_ok_at [of n s "pool s" Waiting 0 t] by simp
next
  case (GiveUp s t)
  then show ?case using permits_ok_at [of n s "pool s" Outside 0 t] by simp
next
  case (Acquire s t p)
  then show ?case using permits_ok_at [of n s p Permitted 0 t]
    by (auto simp: acquire_permit_def split: if_splits)
next
  case (Take s t c x p)
  then show ?case using permits_ok_at [of n s p "Using x" 0 t] take_pane_Inr [OF Take(2)] by auto
next
  case (TakeRaises s t c e p)
  then show ?case using permits_ok_at [of n s p Outside 1 t] take_pane_Inl [OF TakeRaises(2)] by auto
next
  case (Replace s t x c y p)
  have x: "x \<notin> set (available_panes (pool s))" "\<not> closed (pool s) \<Longrightarrow> x \<in> set (all_panes (pool s))"
    using panes_okD(1) [OF Replace(5), of t x] open_okD(3) [OF Replace(4), of t x] Replace(1) by auto
  have "length (remove1 x (all_panes (pool s) @ [y])) = length (all_panes (pool s))" if "\<not> closed (pool s)"
    using x(2) [OF that] length_pos_if_in_set [of x "all_panes (pool s)"] by (simp add: length_remove1)
  then show ?case using permits_ok_at [of n s p "Replaced x y" 0 t] replace_pane_Inr [OF Replace(2)] Replace x
    by (simp add: remove1_idem)
next
  case (ReplaceRaises s t x c e p)
  then show ?case using permits_ok_at [of n s p "Using x" 0 t] replace_pane_Inl [OF ReplaceRaises(2)] by auto
next
  case (KillOld s t x y)
  then show ?case using permits_ok_at [of n s "kill_replaced x (pool s)" "Using y" 0 t] by (simp add: kill_replaced_def)
next
  case (Return s t x p)
  then show ?case using permits_ok_at [of n s p Leaving 0 t] by (auto simp: checkin_def split: if_splits)
next
  case (ReturnUnknown s t x p)
  have u: "x \<notin> set (all_panes (pool s))" "p = pool s" using ReturnUnknown(2) by (auto simp: checkin_def split: if_splits)
  then have "closed (pool s)" using open_okD(3) [OF ReturnUnknown(4), of t x] ReturnUnknown(1) by auto
  then show ?case using permits_ok_at [of n s "pool s" Outside 1 t] ReturnUnknown(1,3) u by simp
next
  case (Release s t)
  then show ?case using permits_ok_at [of n s "release_permit (pool s)" Outside 0 t] by (simp add: release_permit_def)
qed (auto simp: permits_ok_def initialize_def close_flag_def close_panes_def kill_session_def open_ok_def)

lemma open_ok_at:
  assumes ok: "open_ok s" "panes_ok s" and c: "closed p = closed (pool s)"
    and av: "\<not> closed p \<Longrightarrow> set (available_panes p) \<subseteq> set (all_panes p)"
    and keep: "\<And>x. \<not> closed p \<Longrightarrow> x \<in> set (all_panes (pool s)) \<Longrightarrow> x \<in> set (all_panes p) \<or> holds (users s t) = Some x"
    and fresh: "\<And>x. \<not> closed p \<Longrightarrow> x \<in> set (all_panes p) \<Longrightarrow> x \<in> set (all_panes (pool s)) \<or> next_pane (pool s) \<le> x"
    and new: "\<And>x. \<not> closed p \<Longrightarrow> holds u = Some x \<Longrightarrow> x \<in> set (all_panes p)"
    and old: "\<And>x y. \<not> closed p \<Longrightarrow> u = Replaced x y \<Longrightarrow> x \<notin> set (all_panes p)"
    and dead: "\<not> closed p \<Longrightarrow> set (closed_terminals p) \<inter> set (all_panes p) = {}"
    and win: "\<not> closed p \<Longrightarrow> set (all_panes p) \<subseteq> set (pane_windows p)"
    and alive: "\<not> closed p \<Longrightarrow> initialized p \<Longrightarrow> initial_window p \<or> pane_windows p \<noteq> []"
  shows "open_ok (at t u s p)"
  unfolding open_ok_def at_simps fun_upd_apply
proof (intro conjI impI allI)
  show "closed p = (closer s \<noteq> NotClosing)" using c open_okD(1) [OF ok(1)] by simp
  assume o: "\<not> closed p"
  then have os: "\<not> closed (pool s)" using c by simp
  show "x \<in> set (all_panes p)" if "holds (if v = t then u else users s v) = Some x" for v x
    using that new [OF o] keep [OF o, of x] open_okD(3) [OF ok(1) os, of v x] panes_okD(2) [OF ok(2), of v x t]
    by (cases "v = t") auto
  show "x \<notin> set (all_panes p)" if "(if v = t then u else users s v) = Replaced x y" for v x y
    using that old [OF o] fresh [OF o, of x] open_okD(4) [OF ok(1) os, of v x y] panes_okD(3) [OF ok(2), of v x y]
    by (cases "v = t") auto
qed (use av dead win alive in auto)

lemma open_ok_lost [simp]: "open_ok (s\<lparr>pool_lost := k\<rparr>) = open_ok s"
  by (simp add: open_ok_def)

lemma open_ok_step: "pool_step s s1 \<Longrightarrow> open_ok s \<Longrightarrow> panes_ok s \<Longrightarrow> open_ok s1"
proof (induction rule: pool_step.induct)
  case (Take s t c x p)
  note D = panes_okD [OF Take(4)] and O = open_okD [OF Take(3)]
  have n: "next_pane (pool s) \<notin> set (all_panes (pool s))" "next_pane (pool s) \<notin> set (closed_terminals (pool s))"
    using D(5,6) by blast+
  from take_pane_Inr [OF Take(2)] show ?case
  proof (elim disjE exE conjE)
    fix rest assume r: "available_panes (pool s) = x # rest" "p = (pool s)\<lparr>available_panes := rest\<rparr>"
    show ?case by (rule open_ok_at [OF Take(3,4)]) (use r O(2,5,6,7) in auto)
  next
    assume r: "available_panes (pool s) = []" "x = next_pane (pool s)"
      "p = (with_window (pool s))\<lparr>all_panes := all_panes (pool s) @ [x]\<rparr>"
    show ?case by (rule open_ok_at [OF Take(3,4)]) (use r n O(2,5,6,7) in auto)
  qed
next
  case (TakeRaises s t c e p)
  note O = open_okD [OF TakeRaises(3)]
  have "open_ok (at t Outside s p)"
    by (rule open_ok_at [OF TakeRaises(3,4)]) (use take_pane_Inl [OF TakeRaises(2)] TakeRaises(1) O(2,5,6,7) in auto)
  then show ?case by simp
next
  case (Replace s t x c y p)
  note D = panes_okD [OF Replace(4)] and O = open_okD [OF Replace(3)]
  let ?n = "next_pane (pool s)"
  have x: "x \<notin> set (available_panes (pool s))" "x < ?n" using D(1) [of t x] Replace(1) by auto
  have n: "?n \<notin> set (all_panes (pool s))" "?n \<notin> set (closed_terminals (pool s))" using D(5,6) by blast+
  have all: "set (remove1 x (all_panes (pool s) @ [?n])) = insert ?n (set (all_panes (pool s)) - {x})"
    using D(9) n x by (subst set_remove1_eq) auto
  have r: "y = ?n"
    "p = (with_window (pool s))\<lparr>all_panes := remove1 x (all_panes (pool s) @ [?n]), available_panes := available_panes (pool s)\<rparr>"
    using replace_pane_Inr [OF Replace(2)] x by (auto simp: remove1_idem)
  have av: "\<not> closed (pool s) \<Longrightarrow> set (available_panes (pool s)) \<subseteq> set (all_panes (pool s)) - {x}"
    using O(2) x by auto
  show ?case
    by (rule open_ok_at [OF Replace(3,4)]) (use Replace(1) r all x n av O(5,6,7) in auto)
next
  case (ReplaceRaises s t x c e p)
  note O = open_okD [OF ReplaceRaises(3)]
  show ?case
    by (rule open_ok_at [OF ReplaceRaises(3,4)])
      (use ReplaceRaises(1) replace_pane_Inl [OF ReplaceRaises(2)] O(3) [of t x] O(2,5,6,7) in auto)
next
  case (KillOld s t x y)
  note O = open_okD [OF KillOld(2)]
  have o: "\<not> closed (pool s) \<Longrightarrow> y \<in> set (all_panes (pool s))" "\<not> closed (pool s) \<Longrightarrow> x \<notin> set (all_panes (pool s))"
    using O(3) [of t y] O(4) [of t x y] KillOld(1) by auto
  then have "\<not> closed (pool s) \<Longrightarrow> removeAll x (pane_windows (pool s)) \<noteq> []"
    using O(6) by (auto simp: removeAll_filter_not_eq filter_empty_conv)
  then show ?case
    by (intro open_ok_at [OF KillOld(2,3)]) (use KillOld(1) o O(2,5,6,7) in \<open>auto simp: kill_replaced_def\<close>)
next
  case (Return s t x p)
  note O = open_okD [OF Return(3)]
  show ?case
    by (rule open_ok_at [OF Return(3,4)]) (use Return(1,2) O(2,5,6,7) in \<open>auto simp: checkin_def split: if_splits\<close>)
next
  case (ReturnUnknown s t x p)
  note O = open_okD [OF ReturnUnknown(3)]
  have "open_ok (at t Outside s p)"
    by (rule open_ok_at [OF ReturnUnknown(3,4)]) (use ReturnUnknown(1,2) O(2,5,6,7) in \<open>auto simp: checkin_def split: if_splits\<close>)
  then show ?case by simp
next
  case (Acquire s t p)
  note O = open_okD [OF Acquire(3)]
  show ?case
    by (rule open_ok_at [OF Acquire(3,4)]) (use Acquire(1,2) O(2,5,6,7) in \<open>auto simp: acquire_permit_def split: if_splits\<close>)
qed (auto simp: open_ok_def initialize_def release_permit_def close_flag_def close_panes_def kill_session_def)

lemma pool_reachable_ok: "pool_reachable n s \<Longrightarrow> pool_ok n s"
proof (induction rule: pool_reachable.induct)
  case (Start p)
  then show ?case
    by (auto simp: pool_ok_def permits_ok_def panes_ok_def open_ok_def pool_start_def new_pool_def user_count_def split: if_splits)
next
  case (Step s s1)
  then show ?case using permits_ok_step panes_ok_step open_ok_step unfolding pool_ok_def by blast
qed

section \<open>What the pool guarantees\<close>

text \<open>
  C12. No two threads ever use the same pane. While the pool is open there are at most \<open>max_panes\<close> panes, a
  pane in use is neither free nor closed and has its window, and the tmux session has a window that
  keeps it alive. Every permit is free, taken by a thread inside the pool, or lost.
\<close>

theorem panes_never_shared:
  assumes "pool_reachable n s"
  shows "(\<forall>t u x. holds (users s t) = Some x \<and> holds (users s u) = Some x \<longrightarrow> t = u) \<and>
    (\<not> closed (pool s) \<longrightarrow>
       length (all_panes (pool s)) \<le> n \<and>
       (\<forall>t x. holds (users s t) = Some x \<longrightarrow>
          x \<notin> set (available_panes (pool s)) \<union> set (closed_terminals (pool s)) \<and> x \<in> set (pane_windows (pool s))) \<and>
       (initialized (pool s) \<longrightarrow> initial_window (pool s) \<or> pane_windows (pool s) \<noteq> [])) \<and>
    semaphore (pool s) + user_count between s + user_count holding s + pool_lost s = n"
proof -
  have ok: "permits_ok n s" "panes_ok s" "open_ok s" using pool_reachable_ok [OF assms] by (simp_all add: pool_ok_def)
  note D = panes_okD [OF ok(2)] and O = open_okD [OF ok(3)]
  have "x \<notin> set (available_panes (pool s)) \<union> set (closed_terminals (pool s)) \<and> x \<in> set (pane_windows (pool s))"
    if "\<not> closed (pool s)" "holds (users s t) = Some x" for t x
    using D(1) [OF that(2)] O(3) [OF that] O(5,6) [OF that(1)] by blast
  moreover have "\<not> closed (pool s) \<Longrightarrow> length (all_panes (pool s)) \<le> n" using ok(1) by (simp add: permits_ok_def)
  moreover have "semaphore (pool s) + user_count between s + user_count holding s + pool_lost s = n"
    using ok(1) by (simp add: permits_ok_def)
  ultimately show ?thesis using D(2) O(7) by blast
qed

text \<open>A pool of one pane, and a thread that has reached the point before the lock of \<open>checkout\<close>.\<close>

definition one_pane :: pane_pool where
  "one_pane = initialize (projr (new_pool 1))"

definition permitted_system :: pool_system where
  "permitted_system = at 0 Permitted (at 0 Waiting (pool_start one_pane) one_pane) (one_pane\<lparr>semaphore := 0\<rparr>)"

definition using_system :: pool_system where
  "using_system = at 0 (Using 0) permitted_system (snd (take_pane Created (pool permitted_system)))"

lemma reachable_permitted: "pool_reachable 1 permitted_system"
proof -
  have "pool_reachable 1 (pool_start (projr (new_pool 1)))" by (rule Start) (simp add: new_pool_def)
  from Step [OF this Initialize] have 1: "pool_reachable 1 (pool_start one_pane)"
    by (simp add: pool_start_def one_pane_def)
  have "pool_reachable 1 (at 0 Waiting (pool_start one_pane) one_pane)"
    using Step [OF 1 Enter [of _ 0]] by (simp add: pool_start_def one_pane_def is_usable_def initialize_def new_pool_def)
  from Step [OF this Acquire [of _ 0 "one_pane\<lparr>semaphore := 0\<rparr>"]]
  show ?thesis by (simp add: permitted_system_def acquire_permit_def one_pane_def initialize_def new_pool_def)
qed

lemma reachable_using: "pool_reachable 1 using_system"
  using Step [OF reachable_permitted Take [of _ 0 Created 0 "pool using_system"]]
  by (simp add: using_system_def permitted_system_def take_pane_def one_pane_def initialize_def new_pool_def Let_def)

theorem panes_never_shared_witness:
  "holds (users using_system 0) = Some 0 \<and> length (all_panes (pool using_system)) \<le> 1 \<and> 0 \<in> set (pane_windows (pool using_system))"
proof -
  have "holds (users using_system 0) = Some 0" "\<not> closed (pool using_system)"
    by (simp_all add: using_system_def permitted_system_def take_pane_def one_pane_def initialize_def new_pool_def Let_def)
  then show ?thesis using panes_never_shared [OF reachable_using] by blast
qed

section \<open>How permits are lost\<close>

lemma lost_step: "pool_step s s1 \<Longrightarrow> pool_lost s \<le> pool_lost s1"
  by (induction rule: pool_step.induct) simp_all

lemma lost_steps: "pool_step\<^sup>*\<^sup>* s s1 \<Longrightarrow> pool_lost s \<le> pool_lost s1"
  by (induction rule: rtranclp_induct) (auto dest: lost_step)

lemma reachable_steps: "pool_step\<^sup>*\<^sup>* s s1 \<Longrightarrow> pool_reachable n s \<Longrightarrow> pool_reachable n s1"
  by (induction rule: rtranclp_induct) (auto intro: Step)

lemma holds_count:
  assumes "permits_ok n s" and "user_count holding s = 0"
  shows "holds (users s t) = None"
proof -
  have "finite {t. users s t \<noteq> Outside}" using assms(1) by (simp add: permits_ok_def)
  then have "finite {t. holding (users s t)}" by (rule finite_subset [rotated]) (auto intro: ccontr)
  then have "{t. holding (users s t)} = {}" using assms(2) by (simp add: user_count_def)
  then show ?thesis by (auto simp: holding_def)
qed

definition raised_system :: pool_system where
  "raised_system = (at 0 Outside permitted_system (pool permitted_system))\<lparr>pool_lost := 1\<rparr>"

lemma reachable_raised: "pool_reachable 1 raised_system"
  using Step [OF reachable_permitted TakeRaises [of _ 0 WindowRefused OSError "pool permitted_system"]]
  by (simp add: raised_system_def permitted_system_def take_pane_def one_pane_def initialize_def new_pool_def pool_start_def)

definition waiting_system :: pool_system where
  "waiting_system = at 1 Waiting using_system (pool using_system)"

definition closed_system :: pool_system where
  "closed_system =
     (at 0 Outside (waiting_system\<lparr>pool := close_panes (close_flag (pool waiting_system)), closer := PanesCleared\<rparr>)
        (close_panes (close_flag (pool waiting_system))))\<lparr>pool_lost := 1\<rparr>"

lemmas system_defs = closed_system_def waiting_system_def using_system_def permitted_system_def raised_system_def
  take_pane_def one_pane_def initialize_def new_pool_def pool_start_def close_panes_def close_flag_def

lemma reachable_closed: "pool_reachable 1 closed_system"
proof -
  have 1: "pool_reachable 1 waiting_system"
    using Step [OF reachable_using Enter [of _ 1]] by (simp add: system_defs is_usable_def Let_def)
  from Step [OF this Close] have 2: "pool_reachable 1 (waiting_system\<lparr>pool := close_flag (pool waiting_system), closer := FlagSet\<rparr>)"
    by (simp add: system_defs Let_def)
  from Step [OF this CloseClears]
  have 3: "pool_reachable 1 (waiting_system\<lparr>pool := close_panes (close_flag (pool waiting_system)), closer := PanesCleared\<rparr>)"
    by simp
  from Step [OF this ReturnUnknown [of _ 0 0 "close_panes (close_flag (pool waiting_system))"]]
  show ?thesis by (simp add: system_defs checkin_def Let_def)
qed

lemma loss_cases:
  assumes "pool_step s s1" and "pool_lost s1 \<noteq> pool_lost s" and "open_ok s"
  shows "(\<exists>t. users s t = Permitted \<and> available_panes (pool s) = []) \<or>
    (closed (pool s) \<and> (\<exists>t x. users s t = Using x))"
  using assms
proof (induction rule: pool_step.induct)
  case (TakeRaises s t c e p)
  then show ?case using take_pane_Inl [OF TakeRaises(2)] by blast
next
  case (ReturnUnknown s t x p)
  then show ?case using open_okD(3) [of s t x] by (auto simp: checkin_def split: if_splits)
qed simp_all

text \<open>
  C39. A lost permit never comes back: after any further steps at most \<open>n\<close> minus the lost permits threads are
  inside the pool at a time, and when all permits are lost no thread ever gets a pane again. A permit is
  lost only when \<open>checkout\<close> has to create a pane and this fails, which raises without releasing the
  semaphore, or when a pane is returned to a pool that was closed meanwhile.
\<close>

theorem lost_permits_block_forever:
  assumes "pool_reachable n s" and "pool_step\<^sup>*\<^sup>* s s1"
  shows "user_count between s1 + user_count holding s1 \<le> n - pool_lost s \<and> pool_lost s \<le> pool_lost s1 \<and>
    (pool_lost s = n \<longrightarrow> (\<forall>t. holds (users s1 t) = None)) \<and>
    (\<forall>s2. pool_step s1 s2 \<and> pool_lost s2 \<noteq> pool_lost s1 \<longrightarrow>
       (\<exists>t. users s1 t = Permitted \<and> available_panes (pool s1) = []) \<or> (closed (pool s1) \<and> (\<exists>t x. users s1 t = Using x)))"
proof -
  have ok: "permits_ok n s1" "open_ok s1"
    using pool_reachable_ok [OF reachable_steps [OF assms(2,1)]] by (simp_all add: pool_ok_def)
  have sum: "semaphore (pool s1) + user_count between s1 + user_count holding s1 + pool_lost s1 = n"
    using ok(1) by (simp add: permits_ok_def)
  note le = lost_steps [OF assms(2)]
  have "holds (users s1 t) = None" if "pool_lost s = n" for t using sum le that by (intro holds_count [OF ok(1)]) simp
  moreover have "user_count between s1 + user_count holding s1 \<le> n - pool_lost s" using sum le by simp
  ultimately show ?thesis using le loss_cases [OF _ _ ok(2)] by blast
qed

text \<open>
  Both ways are taken: by a pool that is still open and refuses every later checkout, and by a closed one,
  where a thread that waits in \<open>checkout\<close> without a timeout waits forever.
\<close>

theorem lost_permits_block_forever_witness:
  "is_usable (pool raised_system) \<and> \<not> (\<exists>s t. pool_step\<^sup>*\<^sup>* raised_system s \<and> holds (users s t) \<noteq> None) \<and>
   users closed_system 1 = Waiting \<and> \<not> (\<exists>s t. pool_step\<^sup>*\<^sup>* closed_system s \<and> holds (users s t) \<noteq> None)"
proof -
  have "pool_lost raised_system = 1" "pool_lost closed_system = 1"
    "is_usable (pool raised_system)" "users closed_system 1 = Waiting"
    by (simp_all add: system_defs is_usable_def)
  moreover have "holds (users s t) = None" if "pool_step\<^sup>*\<^sup>* raised_system s" for s t
    using lost_permits_block_forever [OF reachable_raised that] calculation(1) by simp
  moreover have "holds (users s t) = None" if "pool_step\<^sup>*\<^sup>* closed_system s" for s t
    using lost_permits_block_forever [OF reachable_closed that] calculation(2) by simp
  ultimately show ?thesis by simp
qed

end
