(* ===== verification/Provider_Slots.thy ===== *)
theory Provider_Slots
  imports Prelude
begin

text \<open>
  The cap on concurrent requests to the model provider (\<^verbatim>\<open>agent_server/llm_slots.py\<close>): one limiter per
  process, a semaphore per event loop, a lease around each transport call. The tasks that make requests
  are a step relation; semaphores are numbered in the order of their creation, and the limiter keeps the
  number of the current one with the loop it belongs to.
\<close>

section \<open>The limiter\<close>

type_synonym loop_id = nat

record provider_slots =
  slot_limit :: nat
  slot_semaphore :: "(nat \<times> loop_id) option"
  in_flight :: int
  permits_of :: "nat list"

definition new_slots :: "nat \<Rightarrow> provider_slots" where
  "new_slots n = \<lparr>slot_limit = n, slot_semaphore = None, in_flight = 0, permits_of = []\<rparr>"

text \<open>The running loop's semaphore, created when there is none for this loop.\<close>

definition semaphore_for_loop :: "loop_id \<Rightarrow> provider_slots \<Rightarrow> nat \<times> provider_slots" where
  "semaphore_for_loop l s =
     (case slot_semaphore s of
        Some (k, l0) \<Rightarrow>
          if l0 = l then (k, s)
          else (length (permits_of s), s\<lparr>slot_semaphore := Some (length (permits_of s), l), permits_of := permits_of s @ [slot_limit s]\<rparr>)
      | None \<Rightarrow>
          (length (permits_of s), s\<lparr>slot_semaphore := Some (length (permits_of s), l), permits_of := permits_of s @ [slot_limit s]\<rparr>))"

text \<open>\<open>__aenter__\<close> after its wait, and \<open>__aexit__\<close> with the semaphore of the lease.\<close>

definition enter_lease :: "nat \<Rightarrow> provider_slots \<Rightarrow> provider_slots option" where
  "enter_lease k s =
     (if permits_of s ! k = 0 then None
      else Some (s\<lparr>permits_of := (permits_of s)[k := permits_of s ! k - 1], in_flight := in_flight s + 1\<rparr>))"

definition exit_lease :: "nat \<Rightarrow> provider_slots \<Rightarrow> provider_slots" where
  "exit_lease k s = s\<lparr>permits_of := (permits_of s)[k := Suc (permits_of s ! k)], in_flight := in_flight s - 1\<rparr>"

text \<open>A limit that is not positive installs nothing; a second installation changes the limit.\<close>

definition install_provider_slots :: "int \<Rightarrow> provider_slots option \<Rightarrow> provider_slots option" where
  "install_provider_slots limit slots =
     (if limit \<le> 0 then slots
      else case slots of
        Some s \<Rightarrow> Some (s\<lparr>slot_limit := nat limit\<rparr>)
      | None \<Rightarrow> Some (new_slots (nat limit)))"

section \<open>Tasks\<close>

text \<open>A task outside a transport call, waiting for a slot of a semaphore, or inside the call.\<close>

datatype slot_task = NoCall | AwaitSlot nat | InCall nat

record slot_system =
  slots :: provider_slots
  tasks :: "nat \<Rightarrow> slot_task"

definition slot_start :: "nat \<Rightarrow> slot_system" where
  "slot_start n = \<lparr>slots = new_slots n, tasks = (\<lambda>_. NoCall)\<rparr>"

text \<open>
  A task runs in one event loop, \<open>loop_of\<close>, for its whole life. A task that is cancelled while it waits has no
  lease to give back.
\<close>

inductive slot_step :: "(nat \<Rightarrow> loop_id) \<Rightarrow> slot_system \<Rightarrow> slot_system \<Rightarrow> bool" for loop_of where
  Request: "tasks s t = NoCall \<Longrightarrow> semaphore_for_loop (loop_of t) (slots s) = (k, p) \<Longrightarrow>
    slot_step loop_of s \<lparr>slots = p, tasks = (tasks s)(t := AwaitSlot k)\<rparr>"
| Cancelled: "tasks s t = AwaitSlot k \<Longrightarrow> slot_step loop_of s (s\<lparr>tasks := (tasks s)(t := NoCall)\<rparr>)"
| Granted: "tasks s t = AwaitSlot k \<Longrightarrow> enter_lease k (slots s) = Some p \<Longrightarrow>
    slot_step loop_of s \<lparr>slots = p, tasks = (tasks s)(t := InCall k)\<rparr>"
| Finished: "tasks s t = InCall k \<Longrightarrow> slot_step loop_of s \<lparr>slots = exit_lease k (slots s), tasks = (tasks s)(t := NoCall)\<rparr>"
| Install: "install_provider_slots n (Some (slots s)) = Some p \<Longrightarrow> slot_step loop_of s (s\<lparr>slots := p\<rparr>)"

text \<open>The limits that were in force when the semaphores were created, in their order.\<close>

definition limits_after :: "slot_system \<Rightarrow> slot_system \<Rightarrow> nat list \<Rightarrow> nat list" where
  "limits_after s s1 ls =
     (if length (permits_of (slots s1)) = length (permits_of (slots s)) then ls else ls @ [slot_limit (slots s)])"

text \<open>The same with the event loop each of them was created for.\<close>

definition created_after :: "slot_system \<Rightarrow> slot_system \<Rightarrow> (loop_id \<times> nat) list \<Rightarrow> (loop_id \<times> nat) list" where
  "created_after s s1 cs =
     (case slot_semaphore (slots s1) of
        None \<Rightarrow> cs
      | Some (k, l) \<Rightarrow> if k < length cs then cs else cs @ [(l, slot_limit (slots s))])"

inductive slot_reachable :: "(nat \<Rightarrow> loop_id) \<Rightarrow> nat \<Rightarrow> (loop_id \<times> nat) list \<Rightarrow> slot_system \<Rightarrow> bool" for loop_of n where
  Start: "slot_reachable loop_of n [] (slot_start n)"
| Step: "slot_reachable loop_of n cs s \<Longrightarrow> slot_step loop_of s s1 \<Longrightarrow> slot_reachable loop_of n (created_after s s1 cs) s1"

fun in_call :: "slot_task \<Rightarrow> bool" where
  "in_call (InCall k) = True"
| "in_call _ = False"

definition calls_on :: "nat \<Rightarrow> slot_system \<Rightarrow> nat" where
  "calls_on k s = card {t. tasks s t = InCall k}"

definition slots_ok :: "nat list \<Rightarrow> slot_system \<Rightarrow> bool" where
  "slots_ok ls s \<longleftrightarrow>
     finite {t. tasks s t \<noteq> NoCall} \<and> length (permits_of (slots s)) = length ls \<and>
     (\<forall>t k. tasks s t = AwaitSlot k \<or> tasks s t = InCall k \<longrightarrow> k < length ls) \<and>
     (\<forall>k l. slot_semaphore (slots s) = Some (k, l) \<longrightarrow> k < length ls) \<and>
     (\<forall>k < length ls. permits_of (slots s) ! k + calls_on k s = ls ! k) \<and>
     in_flight (slots s) = int (card {t. in_call (tasks s t)})"

lemma slots_okD:
  assumes "slots_ok ls s"
  shows "finite {t. tasks s t \<noteq> NoCall}" and "length (permits_of (slots s)) = length ls"
    and "tasks s t = AwaitSlot k \<Longrightarrow> k < length ls" and "tasks s t = InCall k \<Longrightarrow> k < length ls"
    and "slot_semaphore (slots s) = Some (k, l) \<Longrightarrow> k < length ls"
    and "k < length ls \<Longrightarrow> permits_of (slots s) ! k + calls_on k s = ls ! k"
    and "in_flight (slots s) = int (card {t. in_call (tasks s t)})"
  using assms unfolding slots_ok_def by blast+

lemma finite_calls:
  assumes "finite {t. tasks s t \<noteq> NoCall}"
  shows "finite {t. tasks s t = InCall k}" "finite {t. in_call (tasks s t)}"
  by (rule finite_subset [OF _ assms], auto)+

text \<open>One task moves on to \<open>u\<close> and the limiter becomes \<open>p\<close>.\<close>

lemma slots_ok_move:
  assumes ok: "slots_ok ls s" and len: "length (permits_of p) = length ls'" "length ls \<le> length ls'"
    and u: "\<And>k. u = AwaitSlot k \<or> u = InCall k \<Longrightarrow> k < length ls'"
    and cur: "\<And>k l. slot_semaphore p = Some (k, l) \<Longrightarrow> k < length ls'"
    and fly: "in_flight p + (if in_call (tasks s t) then 1 else 0) = in_flight (slots s) + (if in_call u then 1 else 0)"
    and old: "\<And>k. k < length ls \<Longrightarrow> ls' ! k = ls ! k \<and>
      permits_of p ! k + (if u = InCall k then 1 else 0) = permits_of (slots s) ! k + (if tasks s t = InCall k then 1 else 0)"
    and new: "\<And>k. length ls \<le> k \<Longrightarrow> k < length ls' \<Longrightarrow> permits_of p ! k = ls' ! k \<and> u \<noteq> InCall k"
  shows "slots_ok ls' \<lparr>slots = p, tasks = (tasks s)(t := u)\<rparr>"
proof -
  note D = slots_okD [OF ok]
  let ?s = "\<lparr>slots = p, tasks = (tasks s)(t := u)\<rparr>"
  have calls: "calls_on k ?s + (if tasks s t = InCall k then 1 else 0) = calls_on k s + (if u = InCall k then 1 else 0)" for k
    using card_fun_upd [of "\<lambda>x. x = InCall k" "tasks s" t u] finite_calls(1) [OF D(1), of k] by (simp add: calls_on_def)
  have all: "card {x. in_call (tasks ?s x)} + (if in_call (tasks s t) then 1 else 0) =
      card {x. in_call (tasks s x)} + (if in_call u then 1 else 0)"
    using card_fun_upd [of in_call "tasks s" t u] finite_calls(2) [OF D(1)] by simp
  have none: "calls_on k s = 0" if "length ls \<le> k" for k
  proof -
    have "{t. tasks s t = InCall k} = {}" using D(4) [of _ k] that by force
    then show ?thesis by (simp add: calls_on_def)
  qed
  have "permits_of p ! k + calls_on k ?s = ls' ! k" if "k < length ls'" for k
  proof (cases "k < length ls")
    case True
    then show ?thesis using D(6) [OF True] old [OF True] calls [of k] by (auto split: if_splits)
  next
    case False
    moreover have "tasks s t \<noteq> InCall k" using D(4) [of t k] False by auto
    ultimately show ?thesis using new [of k] that calls [of k] none [of k] by simp
  qed
  moreover have "finite {x. tasks ?s x \<noteq> NoCall}"
    using finite_fun_upd [of "\<lambda>x. x \<noteq> NoCall" "tasks s" t u] D(1) by simp
  moreover have "\<forall>x k. tasks ?s x = AwaitSlot k \<or> tasks ?s x = InCall k \<longrightarrow> k < length ls'"
  proof (intro allI impI)
    fix x k assume "tasks ?s x = AwaitSlot k \<or> tasks ?s x = InCall k"
    then show "k < length ls'" using u D(3) [of x k] D(4) [of x k] len(2) by (cases "x = t") auto
  qed
  moreover have "in_flight p = int (card {x. in_call (tasks ?s x)})"
  proof -
    define N where "N = card {x. in_call (tasks ?s x)}"
    have "N + (if in_call (tasks s t) then 1 else 0) = card {x. in_call (tasks s x)} + (if in_call u then 1 else 0)"
      using all unfolding N_def .
    then have "in_flight p = int N" using fly D(7) by (simp split: if_splits)
    then show ?thesis unfolding N_def .
  qed
  ultimately show ?thesis unfolding slots_ok_def using len cur by simp
qed

lemma semaphore_for_loop_cases:
  "(\<exists>k. slot_semaphore s = Some (k, l) \<and> semaphore_for_loop l s = (k, s)) \<or>
   semaphore_for_loop l s = (length (permits_of s),
     s\<lparr>slot_semaphore := Some (length (permits_of s), l), permits_of := permits_of s @ [slot_limit s]\<rparr>)"
  by (auto simp: semaphore_for_loop_def split: option.splits)

lemma slots_ok_step:
  assumes "slot_step loop_of s s1" and "slots_ok ls s"
  shows "slots_ok (limits_after s s1 ls) s1"
  using assms
proof (induction rule: slot_step.induct)
  case (Request s t k p)
  note D = slots_okD [OF Request(3)]
  from semaphore_for_loop_cases [of "slots s" "loop_of t"] show ?case
  proof (elim disjE exE conjE)
    fix j assume j: "slot_semaphore (slots s) = Some (j, loop_of t)" "semaphore_for_loop (loop_of t) (slots s) = (j, slots s)"
    have "slots_ok ls \<lparr>slots = slots s, tasks = (tasks s)(t := AwaitSlot j)\<rparr>"
      by (intro slots_ok_move [OF Request(3)]) (use j Request(1) D(2,5) in auto)
    then show ?case using j Request(2) by (simp add: limits_after_def)
  next
    let ?p = "(slots s)\<lparr>slot_semaphore := Some (length (permits_of (slots s)), loop_of t), permits_of := permits_of (slots s) @ [slot_limit (slots s)]\<rparr>"
    assume n: "semaphore_for_loop (loop_of t) (slots s) = (length (permits_of (slots s)), ?p)"
    have "slots_ok (ls @ [slot_limit (slots s)]) \<lparr>slots = ?p, tasks = (tasks s)(t := AwaitSlot (length ls))\<rparr>"
      by (intro slots_ok_move [OF Request(3)]) (use Request(1) D(2) in \<open>auto simp: nth_append\<close>)
    then show ?case using n Request(2) D(2) by (simp add: limits_after_def)
  qed
next
  case (Cancelled s t k)
  note D = slots_okD [OF Cancelled(2)]
  have "slots_ok ls \<lparr>slots = slots s, tasks = (tasks s)(t := NoCall)\<rparr>"
    by (intro slots_ok_move [OF Cancelled(2)]) (use Cancelled(1) D(2,5) in auto)
  then show ?case by (cases s) (simp add: limits_after_def)
next
  case (Granted s t k p)
  note D = slots_okD [OF Granted(3)]
  have k: "k < length ls" using D(3) Granted(1) .
  have "slots_ok ls \<lparr>slots = p, tasks = (tasks s)(t := InCall k)\<rparr>"
    by (intro slots_ok_move [OF Granted(3)])
      (use Granted(1,2) D(2,5) k in \<open>auto simp: enter_lease_def nth_list_update split: if_splits\<close>)
  then show ?case using Granted(2) by (auto simp: limits_after_def enter_lease_def split: if_splits)
next
  case (Finished s t k)
  note D = slots_okD [OF Finished(2)]
  have k: "k < length ls" using D(4) Finished(1) .
  have "slots_ok ls \<lparr>slots = exit_lease k (slots s), tasks = (tasks s)(t := NoCall)\<rparr>"
    by (intro slots_ok_move [OF Finished(2)])
      (use Finished(1) D(2,5) k in \<open>auto simp: exit_lease_def nth_list_update\<close>)
  then show ?case by (simp add: limits_after_def exit_lease_def)
next
  case (Install n s p)
  then show ?case
    by (auto simp: install_provider_slots_def limits_after_def slots_ok_def calls_on_def split: if_splits)
qed

text \<open>Every semaphore is used by the tasks of its loop only.\<close>

definition loops_ok :: "(nat \<Rightarrow> loop_id) \<Rightarrow> (loop_id \<times> nat) list \<Rightarrow> slot_system \<Rightarrow> bool" where
  "loops_ok loop_of cs s \<longleftrightarrow>
     length (permits_of (slots s)) = length cs \<and>
     (\<forall>t k. tasks s t = AwaitSlot k \<or> tasks s t = InCall k \<longrightarrow> k < length cs \<and> fst (cs ! k) = loop_of t) \<and>
     (\<forall>k l. slot_semaphore (slots s) = Some (k, l) \<longrightarrow> k < length cs \<and> fst (cs ! k) = l)"

lemma created_kept:
  "loops_ok loop_of cs s \<Longrightarrow> slot_semaphore (slots s1) = slot_semaphore (slots s) \<Longrightarrow> created_after s s1 cs = cs"
  by (auto simp: created_after_def loops_ok_def split: option.splits)

lemma created_limits:
  assumes "slot_step loop_of s s1" and "loops_ok loop_of cs s"
  shows "map snd (created_after s s1 cs) = limits_after s s1 (map snd cs)"
  using assms
proof (induction rule: slot_step.induct)
  case (Request s t k p)
  then show ?case using semaphore_for_loop_cases [of "slots s" "loop_of t"]
    by (auto simp: created_after_def limits_after_def loops_ok_def)
qed (subst created_kept, assumption,
  auto simp: limits_after_def enter_lease_def exit_lease_def install_provider_slots_def split: if_splits)+

lemma loops_kept:
  assumes "loops_ok loop_of cs s" and "slot_semaphore (slots s1) = slot_semaphore (slots s)"
    and "length (permits_of (slots s1)) = length (permits_of (slots s))"
    and "\<And>t. tasks s1 t = tasks s t \<or> tasks s1 t = NoCall \<or> (\<exists>k. tasks s t = AwaitSlot k \<and> tasks s1 t = InCall k)"
  shows "loops_ok loop_of (created_after s s1 cs) s1"
  using assms unfolding created_kept [OF assms(1,2)] loops_ok_def by (metis slot_task.distinct slot_task.inject)

lemma loops_ok_step:
  assumes "slot_step loop_of s s1" and "loops_ok loop_of cs s"
  shows "loops_ok loop_of (created_after s s1 cs) s1"
  using assms
proof (induction rule: slot_step.induct)
  case (Request s t k p)
  from semaphore_for_loop_cases [of "slots s" "loop_of t"] show ?case
  proof (elim disjE exE conjE)
    fix j assume j: "slot_semaphore (slots s) = Some (j, loop_of t)" "semaphore_for_loop (loop_of t) (slots s) = (j, slots s)"
    then show ?case using Request by (auto simp: created_after_def loops_ok_def)
  next
    assume "semaphore_for_loop (loop_of t) (slots s) = (length (permits_of (slots s)),
      (slots s)\<lparr>slot_semaphore := Some (length (permits_of (slots s)), loop_of t),
        permits_of := permits_of (slots s) @ [slot_limit (slots s)]\<rparr>)"
    moreover have "\<forall>u k. tasks s u = AwaitSlot k \<or> tasks s u = InCall k \<longrightarrow> k < Suc (length cs) \<and> fst ((cs @ [c]) ! k) = loop_of u" for c
      using Request(3) by (auto simp: loops_ok_def nth_append less_Suc_eq)
    moreover have "length (permits_of (slots s)) = length cs" using Request(3) by (simp add: loops_ok_def)
    ultimately show ?case using Request(1,2) by (auto simp: created_after_def loops_ok_def)
  qed
next
  case (Granted s t k p)
  then show ?case by (intro loops_kept) (auto simp: enter_lease_def split: if_splits)
next
  case (Install n s p)
  then show ?case by (intro loops_kept) (auto simp: install_provider_slots_def split: if_splits)
next
  case (Finished s t k)
  then show ?case by (intro loops_kept) (auto simp: exit_lease_def)
next
  case (Cancelled s t k)
  then show ?case by (intro loops_kept) auto
qed

lemma slot_reachable_ok: "slot_reachable loop_of n cs s \<Longrightarrow> slots_ok (map snd cs) s \<and> loops_ok loop_of cs s"
proof (induction rule: slot_reachable.induct)
  case Start
  then show ?case by (simp add: slots_ok_def loops_ok_def slot_start_def new_slots_def)
next
  case (Step cs s s1)
  then show ?case using slots_ok_step [of loop_of s s1] loops_ok_step created_limits by metis
qed




text \<open>Two tasks of one loop; between their requests the limit is lowered from two to one.\<close>

definition one_call :: slot_system where
  "one_call = \<lparr>slots = \<lparr>slot_limit = 2, slot_semaphore = Some (0, 0), in_flight = 1, permits_of = [1]\<rparr>,
     tasks = (\<lambda>_. NoCall)(0 := InCall 0)\<rparr>"

definition two_calls :: slot_system where
  "two_calls = \<lparr>slots = \<lparr>slot_limit = 1, slot_semaphore = Some (0, 0), in_flight = 2, permits_of = [0]\<rparr>,
     tasks = (\<lambda>_. NoCall)(0 := InCall 0, 1 := InCall 0)\<rparr>"

lemma call_step:
  assumes "slot_reachable loop_of n cs s" and "tasks s t = NoCall" and "semaphore_for_loop (loop_of t) (slots s) = (k, p)"
    and "enter_lease k p = Some q" and "cs' = created_after s \<lparr>slots = p, tasks = tasks s\<rparr> cs"
  shows "slot_reachable loop_of n cs' \<lparr>slots = q, tasks = (tasks s)(t := InCall k)\<rparr>"
proof -
  let ?s = "\<lparr>slots = p, tasks = (tasks s)(t := AwaitSlot k)\<rparr>"
  have 1: "slot_reachable loop_of n cs' ?s"
    using Step [OF assms(1) Request [where loop_of = loop_of, OF assms(2,3)]] assms(5) by (simp add: created_after_def)
  have 2: "slot_step loop_of ?s \<lparr>slots = q, tasks = (tasks ?s)(t := InCall k)\<rparr>"
    by (rule Granted [of _ t k]) (use assms(4) in simp_all)
  moreover have "created_after ?s \<lparr>slots = q, tasks = (tasks ?s)(t := InCall k)\<rparr> cs' = cs'"
    using slot_reachable_ok [OF 1] assms(4) by (intro created_kept) (auto simp: enter_lease_def split: if_splits)
  ultimately show ?thesis using Step [OF 1 2] by simp
qed

lemma reachable_one_call: "slot_reachable (\<lambda>_. 0) 2 [(0, 2)] one_call"
  using call_step [OF Start [of "\<lambda>_. 0" 2], of 0]
  by (simp add: slot_start_def new_slots_def semaphore_for_loop_def enter_lease_def one_call_def created_after_def)


text \<open>
  Installing a lower limit while a loop is running has no effect on it: a call is granted although the
  calls in progress already reach the new limit.
\<close>

theorem lowered_limit_ignored:
  "slot_reachable (\<lambda>_. 0) 2 [(0, 2)] two_calls \<and> slot_limit (slots two_calls) = 1 \<and> in_flight (slots two_calls) = 2"
proof -
  have "slot_step (\<lambda>_. 0) one_call (one_call\<lparr>slots := (slots one_call)\<lparr>slot_limit := 1\<rparr>\<rparr>)"
    by (rule Install [of 1]) (simp add: install_provider_slots_def)
  from Step [OF reachable_one_call this]
  have 1: "slot_reachable (\<lambda>_. 0) 2 [(0, 2)] (one_call\<lparr>slots := (slots one_call)\<lparr>slot_limit := 1\<rparr>\<rparr>)"
    by (simp add: created_after_def one_call_def)
  have "slot_reachable (\<lambda>_. 0) 2 [(0, 2)] two_calls"
    using call_step [OF 1, of 1] by (simp add: one_call_def two_calls_def semaphore_for_loop_def enter_lease_def created_after_def)
  then show ?thesis by (simp add: two_calls_def)
qed

end
