(* ===== verification/Llm_Metrics.thy ===== *)
theory Llm_Metrics
  imports Complex_Main Prelude
begin

text \<open>
  Usage metrics of a model (\<^verbatim>\<open>llm/utils/metrics.py\<close>, \<^verbatim>\<open>conversation/conversation_stats.py\<close>) and the fallback to
  other models (\<^verbatim>\<open>llm/fallback_strategy.py\<close>). Token counts are integers. Costs are floats, whose
  operations are an argument: nothing is assumed of their rounding. Clocks are an argument as well.
\<close>

section \<open>Token usage and costs\<close>

record 'c float_ops =
  fl_zero :: 'c
  fl_add :: "'c \<Rightarrow> 'c \<Rightarrow> 'c"
  fl_sub :: "'c \<Rightarrow> 'c \<Rightarrow> 'c"
  fl_less :: "'c \<Rightarrow> 'c \<Rightarrow> bool"
  fl_le :: "'c \<Rightarrow> 'c \<Rightarrow> bool"

record token_usage =
  tu_model :: string
  prompt_tokens :: int
  completion_tokens :: int
  cache_read_tokens :: int
  cache_write_tokens :: int
  reasoning_tokens :: int
  context_window :: int
  per_turn_token :: int
  tu_response_id :: string
  provenance :: "string option"

text \<open>The constraints of the fields: a negative count raises a validation error.\<close>

definition valid_usage :: "token_usage \<Rightarrow> bool" where
  "valid_usage u \<longleftrightarrow> 0 \<le> prompt_tokens u \<and> 0 \<le> completion_tokens u \<and> 0 \<le> cache_read_tokens u \<and>
     0 \<le> cache_write_tokens u \<and> 0 \<le> reasoning_tokens u \<and> 0 \<le> context_window u \<and> 0 \<le> per_turn_token u"

definition make_usage :: "token_usage \<Rightarrow> token_usage result" where
  "make_usage u = (if valid_usage u then Inr u else Inl ValueError)"

definition zero_usage :: "string \<Rightarrow> token_usage" where
  "zero_usage m = \<lparr>tu_model = m, prompt_tokens = 0, completion_tokens = 0, cache_read_tokens = 0,
     cache_write_tokens = 0, reasoning_tokens = 0, context_window = 0, per_turn_token = 0,
     tu_response_id = [], provenance = None\<rparr>"

text \<open>\<open>TokenUsage.__add__\<close>.\<close>

definition add_usage :: "token_usage \<Rightarrow> token_usage \<Rightarrow> token_usage" where
  "add_usage a b = \<lparr>tu_model = tu_model a, prompt_tokens = prompt_tokens a + prompt_tokens b,
     completion_tokens = completion_tokens a + completion_tokens b,
     cache_read_tokens = cache_read_tokens a + cache_read_tokens b,
     cache_write_tokens = cache_write_tokens a + cache_write_tokens b,
     reasoning_tokens = reasoning_tokens a + reasoning_tokens b,
     context_window = max (context_window a) (context_window b), per_turn_token = per_turn_token b,
     tu_response_id = tu_response_id a, provenance = None\<rparr>"

record 'c cost_entry =
  ce_model :: string
  ce_cost :: 'c
  ce_timestamp :: 'c

record 'c latency_entry =
  la_model :: string
  la_latency :: 'c
  la_reasoning :: bool
  la_response_id :: string

record 'c metrics =
  model_name :: string
  accumulated_cost :: 'c
  max_budget_per_task :: "'c option"
  accumulated_token_usage :: "token_usage option"
  costs :: "'c cost_entry list"
  response_latencies :: "'c latency_entry list"
  first_token_latencies :: "'c latency_entry list"
  token_usages :: "token_usage list"

text \<open>The constructor fills in the accumulated usage.\<close>

definition new_metrics :: "'c float_ops \<Rightarrow> string \<Rightarrow> 'c metrics" where
  "new_metrics fl m = \<lparr>model_name = m, accumulated_cost = fl_zero fl, max_budget_per_task = None,
     accumulated_token_usage = Some (zero_usage m), costs = [], response_latencies = [],
     first_token_latencies = [], token_usages = []\<rparr>"

section \<open>Operations\<close>

text \<open>
  The total is changed before the entry is validated, so a value that is neither negative nor at least
  zero (a NaN) raises and leaves the changed total behind.
\<close>

definition add_cost :: "'c float_ops \<Rightarrow> 'c \<Rightarrow> 'c \<Rightarrow> 'c metrics \<Rightarrow> unit result \<times> 'c metrics" where
  "add_cost fl now v m =
     (if fl_less fl v (fl_zero fl) then (Inl ValueError, m)
      else
        (let m1 = m\<lparr>accumulated_cost := fl_add fl (accumulated_cost m) v\<rparr>
         in if \<not> fl_le fl (fl_zero fl) v then (Inl ValueError, m1)
            else (Inr (), m1\<lparr>costs := costs m1 @ [\<lparr>ce_model = model_name m, ce_cost = v, ce_timestamp = now\<rparr>]\<rparr>)))"

definition at_least_zero :: "'c float_ops \<Rightarrow> 'c \<Rightarrow> 'c" where
  "at_least_zero fl v = (if fl_less fl (fl_zero fl) v then v else fl_zero fl)"

definition add_response_latency :: "'c float_ops \<Rightarrow> 'c \<Rightarrow> string \<Rightarrow> 'c metrics \<Rightarrow> 'c metrics" where
  "add_response_latency fl v rid m =
     m\<lparr>response_latencies := response_latencies m @
        [\<lparr>la_model = model_name m, la_latency = at_least_zero fl v, la_reasoning = False, la_response_id = rid\<rparr>]\<rparr>"

definition add_first_token_latency :: "'c float_ops \<Rightarrow> 'c \<Rightarrow> bool \<Rightarrow> string \<Rightarrow> 'c metrics \<Rightarrow> 'c metrics" where
  "add_first_token_latency fl v reasoning rid m =
     m\<lparr>first_token_latencies := first_token_latencies m @
        [\<lparr>la_model = model_name m, la_latency = at_least_zero fl v, la_reasoning = reasoning, la_response_id = rid\<rparr>]\<rparr>"

definition accumulate :: "token_usage option \<Rightarrow> token_usage \<Rightarrow> token_usage" where
  "accumulate acc u = (case acc of None \<Rightarrow> u | Some a \<Rightarrow> add_usage a u)"

text \<open>
  The counts of one call as the argument \<open>u\<close>, of which the model and the tokens of the turn are set here.
\<close>

definition add_token_usage :: "token_usage \<Rightarrow> 'c metrics \<Rightarrow> 'c metrics result" where
  "add_token_usage u m =
     (let v = u\<lparr>tu_model := model_name m, per_turn_token := prompt_tokens u + completion_tokens u\<rparr>
      in and_then (make_usage v)
        (\<lambda>w. Inr (m\<lparr>token_usages := token_usages m @ [w],
             accumulated_token_usage := Some (accumulate (accumulated_token_usage m) (w\<lparr>tu_response_id := [], provenance := None\<rparr>))\<rparr>)))"

definition merge_metrics :: "'c float_ops \<Rightarrow> 'c metrics \<Rightarrow> 'c metrics \<Rightarrow> 'c metrics" where
  "merge_metrics fl m other =
     m\<lparr>accumulated_cost := fl_add fl (accumulated_cost m) (accumulated_cost other),
       max_budget_per_task := (if max_budget_per_task m = None then max_budget_per_task other else max_budget_per_task m),
       costs := costs m @ costs other,
       token_usages := token_usages m @ token_usages other,
       response_latencies := response_latencies m @ response_latencies other,
       first_token_latencies := first_token_latencies m @ first_token_latencies other,
       accumulated_token_usage :=
         (case accumulated_token_usage m of
            None \<Rightarrow> accumulated_token_usage other
          | Some a \<Rightarrow> (case accumulated_token_usage other of None \<Rightarrow> Some a | Some b \<Rightarrow> Some (add_usage a b)))\<rparr>"

definition diff_usage :: "string \<Rightarrow> token_usage \<Rightarrow> token_usage \<Rightarrow> token_usage" where
  "diff_usage name cur base = \<lparr>tu_model = name, prompt_tokens = prompt_tokens cur - prompt_tokens base,
     completion_tokens = completion_tokens cur - completion_tokens base,
     cache_read_tokens = cache_read_tokens cur - cache_read_tokens base,
     cache_write_tokens = cache_write_tokens cur - cache_write_tokens base,
     reasoning_tokens = reasoning_tokens cur - reasoning_tokens base,
     context_window = context_window cur, per_turn_token = 0, tu_response_id = [], provenance = None\<rparr>"

text \<open>The entries after the baseline: costs by their time, the others by their number.\<close>

definition diff_metrics :: "'c float_ops \<Rightarrow> 'c metrics \<Rightarrow> 'c metrics \<Rightarrow> 'c metrics result" where
  "diff_metrics fl m base =
     (let r = (new_metrics fl (model_name m))\<lparr>
            accumulated_cost := fl_sub fl (accumulated_cost m) (accumulated_cost base),
            costs := (if costs base = [] then costs m
                      else filter (\<lambda>c. fl_less fl (ce_timestamp (last (costs base))) (ce_timestamp c)) (costs m)),
            response_latencies := drop (length (response_latencies base)) (response_latencies m),
            token_usages := drop (length (token_usages base)) (token_usages m)\<rparr>
      in case accumulated_token_usage m of
           None \<Rightarrow> Inr (r\<lparr>accumulated_token_usage := None\<rparr>)
         | Some cur \<Rightarrow>
             (case accumulated_token_usage base of
                None \<Rightarrow> Inr (r\<lparr>accumulated_token_usage := Some cur\<rparr>)
              | Some b \<Rightarrow> and_then (make_usage (diff_usage (model_name m) cur b))
                  (\<lambda>u. Inr (r\<lparr>accumulated_token_usage := Some u\<rparr>))))"

text \<open>\<open>MetricsSnapshot.cache_hit_rate\<close>, as an exact fraction.\<close>

definition cache_hit_rate :: "'c metrics \<Rightarrow> rat option" where
  "cache_hit_rate m =
     (case accumulated_token_usage m of
        None \<Rightarrow> None
      | Some u \<Rightarrow>
          (let p = prompt_tokens u; c = cache_read_tokens u; denom = (if p < c then p + c else p)
           in if denom \<le> 0 then None else Some (of_int c / of_int denom)))"

section \<open>The statistics of a conversation\<close>

text \<open>
  A model and the statistics share one metrics object, so the statistics hold references; \<open>store\<close> is what
  the objects hold at the moment of the call.
\<close>

record conversation_stats =
  usage_to_metrics :: "(string \<times> nat) list"
  restored_usage_ids :: "string set"

definition get_combined_metrics :: "'c float_ops \<Rightarrow> (nat \<Rightarrow> 'c metrics) \<Rightarrow> conversation_stats \<Rightarrow> 'c metrics" where
  "get_combined_metrics fl store st =
     fold (\<lambda>(_, r) total. merge_metrics fl total (store r)) (usage_to_metrics st) (new_metrics fl ''default'')"

text \<open>An unknown usage raises a plain exception, here a \<open>RuntimeError\<close>.\<close>

definition get_metrics_for_usage :: "string \<Rightarrow> conversation_stats \<Rightarrow> nat result" where
  "get_metrics_for_usage i st =
     (case map_of (usage_to_metrics st) i of None \<Rightarrow> Inl RuntimeError | Some r \<Rightarrow> Inr r)"

text \<open>
  A registered model takes over the metrics of its usage the first time it is seen after loading, and
  its own metrics are tracked when the usage is new. The result is the metrics the model goes on with.
\<close>

definition register_llm :: "string \<Rightarrow> nat \<Rightarrow> conversation_stats \<Rightarrow> nat \<times> conversation_stats" where
  "register_llm i r st =
     (case map_of (usage_to_metrics st) i of
        Some old \<Rightarrow>
          if i \<in> restored_usage_ids st then (r, st)
          else (old, st\<lparr>restored_usage_ids := insert i (restored_usage_ids st)\<rparr>)
      | None \<Rightarrow> (r, st\<lparr>usage_to_metrics := usage_to_metrics st @ [(i, r)]\<rparr>))"

section \<open>Falling back to other models\<close>

record 'c fallback_llm =
  fb_model :: string
  fb_metrics :: "'c metrics"
  fb_strategy :: bool

text \<open>
  Loading a profile gives a model, one of the two exceptions that are caught, or another exception. A call
  of a model gives a response or an exception, and the metrics as they are afterwards.
\<close>

datatype 'c load_outcome = Loaded "'c fallback_llm" | LoadRefused | LoadRaises

type_synonym ('c, 'r) call_fn = "nat \<Rightarrow> 'c fallback_llm \<Rightarrow> 'r result \<times> 'c metrics"

text \<open>
  One attempt: the own fallback strategy of the model is switched off during the call, and the metrics of
  the call are merged into those of the primary model when it succeeds. \<open>n\<close> counts the calls.
\<close>

definition attempt ::
    "'c float_ops \<Rightarrow> ('c, 'r) call_fn \<Rightarrow> nat \<Rightarrow> 'c fallback_llm \<Rightarrow> 'c metrics \<Rightarrow> 'r option \<times> 'c fallback_llm \<times> 'c metrics" where
  "attempt fl call n fb primary =
     (case call n (fb\<lparr>fb_strategy := False\<rparr>) of
        (Inl e, m) \<Rightarrow> (None, fb\<lparr>fb_metrics := m\<rparr>, primary)
      | (Inr r, m) \<Rightarrow>
          (case diff_metrics fl m (fb_metrics fb) of
             Inl e \<Rightarrow> (None, fb\<lparr>fb_metrics := m\<rparr>, primary)
           | Inr d \<Rightarrow> (Some r, fb\<lparr>fb_metrics := m\<rparr>, merge_metrics fl primary d)))"

text \<open>The models resolved by earlier calls, in their order.\<close>

fun try_cached ::
    "'c float_ops \<Rightarrow> ('c, 'r) call_fn \<Rightarrow> nat \<Rightarrow> 'c fallback_llm list \<Rightarrow> 'c metrics \<Rightarrow>
     'r option \<times> 'c fallback_llm list \<times> 'c metrics" where
  "try_cached fl call n [] primary = (None, [], primary)"
| "try_cached fl call n (fb # fbs) primary =
     (case attempt fl call n fb primary of
        (Some r, fb1, p1) \<Rightarrow> (Some r, fb1 # fbs, p1)
      | (None, fb1, p1) \<Rightarrow> (let (res, fbs1, p2) = try_cached fl call (Suc n) fbs p1 in (res, fb1 # fbs1, p2)))"

text \<open>
  Then the remaining profiles, each loaded when its turn comes. The result is an escaping exception or the
  response, if any, with the models that were resolved.
\<close>

fun try_names ::
    "'c float_ops \<Rightarrow> (string \<Rightarrow> 'c load_outcome) \<Rightarrow> ('c, 'r) call_fn \<Rightarrow> nat \<Rightarrow> string list \<Rightarrow> 'c metrics \<Rightarrow>
     'r option result \<times> 'c fallback_llm list \<times> 'c metrics" where
  "try_names fl load call n [] primary = (Inr None, [], primary)"
| "try_names fl load call n (name # names) primary =
     (case load name of
        LoadRefused \<Rightarrow> try_names fl load call n names primary
      | LoadRaises \<Rightarrow> (Inl RuntimeError, [], primary)
      | Loaded fb \<Rightarrow>
          (case attempt fl call n fb primary of
             (Some r, fb1, p1) \<Rightarrow> (Inr (Some r), [fb1], p1)
           | (None, fb1, p1) \<Rightarrow>
               (let (res, fbs1, p2) = try_names fl load call (Suc n) names p1 in (res, fb1 # fbs1, p2))))"

definition try_fallback ::
    "'c float_ops \<Rightarrow> (string \<Rightarrow> 'c load_outcome) \<Rightarrow> ('c, 'r) call_fn \<Rightarrow> string list \<Rightarrow> 'c fallback_llm list \<Rightarrow> 'c metrics \<Rightarrow>
     'r option result \<times> 'c fallback_llm list \<times> 'c metrics" where
  "try_fallback fl load call names resolved primary =
     (case try_cached fl call 0 resolved primary of
        (Some r, fbs, p) \<Rightarrow> (Inr (Some r), fbs, p)
      | (None, fbs, p) \<Rightarrow>
          (let (res, new, p1) = try_names fl load call (length resolved) (drop (length resolved) names) p
           in (res, fbs @ new, p1)))"

section \<open>Totals\<close>

text \<open>The accumulated usage is the sum of the recorded ones, and its context window their maximum.\<close>

definition total :: "(token_usage \<Rightarrow> int) \<Rightarrow> token_usage list \<Rightarrow> int" where
  "total f us = sum_list (map f us)"

definition usage_sums :: "token_usage \<Rightarrow> token_usage list \<Rightarrow> bool" where
  "usage_sums a us \<longleftrightarrow>
     prompt_tokens a = total prompt_tokens us \<and> completion_tokens a = total completion_tokens us \<and>
     cache_read_tokens a = total cache_read_tokens us \<and> cache_write_tokens a = total cache_write_tokens us \<and>
     reasoning_tokens a = total reasoning_tokens us \<and>
     context_window a = fold (\<lambda>u. max (context_window u)) us 0"

definition metrics_ok :: "'c metrics \<Rightarrow> bool" where
  "metrics_ok m \<longleftrightarrow> list_all valid_usage (token_usages m) \<and>
     (\<exists>a. accumulated_token_usage m = Some a \<and> valid_usage a \<and> usage_sums a (token_usages m))"

lemma total_simps [simp]: "total f [] = 0" "total f (u # us) = f u + total f us" "total f (us @ vs) = total f us + total f vs"
  by (simp_all add: total_def)

lemma fold_max_shift: "fold (\<lambda>u. max (context_window u)) us (max x y) = max x (fold (\<lambda>u. max (context_window u)) us y)"
  by (induction us arbitrary: y) (simp_all add: max.left_commute)

lemma fold_max_append:
  "0 \<le> (x :: int) \<Longrightarrow> fold (\<lambda>u. max (context_window u)) us x = max x (fold (\<lambda>u. max (context_window u)) us 0)"
  using fold_max_shift [of us x 0] by (simp add: max_def split: if_splits)

lemma usage_sums_add:
  "usage_sums a us \<Longrightarrow> usage_sums b vs \<Longrightarrow> 0 \<le> context_window a \<Longrightarrow> usage_sums (add_usage a b) (us @ vs)"
  using fold_max_append [of "context_window a" vs] by (simp add: usage_sums_def add_usage_def)

lemma valid_add: "valid_usage a \<Longrightarrow> valid_usage b \<Longrightarrow> valid_usage (add_usage a b)"
  by (auto simp: valid_usage_def add_usage_def max_def)

lemma usage_sums_one: "valid_usage u \<Longrightarrow> usage_sums (u\<lparr>tu_response_id := x, provenance := y\<rparr>) [u]"
  by (simp add: usage_sums_def valid_usage_def)

lemma new_metrics_ok: "metrics_ok (new_metrics fl m)"
  by (simp add: metrics_ok_def new_metrics_def zero_usage_def usage_sums_def valid_usage_def)

lemma add_token_usage_ok:
  assumes "metrics_ok m" and "add_token_usage u m = Inr m1"
  shows "metrics_ok m1"
proof -
  let ?v = "u\<lparr>tu_model := model_name m, per_turn_token := prompt_tokens u + completion_tokens u\<rparr>"
  let ?w = "?v\<lparr>tu_response_id := [], provenance := None\<rparr>"
  have v: "valid_usage ?v" using assms(2) by (auto simp: add_token_usage_def make_usage_def Let_def split: if_splits)
  then have w: "valid_usage ?w" "usage_sums ?w [?v]" using usage_sums_one [OF v] by (simp_all add: valid_usage_def)
  obtain a where a: "accumulated_token_usage m = Some a" "valid_usage a" "usage_sums a (token_usages m)" "list_all valid_usage (token_usages m)"
    using assms(1) by (auto simp: metrics_ok_def)
  have "accumulated_token_usage m1 = Some (add_usage a ?w)" "token_usages m1 = token_usages m @ [?v]"
    using assms(2) v a(1) by (auto simp: add_token_usage_def make_usage_def accumulate_def Let_def)
  moreover have "usage_sums (add_usage a ?w) (token_usages m @ [?v])"
    using usage_sums_add [OF a(3) w(2)] a(2) by (simp add: valid_usage_def)
  ultimately show ?thesis using a(2,4) v w(1) valid_add by (auto simp: metrics_ok_def)
qed

lemma merge_metrics_ok:
  assumes "metrics_ok m" and "metrics_ok other"
  shows "metrics_ok (merge_metrics fl m other)"
proof -
  obtain a b where "accumulated_token_usage m = Some a" "valid_usage a" "usage_sums a (token_usages m)"
    "accumulated_token_usage other = Some b" "valid_usage b" "usage_sums b (token_usages other)"
    using assms by (auto simp: metrics_ok_def)
  moreover from this have "usage_sums (add_usage a b) (token_usages m @ token_usages other)"
    by (intro usage_sums_add) (auto simp: valid_usage_def)
  ultimately show ?thesis using assms valid_add by (auto simp: metrics_ok_def merge_metrics_def)
qed

text \<open>What a metrics object can go through, and what a model records on one during a call.\<close>

inductive recorded :: "'c float_ops \<Rightarrow> 'c metrics \<Rightarrow> 'c metrics \<Rightarrow> bool" for fl where
  Unchanged: "recorded fl m m"
| Cost: "recorded fl m m1 \<Longrightarrow> recorded fl m (snd (add_cost fl now v m1))"
| Latency: "recorded fl m m1 \<Longrightarrow> recorded fl m (add_response_latency fl v rid m1)"
| FirstToken: "recorded fl m m1 \<Longrightarrow> recorded fl m (add_first_token_latency fl v b rid m1)"
| Usage: "recorded fl m m1 \<Longrightarrow> add_token_usage u m1 = Inr m2 \<Longrightarrow> recorded fl m m2"

inductive metrics_reachable :: "'c float_ops \<Rightarrow> 'c metrics \<Rightarrow> bool" for fl where
  Fresh: "metrics_reachable fl (new_metrics fl name)"
| Recording: "metrics_reachable fl m \<Longrightarrow> recorded fl m m1 \<Longrightarrow> metrics_reachable fl m1"
| Merging: "metrics_reachable fl m \<Longrightarrow> metrics_reachable fl other \<Longrightarrow> metrics_reachable fl (merge_metrics fl m other)"

lemma recorded_ok: "recorded fl m m1 \<Longrightarrow> metrics_ok m \<Longrightarrow> metrics_ok m1"
proof (induction rule: recorded.induct)
  case (Usage m m1 u m2)
  then show ?case using add_token_usage_ok by blast
qed (simp_all add: metrics_ok_def add_cost_def add_response_latency_def add_first_token_latency_def Let_def)

lemma metrics_reachable_ok: "metrics_reachable fl m \<Longrightarrow> metrics_ok m"
  by (induction rule: metrics_reachable.induct) (auto intro: new_metrics_ok recorded_ok merge_metrics_ok)

lemma hit_rate_range: "0 \<le> c \<Longrightarrow> (if p < c then p + c else p) = d \<Longrightarrow> 0 < d \<Longrightarrow> 0 \<le> p \<Longrightarrow> 0 \<le> (of_int c / of_int d :: rat) \<and> of_int c / of_int d \<le> (1 :: rat)"
  by (auto simp: divide_le_eq_1 split: if_splits)

text \<open>
  C22. The accumulated counts of a model are the sums over its recorded calls, however the metrics of several
  models were merged, and the cache hit rate lies between zero and one.
\<close>

theorem accumulated_usage_is_total:
  assumes "metrics_reachable fl m"
  shows "\<exists>a. accumulated_token_usage m = Some a \<and> usage_sums a (token_usages m) \<and>
    (case cache_hit_rate m of None \<Rightarrow> prompt_tokens a = 0 \<and> cache_read_tokens a = 0 | Some r \<Rightarrow> 0 \<le> r \<and> r \<le> 1)"
proof -
  obtain a where a: "accumulated_token_usage m = Some a" "usage_sums a (token_usages m)" "valid_usage a"
    using metrics_reachable_ok [OF assms] by (auto simp: metrics_ok_def)
  have "case cache_hit_rate m of None \<Rightarrow> prompt_tokens a = 0 \<and> cache_read_tokens a = 0 | Some r \<Rightarrow> 0 \<le> r \<and> r \<le> 1"
    using a(1,3) hit_rate_range [of "cache_read_tokens a" "prompt_tokens a"]
    by (auto simp: cache_hit_rate_def Let_def valid_usage_def split: if_splits)
  then show ?thesis using a by blast
qed

definition int_ops :: "int float_ops" where
  "int_ops = \<lparr>fl_zero = 0, fl_add = (+), fl_sub = (-), fl_less = (<), fl_le = (\<le>)\<rparr>"

definition sample_usage :: token_usage where
  "sample_usage = (zero_usage [])\<lparr>prompt_tokens := 8, completion_tokens := 2, cache_read_tokens := 4, context_window := 100\<rparr>"

definition sample_metrics :: "int metrics" where
  "sample_metrics = projr (add_token_usage sample_usage (new_metrics int_ops ''m''))"

lemma sample_recorded: "recorded int_ops (new_metrics int_ops ''m'') sample_metrics"
  by (rule Usage [OF Unchanged, of sample_usage])
    (simp add: sample_metrics_def add_token_usage_def make_usage_def valid_usage_def sample_usage_def zero_usage_def Let_def)

theorem accumulated_usage_is_total_witness:
  "metrics_reachable int_ops (merge_metrics int_ops sample_metrics sample_metrics) \<and>
   (\<exists>a. accumulated_token_usage (merge_metrics int_ops sample_metrics sample_metrics) = Some a \<and>
     usage_sums a (token_usages (merge_metrics int_ops sample_metrics sample_metrics)))"
proof -
  have "metrics_reachable int_ops sample_metrics" by (rule Recording [OF Fresh sample_recorded])
  then have "metrics_reachable int_ops (merge_metrics int_ops sample_metrics sample_metrics)" by (intro Merging)
  then show ?thesis using accumulated_usage_is_total [of int_ops "merge_metrics int_ops sample_metrics sample_metrics"] by blast
qed

section \<open>Differences\<close>

lemma total_nonneg: "list_all valid_usage us \<Longrightarrow>
    0 \<le> total prompt_tokens us \<and> 0 \<le> total completion_tokens us \<and> 0 \<le> total cache_read_tokens us \<and>
    0 \<le> total cache_write_tokens us \<and> 0 \<le> total reasoning_tokens us"
  by (induction us) (auto simp: valid_usage_def)

lemma recorded_extends:
  "recorded fl m m1 \<Longrightarrow> model_name m1 = model_name m \<and>
     (\<exists>us ls. token_usages m1 = token_usages m @ us \<and> response_latencies m1 = response_latencies m @ ls)"
  by (induction rule: recorded.induct)
    (auto simp: add_cost_def add_response_latency_def add_first_token_latency_def add_token_usage_def make_usage_def
      Let_def split: if_splits)

text \<open>
  C21. The token counts of a call are taken over exactly: after merging the difference between the metrics before and
  after a call into other metrics, each token count has grown by what the call recorded, and its usage
  records and response latencies are appended. The cost is the float difference added to the total.
  Nothing is said of first-token latencies and of the list of costs.
\<close>

theorem merged_difference_adds_call:
  assumes "metrics_ok m" and "recorded fl m m1" and "metrics_ok p"
  shows "\<exists>d a b. diff_metrics fl m1 m = Inr d \<and> accumulated_token_usage p = Some a \<and>
    accumulated_token_usage (merge_metrics fl p d) = Some b \<and>
    prompt_tokens b = prompt_tokens a + total prompt_tokens (drop (length (token_usages m)) (token_usages m1)) \<and>
    completion_tokens b = completion_tokens a + total completion_tokens (drop (length (token_usages m)) (token_usages m1)) \<and>
    cache_read_tokens b = cache_read_tokens a + total cache_read_tokens (drop (length (token_usages m)) (token_usages m1)) \<and>
    cache_write_tokens b = cache_write_tokens a + total cache_write_tokens (drop (length (token_usages m)) (token_usages m1)) \<and>
    reasoning_tokens b = reasoning_tokens a + total reasoning_tokens (drop (length (token_usages m)) (token_usages m1)) \<and>
    token_usages (merge_metrics fl p d) = token_usages p @ drop (length (token_usages m)) (token_usages m1) \<and>
    response_latencies (merge_metrics fl p d) = response_latencies p @ drop (length (response_latencies m)) (response_latencies m1) \<and>
    accumulated_cost (merge_metrics fl p d) = fl_add fl (accumulated_cost p) (fl_sub fl (accumulated_cost m1) (accumulated_cost m))"
proof -
  obtain x y a where x: "accumulated_token_usage m = Some x" "usage_sums x (token_usages m)"
    and y: "accumulated_token_usage m1 = Some y" "usage_sums y (token_usages m1)" "valid_usage y" "list_all valid_usage (token_usages m1)"
    and a: "accumulated_token_usage p = Some a"
    using assms recorded_ok [OF assms(2,1)] by (auto simp: metrics_ok_def)
  obtain us where us: "token_usages m1 = token_usages m @ us" using recorded_extends [OF assms(2)] by blast
  let ?u = "diff_usage (model_name m1) y x"
  have sums: "prompt_tokens y - prompt_tokens x = total prompt_tokens us" "completion_tokens y - completion_tokens x = total completion_tokens us"
    "cache_read_tokens y - cache_read_tokens x = total cache_read_tokens us"
    "cache_write_tokens y - cache_write_tokens x = total cache_write_tokens us"
    "reasoning_tokens y - reasoning_tokens x = total reasoning_tokens us"
    using x(2) y(2) us by (simp_all add: usage_sums_def)
  have "list_all valid_usage us" using y(4) us by simp
  then have "valid_usage ?u" using total_nonneg [of us] sums y(3) by (simp add: valid_usage_def diff_usage_def)
  then have d: "diff_metrics fl m1 m = Inr ((new_metrics fl (model_name m1))\<lparr>
      accumulated_cost := fl_sub fl (accumulated_cost m1) (accumulated_cost m),
      costs := (if costs m = [] then costs m1
                else filter (\<lambda>c. fl_less fl (ce_timestamp (last (costs m))) (ce_timestamp c)) (costs m1)),
      response_latencies := drop (length (response_latencies m)) (response_latencies m1),
      token_usages := drop (length (token_usages m)) (token_usages m1), accumulated_token_usage := Some ?u\<rparr>)"
    (is "_ = Inr ?d") using x(1) y(1) by (simp add: diff_metrics_def make_usage_def Let_def)
  have "accumulated_token_usage (merge_metrics fl p ?d) = Some (add_usage a ?u)" using a by (simp add: merge_metrics_def)
  moreover have "drop (length (token_usages m)) (token_usages m1) = us" using us by simp
  ultimately show ?thesis
    by (intro exI [of _ ?d] exI [of _ a] exI [of _ "add_usage a ?u"])
      (use d a sums in \<open>simp add: add_usage_def diff_usage_def merge_metrics_def\<close>)
qed

theorem merged_difference_adds_call_witness:
  "\<exists>d. diff_metrics int_ops sample_metrics (new_metrics int_ops ''m'') = Inr d \<and>
     length (token_usages (merge_metrics int_ops (new_metrics int_ops ''p'') d)) = 1"
proof -
  obtain d where d: "diff_metrics int_ops sample_metrics (new_metrics int_ops ''m'') = Inr d"
    "token_usages (merge_metrics int_ops (new_metrics int_ops ''p'') d) =
       token_usages (new_metrics int_ops ''p'') @ drop (length (token_usages (new_metrics int_ops ''m''))) (token_usages sample_metrics)"
    using merged_difference_adds_call [OF new_metrics_ok sample_recorded new_metrics_ok, of int_ops "''p''"] by blast
  have "length (token_usages sample_metrics) = 1" by code_simp
  then show ?thesis using d by (simp add: new_metrics_def)
qed

text \<open>
  Two things a difference does not carry over: the first-token latencies of the call, and a cost recorded
  at the same clock reading as the last one before it, although the total includes it.
\<close>

theorem difference_drops_entries:
  "let m = new_metrics int_ops ''m'';
       m1 = snd (add_cost int_ops 5 1 (new_metrics int_ops ''m''));
       m2 = add_first_token_latency int_ops 3 False ''r'' (snd (add_cost int_ops 5 2 m1))
   in map_sum id first_token_latencies (diff_metrics int_ops m2 m1) = Inr [] \<and>
      map_sum id costs (diff_metrics int_ops m2 m1) = Inr [] \<and>
      map_sum id accumulated_cost (diff_metrics int_ops m2 m1) = Inr 2"
  by code_simp

section \<open>The order of the fallbacks\<close>

definition attempt_ok :: "'c float_ops \<Rightarrow> ('c, 'r) call_fn \<Rightarrow> nat \<Rightarrow> 'c fallback_llm \<Rightarrow> ('r \<times> 'c metrics) option" where
  "attempt_ok fl call n fb =
     (case call n (fb\<lparr>fb_strategy := False\<rparr>) of
        (Inl e, m) \<Rightarrow> None
      | (Inr r, m) \<Rightarrow> (case diff_metrics fl m (fb_metrics fb) of Inl e \<Rightarrow> None | Inr d \<Rightarrow> Some (r, d)))"

lemma attempt_cases:
  "(attempt_ok fl call n fb = None \<and> (\<exists>fb1. attempt fl call n fb p = (None, fb1, p))) \<or>
   (\<exists>r d fb1. attempt_ok fl call n fb = Some (r, d) \<and> attempt fl call n fb p = (Some r, fb1, merge_metrics fl p d))"
  by (auto simp: attempt_def attempt_ok_def split: prod.splits sum.splits)

text \<open>The specification: the first model of a list whose attempt succeeds decides.\<close>

fun first_success ::
    "'c float_ops \<Rightarrow> ('c, 'r) call_fn \<Rightarrow> nat \<Rightarrow> 'c fallback_llm list \<Rightarrow> ('r \<times> 'c metrics) option" where
  "first_success fl call n [] = None"
| "first_success fl call n (fb # fbs) =
     (case attempt_ok fl call n fb of Some x \<Rightarrow> Some x | None \<Rightarrow> first_success fl call (Suc n) fbs)"

definition answer_of :: "'c float_ops \<Rightarrow> 'c metrics \<Rightarrow> ('r \<times> 'c metrics) option \<Rightarrow> 'r option \<times> 'c metrics" where
  "answer_of fl p x = (case x of None \<Rightarrow> (None, p) | Some (r, d) \<Rightarrow> (Some r, merge_metrics fl p d))"

lemma try_cached_first:
  "try_cached fl call n fbs p = (res, fbs1, p1) \<Longrightarrow>
     (res, p1) = answer_of fl p (first_success fl call n fbs) \<and> map fb_model fbs1 = map fb_model fbs"
proof (induction fl call n fbs p arbitrary: res fbs1 p1 rule: try_cached.induct)
  case (2 fl call n fb fbs p)
  have m: "fb_model (fst (snd (attempt fl call n fb p))) = fb_model fb"
    by (auto simp: attempt_def split: prod.splits sum.splits)
  from attempt_cases [of fl call n fb p] show ?case
  proof (elim disjE exE conjE)
    fix fb1 assume "attempt_ok fl call n fb = None" "attempt fl call n fb p = (None, fb1, p)"
    then show ?case using 2(1) [of None "(fb1, p)" fb1 p] 2(2) m by (auto split: prod.splits)
  next
    fix r d fb1 assume "attempt_ok fl call n fb = Some (r, d)" "attempt fl call n fb p = (Some r, fb1, merge_metrics fl p d)"
    then show ?case using 2(2) m by (auto simp: answer_of_def)
  qed
qed (simp add: answer_of_def)

fun loadable :: "(string \<Rightarrow> 'c load_outcome) \<Rightarrow> string list \<Rightarrow> 'c fallback_llm list" where
  "loadable load [] = []"
| "loadable load (name # names) = (case load name of Loaded fb \<Rightarrow> fb # loadable load names | _ \<Rightarrow> loadable load names)"

lemma try_names_first:
  "try_names fl load call n names p = (res, fbs1, p1) \<Longrightarrow> list_all (\<lambda>name. load name \<noteq> LoadRaises) names \<Longrightarrow>
     (\<exists>r. res = Inr r \<and> (r, p1) = answer_of fl p (first_success fl call n (loadable load names)))"
proof (induction fl load call n names p arbitrary: res fbs1 p1 rule: try_names.induct)
  case (2 fl load call n name names p)
  show ?case
  proof (cases "load name")
    case (Loaded fb)
    from attempt_cases [of fl call n fb p] show ?thesis
    proof (elim disjE exE conjE)
      fix fb1 assume "attempt_ok fl call n fb = None" "attempt fl call n fb p = (None, fb1, p)"
      then show ?thesis using 2(1) [OF Loaded, of None "(fb1, p)" fb1 p] 2(3,4) Loaded by (auto split: prod.splits)
    next
      fix r d fb1 assume "attempt_ok fl call n fb = Some (r, d)" "attempt fl call n fb p = (Some r, fb1, merge_metrics fl p d)"
      then show ?thesis using 2(3) Loaded by (auto simp: answer_of_def)
    qed
  qed (use 2 in auto)
qed (simp add: answer_of_def)

lemma first_success_append:
  "first_success fl call n (fbs @ gbs) =
     (case first_success fl call n fbs of Some x \<Rightarrow> Some x | None \<Rightarrow> first_success fl call (n + length fbs) gbs)"
  by (induction fl call n fbs rule: first_success.induct) (auto split: option.splits)

lemma attempt_model: "fb_model (fst (snd (attempt fl call n fb p))) = fb_model fb"
  by (auto simp: attempt_def split: prod.splits sum.splits)

lemma loadable_all: "\<forall>x \<in> set names. load x = Loaded (f x) \<Longrightarrow> loadable load names = map f names"
  by (induction names) auto

text \<open>Loading gives a prefix of the profiles when none is refused.\<close>

lemma try_names_prefix:
  "try_names fl load call n names p = (res, fbs1, p1) \<Longrightarrow> \<forall>x \<in> set names. load x = Loaded (f x) \<Longrightarrow>
     map fb_model fbs1 = map (\<lambda>x. fb_model (f x)) (take (length fbs1) names)"
proof (induction fl load call n names p arbitrary: res fbs1 p1 rule: try_names.induct)
  case (2 fl load call n name names p)
  have l: "load name = Loaded (f name)" using 2(4) by simp
  obtain x fb1 q where q: "attempt fl call n (f name) p = (x, fb1, q)" by (metis prod_cases3)
  have m: "fb_model fb1 = fb_model (f name)" using attempt_model [of fl call n "f name" p] q by simp
  show ?case
  proof (cases x)
    case None
    then show ?thesis using 2(1) [OF l q [symmetric] None refl] 2(3,4) l q m by (auto split: prod.splits)
  qed (use 2(3) l q m in auto)
qed simp

text \<open>
  The profiles in their order: the \<open>i\<close>-th is the model resolved for it by an earlier call or, when there is
  none, freshly loaded. The cache matches when it holds the models of the first profiles.
\<close>

definition cache_matches :: "(string \<Rightarrow> 'c fallback_llm) \<Rightarrow> string list \<Rightarrow> 'c fallback_llm list \<Rightarrow> bool" where
  "cache_matches profile names fbs \<longleftrightarrow> map fb_model fbs = map (\<lambda>x. fb_model (profile x)) (take (length fbs) names)"

definition nth_candidate :: "(string \<Rightarrow> 'c fallback_llm) \<Rightarrow> string list \<Rightarrow> 'c fallback_llm list \<Rightarrow> nat \<Rightarrow> 'c fallback_llm" where
  "nth_candidate profile names fbs i = (if i < length fbs then fbs ! i else profile (names ! i))"

lemma cache_matches_length: "cache_matches profile names fbs \<Longrightarrow> length fbs \<le> length names"
  unfolding cache_matches_def by (metis length_map length_take min.absorb_iff1 min.commute)

lemma candidates_eq:
  assumes "length fbs \<le> length names"
  shows "map (nth_candidate profile names fbs) [0..<length names] = fbs @ map profile (drop (length fbs) names)"
  by (rule nth_equalityI) (use assms in \<open>auto simp: nth_candidate_def nth_append\<close>)

lemma cache_matches_append:
  assumes "map fb_model fbs = map fb_model resolved" and "cache_matches profile names resolved"
    and "map fb_model new = map (\<lambda>x. fb_model (profile x)) (take (length new) (drop (length resolved) names))"
  shows "cache_matches profile names (fbs @ new)"
proof -
  have "length fbs = length resolved" using assms(1) by (rule map_eq_imp_length_eq)
  moreover have "take (length resolved + length new) names = take (length resolved) names @ take (length new) (drop (length resolved) names)"
    by (rule take_add)
  ultimately show ?thesis using assms by (simp add: cache_matches_def)
qed

text \<open>
  C19. When every profile can be loaded, falling back tries each profile at most once and in the order of the
  names, each with the model resolved earlier or freshly loaded; the first success gives the response and
  the only metrics that are merged, and when none succeeds the metrics of the primary model are
  unchanged. The cache goes on holding the models of the first profiles.
\<close>

theorem fallback_first_success:
  assumes "\<forall>name \<in> set names. load name = Loaded (profile name)" and "cache_matches profile names resolved"
  shows "let (res, fbs, p1) = try_fallback fl load call names resolved primary;
             (r, p2) = answer_of fl primary (first_success fl call 0 (map (nth_candidate profile names resolved) [0..<length names]))
         in res = Inr r \<and> p1 = p2 \<and> cache_matches profile names fbs"
proof -
  let ?rest = "drop (length resolved) names"
  have load: "\<forall>name \<in> set ?rest. load name = Loaded (profile name)" using assms(1) by (auto dest: in_set_dropD)
  then have names: "list_all (\<lambda>name. load name \<noteq> LoadRaises) ?rest" by (simp add: list_all_iff)
  obtain res fbs p where c: "try_cached fl call 0 resolved primary = (res, fbs, p)" by (metis prod_cases3)
  obtain res2 new p2 where t: "try_names fl load call (length resolved) ?rest p = (res2, new, p2)" by (metis prod_cases3)
  note C = try_cached_first [OF c] and T = try_names_first [OF t names]
  have "cache_matches profile names (fbs @ new)"
    using C try_names_prefix [OF t load] by (intro cache_matches_append [OF _ assms(2)]) simp_all
  moreover have "cache_matches profile names fbs"
    using C cache_matches_append [OF _ assms(2), of fbs "[]"] by simp
  ultimately show ?thesis
    unfolding candidates_eq [OF cache_matches_length [OF assms(2)]]
    using C T c t loadable_all [OF load]
    by (cases "first_success fl call 0 resolved") (auto simp: try_fallback_def first_success_append answer_of_def)
qed

text \<open>Of two profiles the first is missing; calls of the other fail, or succeed without recording anything.\<close>

definition sample_load :: "string \<Rightarrow> int load_outcome" where
  "sample_load name =
     (if name = ''b'' then Loaded \<lparr>fb_model = ''b'', fb_metrics = new_metrics int_ops ''b'', fb_strategy = True\<rparr> else LoadRefused)"

definition failing_call :: "(int, string) call_fn" where
  "failing_call n fb = (Inl TimeoutError, fb_metrics fb)"

definition good_call :: "(int, string) call_fn" where
  "good_call n fb = (Inr ''ok'', fb_metrics fb)"

definition sample_profile :: "string \<Rightarrow> int fallback_llm" where
  "sample_profile name = \<lparr>fb_model = name, fb_metrics = new_metrics int_ops name, fb_strategy = True\<rparr>"

theorem fallback_first_success_witness:
  "fst (try_fallback int_ops (Loaded \<circ> sample_profile) good_call [''a'', ''b''] [sample_profile ''a''] (new_metrics int_ops ''p'')) = Inr (Some ''ok'')"
proof -
  have "cache_matches sample_profile [''a'', ''b''] [sample_profile ''a'']" by (simp add: cache_matches_def)
  moreover have "fst (answer_of int_ops (new_metrics int_ops ''p'')
      (first_success int_ops good_call 0 (map (nth_candidate sample_profile [''a'', ''b''] [sample_profile ''a'']) [0..<length [''a'', ''b'']]))) = Some ''ok''"
    by code_simp
  ultimately show ?thesis
    using fallback_first_success [of "[''a'', ''b'']" "Loaded \<circ> sample_profile" sample_profile "[sample_profile ''a'']"
        int_ops good_call "new_metrics int_ops ''p''"]
    by (auto split: prod.splits)
qed

text \<open>
  The profiles still to be loaded are found by the number of models resolved so far, so after a profile
  that could not be loaded the next call loads a later profile again, and the same model is tried twice.
\<close>

theorem skipped_profile_shifts_names:
  "map fb_model (fst (snd (try_fallback int_ops sample_load failing_call [''a'', ''b'']
      (fst (snd (try_fallback int_ops sample_load failing_call [''a'', ''b''] [] (new_metrics int_ops ''p''))))
      (new_metrics int_ops ''p'')))) = [''b'', ''b'']"
  by code_simp

end
