(* ===== verification/Usage_Ledger.thy ===== *)
theory Usage_Ledger
  imports Llm_Metrics Text_Utils
begin

text \<open>
  The lifetime token ledger of the server (\<^verbatim>\<open>agent_server/spend_archive.py\<close>), which outlives deleted
  conversations, and the projection of a conversation's usage for its info view
  (\<^verbatim>\<open>agent_server/usage_projection.py\<close>). The updates run under a file lock and are one step each. Whether
  a read or a write of the file fails is an argument.
\<close>

section \<open>Counts per model\<close>

record token_counts =
  tc_prompt :: int
  tc_completion :: int
  tc_cache_read :: int
  tc_cache_write :: int
  tc_reasoning :: int

definition zero_counts :: token_counts where
  "zero_counts = \<lparr>tc_prompt = 0, tc_completion = 0, tc_cache_read = 0, tc_cache_write = 0, tc_reasoning = 0\<rparr>"

definition add_counts :: "token_counts \<Rightarrow> token_counts \<Rightarrow> token_counts" where
  "add_counts a b = \<lparr>tc_prompt = tc_prompt a + tc_prompt b, tc_completion = tc_completion a + tc_completion b,
     tc_cache_read = tc_cache_read a + tc_cache_read b, tc_cache_write = tc_cache_write a + tc_cache_write b,
     tc_reasoning = tc_reasoning a + tc_reasoning b\<rparr>"

definition counts_of :: "token_usage \<Rightarrow> token_counts" where
  "counts_of u = \<lparr>tc_prompt = prompt_tokens u, tc_completion = completion_tokens u, tc_cache_read = cache_read_tokens u,
     tc_cache_write = cache_write_tokens u, tc_reasoning = reasoning_tokens u\<rparr>"

type_synonym model_totals = "(string \<times> token_counts) list"

definition bucket :: "model_totals \<Rightarrow> string \<Rightarrow> token_counts" where
  "bucket d m = (case map_of d m of None \<Rightarrow> zero_counts | Some c \<Rightarrow> c)"

definition add_to_bucket :: "string \<Rightarrow> token_counts \<Rightarrow> model_totals \<Rightarrow> model_totals" where
  "add_to_bucket m c d = AList.update m (add_counts (bucket d m) c) d"

definition usage_model :: "token_usage \<Rightarrow> string" where
  "usage_model u = (if tu_model u = [] then ''unknown'' else tu_model u)"

text \<open>The recorded usages of all services of a conversation, in their order.\<close>

definition usage_by_model :: "token_usage list list \<Rightarrow> model_totals" where
  "usage_by_model services = fold (\<lambda>u. add_to_bucket (usage_model u) (counts_of u)) (concat services) []"

section \<open>The ledger\<close>

record spend_ledger =
  sessions :: int
  by_model :: model_totals
  folded_ids :: "string list"
  unarchived :: "(string \<times> string \<times> string) list"
  updated_at :: "string option"

definition empty_ledger :: spend_ledger where
  "empty_ledger = \<lparr>sessions = 0, by_model = [], folded_ids = [], unarchived = [], updated_at = None\<rparr>"

text \<open>The file: absent, holding a ledger, or holding something else.\<close>

datatype ledger_file = NoLedger | Stored spend_ledger | Garbled

definition read_archive :: "bool \<Rightarrow> ledger_file \<Rightarrow> spend_ledger" where
  "read_archive read_ok f = (case f of Stored l \<Rightarrow> (if read_ok then l else empty_ledger) | _ \<Rightarrow> empty_ledger)"

text \<open>The atomic write: the file is replaced or, when it raises, left alone.\<close>

definition write_archive :: "bool \<Rightarrow> spend_ledger \<Rightarrow> ledger_file \<Rightarrow> spend_ledger result \<times> ledger_file" where
  "write_archive write_ok l f = (if write_ok then (Inr l, Stored l) else (Inl OSError, f))"

definition fold_conversation ::
    "bool \<Rightarrow> bool \<Rightarrow> token_usage list list \<Rightarrow> string \<Rightarrow> string \<Rightarrow> ledger_file \<Rightarrow> spend_ledger result \<times> ledger_file" where
  "fold_conversation read_ok write_ok stats now cid f =
     (let archive = read_archive read_ok f
      in if cid \<in> set (folded_ids archive) then (Inr archive, f)
         else write_archive write_ok
           (archive\<lparr>by_model := fold (\<lambda>(m, c). add_to_bucket m c) (usage_by_model stats) (by_model archive),
              sessions := sessions archive + 1, folded_ids := folded_ids archive @ [cid], updated_at := Some now\<rparr>) f)"

definition record_unarchived ::
    "bool \<Rightarrow> bool \<Rightarrow> string \<Rightarrow> string \<Rightarrow> string \<Rightarrow> ledger_file \<Rightarrow> spend_ledger result \<times> ledger_file" where
  "record_unarchived read_ok write_ok cid reason now f =
     (let archive = read_archive read_ok f
      in write_archive write_ok (archive\<lparr>unarchived := unarchived archive @ [(cid, reason, now)], updated_at := Some now\<rparr>) f)"

definition purge :: "ledger_file \<Rightarrow> bool \<times> ledger_file" where
  "purge f = (f \<noteq> NoLedger, NoLedger)"

section \<open>The usage view\<close>

record normalized_usage =
  nu_input :: int
  nu_cache_read :: int
  nu_output :: int
  nu_reasoning :: int

definition normalize_usage :: "token_usage \<Rightarrow> normalized_usage" where
  "normalize_usage u =
     (let cached = cache_read_tokens u;
          input_tokens = (if cached \<le> prompt_tokens u then prompt_tokens u - cached else prompt_tokens u)
      in \<lparr>nu_input = max 0 input_tokens, nu_cache_read = cached, nu_output = completion_tokens u, nu_reasoning = reasoning_tokens u\<rparr>)"

datatype call_id_source = ProviderResponseId | Ordinal

text \<open>
  Printable characters are those of ASCII from the space to the tilde and those from 161 on without the
  soft hyphen.
\<close>

definition is_printable :: "char \<Rightarrow> bool" where
  "is_printable c \<longleftrightarrow> (let n = of_char c :: nat in (32 \<le> n \<and> n \<le> 126) \<or> (161 \<le> n \<and> n \<noteq> 173))"

definition MAX_IDENTIFIER_LENGTH :: nat where
  "MAX_IDENTIFIER_LENGTH = 128"

definition safe_identifier :: "string \<Rightarrow> string \<Rightarrow> string" where
  "safe_identifier v fallback =
     (let cleaned = strip (filter is_printable v) in if cleaned = [] then fallback else take MAX_IDENTIFIER_LENGTH cleaned)"

definition call_identifier :: "string \<Rightarrow> nat \<Rightarrow> token_usage \<Rightarrow> string \<times> call_id_source" where
  "call_identifier usage_id index u =
     (let rid = strip (tu_response_id u); ordinal = usage_id @ '':'' @ dec index
      in if rid \<noteq> [] then (safe_identifier rid ordinal, ProviderResponseId)
         else (safe_identifier ordinal ordinal, Ordinal))"

text \<open>First-token times by response and kind; a later entry replaces an earlier one.\<close>

definition first_token_seconds :: "'c metrics \<Rightarrow> ((string \<times> bool) \<times> 'c) list" where
  "first_token_seconds m =
     fold (\<lambda>e d. if la_response_id e \<noteq> [] then AList.update (la_response_id e, la_reasoning e) (la_latency e) d else d)
       (first_token_latencies m) []"

record 'c usage_call =
  uc_call_id :: string
  uc_source :: call_id_source
  uc_model :: "string option"
  uc_usage :: token_usage
  uc_first_token :: "'c option"
  uc_first_reasoning :: "'c option"

definition project_call :: "string \<Rightarrow> ((string \<times> bool) \<times> 'c) list \<Rightarrow> nat \<Rightarrow> token_usage \<Rightarrow> 'c usage_call" where
  "project_call usage_id seen index u =
     (let rid = strip (tu_response_id u)
      in \<lparr>uc_call_id = fst (call_identifier usage_id index u), uc_source = snd (call_identifier usage_id index u),
          uc_model = (if tu_model u = [] then None else Some (tu_model u)), uc_usage = u,
          uc_first_token = map_of seen (rid, False), uc_first_reasoning = map_of seen (rid, True)\<rparr>)"

definition project_calls :: "string \<Rightarrow> 'c metrics \<Rightarrow> 'c usage_call list" where
  "project_calls usage_id m =
     map (\<lambda>(index, u). project_call usage_id (first_token_seconds m) index u) (enumerate 0 (token_usages m))"

section \<open>The ledger adds up\<close>

lemma add_counts_laws:
  "add_counts zero_counts c = c" "add_counts c zero_counts = c"
  "add_counts (add_counts a b) c = add_counts a (add_counts b c)"
  by (simp_all add: add_counts_def zero_counts_def)

text \<open>What the given calls spent on a model.\<close>

definition spent :: "string \<Rightarrow> token_usage list \<Rightarrow> token_counts" where
  "spent m us = foldr (\<lambda>u. add_counts (counts_of u)) (filter (\<lambda>u. usage_model u = m) us) zero_counts"

lemma spent_simps [simp]:
  "spent m [] = zero_counts"
  "spent m (u # us) = (if usage_model u = m then add_counts (counts_of u) (spent m us) else spent m us)"
  by (simp_all add: spent_def)

lemma spent_append: "spent m (us @ vs) = add_counts (spent m us) (spent m vs)"
  by (induction us) (simp_all add: add_counts_laws)

lemma bucket_add: "bucket (add_to_bucket m c d) k = (if k = m then add_counts (bucket d m) c else bucket d k)"
  by (simp add: bucket_def add_to_bucket_def update_conv')

lemma bucket_usages:
  "bucket (fold (\<lambda>u. add_to_bucket (usage_model u) (counts_of u)) us d) m = add_counts (bucket d m) (spent m us)"
  by (induction us arbitrary: d) (simp_all add: bucket_add add_counts_laws)

lemma distinct_usages:
  "distinct (map fst d) \<Longrightarrow> distinct (map fst (fold (\<lambda>u. add_to_bucket (usage_model u) (counts_of u)) us d))"
  by (induction us arbitrary: d) (simp_all add: add_to_bucket_def distinct_update)

lemma bucket_merge:
  "distinct (map fst ts) \<Longrightarrow> bucket (fold (\<lambda>(m, c). add_to_bucket m c) ts d) m = add_counts (bucket d m) (bucket ts m)"
proof (induction ts arbitrary: d)
  case (Cons t ts)
  obtain k c where t: "t = (k, c)" by fastforce
  have "k = m \<Longrightarrow> bucket ts m = zero_counts" using Cons(2) t by (force simp: bucket_def dest: map_of_SomeD split: option.splits)
  moreover have "bucket (t # ts) m = (if k = m then c else bucket ts m)" by (simp add: bucket_def t)
  ultimately show ?case using Cons t by (simp add: bucket_add add_counts_laws)
qed (simp add: bucket_def add_counts_laws)

lemma bucket_usage_by_model: "bucket (usage_by_model stats) m = spent m (concat stats)"
  using bucket_usages [of "concat stats" "[]" m] by (simp add: usage_by_model_def bucket_def add_counts_laws)

lemma distinct_usage_by_model: "distinct (map fst (usage_by_model stats))"
  using distinct_usages [of "[]" "concat stats"] by (simp add: usage_by_model_def)

text \<open>
  What deletions do to the ledger: fold the usage of a conversation in, or record that this was not
  possible. Each write may fail; \<open>ledger_step\<close> is one such operation on a ledger file that can be read.
\<close>

datatype ledger_op =
    FoldOp bool string "token_usage list list" string
  | GapOp bool string string string

fun ledger_step :: "ledger_op \<Rightarrow> ledger_file \<Rightarrow> ledger_file" where
  "ledger_step (FoldOp write_ok cid stats now) f = snd (fold_conversation True write_ok stats now cid f)"
| "ledger_step (GapOp write_ok cid reason now) f = snd (record_unarchived True write_ok cid reason now f)"

text \<open>The specification: the conversations whose usage has been counted, each with what it spent.\<close>

fun count_conversation :: "ledger_op \<Rightarrow> (string \<times> token_usage list) list \<Rightarrow> (string \<times> token_usage list) list" where
  "count_conversation (FoldOp write_ok cid stats now) cs =
     (if write_ok \<and> cid \<notin> fst ` set cs then cs @ [(cid, concat stats)] else cs)"
| "count_conversation (GapOp write_ok cid reason now) cs = cs"

definition ledger_counts :: "spend_ledger \<Rightarrow> (string \<times> token_usage list) list \<Rightarrow> bool" where
  "ledger_counts l cs \<longleftrightarrow> distinct (map fst cs) \<and> folded_ids l = map fst cs \<and> sessions l = int (length cs) \<and>
     (\<forall>m. bucket (by_model l) m = spent m (concat (map snd cs)))"

lemma fold_counts:
  assumes "ledger_counts l cs" and "cid \<notin> fst ` set cs"
  shows "ledger_counts (l\<lparr>by_model := fold (\<lambda>(m, c). add_to_bucket m c) (usage_by_model stats) (by_model l),
      sessions := sessions l + 1, folded_ids := folded_ids l @ [cid], updated_at := u\<rparr>) (cs @ [(cid, concat stats)])"
  using assms bucket_merge [OF distinct_usage_by_model, of stats "by_model l"]
  by (simp add: ledger_counts_def bucket_usage_by_model spent_append)

lemma ledger_counts_gap [simp]: "ledger_counts (l\<lparr>unarchived := g, updated_at := u\<rparr>) cs = ledger_counts l cs"
  by (simp add: ledger_counts_def)

lemma ledger_step_counts:
  assumes "ledger_counts (read_archive True f) cs"
  shows "ledger_counts (read_archive True (ledger_step e f)) (count_conversation e cs)"
proof (cases e)
  case (FoldOp write_ok cid stats now)
  have "cid \<in> set (folded_ids (read_archive True f)) \<longleftrightarrow> cid \<in> fst ` set cs" using assms by (simp add: ledger_counts_def)
  then show ?thesis using FoldOp assms fold_counts [OF assms, where cid = cid and stats = stats and u = "Some now"]
    by (auto simp: fold_conversation_def write_archive_def read_archive_def Let_def)
next
  case (GapOp write_ok cid reason now)
  then show ?thesis using assms by (simp add: record_unarchived_def write_archive_def Let_def read_archive_def)
qed

lemma ledger_run_counts:
  "ledger_counts (read_archive True f) cs \<Longrightarrow> ledger_counts (read_archive True (fold ledger_step ops f)) (fold count_conversation ops cs)"
  by (induction ops arbitrary: f cs) (simp_all add: ledger_step_counts)

text \<open>
  C20. The ledger adds up as long as its file can be read: after any sequence of folds and recorded gaps, some of
  whose writes fail, its counts for a model are exactly what the conversations spent on it whose fold was
  written, the sessions are their number, and a conversation that is folded again is counted once.
\<close>

theorem ledger_total:
  "let l = read_archive True (fold ledger_step ops NoLedger); cs = fold count_conversation ops []
   in bucket (by_model l) m = spent m (concat (map snd cs)) \<and> sessions l = int (length cs) \<and>
      folded_ids l = map fst cs \<and> distinct (map fst cs)"
  using ledger_run_counts [of NoLedger "[]" ops]
  by (simp add: ledger_counts_def read_archive_def empty_ledger_def bucket_def Let_def)

text \<open>
  C40. A ledger that cannot be read at the moment of a fold is taken as empty and then overwritten: of any ledger
  stored before nothing is left, neither counts nor the ids and gaps, only what this conversation spent.
\<close>

theorem unreadable_ledger_overwritten:
  "\<exists>l1. fold_conversation False True stats now cid (Stored l) = (Inr l1, Stored l1) \<and>
     (\<forall>m. bucket (by_model l1) m = spent m (concat stats)) \<and>
     sessions l1 = 1 \<and> folded_ids l1 = [cid] \<and> unarchived l1 = []"
  using bucket_merge [OF distinct_usage_by_model, of stats "[]"]
  by (simp add: fold_conversation_def write_archive_def read_archive_def empty_ledger_def Let_def
      bucket_usage_by_model bucket_def [of "[]"] add_counts_laws)

text \<open>
  The usage view and the cache hit rate agree on the input of a call: the rate is the cached share of the
  new and the cached input tokens the view reports.
\<close>

theorem view_agrees_with_hit_rate:
  assumes "accumulated_token_usage m = Some u" and "valid_usage u"
  shows "cache_hit_rate m =
    (let n = normalize_usage u; all_input = nu_input n + nu_cache_read n
     in if all_input = 0 then None else Some (of_int (nu_cache_read n) / of_int all_input))"
  using assms by (auto simp: cache_hit_rate_def normalize_usage_def valid_usage_def Let_def)

theorem view_agrees_with_hit_rate_witness: "cache_hit_rate sample_metrics = Some (1 / 2)"
proof -
  let ?u = "the (accumulated_token_usage sample_metrics)"
  have "accumulated_token_usage sample_metrics = Some ?u" "valid_usage ?u" by code_simp+
  note rate = view_agrees_with_hit_rate [OF this]
  have "normalize_usage ?u = \<lparr>nu_input = 4, nu_cache_read = 4, nu_output = 2, nu_reasoning = 0\<rparr>" by code_simp
  then show ?thesis using rate by simp
qed

text \<open>Identifiers are bounded, except for the fallback, which is neither cut nor cleaned.\<close>

lemma safe_identifier_bounded:
  "safe_identifier v fallback = fallback \<or>
   length (safe_identifier v fallback) \<le> MAX_IDENTIFIER_LENGTH \<and> list_all is_printable (safe_identifier v fallback)"
proof -
  have "set (strip t) \<subseteq> set t" for t unfolding strip_def by (metis set_dropWhileD set_rev subsetI)
  from this [of "filter is_printable v"] have "list_all is_printable (strip (filter is_printable v))"
    unfolding list_all_iff by auto
  then have "list_all is_printable (take MAX_IDENTIFIER_LENGTH (strip (filter is_printable v)))"
    unfolding list_all_iff using in_set_takeD by fast
  then show ?thesis by (simp add: safe_identifier_def Let_def)
qed

end
