(* ===== verification/Spec2Isabelle.thy ===== *)
theory Spec2Isabelle
  imports View_Cuts Condenser_Laws Memory_Store Resource_Locks Conversation_Laws
    Session_Moves Conversation_Lease Goal_Loop Run_Scope Permissions
    Apply_Patch_Laws View_Pages_Laws File_Editor Secret_Registry Pane_Pool Provider_Slots
    Usage_Ledger
begin

text \<open>
  Verification of the agent runtime.

  The program (Python, under \<^verbatim>\<open>src/packages\<close>) runs a language model as an agent: the model is shown a
  conversation, answers with text or tool calls, the tool calls are executed, and their results are
  appended to the conversation, until the model is done or a limit is reached. The packages are
  \<^verbatim>\<open>agentrt-sdk\<close> (events, context, conversation, agent, hooks, security), \<^verbatim>\<open>agentrt-tools\<close> (the tools the
  agent calls), \<^verbatim>\<open>agentrt-server\<close> (conversations behind HTTP) and \<^verbatim>\<open>agentrt-runtime\<close> (daemon, client and
  permission presets). Paths below are relative to \<^verbatim>\<open>agentrt/sdk\<close> of the first package unless a package
  is named.

  \<^bold>\<open>How the parts interact.\<close> A local conversation owns a session: the event log, the head of the event
  tree, a status, blocked actions and messages, and the cached view. \<^verbatim>\<open>send_message\<close> and \<^verbatim>\<open>run\<close> emit events
  through the hook processor into the log; every iteration of the run loop checks status, limits and the
  stuck detector, and then takes one step of the agent. The step executes pending actions, or turns the
  view into messages (after a condenser had its chance to replace a stretch of the view by a summary),
  calls the model, and dispatches the answer: tool calls become action events, pass the hooks and the
  confirmation policy, run in a batch under the resource locks, and leave one observation each. The log
  lives in a file store. On the server a lease file says which process may write to a conversation.

  \<^bold>\<open>The theories.\<close>

  \<^item> \<open>Prelude\<close>, \<open>Text_Utils\<close>, \<open>Samples\<close>: exceptions as values (\<open>exn + 'a\<close> with \<open>and_then\<close>), Python lists
    and strings, numerals, truncation (\<^verbatim>\<open>utils/truncate.py\<close>), and the concrete events the witnesses use.
  \<^item> \<open>Events\<close>, \<open>Messages\<close>, \<open>Event_Strings\<close>: \<^verbatim>\<open>event/\<close> and \<^verbatim>\<open>llm/message.py\<close>. Event classes are records in one
    datatype \<open>event\<close>; \<open>events_to_messages\<close> groups the actions of one response. The locale
    \<open>message_projection\<close> is interpreted for contents, calls and results: nothing a view holds is lost or
    reordered in the messages.
  \<^item> \<open>View\<close>, \<open>View_Soundness\<close>, \<open>View_Cuts\<close>: \<^verbatim>\<open>context/view/\<close>. The four view properties, each with
    \<open>enforce\<close> and \<open>manipulation_indices\<close> under the locale \<open>view_property_contract\<close>; a view made from any
    event list satisfies all four, and which cuts between manipulation indices keep them.
  \<^item> \<open>Condenser\<close>, \<open>Condenser_Laws\<close>: \<^verbatim>\<open>context/condenser/\<close>. The rolling condenser with its reasons, the
    binary search over token counts, the forgotten range and the reset; what a condensation forgets,
    keeps and achieves.
  \<^item> \<open>Event_Log\<close>, \<open>Event_Log_Laws\<close>, \<open>File_Store\<close>, \<open>File_Store_Laws\<close>, \<open>Local_Event_Log\<close>,
    \<open>Memory_Store\<close>: \<^verbatim>\<open>conversation/event_store.py\<close> and \<^verbatim>\<open>io/\<close>. The locale \<open>event_directory\<close> is what the log
    needs of a store, \<open>local_directory\<close> extends to it by a sublocale, and the local store with its
    bounded cache interprets it. An append refines appending to a list, also for several processes, each
    with its own cache and its own stale log over one disk; what an interrupted write leaves behind. The
    store compares paths as they are spelled, and its disk has no symbolic links: containment of the store
    is lexical, as in the program, which does not look for links either.
  \<^item> \<open>Fifo_Lock\<close>, \<open>Resource_Locks\<close>: \<^verbatim>\<open>conversation/fifo_lock.py\<close> and \<^verbatim>\<open>resource_lock_manager.py\<close> as step
    relations of threads: order of service, no lost wake-up, mutual exclusion, no deadlock.
  \<^item> \<open>Conversation_State\<close>, \<open>Conversation_Laws\<close>, \<open>Pending_Actions\<close>: \<^verbatim>\<open>conversation/state.py\<close>. The tree of
    events, its head and the cached view, which always is a view of the active branch; the actions that
    still wait for a result.
  \<^item> \<open>Stuck_Detector\<close>: \<^verbatim>\<open>conversation/stuck_detector.py\<close>, each heuristic and the nudge.
  \<^item> \<open>Hooks\<close>, \<open>Security\<close>: \<^verbatim>\<open>hooks/\<close> and \<^verbatim>\<open>security/\<close> (risk, policies, fusion of analyzers).
  \<^item> \<open>Session\<close>, \<open>Session_Laws\<close>, \<open>Session_Invariant\<close>: the state of a conversation and the emission of
    events (\<^verbatim>\<open>conversation/impl/local_conversation.py\<close>, \<^verbatim>\<open>hooks/conversation_hooks.py\<close>).
  \<^item> \<open>Agent_Step\<close>, \<open>Agent_Laws\<close>, \<open>Step_Laws\<close>: \<^verbatim>\<open>agent/\<close>. One whole step.
  \<^item> \<open>Run_Loop\<close>, \<open>Run_Laws\<close>, \<open>Session_Moves\<close>: the run loop, and the interleavings of messages, run
    iterations and their errors, rejections, interrupts, pauses, external stops and forced condensations
    as an inductive relation: the loop returns, a denied tool is never called, identities stay unique.
    Navigation, rerunning logged actions, direct tool calls and loading are not steps of this relation;
    the first can bring a denied action back, and the next two do not ask the hooks. The bound on the
    steps of a run is for a run without other operations between its iterations.
  \<^item> \<open>Goal_Loop\<close>: \<^verbatim>\<open>conversation/goal/\<close>, the outer loop with its judge.
  \<^item> \<open>Conversation_Lease\<close>, \<open>Run_Scope\<close>: \<^verbatim>\<open>agentrt-server\<close>, \<^verbatim>\<open>conversation_lease.py\<close> and \<^verbatim>\<open>run_scope.py\<close>.
  \<^item> \<open>Permissions\<close>: \<^verbatim>\<open>agentrt-runtime\<close>, \<^verbatim>\<open>permissions.py\<close> and \<^verbatim>\<open>guarded_tools.py\<close>, over an arbitrary POSIX file
    system with symbolic and hard links: the guarded editor stays inside the workspace or the reports; its
    test for secrets of the runtime is shown to be applied, not to be complete.
  \<^item> \<open>Apply_Patch\<close>, \<open>Text_Files\<close>, \<open>Apply_Patch_Laws\<close>, \<open>View_Pages\<close>, \<open>View_Pages_Laws\<close>, \<open>Edit_History\<close>,
    \<open>File_Editor\<close>: \<^verbatim>\<open>agentrt-tools\<close>, \<^verbatim>\<open>apply_patch/\<close> and \<^verbatim>\<open>file_editor/\<close>. What a patch and the commands of the
    editor do to the text of a file, that a patch changes only files of the workspace that it names and
    has made its changes when it reports success, that following the cursors of a view shows the whole file, and that
    the history refines one bounded stack per file (locale \<open>undo_history\<close>).
  \<^item> \<open>Secret_Registry\<close>: \<^verbatim>\<open>conversation/secret_registry.py\<close>. Masking hides every known value that contains
    neither bracket of the mask and is no part of its word, in texts and, through the locale
    \<open>text_masker\<close>, in nested observations apart from dictionary keys and enumeration members.
  \<^item> \<open>Pane_Pool\<close>, \<open>Provider_Slots\<close>: the pane pool of the terminal tool
    (\<^verbatim>\<open>agentrt-tools\<close>, \<^verbatim>\<open>terminal/terminal/tmux_pane_pool.py\<close>) and the cap on model requests
    (\<^verbatim>\<open>agentrt-server\<close>, \<^verbatim>\<open>llm_slots.py\<close>) as step relations of their threads and tasks: exclusive panes,
    accounting of permits and of lost ones, calls within the limits of the semaphores of a loop.
  \<^item> \<open>Llm_Metrics\<close>, \<open>Usage_Ledger\<close>: \<^verbatim>\<open>llm/utils/metrics.py\<close>, \<^verbatim>\<open>llm/fallback_strategy.py\<close>,
    \<^verbatim>\<open>conversation/conversation_stats.py\<close>, and \<^verbatim>\<open>spend_archive.py\<close> and \<^verbatim>\<open>usage_projection.py\<close> of the server:
    totals, differences of token counts, the order of fallbacks when all profiles load, and a ledger that
    adds up as long as its file can be read.

  \<^bold>\<open>Parameters.\<close> Code outside the repository, and what is decided outside the modelled code, is an
  argument: the language model (an answer or an exception per call), the tools (a result per call), hook
  processes and hook models, the security analyzers, the critic, \<open>json.loads\<close> and the JSON codec of
  events, \<open>re.fullmatch\<close>, the operating system's paths, stats and process table, clocks and deadlines.
  Where a theorem needs something of them it is a hypothesis (for example that the codec reads back what
  it wrote), and its witness instantiates them by concrete functions. Hosts are POSIX; branches for
  Windows are left out. Python's integers are unbounded and are \<open>nat\<close> or \<open>int\<close> here; the scores of the
  goal judge are rationals with the two infinities and NaN; bytes and characters of a text file are
  identified.

  \<^bold>\<open>Loops.\<close> Loops over lists are structural recursions or functions with a measure. Loops whose end is not
  obvious are \<open>partial_function (option)\<close>, where \<open>None\<close> is not returning: the run loop, the goal loop,
  the walk to the root of the tree and following the cursors of a view. That they return is proved, for
  every behaviour of model, tools and hooks. No loop is cut off by fuel.

  \<^bold>\<open>Not modelled.\<close> The asynchronous twins of the synchronous code (same logic over awaited calls), the
  branch of the cancellation handler for a superseded prompt of an ACP agent, the transport to model
  providers, the HTTP and socket routers, remote conversations and workspaces, the ACP
  agent, MCP, settings and profiles, plugins and skills, the terminal and browser tools, the clients and
  the daemon's process handling. They are input and output, serialization and wiring around libraries
  that are not part of the repository, or they drive the modelled conversation through its public
  operations. Within the modelled parts, rendering for display, logging, tracing and pydantic validation
  are left out.
\<close>

end
